(* ===== verification/Prelude.thy ===== *)
theory Prelude
  imports Main "HOL-Library.Multiset"
begin

text \<open>
  Shared vocabulary of the development: Python exceptions as values, the result type in which
  every fallible routine of \<^verbatim>\<open>tools/*.py\<close> answers, the loops over lists with an early exit, and the
  generic list lemmas the component theories use.

  An exception carries its Python class and the constant part of its message: the interpolated
  values (paths, line numbers, counts) only serve the operator's log and are not modelled.
\<close>

section \<open>Exceptions and results\<close>

datatype exn =
    ValueError string
  | KeyError string
  | TypeError string
  | IndexError string
  | OSError string
  | FileNotFoundError string
  | StructError string
  | RuntimeError string
  | AssertionError string
  | AttributeError string
  | ZeroDivisionError
  | OverflowError string
  | JSONDecodeError string
  | UnicodeError string
  | BrokenPipeError
  | SystemExit string

type_synonym 'a res = "exn + 'a"

text \<open>Simplification rules that evaluate results; proofs about fallible code start from them.\<close>

named_theorems res_simps

definition rbind :: "'a res \<Rightarrow> ('a \<Rightarrow> 'b res) \<Rightarrow> 'b res" where
  "rbind m f = (case m of Inl e \<Rightarrow> Inl e | Inr x \<Rightarrow> f x)"

definition rmap :: "('a \<Rightarrow> 'b) \<Rightarrow> 'a res \<Rightarrow> 'b res" where
  "rmap f m = (case m of Inl e \<Rightarrow> Inl e | Inr x \<Rightarrow> Inr (f x))"

definition of_option :: "exn \<Rightarrow> 'a option \<Rightarrow> 'a res" where
  "of_option e m = (case m of None \<Rightarrow> Inl e | Some x \<Rightarrow> Inr x)"

definition is_ok :: "'a res \<Rightarrow> bool" where
  "is_ok m = (case m of Inl e \<Rightarrow> False | Inr x \<Rightarrow> True)"

lemma rbind_Inl [simp, res_simps]: "rbind (Inl e) f = Inl e"
  by (simp add: rbind_def)

lemma rbind_Inr [simp, res_simps]: "rbind (Inr x) f = f x"
  by (simp add: rbind_def)

lemma rbind_eq_Inr: "rbind m f = Inr y \<longleftrightarrow> (\<exists>x. m = Inr x \<and> f x = Inr y)"
  by (cases m) auto

lemma rbind_eq_Inl: "rbind m f = Inl e \<longleftrightarrow> m = Inl e \<or> (\<exists>x. m = Inr x \<and> f x = Inl e)"
  by (cases m) auto

lemma rbind_InrE:
  assumes "rbind m f = Inr y"
  obtains x where "m = Inr x" and "f x = Inr y"
  using assms by (cases m) auto

lemma rmap_Inl [simp, res_simps]: "rmap f (Inl e) = Inl e"
  by (simp add: rmap_def)

lemma rmap_Inr [simp, res_simps]: "rmap f (Inr x) = Inr (f x)"
  by (simp add: rmap_def)

lemma rmap_eq_Inr: "rmap f m = Inr y \<longleftrightarrow> (\<exists>x. m = Inr x \<and> y = f x)"
  by (cases m) auto

lemma of_option_None [simp, res_simps]: "of_option e None = Inl e"
  by (simp add: of_option_def)

lemma of_option_Some [simp, res_simps]: "of_option e (Some x) = Inr x"
  by (simp add: of_option_def)

lemma of_option_eq_Inr: "of_option e m = Inr x \<longleftrightarrow> m = Some x"
  by (cases m) auto

lemma is_ok_Inl [simp, res_simps]: "is_ok (Inl e) = False"
  by (simp add: is_ok_def)

lemma is_ok_Inr [simp, res_simps]: "is_ok (Inr x) = True"
  by (simp add: is_ok_def)

lemma is_ok_iff: "is_ok m \<longleftrightarrow> (\<exists>x. m = Inr x)"
  by (cases m) auto

section \<open>Loops with an early exit\<close>

fun mapR :: "('a \<Rightarrow> 'b res) \<Rightarrow> 'a list \<Rightarrow> 'b list res" where
  "mapR f [] = Inr []"
| "mapR f (x # xs) = rbind (f x) (\<lambda>y. rbind (mapR f xs) (\<lambda>ys. Inr (y # ys)))"

fun foldR :: "('s \<Rightarrow> 'a \<Rightarrow> 's res) \<Rightarrow> 's \<Rightarrow> 'a list \<Rightarrow> 's res" where
  "foldR f s [] = Inr s"
| "foldR f s (x # xs) = rbind (f s x) (\<lambda>s'. foldR f s' xs)"

lemma mapR_length: "mapR f xs = Inr ys \<Longrightarrow> length ys = length xs"
  by (induction xs arbitrary: ys) (auto simp: rbind_eq_Inr)

lemma mapR_nth: "mapR f xs = Inr ys \<Longrightarrow> i < length xs \<Longrightarrow> f (xs ! i) = Inr (ys ! i)"
proof (induction xs arbitrary: ys i)
  case Nil
  then show ?case by simp
next
  case (Cons x xs)
  then show ?case by (cases i) (auto simp: rbind_eq_Inr)
qed

lemma mapR_mem: "mapR f xs = Inr ys \<Longrightarrow> x \<in> set xs \<Longrightarrow> \<exists>y \<in> set ys. f x = Inr y"
  by (induction xs arbitrary: ys) (auto simp: rbind_eq_Inr)

lemma mapR_source: "mapR f xs = Inr ys \<Longrightarrow> y \<in> set ys \<Longrightarrow> \<exists>x \<in> set xs. f x = Inr y"
  by (induction xs arbitrary: ys) (auto simp: rbind_eq_Inr)

lemma mapR_map_eq:
  assumes "mapR f xs = Inr ys" "\<And>x y. f x = Inr y \<Longrightarrow> g y = h x"
  shows "map g ys = map h xs"
  using assms(1) by (induction xs arbitrary: ys) (auto simp: rbind_eq_Inr dest: assms(2))

lemma mapR_all_Inr: "(\<And>x. x \<in> set xs \<Longrightarrow> f x = Inr (g x)) \<Longrightarrow> mapR f xs = Inr (map g xs)"
  by (induction xs) auto

lemma mapR_total: "(\<And>x. x \<in> set xs \<Longrightarrow> \<exists>y. f x = Inr y) \<Longrightarrow> \<exists>ys. mapR f xs = Inr ys"
proof -
  assume "\<And>x. x \<in> set xs \<Longrightarrow> \<exists>y. f x = Inr y"
  then obtain g where "\<And>x. x \<in> set xs \<Longrightarrow> f x = Inr (g x)" by metis
  then show ?thesis using mapR_all_Inr by blast
qed

lemma mapR_map:
  assumes "mapR f xs = Inr ys" "\<And>x y. f x = Inr y \<Longrightarrow> y = g x \<and> P x"
  shows "ys = map g xs \<and> (\<forall>x \<in> set xs. P x)"
  using assms(1) by (induction xs arbitrary: ys) (auto simp: rbind_eq_Inr dest: assms(2))

lemma foldR_append: "foldR f s (xs @ ys) = rbind (foldR f s xs) (\<lambda>s'. foldR f s' ys)"
proof (induction xs arbitrary: s)
  case Nil
  show ?case by simp
next
  case (Cons x xs)
  then show ?case by (cases "f s x") auto
qed

text \<open>A fold keeps every invariant its body keeps.\<close>

lemma foldR_invariant:
  assumes "foldR f s xs = Inr t" and "P s"
    and "\<And>s x s'. x \<in> set xs \<Longrightarrow> P s \<Longrightarrow> f s x = Inr s' \<Longrightarrow> P s'"
  shows "P t"
  using assms
proof (induction xs arbitrary: s)
  case Nil
  then show ?case by simp
next
  case (Cons x xs)
  from Cons.prems(1) obtain s' where s': "f s x = Inr s'" and rest: "foldR f s' xs = Inr t"
    by (auto simp: rbind_eq_Inr)
  have "P s'" using Cons.prems(2,3) s' by auto
  with rest Cons.prems(3) show ?case by (intro Cons.IH) auto
qed

section \<open>Lists\<close>

lemma drop_take_append: "drop n (xs @ ys) = drop n xs @ drop (n - length xs) ys"
  by simp

lemma take_drop_prefix: "n + m \<le> length xs \<Longrightarrow> take m (drop n (xs @ ys)) = take m (drop n xs)"
  by simp

lemma take_drop_middle: "length xs = n \<Longrightarrow> length ys = m \<Longrightarrow> take m (drop n (xs @ ys @ zs)) = ys"
  by simp

lemma sorted_list_of_set_inject:
  "finite A \<Longrightarrow> finite B \<Longrightarrow> sorted_list_of_set A = sorted_list_of_set B \<longleftrightarrow> A = B"
  by (metis sorted_list_of_set.set_sorted_key_list_of_set)

text \<open>\<open>list(dict.fromkeys(xs))\<close> and the dedup loops: first occurrences in order.\<close>

fun dedup :: "'a list \<Rightarrow> 'a list \<Rightarrow> 'a list" where
  "dedup acc [] = acc"
| "dedup acc (x # xs) = dedup (if x \<in> set acc then acc else acc @ [x]) xs"

lemma set_dedup [simp]: "set (dedup acc xs) = set acc \<union> set xs"
  by (induction xs arbitrary: acc) auto

lemma distinct_dedup: "distinct acc \<Longrightarrow> distinct (dedup acc xs)"
  by (induction xs arbitrary: acc) auto

text \<open>Sum of a list bounded pointwise.\<close>

lemma sum_list_le_mult:
  fixes xs :: "nat list"
  shows "(\<And>x. x \<in> set xs \<Longrightarrow> x \<le> b) \<Longrightarrow> sum_list xs \<le> b * length xs"
  by (induction xs) fastforce+

section \<open>Insertion-ordered dictionaries\<close>

text \<open>\<^verbatim>\<open>d[k] = v\<close> on the list of items: a known key keeps its place, a new one is appended.\<close>

fun dict_set :: "'k \<Rightarrow> 'v \<Rightarrow> ('k \<times> 'v) list \<Rightarrow> ('k \<times> 'v) list" where
  "dict_set k v [] = [(k, v)]"
| "dict_set k v ((k', v') # kvs) = (if k' = k then (k', v) # kvs else (k', v') # dict_set k v kvs)"

lemma map_of_dict_set [simp]: "map_of (dict_set k v kvs) = (map_of kvs)(k \<mapsto> v)"
  by (induction k v kvs rule: dict_set.induct) auto

lemma keys_dict_set [simp]: "fst ` set (dict_set k v kvs) = insert k (fst ` set kvs)"
  by (induction k v kvs rule: dict_set.induct) auto

lemma distinct_dict_set: "distinct (map fst kvs) \<Longrightarrow> distinct (map fst (dict_set k v kvs))"
  by (induction k v kvs rule: dict_set.induct) (simp_all, fast)

lemma dict_set_new: "k \<notin> fst ` set kvs \<Longrightarrow> dict_set k v kvs = kvs @ [(k, v)]"
  by (induction k v kvs rule: dict_set.induct) auto

lemma dict_set_last: "k \<notin> fst ` set kvs \<Longrightarrow> dict_set k v (kvs @ [(k, w)]) = kvs @ [(k, v)]"
  by (induction k v kvs rule: dict_set.induct) auto

section \<open>Sorting\<close>

text \<open>
  \<^verbatim>\<open>sorted\<close> with a key: stable, driven by \<open>lt\<close> alone. On a strict weak order the result does not
  depend on the algorithm; where keys are not comparable (a NaN) the source's order is the list's own.
\<close>

definition insert_after :: "('a \<Rightarrow> 'a \<Rightarrow> bool) \<Rightarrow> 'a list \<Rightarrow> 'a \<Rightarrow> 'a list" where
  "insert_after lt ys x = takeWhile (\<lambda>y. \<not> lt x y) ys @ x # dropWhile (\<lambda>y. \<not> lt x y) ys"

definition py_sort :: "('a \<Rightarrow> 'a \<Rightarrow> bool) \<Rightarrow> 'a list \<Rightarrow> 'a list" where
  "py_sort lt xs = foldl (insert_after lt) [] xs"

lemma mset_insert_after [simp]: "mset (insert_after lt ys x) = add_mset x (mset ys)"
proof -
  have "mset (takeWhile (\<lambda>y. \<not> lt x y) ys) + mset (dropWhile (\<lambda>y. \<not> lt x y) ys) = mset ys"
    by (metis mset_append takeWhile_dropWhile_id)
  then show ?thesis by (simp add: insert_after_def)
qed

lemma mset_py_sort [simp]: "mset (py_sort lt xs) = mset xs"
proof -
  have "mset (foldl (insert_after lt) acc xs) = mset acc + mset xs" for acc
    by (induction xs arbitrary: acc) simp_all
  then show ?thesis by (simp add: py_sort_def)
qed

lemma set_py_sort [simp]: "set (py_sort lt xs) = set xs"
  by (metis mset_py_sort set_mset_mset)

lemma length_py_sort [simp]: "length (py_sort lt xs) = length xs"
  by (metis mset_py_sort size_mset)

lemma distinct_py_sort [simp]: "distinct (py_sort lt xs) = distinct xs"
  by (metis mset_py_sort mset_eq_imp_distinct_iff)

text \<open>\<^verbatim>\<open>min(xs, key=...)\<close>: the first element no later one is smaller than.\<close>

fun first_min :: "('a \<Rightarrow> 'a \<Rightarrow> bool) \<Rightarrow> 'a \<Rightarrow> 'a list \<Rightarrow> 'a" where
  "first_min lt best [] = best"
| "first_min lt best (x # xs) = first_min lt (if lt x best then x else best) xs"

lemma first_min_in: "first_min lt best xs \<in> set (best # xs)"
  by (induction lt best xs rule: first_min.induct) (auto split: if_splits)

text \<open>A strict weak order: the interface of every key the tools sort or minimise by.\<close>

locale weak_order =
  fixes lt :: "'a \<Rightarrow> 'a \<Rightarrow> bool" and dom :: "'a \<Rightarrow> bool"
  assumes irrefl: "dom x \<Longrightarrow> \<not> lt x x"
    and trans_not: "dom x \<Longrightarrow> dom y \<Longrightarrow> dom z \<Longrightarrow> \<not> lt y x \<Longrightarrow> \<not> lt z y \<Longrightarrow> \<not> lt z x"
    and asym: "dom x \<Longrightarrow> dom y \<Longrightarrow> lt x y \<Longrightarrow> \<not> lt y x"
begin

lemma first_min_least:
  "list_all dom (best # xs) \<Longrightarrow> y \<in> set (best # xs) \<Longrightarrow> \<not> lt y (first_min lt best xs)"
proof (induction xs arbitrary: best y)
  case Nil
  then show ?case by (simp add: irrefl)
next
  case (Cons x xs)
  let ?b = "if lt x best then x else best"
  have d: "list_all dom (?b # xs)" using Cons.prems(1) by simp
  have m: "\<not> lt ?b (first_min lt ?b xs)" using Cons.IH [OF d] by simp
  have dm: "dom (first_min lt ?b xs)"
    using first_min_in [of lt ?b xs] d by (metis list_all_iff)
  consider "y \<in> set xs" | "y = x" | "y = best" using Cons.prems(2) by auto
  then have "\<not> lt y (first_min lt ?b xs)"
  proof cases
    case 1
    then show ?thesis using Cons.IH [OF d, of y] by simp
  next
    case 2
    then have "\<not> lt y ?b" using Cons.prems(1) irrefl by (cases "lt x best") auto
    then show ?thesis using trans_not [of "first_min lt ?b xs" ?b y] m dm Cons.prems(1) 2 by auto
  next
    case 3
    then have "\<not> lt y ?b" using Cons.prems(1) irrefl asym by (cases "lt x best") auto
    then show ?thesis using trans_not [of "first_min lt ?b xs" ?b y] m dm Cons.prems(1) 3 by auto
  qed
  then show ?case by simp
qed

lemma sorted_insert_after:
  assumes "list_all dom (x # ys)" "sorted_wrt (\<lambda>a b. \<not> lt b a) ys"
  shows "sorted_wrt (\<lambda>a b. \<not> lt b a) (insert_after lt ys x)"
proof -
  let ?p = "takeWhile (\<lambda>y. \<not> lt x y) ys" and ?q = "dropWhile (\<lambda>y. \<not> lt x y) ys"
  have "ys = ?p @ ?q" by simp
  then have s: "sorted_wrt (\<lambda>a b. \<not> lt b a) ?p" "sorted_wrt (\<lambda>a b. \<not> lt b a) ?q"
    "\<forall>a \<in> set ?p. \<forall>b \<in> set ?q. \<not> lt b a"
    using assms(2) by (metis sorted_wrt_append)+
  have d: "dom x" "\<forall>y \<in> set ys. dom y" using assms(1) by (auto simp: list_all_iff)
  have p: "\<forall>a \<in> set ?p. \<not> lt x a" using set_takeWhileD by fast
  have q: "\<not> lt b x" if b: "b \<in> set ?q" for b
  proof -
    obtain h t where ht: "?q = h # t" using b by (cases ?q) auto
    then have h: "lt x h" using hd_dropWhile [of "\<lambda>y. \<not> lt x y" ys] by simp
    have hs: "h \<in> set ys" "b \<in> set ys" using ht b set_dropWhileD by (metis list.set_intros(1))+
    have "b = h \<or> \<not> lt b h" using s(2) b ht by auto
    moreover have "\<not> lt h x" using asym [of x h] h d hs by blast
    ultimately show ?thesis using trans_not [of x h b] d hs by blast
  qed
  have glue: "sorted_wrt (\<lambda>a b. \<not> lt b a) (P @ x # Q)"
    if "sorted_wrt (\<lambda>a b. \<not> lt b a) P" "sorted_wrt (\<lambda>a b. \<not> lt b a) Q"
      "\<forall>a \<in> set P. \<forall>b \<in> set Q. \<not> lt b a" "\<forall>a \<in> set P. \<not> lt x a" "\<forall>b \<in> set Q. \<not> lt b x" for P Q
    using that by (auto simp: sorted_wrt_append)
  show ?thesis
    unfolding insert_after_def by (rule glue [OF s p]) (simp add: q)
qed

lemma sorted_py_sort: "list_all dom xs \<Longrightarrow> sorted_wrt (\<lambda>a b. \<not> lt b a) (py_sort lt xs)"
proof -
  have "list_all dom (acc @ xs) \<Longrightarrow> sorted_wrt (\<lambda>a b. \<not> lt b a) acc \<Longrightarrow>
      sorted_wrt (\<lambda>a b. \<not> lt b a) (foldl (insert_after lt) acc xs)" for acc
  proof (induction xs arbitrary: acc)
    case (Cons x xs)
    have "set (insert_after lt acc x) = insert x (set acc)"
      using mset_insert_after [of lt acc x] by (metis set_mset_add_mset_insert set_mset_mset)
    then have "list_all dom (insert_after lt acc x @ xs)" using Cons.prems(1) by (simp add: list_all_iff)
    then show ?case using Cons sorted_insert_after [of x acc] by (simp add: list_all_iff)
  qed simp
  from this [of "[]"] show "list_all dom xs \<Longrightarrow> sorted_wrt (\<lambda>a b. \<not> lt b a) (py_sort lt xs)"
    by (simp add: py_sort_def)
qed

end

end
