(* ===== verification/PyText.thy ===== *)
theory PyText
  imports Prelude
begin

text \<open>
  The part of Python's \<open>str\<close> the tools use: \<^verbatim>\<open>strip\<close>, \<^verbatim>\<open>split\<close>, \<^verbatim>\<open>splitlines\<close>, \<^verbatim>\<open>int(...)\<close>,
  \<^verbatim>\<open>str(int)\<close>, \<^verbatim>\<open>lower\<close>, \<^verbatim>\<open>startswith\<close>. A string is the list of its code points; the model covers
  the code points below 256, which hold every character these routines treat specially in the
  files the tools exchange (masks, traces, policies, prompt ids).
\<close>

section \<open>Characters\<close>

definition cp :: "char \<Rightarrow> nat" where
  "cp c = of_char c"

definition is_space :: "char \<Rightarrow> bool" where
  "is_space c = (let n = cp c in (9 \<le> n \<and> n \<le> 13) \<or> (28 \<le> n \<and> n \<le> 32) \<or> n = 133 \<or> n = 160)"

definition is_linebreak :: "char \<Rightarrow> bool" where
  "is_linebreak c = (let n = cp c in (10 \<le> n \<and> n \<le> 13) \<or> (28 \<le> n \<and> n \<le> 30) \<or> n = 133)"

definition is_digit :: "char \<Rightarrow> bool" where
  "is_digit c = (48 \<le> cp c \<and> cp c \<le> 57)"

definition digit_val :: "char \<Rightarrow> nat" where
  "digit_val c = cp c - 48"

definition digit_char :: "nat \<Rightarrow> char" where
  "digit_char d = char_of (48 + d)"

definition LF :: char where "LF = char_of (10::nat)"
definition CR :: char where "CR = char_of (13::nat)"

lemma cp_char_of [simp]: "n < 256 \<Longrightarrow> cp (char_of n) = n"
  by (simp add: cp_def)

lemma cp_LF [simp]: "cp LF = 10" and cp_CR [simp]: "cp CR = 13"
  by (simp_all add: LF_def CR_def)

lemma LF_neq_CR [simp]: "LF \<noteq> CR" "CR \<noteq> LF"
  by (metis cp_LF cp_CR numeral_eq_iff semiring_norm(88) semiring_norm(89) num.distinct(1) num.inject(1,2))+

lemma is_linebreak_LF [simp]: "is_linebreak LF" and is_space_LF [simp]: "is_space LF"
  by (simp_all add: is_linebreak_def is_space_def)

lemma cp_digit_char [simp]: "d < 10 \<Longrightarrow> cp (digit_char d) = 48 + d"
  by (simp add: digit_char_def)

lemma is_digit_digit_char [simp]: "d < 10 \<Longrightarrow> is_digit (digit_char d)"
  by (simp add: is_digit_def)

lemma digit_val_digit_char [simp]: "d < 10 \<Longrightarrow> digit_val (digit_char d) = d"
  by (simp add: digit_val_def)

lemma digit_not_space: "is_digit c \<Longrightarrow> \<not> is_space c"
  by (auto simp: is_digit_def is_space_def Let_def)

lemma digit_not_linebreak: "is_digit c \<Longrightarrow> \<not> is_linebreak c"
  by (auto simp: is_digit_def is_linebreak_def Let_def)

section \<open>Stripping and splitting\<close>

definition py_lstrip :: "string \<Rightarrow> string" where
  "py_lstrip s = dropWhile is_space s"

definition py_strip :: "string \<Rightarrow> string" where
  "py_strip s = rev (dropWhile is_space (rev (dropWhile is_space s)))"

lemma shorter_after_word:
  "t \<noteq> [] \<Longrightarrow> \<not> is_space (hd t) \<Longrightarrow> length (dropWhile (\<lambda>c. \<not> is_space c) t) < length t"
  by (cases t) (simp_all add: length_dropWhile_le le_imp_less_Suc)

function py_split :: "string \<Rightarrow> string list" where
  "py_split s = (let t = dropWhile is_space s in
     if t = [] then []
     else takeWhile (\<lambda>c. \<not> is_space c) t # py_split (dropWhile (\<lambda>c. \<not> is_space c) t))"
  by pat_completeness auto
termination
proof (relation "measure length")
  fix s t
  assume t: "t = dropWhile is_space s" "t \<noteq> []"
  then have "\<not> is_space (hd t)" by (metis hd_dropWhile)
  with t(2) have "length (dropWhile (\<lambda>c. \<not> is_space c) t) < length t"
    by (rule shorter_after_word)
  moreover have "length t \<le> length s" by (simp add: t(1) length_dropWhile_le)
  ultimately show "(dropWhile (\<lambda>c. \<not> is_space c) t, s) \<in> measure length" by simp
qed simp

declare py_split.simps [simp del]

definition before_hash :: "string \<Rightarrow> string" where
  "before_hash s = takeWhile (\<lambda>c. c \<noteq> CHR ''#'') s"

definition starts_with :: "string \<Rightarrow> string \<Rightarrow> bool" where
  "starts_with s p = (take (length p) s = p)"

fun splitlines :: "string \<Rightarrow> string list" where
  "splitlines [] = []"
| "splitlines (c # cs) =
     (if is_linebreak c
      then [] # (case cs of [] \<Rightarrow> splitlines []
                 | d # ds \<Rightarrow> if c = CR \<and> d = LF then splitlines ds else splitlines (d # ds))
      else (case splitlines cs of [] \<Rightarrow> [[c]] | l # ls \<Rightarrow> (c # l) # ls))"

text \<open>Iterating over a text file (\<^verbatim>\<open>for raw in f\<close>) breaks at universal newlines only.\<close>

fun file_lines :: "string \<Rightarrow> string list" where
  "file_lines [] = []"
| "file_lines (c # cs) =
     (if c = LF \<or> c = CR
      then [] # (case cs of [] \<Rightarrow> file_lines []
                 | d # ds \<Rightarrow> if c = CR \<and> d = LF then file_lines ds else file_lines (d # ds))
      else (case file_lines cs of [] \<Rightarrow> [[c]] | l # ls \<Rightarrow> (c # l) # ls))"

lemma splitlines_line:
  "list_all (\<lambda>c. \<not> is_linebreak c) l \<Longrightarrow> splitlines (l @ LF # s) = l # splitlines s"
  by (induction l) (auto split: list.splits)

lemma splitlines_joined:
  "list_all (list_all (\<lambda>c. \<not> is_linebreak c)) ls \<Longrightarrow>
   splitlines (concat (map (\<lambda>l. l @ [LF]) ls)) = ls"
  by (induction ls) (auto simp: splitlines_line)

lemma py_strip_id:
  "s = [] \<or> (\<not> is_space (hd s) \<and> \<not> is_space (last s)) \<Longrightarrow> py_strip s = s"
proof -
  assume a: "s = [] \<or> (\<not> is_space (hd s) \<and> \<not> is_space (last s))"
  show "py_strip s = s"
  proof (cases "s = []")
    case True
    then show ?thesis by (simp add: py_strip_def)
  next
    case False
    with a have h: "\<not> is_space (hd s)" "\<not> is_space (hd (rev s))" by (auto simp: hd_rev)
    have "dropWhile is_space s = s" using False h(1) by (cases s) auto
    moreover have "dropWhile is_space (rev s) = rev s" using False h(2) by (cases "rev s") auto
    ultimately show ?thesis by (simp add: py_strip_def)
  qed
qed

lemma py_strip_all_nonspace: "list_all (\<lambda>c. \<not> is_space c) s \<Longrightarrow> py_strip s = s"
  by (rule py_strip_id) (auto simp: list_all_iff)

lemma takeWhile_all: "list_all P xs \<Longrightarrow> takeWhile P (xs @ ys) = xs @ takeWhile P ys"
  by (induction xs) auto

lemma dropWhile_all: "list_all P xs \<Longrightarrow> dropWhile P (xs @ ys) = dropWhile P ys"
  by (induction xs) auto

lemma py_split_Nil [simp]: "py_split [] = []"
  by (simp add: py_split.simps)

lemma py_split_single:
  assumes "w \<noteq> []" "list_all (\<lambda>c. \<not> is_space c) w"
  shows "py_split w = [w]"
proof -
  from assms have d: "dropWhile is_space w = w" by (cases w) auto
  have t: "takeWhile (\<lambda>c. \<not> is_space c) w = w"
    using takeWhile_all [OF assms(2), of "[]"] by simp
  have r: "dropWhile (\<lambda>c. \<not> is_space c) w = []"
    using dropWhile_all [OF assms(2), of "[]"] by simp
  show ?thesis by (subst py_split.simps) (simp add: Let_def d t r assms(1))
qed

lemma py_split_word:
  assumes "w \<noteq> []" "list_all (\<lambda>c. \<not> is_space c) w" "is_space c"
  shows "py_split (w @ c # s) = w # py_split s"
proof -
  from assms have d: "dropWhile is_space (w @ c # s) = w @ c # s" by (cases w) auto
  have t: "takeWhile (\<lambda>c. \<not> is_space c) (w @ c # s) = w"
    using takeWhile_all [OF assms(2), of "c # s"] assms(3) by simp
  have r: "dropWhile (\<lambda>c. \<not> is_space c) (w @ c # s) = c # s"
    using dropWhile_all [OF assms(2), of "c # s"] assms(3) by simp
  have "py_split (c # s) = py_split s"
    by (subst py_split.simps, subst (2) py_split.simps) (simp add: assms(3) Let_def)
  then show ?thesis
    by (subst py_split.simps) (simp add: Let_def d t r assms(1))
qed

section \<open>Integers in text\<close>

text \<open>
  \<open>scan_digits\<close> reads decimal digits with single underscores between them, the grammar of
  \<^verbatim>\<open>int(s, 10)\<close> after the sign.
\<close>

fun scan_digits :: "nat \<Rightarrow> string \<Rightarrow> nat option" where
  "scan_digits acc [] = None"
| "scan_digits acc (c # cs) =
     (if is_digit c then
        (case cs of [] \<Rightarrow> Some (10 * acc + digit_val c)
         | d # ds \<Rightarrow> if d = CHR ''_'' then scan_digits (10 * acc + digit_val c) ds
                     else scan_digits (10 * acc + digit_val c) (d # ds))
      else None)"

definition py_int :: "string \<Rightarrow> int option" where
  "py_int s = (case py_strip s of
       [] \<Rightarrow> None
     | c # cs \<Rightarrow>
         if c = CHR ''-'' then map_option (\<lambda>n. - int n) (scan_digits 0 cs)
         else if c = CHR ''+'' then map_option int (scan_digits 0 cs)
         else map_option int (scan_digits 0 (c # cs)))"

definition int_res :: "string \<Rightarrow> int res" where
  "int_res s = of_option (ValueError ''invalid literal for int()'') (py_int s)"

fun show_nat :: "nat \<Rightarrow> string" where
  "show_nat n = (if n < 10 then [digit_char n] else show_nat (n div 10) @ [digit_char (n mod 10)])"

declare show_nat.simps [simp del]

definition show_int :: "int \<Rightarrow> string" where
  "show_int i = (if i < 0 then CHR ''-'' # show_nat (nat (- i)) else show_nat (nat i))"

definition digits_value :: "nat \<Rightarrow> string \<Rightarrow> nat" where
  "digits_value acc ds = foldl (\<lambda>a d. 10 * a + digit_val d) acc ds"

lemma show_nat_nonempty [simp]: "show_nat n \<noteq> []"
  by (subst show_nat.simps) simp

lemma show_nat_digits: "list_all is_digit (show_nat n)"
proof (induction n rule: show_nat.induct)
  case (1 n)
  then show ?case by (subst show_nat.simps) simp
qed

lemma show_nat_value: "digits_value 0 (show_nat n) = n"
proof (induction n rule: show_nat.induct)
  case (1 n)
  show ?case
  proof (cases "n < 10")
    case True
    then show ?thesis by (subst show_nat.simps) (simp add: digits_value_def)
  next
    case False
    with 1 have "digits_value 0 (show_nat (n div 10)) = n div 10" by simp
    with False show ?thesis by (subst show_nat.simps) (simp add: digits_value_def)
  qed
qed

lemma digit_not_underscore: "is_digit c \<Longrightarrow> c \<noteq> CHR ''_''"
  by (auto simp: is_digit_def cp_def)

lemma digit_not_sign: "is_digit c \<Longrightarrow> c \<noteq> CHR ''-'' \<and> c \<noteq> CHR ''+''"
  by (auto simp: is_digit_def cp_def)

lemma digit_not_hash: "is_digit c \<Longrightarrow> c \<noteq> CHR ''#''"
  by (auto simp: is_digit_def cp_def)

lemma scan_digits_all:
  "ds \<noteq> [] \<Longrightarrow> list_all is_digit ds \<Longrightarrow> scan_digits acc ds = Some (digits_value acc ds)"
proof (induction ds arbitrary: acc)
  case Nil
  then show ?case by simp
next
  case (Cons d ds)
  then show ?case
    by (cases ds) (auto simp: digits_value_def digit_not_underscore)
qed

lemma nonspace_show_nat: "list_all (\<lambda>c. \<not> is_space c) (show_nat n)"
  using show_nat_digits [of n] by (auto simp: list_all_iff digit_not_space)

lemma nobreak_show_nat: "list_all (\<lambda>c. \<not> is_linebreak c) (show_nat n)"
  using show_nat_digits [of n] by (auto simp: list_all_iff digit_not_linebreak)

lemma py_int_show_nat [simp]: "py_int (show_nat n) = Some (int n)"
proof -
  obtain c cs where s: "show_nat n = c # cs" by (cases "show_nat n") auto
  then have c: "is_digit c" using show_nat_digits [of n] by simp
  have "scan_digits 0 (show_nat n) = Some n"
    by (simp add: scan_digits_all show_nat_digits show_nat_value)
  then show ?thesis
    using py_strip_all_nonspace [OF nonspace_show_nat [of n]] digit_not_sign [OF c]
    by (simp add: py_int_def s)
qed

text \<open>Printing an integer and reading it back gives the integer, whatever its sign.\<close>

lemma py_int_show_int [simp]: "py_int (show_int i) = Some i"
proof (cases "i < 0")
  case False
  then show ?thesis by (simp add: show_int_def)
next
  case True
  have m: "\<not> is_space (CHR ''-'')" by (simp add: is_space_def cp_def)
  have "py_strip (CHR ''-'' # show_nat (nat (- i))) = CHR ''-'' # show_nat (nat (- i))"
    by (rule py_strip_all_nonspace) (simp add: nonspace_show_nat m)
  with True show ?thesis
    by (simp add: show_int_def py_int_def scan_digits_all show_nat_digits show_nat_value)
qed

section \<open>Case folding\<close>

definition lower_char :: "char \<Rightarrow> char" where
  "lower_char c = (let n = cp c in
     if (65 \<le> n \<and> n \<le> 90) \<or> (192 \<le> n \<and> n \<le> 222 \<and> n \<noteq> 215) then char_of (n + 32) else c)"

definition py_lower :: "string \<Rightarrow> string" where
  "py_lower s = map lower_char s"

text \<open>\<^verbatim>\<open>sep.join(parts)\<close>.\<close>

fun join :: "string \<Rightarrow> string list \<Rightarrow> string" where
  "join sep [] = []"
| "join sep [x] = x"
| "join sep (x # y # xs) = x @ sep @ join sep (y # xs)"

section \<open>Pieces of the regular expressions\<close>

definition strip_prefix :: "string \<Rightarrow> string \<Rightarrow> string option" where
  "strip_prefix p s = (if take (length p) s = p then Some (drop (length p) s) else None)"

text \<open>\<^verbatim>\<open>(\d+)\<close>: the longest run of digits, as a number, and what follows it.\<close>

definition leading_number :: "string \<Rightarrow> (nat \<times> string) option" where
  "leading_number s = (let ds = takeWhile is_digit s in
     if ds = [] then None else Some (digits_value 0 ds, dropWhile is_digit s))"

text \<open>\<^verbatim>\<open>s.split(c)\<close> for a one-character separator: always at least one field.\<close>

fun split_on :: "char \<Rightarrow> string \<Rightarrow> string list" where
  "split_on sep [] = [[]]"
| "split_on sep (c # s) =
     (if c = sep then [] # split_on sep s
      else case split_on sep s of [] \<Rightarrow> [[c]] | w # ws \<Rightarrow> (c # w) # ws)"

lemma split_on_nonempty [simp]: "split_on sep s \<noteq> []"
  by (induction s) (auto split: list.splits)

lemma join_split_on: "join [sep] (split_on sep s) = s"
proof (induction s)
  case (Cons c s)
  obtain w ws where "split_on sep s = w # ws" by (cases "split_on sep s") auto
  with Cons show ?case by (cases ws) auto
qed simp

lemma strip_prefix_append [simp]: "strip_prefix p (p @ s) = Some s"
  by (simp add: strip_prefix_def)

lemma takeWhile_digits: "list_all P xs \<Longrightarrow> \<not> P c \<Longrightarrow> takeWhile P (xs @ c # cs) = xs \<and> dropWhile P (xs @ c # cs) = c # cs"
  by (induction xs) auto

lemma leading_number_show_nat: "\<not> is_digit c \<Longrightarrow> leading_number (show_nat n @ c # cs) = Some (n, c # cs)"
  using takeWhile_digits [OF show_nat_digits [of n], of c cs]
  by (simp add: leading_number_def Let_def show_nat_value)

end
