(* ===== verification/MemoryPlan.thy ===== *)
theory MemoryPlan
  imports PyText
begin

text \<open>
  The RAM planners: \<^verbatim>\<open>tools/kvl_memory_plan.py\<close> (used by the HTTP API and the image frontends) and
  the older planner inside \<^verbatim>\<open>tools/kvl_chat.py\<close>. Python integers are \<^typ>\<open>int\<close>; the dictionaries
  the planners return are records with the dictionaries' keys.
\<close>

section \<open>Constants\<close>

definition HIDDEN :: int where "HIDDEN = 2048"
definition LAYERS :: int where "LAYERS = 27"
definition HEADS :: int where "HEADS = 16"
definition QK_NOPE :: int where "QK_NOPE = 128"
definition QK_ROPE :: int where "QK_ROPE = 64"
definition VALUE_HEAD :: int where "VALUE_HEAD = 128"
definition KV_LATENT :: int where "KV_LATENT = 512"
definition KV_LATENT_PLUS_ROPE :: int where "KV_LATENT_PLUS_ROPE = KV_LATENT + QK_ROPE"
definition DENSE_INTERMEDIATE :: int where "DENSE_INTERMEDIATE = 11264"
definition FP32_BYTES :: int where "FP32_BYTES = 4"
definition BF16_BYTES :: int where "BF16_BYTES = 2"
definition MIB :: int where "MIB = 1024 * 1024"
definition GLOBAL_BF16_BYTES :: int where
  "GLOBAL_BF16_BYTES = 2 * (163840 * HIDDEN * BF16_BYTES) + HIDDEN * BF16_BYTES"
definition LAYER_MAJOR_PROMPT_BUFFERS :: int where "LAYER_MAJOR_PROMPT_BUFFERS = 3"
definition PEAK_LAYER_BF16_BYTES :: int where
  "PEAK_LAYER_BF16_BYTES = 3 * DENSE_INTERMEDIATE * HIDDEN * BF16_BYTES"
definition RUNTIME_MISC_SAFETY :: int where "RUNTIME_MISC_SAFETY = 128 * MIB"
definition FULL_TRUNK_CACHE_MIB :: int where "FULL_TRUNK_CACHE_MIB = 1706"

lemmas plan_constants =
  HIDDEN_def LAYERS_def HEADS_def QK_NOPE_def QK_ROPE_def VALUE_HEAD_def KV_LATENT_def
  KV_LATENT_PLUS_ROPE_def DENSE_INTERMEDIATE_def FP32_BYTES_def BF16_BYTES_def MIB_def
  GLOBAL_BF16_BYTES_def LAYER_MAJOR_PROMPT_BUFFERS_def PEAK_LAYER_BF16_BYTES_def
  RUNTIME_MISC_SAFETY_def FULL_TRUNK_CACHE_MIB_def

section \<open>The trunk-cache request\<close>

text \<open>A command-line or API value: an \<^verbatim>\<open>int\<close> or a \<^verbatim>\<open>str\<close>; the answer \<^const>\<open>None\<close> means \<^verbatim>\<open>auto\<close>.\<close>

datatype trunk_request = ReqInt int | ReqStr string

definition parse_trunk_cache_request :: "trunk_request \<Rightarrow> int option res" where
  "parse_trunk_cache_request value = (case value of
     ReqInt n \<Rightarrow> if n < 0 then Inl (ValueError ''trunk cache must be >= 0'') else Inr (Some n)
   | ReqStr v \<Rightarrow>
       let raw = py_lower (py_strip v) in
       if raw = ''auto'' then Inr None
       else (case py_int raw of
           None \<Rightarrow> Inl (ValueError ''trunk cache must be 'auto' or a non-negative integer MiB value'')
         | Some parsed \<Rightarrow>
             if parsed < 0 then Inl (ValueError ''trunk cache must be >= 0'')
             else Inr (Some parsed)))"

section \<open>The plan of the layer-major runtime\<close>

record plan =
  global_bf16 :: int
  compressed_state :: int
  sequence_workspace :: int
  streaming_mla_workspace :: int
  expert_cache :: int
  trunk_cache :: int
  peak_layer_bf16 :: int
  misc_safety :: int
  total :: int

definition planned_text_breakdown :: "int \<Rightarrow> int \<Rightarrow> int \<Rightarrow> int \<Rightarrow> plan res" where
  "planned_text_breakdown prompt_tokens max_new cache_mib trunk_cache_mib =
     (if prompt_tokens \<le> 0 \<or> max_new \<le> 0 \<or> cache_mib \<le> 0 \<or> trunk_cache_mib < 0
      then Inl (ValueError ''prompt_tokens, max_new and cache_mib must be positive; trunk_cache_mib must be >= 0'')
      else
        let capacity = prompt_tokens + max_new;
            compressed = LAYERS * capacity * KV_LATENT_PLUS_ROPE * FP32_BYTES;
            sequence = LAYER_MAJOR_PROMPT_BUFFERS * prompt_tokens * HIDDEN * FP32_BYTES;
            mla = prompt_tokens * (KV_LATENT_PLUS_ROPE + QK_NOPE + VALUE_HEAD + 1) * FP32_BYTES
                  + ((QK_NOPE + QK_ROPE) * FP32_BYTES
                     + (KV_LATENT + QK_ROPE) * FP32_BYTES
                     + (QK_NOPE + VALUE_HEAD) * FP32_BYTES
                     + QK_ROPE * FP32_BYTES
                     + (HEADS * VALUE_HEAD) * FP32_BYTES
                     + VALUE_HEAD * 8)
        in Inr \<lparr> global_bf16 = GLOBAL_BF16_BYTES,
                 compressed_state = compressed,
                 sequence_workspace = sequence,
                 streaming_mla_workspace = mla,
                 expert_cache = cache_mib * MIB,
                 trunk_cache = trunk_cache_mib * MIB,
                 peak_layer_bf16 = PEAK_LAYER_BF16_BYTES,
                 misc_safety = RUNTIME_MISC_SAFETY,
                 total = GLOBAL_BF16_BYTES + compressed + sequence + mla + cache_mib * MIB
                         + trunk_cache_mib * MIB + PEAK_LAYER_BF16_BYTES + RUNTIME_MISC_SAFETY \<rparr>)"

definition resolve_trunk_cache_mib ::
  "int \<Rightarrow> int \<Rightarrow> int \<Rightarrow> int \<Rightarrow> trunk_request \<Rightarrow> int res" where
  "resolve_trunk_cache_mib prompt_tokens max_new cache_mib ram_mib requested =
     (if ram_mib \<le> 0 then Inl (ValueError ''ram_mib must be positive'')
      else rbind (parse_trunk_cache_request requested) (\<lambda>parsed.
        case parsed of
          Some n \<Rightarrow> Inr n
        | None \<Rightarrow>
            rbind (planned_text_breakdown prompt_tokens max_new cache_mib 0) (\<lambda>base.
              let available = ram_mib * MIB - total base in
              if available \<le> 0 then Inr 0
              else Inr (min FULL_TRUNK_CACHE_MIB (available div MIB)))))"

definition planned_text_bytes :: "int \<Rightarrow> int \<Rightarrow> int \<Rightarrow> int \<Rightarrow> int res" where
  "planned_text_bytes prompt_tokens max_new cache_mib trunk_cache_mib =
     rmap total (planned_text_breakdown prompt_tokens max_new cache_mib trunk_cache_mib)"

section \<open>The plan of \<^verbatim>\<open>kvl_chat.py\<close>\<close>

definition FIXED_RUNTIME_SAFETY :: int where "FIXED_RUNTIME_SAFETY = 256 * 1024 * 1024"
definition BATCH_PREFILL_BYTES_PER_TOKEN :: int where
  "BATCH_PREFILL_BYTES_PER_TOKEN = (6 * HIDDEN * 4) + (32 * 1024) + (8 * 1024)"

lemmas chat_constants = FIXED_RUNTIME_SAFETY_def BATCH_PREFILL_BYTES_PER_TOKEN_def

record chat_plan =
  c_globals :: int
  c_expert_cache :: int
  c_trunk_cache :: int
  c_compressed_state :: int
  c_batch_prefill_peak :: int
  c_runtime_safety :: int
  planned_peak :: int

definition planned_bytes :: "int \<Rightarrow> int \<Rightarrow> int \<Rightarrow> int \<Rightarrow> chat_plan" where
  "planned_bytes prompt_tokens max_new cache_mib trunk_cache_mib =
     (let capacity = prompt_tokens + max_new;
          compressed = LAYERS * capacity * KV_LATENT_PLUS_ROPE * 4;
          batch_prefill = prompt_tokens * BATCH_PREFILL_BYTES_PER_TOKEN;
          cache = cache_mib * MIB;
          trunk = trunk_cache_mib * MIB
      in \<lparr> c_globals = GLOBAL_BF16_BYTES, c_expert_cache = cache, c_trunk_cache = trunk,
           c_compressed_state = compressed, c_batch_prefill_peak = batch_prefill,
           c_runtime_safety = FIXED_RUNTIME_SAFETY,
           planned_peak = GLOBAL_BF16_BYTES + cache + trunk + compressed + batch_prefill
                          + FIXED_RUNTIME_SAFETY \<rparr>)"

definition resolve_local_trunk_cache_mib ::
  "int \<Rightarrow> int \<Rightarrow> int \<Rightarrow> int \<Rightarrow> trunk_request \<Rightarrow> int res" where
  "resolve_local_trunk_cache_mib prompt_tokens max_new cache_mib ram_mib requested =
     rbind (parse_trunk_cache_request requested) (\<lambda>parsed.
       case parsed of
         Some n \<Rightarrow> Inr n
       | None \<Rightarrow>
           let base = planned_bytes prompt_tokens max_new cache_mib 0;
               available = ram_mib * MIB - planned_peak base in
           if available \<le> 0 then Inr 0
           else Inr (min FULL_TRUNK_CACHE_MIB (available div MIB)))"

section \<open>What both planners promise\<close>

text \<open>
  Both planners charge the trunk cache linearly and resolve \<^verbatim>\<open>auto\<close> by the same rule. A
  configuration is (prompt tokens, new tokens, expert-cache MiB); \<open>ok\<close> says which configurations the
  planner accepts. The contract: the resolved budget is the largest one up to the full trunk that
  fits the RAM budget, whenever the plan without any trunk cache fits.
\<close>

type_synonym config = "int \<times> int \<times> int"

locale trunk_planner =
  fixes ok :: "config \<Rightarrow> bool"
    and cost :: "config \<Rightarrow> int \<Rightarrow> int"
    and auto :: "config \<Rightarrow> int \<Rightarrow> int"
  assumes cost_linear: "ok cfg \<Longrightarrow> 0 \<le> t \<Longrightarrow> cost cfg t = cost cfg 0 + t * MIB"
    and auto_rule: "ok cfg \<Longrightarrow> 0 < ram \<Longrightarrow> auto cfg ram =
      (if ram * MIB - cost cfg 0 \<le> 0 then 0
       else min FULL_TRUNK_CACHE_MIB ((ram * MIB - cost cfg 0) div MIB))"
begin

lemma auto_range: "ok cfg \<Longrightarrow> 0 < ram \<Longrightarrow> 0 \<le> auto cfg ram \<and> auto cfg ram \<le> FULL_TRUNK_CACHE_MIB"
  by (auto simp: auto_rule plan_constants pos_imp_zdiv_nonneg_iff)

lemma fits_iff_le_auto:
  assumes "ok cfg" "0 < ram" "cost cfg 0 \<le> ram * MIB" "0 \<le> t" "t \<le> FULL_TRUNK_CACHE_MIB"
  shows "cost cfg t \<le> ram * MIB \<longleftrightarrow> t \<le> auto cfg ram"
proof (cases "ram * MIB - cost cfg 0 \<le> 0")
  case True
  with assms have "ram * MIB = cost cfg 0" by simp
  with True assms show ?thesis
    by (auto simp: auto_rule cost_linear [of cfg t] MIB_def)
next
  case False
  have "cost cfg t \<le> ram * MIB \<longleftrightarrow> t * MIB \<le> ram * MIB - cost cfg 0"
    using assms by (simp add: cost_linear [of cfg t] algebra_simps)
  also have "\<dots> \<longleftrightarrow> t \<le> (ram * MIB - cost cfg 0) div MIB"
    by (auto simp: MIB_def)
  finally show ?thesis
    using False assms by (simp add: auto_rule)
qed

lemma auto_fits:
  assumes "ok cfg" "0 < ram" "cost cfg 0 \<le> ram * MIB"
  shows "cost cfg (auto cfg ram) \<le> ram * MIB"
  using fits_iff_le_auto [OF assms] auto_range [OF assms(1,2)] by blast

end

text \<open>The closed form of the totals, from which the two instances of the contract follow.\<close>

lemma planned_text_total:
  assumes "0 < p" "0 < m" "0 < c" "0 \<le> t"
  shows "planned_text_bytes p m c t =
     Inr (90116 * p + 62208 * m + 1048576 * c + 1048576 * t + 1614824704)"
  using assms by (simp add: planned_text_bytes_def planned_text_breakdown_def Let_def plan_constants)

lemma planned_text_breakdown_Inr:
  "(\<exists>q. planned_text_breakdown p m c t = Inr q) \<longleftrightarrow> 0 < p \<and> 0 < m \<and> 0 < c \<and> 0 \<le> t"
  by (auto simp: planned_text_breakdown_def Let_def not_le not_less)

lemma planned_peak_closed:
  "planned_peak (planned_bytes p m c t) =
     152320 * p + 62208 * m + 1048576 * c + 1048576 * t + 1610616832"
  by (simp add: planned_bytes_def Let_def plan_constants chat_constants)

fun config_ok :: "config \<Rightarrow> bool" where
  "config_ok (p, m, c) = (0 < p \<and> 0 < m \<and> 0 < c)"

fun text_cost :: "config \<Rightarrow> int \<Rightarrow> int" where
  "text_cost (p, m, c) t = (case planned_text_bytes p m c t of Inl e \<Rightarrow> 0 | Inr n \<Rightarrow> n)"

fun text_auto :: "config \<Rightarrow> int \<Rightarrow> int" where
  "text_auto (p, m, c) ram =
     (case resolve_trunk_cache_mib p m c ram (ReqStr ''auto'') of Inl e \<Rightarrow> 0 | Inr n \<Rightarrow> n)"

fun chat_cost :: "config \<Rightarrow> int \<Rightarrow> int" where
  "chat_cost (p, m, c) t = planned_peak (planned_bytes p m c t)"

fun chat_auto :: "config \<Rightarrow> int \<Rightarrow> int" where
  "chat_auto (p, m, c) ram =
     (case resolve_local_trunk_cache_mib p m c ram (ReqStr ''auto'') of Inl e \<Rightarrow> 0 | Inr n \<Rightarrow> n)"

lemma parse_auto [simp]: "parse_trunk_cache_request (ReqStr ''auto'') = Inr None"
  by (simp add: parse_trunk_cache_request_def py_lower_def py_strip_def lower_char_def is_space_def cp_def)

lemma resolve_auto_eq:
  assumes "planned_text_breakdown p m c 0 = Inr base" "0 < ram"
  shows "resolve_trunk_cache_mib p m c ram (ReqStr ''auto'') =
    Inr (if ram * MIB - total base \<le> 0 then 0
         else min FULL_TRUNK_CACHE_MIB ((ram * MIB - total base) div MIB))"
  using assms by (simp add: resolve_trunk_cache_mib_def Let_def)

lemma resolve_local_auto_eq:
  "resolve_local_trunk_cache_mib p m c ram (ReqStr ''auto'') =
    Inr (if ram * MIB - chat_cost (p, m, c) 0 \<le> 0 then 0
         else min FULL_TRUNK_CACHE_MIB ((ram * MIB - chat_cost (p, m, c) 0) div MIB))"
  by (simp add: resolve_local_trunk_cache_mib_def Let_def)

interpretation text_planner: trunk_planner config_ok text_cost text_auto
proof unfold_locales
  fix cfg :: config and t :: int
  assume "config_ok cfg" "0 \<le> t"
  then show "text_cost cfg t = text_cost cfg 0 + t * MIB"
    by (cases cfg) (simp add: planned_text_total MIB_def)
next
  fix cfg :: config and ram :: int
  assume ok: "config_ok cfg" and ram: "0 < ram"
  obtain p m c where cfg: "cfg = (p, m, c)" by (cases cfg)
  with ok obtain base where b: "planned_text_breakdown p m c 0 = Inr base"
    using planned_text_breakdown_Inr [of p m c 0] by auto
  then have "text_cost cfg 0 = total base" by (simp add: cfg planned_text_bytes_def)
  then show "text_auto cfg ram = (if ram * MIB - text_cost cfg 0 \<le> 0 then 0
       else min FULL_TRUNK_CACHE_MIB ((ram * MIB - text_cost cfg 0) div MIB))"
    by (simp add: cfg resolve_auto_eq [OF b ram])
qed

interpretation chat_planner: trunk_planner "\<lambda>_. True" chat_cost chat_auto
proof unfold_locales
  fix cfg :: config and t :: int
  show "chat_cost cfg t = chat_cost cfg 0 + t * MIB"
    by (cases cfg) (simp add: planned_peak_closed MIB_def)
next
  fix cfg :: config and ram :: int
  show "chat_auto cfg ram = (if ram * MIB - chat_cost cfg 0 \<le> 0 then 0
       else min FULL_TRUNK_CACHE_MIB ((ram * MIB - chat_cost cfg 0) div MIB))"
    by (cases cfg) (simp only: chat_auto.simps resolve_local_auto_eq sum.case)
qed

section \<open>Properties\<close>

text \<open>C38: in auto mode the API's planner resolves the trunk cache to the largest budget, up to the full
  trunk, whose complete plan still fits the RAM budget (and everything smaller fits too).\<close>

theorem text_auto_largest_fit:
  assumes "0 < p" "0 < m" "0 < c" "0 < ram" "planned_text_bytes p m c 0 = Inr base" "base \<le> ram * MIB"
  shows "\<exists>t. resolve_trunk_cache_mib p m c ram (ReqStr ''auto'') = Inr t \<and> 0 \<le> t \<and> t \<le> FULL_TRUNK_CACHE_MIB
    \<and> (\<forall>t'. 0 \<le> t' \<longrightarrow> t' \<le> FULL_TRUNK_CACHE_MIB \<longrightarrow>
          (\<exists>n. planned_text_bytes p m c t' = Inr n \<and> (n \<le> ram * MIB \<longleftrightarrow> t' \<le> t)))"
proof -
  obtain q where q: "planned_text_breakdown p m c 0 = Inr q"
    using planned_text_breakdown_Inr [of p m c 0] assms(1-3) by auto
  have r: "resolve_trunk_cache_mib p m c ram (ReqStr ''auto'') = Inr (text_auto (p, m, c) ram)"
    by (simp add: resolve_auto_eq [OF q assms(4)])
  have fits: "text_cost (p, m, c) 0 \<le> ram * MIB" using assms(5,6) by simp
  have ok: "config_ok (p, m, c)" using assms(1-3) by simp
  have "\<exists>n. planned_text_bytes p m c t' = Inr n \<and> (n \<le> ram * MIB \<longleftrightarrow> t' \<le> text_auto (p, m, c) ram)"
    if "0 \<le> t'" "t' \<le> FULL_TRUNK_CACHE_MIB" for t'
    using text_planner.fits_iff_le_auto [OF ok assms(4) fits that] planned_text_total [OF assms(1-3) that(1)]
    by simp
  then show ?thesis using r text_planner.auto_range [OF ok assms(4)] by blast
qed

theorem text_auto_largest_fit_witness:
  "\<exists>t. resolve_trunk_cache_mib 100 32 512 4096 (ReqStr ''auto'') = Inr t \<and> 0 \<le> t \<and> t \<le> FULL_TRUNK_CACHE_MIB
    \<and> (\<forall>t'. 0 \<le> t' \<longrightarrow> t' \<le> FULL_TRUNK_CACHE_MIB \<longrightarrow>
          (\<exists>n. planned_text_bytes 100 32 512 t' = Inr n \<and> (n \<le> 4096 * MIB \<longleftrightarrow> t' \<le> t)))"
  by (rule text_auto_largest_fit [of 100 32 512 4096 2162697872])
    (simp_all add: planned_text_total MIB_def)

text \<open>The same for the planner inside the chat frontend, for every configuration it is asked about.\<close>

theorem chat_auto_largest_fit:
  assumes "0 < ram" "planned_peak (planned_bytes p m c 0) \<le> ram * MIB"
  shows "\<exists>t. resolve_local_trunk_cache_mib p m c ram (ReqStr ''auto'') = Inr t \<and> 0 \<le> t \<and> t \<le> FULL_TRUNK_CACHE_MIB
    \<and> (\<forall>t'. 0 \<le> t' \<longrightarrow> t' \<le> FULL_TRUNK_CACHE_MIB \<longrightarrow>
          (planned_peak (planned_bytes p m c t') \<le> ram * MIB \<longleftrightarrow> t' \<le> t))"
proof -
  have "resolve_local_trunk_cache_mib p m c ram (ReqStr ''auto'') = Inr (chat_auto (p, m, c) ram)"
    by (simp add: resolve_local_auto_eq)
  moreover have "chat_cost (p, m, c) 0 \<le> ram * MIB" using assms(2) by simp
  ultimately show ?thesis
    using chat_planner.fits_iff_le_auto [where cfg = "(p, m, c)" and ram = ram] chat_planner.auto_range [where cfg = "(p, m, c)" and ram = ram] assms(1)
    by auto
qed

theorem chat_auto_largest_fit_witness:
  "\<exists>t. resolve_local_trunk_cache_mib 100 32 512 4096 (ReqStr ''auto'') = Inr t \<and> 0 \<le> t \<and> t \<le> FULL_TRUNK_CACHE_MIB
    \<and> (\<forall>t'. 0 \<le> t' \<longrightarrow> t' \<le> FULL_TRUNK_CACHE_MIB \<longrightarrow>
          (planned_peak (planned_bytes 100 32 512 t') \<le> 4096 * MIB \<longleftrightarrow> t' \<le> t))"
  by (rule chat_auto_largest_fit) (simp_all add: planned_peak_closed MIB_def)

text \<open>The two planners disagree about short prompts. The chat frontend's plan covers the layer-major
  plan exactly from 68 prompt tokens on; below that it admits configurations the other one rejects.\<close>

theorem chat_plan_covers_text_plan:
  assumes "0 < p" "0 < m" "0 < c" "0 \<le> t" "planned_text_bytes p m c t = Inr n"
  shows "n \<le> planned_peak (planned_bytes p m c t) \<longleftrightarrow> 68 \<le> p"
  using assms(5) by (auto simp: planned_text_total [OF assms(1-4)] planned_peak_closed)

theorem chat_plan_covers_text_plan_witness:
  "\<not> 2159453696 \<le> planned_peak (planned_bytes 64 32 512 0)"
  using chat_plan_covers_text_plan [of 64 32 512 0 2159453696] by (simp add: planned_text_total)

text \<open>A decimal request is taken as it is when it is not negative and refused otherwise, whether it
  comes as a number or as text.\<close>

theorem explicit_request_parsed:
  "parse_trunk_cache_request (ReqStr (show_int n)) =
     (if n < 0 then Inl (ValueError ''trunk cache must be >= 0'') else Inr (Some n))
   \<and> parse_trunk_cache_request (ReqInt n) = parse_trunk_cache_request (ReqStr (show_int n))"
proof -
  have same: "py_lower (py_strip (show_int n)) = show_int n \<and> show_int n \<noteq> ''auto''"
  proof -
    have "show_int n = show_nat (nat n) \<or> show_int n = CHR ''-'' # show_nat (nat (- n))"
      by (auto simp: show_int_def)
    moreover have ns: "list_all (\<lambda>c. \<not> is_space c) (show_int n)"
      using nonspace_show_nat by (auto simp: show_int_def is_space_def cp_def)
    moreover have low: "list_all (\<lambda>c. is_digit c \<or> c = CHR ''-'') (show_int n)"
      using show_nat_digits by (auto simp: show_int_def list_all_iff)
    moreover have "map lower_char s = s" if "list_all (\<lambda>c. is_digit c \<or> c = CHR ''-'') s" for s
      using that by (induction s) (auto simp: lower_char_def is_digit_def cp_def)
    moreover have "\<not> list_all (\<lambda>c. is_digit c \<or> c = CHR ''-'') ''auto''"
      by (simp add: is_digit_def cp_def)
    ultimately show ?thesis by (auto simp: py_strip_all_nonspace py_lower_def)
  qed
  then show ?thesis by (auto simp: parse_trunk_cache_request_def Let_def)
qed

end
