(* ===== verification/StructPack.thy ===== *)
theory StructPack
  imports PyText "HOL-Library.Word"
begin

text \<open>
  Python's \<^verbatim>\<open>struct\<close> for the little-endian formats of the repository (unsigned \<^verbatim>\<open>I\<close> and \<^verbatim>\<open>Q\<close> fields and
  an eight-byte magic), the 4096-byte alignment arithmetic every packer repeats, and the on-disk
  headers and records of the expert store (\<^verbatim>\<open>KVLXPRT1\<close>) and of the trunk/vision store (\<^verbatim>\<open>KVLTRNK1\<close>).
\<close>

type_synonym byte = "8 word"
type_synonym bytes = "8 word list"

section \<open>Little-endian integers\<close>

fun le_bytes :: "nat \<Rightarrow> nat \<Rightarrow> bytes" where
  "le_bytes 0 x = []"
| "le_bytes (Suc n) x = word_of_nat (x mod 256) # le_bytes n (x div 256)"

fun from_le :: "bytes \<Rightarrow> nat" where
  "from_le [] = 0"
| "from_le (b # bs) = unat b + 256 * from_le bs"

lemma length_le_bytes [simp]: "length (le_bytes n x) = n"
  by (induction n arbitrary: x) auto

lemma from_le_le_bytes: "x < 256 ^ n \<Longrightarrow> from_le (le_bytes n x) = x"
proof (induction n arbitrary: x)
  case 0
  then show ?case by simp
next
  case (Suc n)
  then have "x div 256 < 256 ^ n" by (simp add: less_mult_imp_div_less mult.commute)
  with Suc.IH have "from_le (le_bytes n (x div 256)) = x div 256" by simp
  then show ?case by (simp add: unsigned_of_nat take_bit_eq_mod)
qed

lemma from_le_bound: "from_le bs < 256 ^ length bs"
proof (induction bs)
  case Nil
  show ?case by simp
next
  case (Cons b bs)
  have "unat b < 256" using unsigned_less [of b] by simp
  with Cons show ?case by simp
qed

lemma le_bytes_from_le: "le_bytes (length bs) (from_le bs) = bs"
proof (induction bs)
  case Nil
  show ?case by simp
next
  case (Cons b bs)
  have "unat b < 256" using unsigned_less [of b] by simp
  then show ?case using Cons by simp
qed

section \<open>Fields and formats\<close>

text \<open>
  A format is the list of its field widths (4 for \<^verbatim>\<open>I\<close>, 8 for \<^verbatim>\<open>Q\<close>). Packing a value that does
  not fit, or the wrong number of values, is \<^verbatim>\<open>struct.error\<close>.
\<close>

fun pack_fields :: "nat list \<Rightarrow> nat list \<Rightarrow> bytes res" where
  "pack_fields [] [] = Inr []"
| "pack_fields (w # ws) (v # vs) =
     (if v < 256 ^ w then rmap (\<lambda>bs. le_bytes w v @ bs) (pack_fields ws vs)
      else Inl (StructError ''argument out of range''))"
| "pack_fields [] (v # vs) = Inl (StructError ''argument count'')"
| "pack_fields (w # ws) [] = Inl (StructError ''argument count'')"

fun unpack_fields :: "nat list \<Rightarrow> bytes \<Rightarrow> nat list" where
  "unpack_fields [] bs = []"
| "unpack_fields (w # ws) bs = from_le (take w bs) # unpack_fields ws (drop w bs)"

definition fields_fit :: "nat list \<Rightarrow> nat list \<Rightarrow> bool" where
  "fields_fit ws vs = list_all2 (\<lambda>w v. v < 256 ^ w) ws vs"

lemma pack_fields_fit: "fields_fit ws vs \<Longrightarrow> \<exists>bs. pack_fields ws vs = Inr bs"
  by (induction ws vs rule: pack_fields.induct) (auto simp: fields_fit_def)

lemma pack_fields_Inr_fit: "pack_fields ws vs = Inr bs \<Longrightarrow> fields_fit ws vs"
  by (induction ws vs arbitrary: bs rule: pack_fields.induct)
    (auto simp: fields_fit_def rmap_eq_Inr split: if_splits)

lemma pack_fields_length: "pack_fields ws vs = Inr bs \<Longrightarrow> length bs = sum_list ws"
  by (induction ws vs arbitrary: bs rule: pack_fields.induct)
    (auto simp: rmap_eq_Inr split: if_splits)

lemma unpack_pack_fields: "pack_fields ws vs = Inr bs \<Longrightarrow> unpack_fields ws (bs @ more) = vs"
  by (induction ws vs arbitrary: bs rule: pack_fields.induct)
    (auto simp: rmap_eq_Inr from_le_le_bytes split: if_splits)

lemma unpack_fields_fit:
  "sum_list ws \<le> length bs \<Longrightarrow> fields_fit ws (unpack_fields ws bs)"
proof (induction ws arbitrary: bs)
  case Nil
  then show ?case by (simp add: fields_fit_def)
next
  case (Cons w ws)
  then have "length (take w bs) = w" by simp
  then have "from_le (take w bs) < 256 ^ w"
    using from_le_bound [of "take w bs"] by presburger
  with Cons show ?case by (simp add: fields_fit_def)
qed

lemma length_unpack_fields [simp]: "length (unpack_fields ws bs) = length ws"
  by (induction ws arbitrary: bs) auto

section \<open>Fixed-size records in a file\<close>

text \<open>
  \<^verbatim>\<open>S.unpack_from(raw, off)\<close> raises when the buffer ends too early. A table is read by the loop
  \<^verbatim>\<open>for _ in range(n): recs.append(S.unpack_from(raw, off)); off += S.size\<close> and written by
  \<^verbatim>\<open>for r in recs: f.write(S.pack(*r))\<close>; an exception half-way leaves the bytes written before it.
\<close>

definition unpack_at :: "(bytes \<Rightarrow> 'a) \<Rightarrow> nat \<Rightarrow> bytes \<Rightarrow> nat \<Rightarrow> 'a res" where
  "unpack_at dec sz raw off =
     (if off + sz \<le> length raw then Inr (dec (take sz (drop off raw)))
      else Inl (StructError ''unpack_from requires a larger buffer''))"

fun unpack_table :: "(bytes \<Rightarrow> 'a) \<Rightarrow> nat \<Rightarrow> bytes \<Rightarrow> nat \<Rightarrow> nat \<Rightarrow> 'a list res" where
  "unpack_table dec sz raw off 0 = Inr []"
| "unpack_table dec sz raw off (Suc n) =
     rbind (unpack_at dec sz raw off) (\<lambda>r.
       rmap (\<lambda>rs. r # rs) (unpack_table dec sz raw (off + sz) n))"

fun write_all :: "('a \<Rightarrow> bytes res) \<Rightarrow> bytes \<Rightarrow> 'a list \<Rightarrow> bytes \<times> exn option" where
  "write_all enc out [] = (out, None)"
| "write_all enc out (x # xs) =
     (case enc x of Inl e \<Rightarrow> (out, Some e) | Inr bs \<Rightarrow> write_all enc (out @ bs) xs)"

text \<open>
  The interface of a struct format: what fits packs to exactly \<open>sz\<close> bytes and unpacks to itself.
\<close>

locale codec =
  fixes enc :: "'a \<Rightarrow> bytes res"
    and dec :: "bytes \<Rightarrow> 'a"
    and sz :: nat
    and fits :: "'a \<Rightarrow> bool"
  assumes enc_fits: "fits x \<Longrightarrow> \<exists>bs. enc x = Inr bs"
    and enc_size: "enc x = Inr bs \<Longrightarrow> length bs = sz"
    and dec_enc: "enc x = Inr bs \<Longrightarrow> dec bs = x"
begin

lemma unpack_at_written:
  assumes "enc x = Inr bs"
  shows "unpack_at dec sz (pre @ bs @ post) (length pre) = Inr x"
  using enc_size [OF assms] dec_enc [OF assms] by (simp add: unpack_at_def)

lemma write_all_ok:
  "list_all fits xs \<Longrightarrow> \<exists>bs. write_all enc out xs = (out @ bs, None) \<and> length bs = sz * length xs
     \<and> (\<forall>pre. length pre = length out \<longrightarrow> unpack_table dec sz (pre @ bs) (length out) (length xs) = Inr xs)"
proof (induction xs arbitrary: out)
  case Nil
  show ?case by simp
next
  case (Cons x xs)
  then obtain b where b: "enc x = Inr b" using enc_fits by force
  from Cons obtain bs where bs: "write_all enc (out @ b) xs = ((out @ b) @ bs, None)"
    "length bs = sz * length xs"
    "\<forall>pre. length pre = length (out @ b) \<longrightarrow>
       unpack_table dec sz (pre @ bs) (length (out @ b)) (length xs) = Inr xs"
    by fastforce
  have "unpack_table dec sz (pre @ b @ bs) (length out) (length (x # xs)) = Inr (x # xs)"
    if "length pre = length out" for pre
  proof -
    have "unpack_table dec sz ((pre @ b) @ bs) (length out + sz) (length xs) = Inr xs"
      using bs(3) [rule_format, of "pre @ b"] that enc_size [OF b] by simp
    then show ?thesis
      using unpack_at_written [OF b, of pre bs] that by simp
  qed
  then show ?case
    using b bs(1,2) enc_size [OF b] by (intro exI [of _ "b @ bs"]) simp
qed

lemma table_roundtrip:
  assumes "list_all fits xs" "write_all enc out xs = (file, err)"
  shows "err = None \<and> length file = length out + sz * length xs
     \<and> take (length out) file = out \<and> unpack_table dec sz file (length out) (length xs) = Inr xs"
  using write_all_ok [OF assms(1), of out] assms(2) by auto

end

lemma unpack_table_length: "unpack_table dec sz raw off n = Inr rs \<Longrightarrow> length rs = n"
  by (induction n arbitrary: off rs) (auto simp: rbind_eq_Inr rmap_eq_Inr)

lemma unpack_table_ok:
  "off + n * sz \<le> length raw \<Longrightarrow> \<exists>rs. unpack_table dec sz raw off n = Inr rs"
proof (induction n arbitrary: off)
  case 0
  show ?case by simp
next
  case (Suc n)
  then obtain rs where "unpack_table dec sz raw (off + sz) n = Inr rs"
    by (metis add.assoc mult_Suc)
  with Suc.prems show ?case by (simp add: unpack_at_def)
qed

lemma unpack_table_prefix:
  "unpack_table dec sz raw off n = Inr rs \<Longrightarrow> unpack_table dec sz (raw @ rest) off n = Inr rs"
  by (induction n arbitrary: off rs)
    (auto simp: rbind_eq_Inr rmap_eq_Inr unpack_at_def split: if_splits)

section \<open>Alignment\<close>

definition ALIGN :: nat where "ALIGN = 4096"

definition align_up :: "nat \<Rightarrow> nat \<Rightarrow> nat" where
  "align_up x a = (x + a - 1) div a * a"

definition align_down :: "nat \<Rightarrow> nat \<Rightarrow> nat" where
  "align_down x a = x div a * a"

lemma ALIGN_pos [simp]: "0 < ALIGN"
  by (simp add: ALIGN_def)

lemma align_up_dvd [simp]: "a dvd align_up x a"
  by (simp add: align_up_def)

lemma align_up_ge: "0 < a \<Longrightarrow> x \<le> align_up x a"
proof -
  assume a: "0 < a"
  have "x + a - 1 = (x + a - 1) div a * a + (x + a - 1) mod a" by simp
  moreover have "(x + a - 1) mod a < a" using a by simp
  ultimately show ?thesis unfolding align_up_def by linarith
qed

lemma align_up_less: "0 < a \<Longrightarrow> align_up x a < x + a"
proof -
  assume a: "0 < a"
  have "(x + a - 1) div a * a \<le> x + a - 1" by simp
  then show ?thesis using a unfolding align_up_def by linarith
qed

lemma align_up_least: "0 < a \<Longrightarrow> a dvd y \<Longrightarrow> x \<le> y \<Longrightarrow> align_up x a \<le> y"
proof -
  assume a: "0 < a" and d: "a dvd y" and le: "x \<le> y"
  from d obtain k where k: "y = a * k" ..
  have lt: "align_up x a < a * Suc k" using align_up_less [OF a, of x] le k by simp
  obtain j where j: "align_up x a = a * j" using align_up_dvd [of a x] by (blast elim: dvdE)
  with lt have "a * j < a * Suc k" by metis
  then have "j < Suc k" unfolding mult_less_cancel1 by blast
  then show ?thesis using j k by simp
qed

lemma align_up_id: "0 < a \<Longrightarrow> a dvd x \<Longrightarrow> align_up x a = x"
  using align_up_ge [of a x] align_up_least [of a x x] by simp

lemma align_down_le [simp]: "align_down x a \<le> x"
  by (simp add: align_down_def)

lemma align_down_dvd [simp]: "a dvd align_down x a"
  by (simp add: align_down_def)

lemma align_down_gt: "0 < a \<Longrightarrow> x < align_down x a + a"
  unfolding align_down_def using mod_less_divisor [of a x] div_mult_mod_eq [of x a] by linarith

text \<open>\<^verbatim>\<open>out.write(b"\0" * (align_up(out.tell()) - out.tell()))\<close>: zero padding to the boundary.\<close>

definition pad_to :: "nat \<Rightarrow> bytes \<Rightarrow> bytes" where
  "pad_to a out = out @ replicate (align_up (length out) a - length out) 0"

lemma length_pad_to [simp]: "0 < a \<Longrightarrow> length (pad_to a out) = align_up (length out) a"
  by (simp add: pad_to_def align_up_ge)

lemma pad_to_aligned: "0 < a \<Longrightarrow> a dvd length out \<Longrightarrow> pad_to a out = out"
  by (simp add: pad_to_def align_up_id)

end
