(* ===== verification/FileIO.thy ===== *)
theory FileIO
  imports StructPack
begin

text \<open>
  Files as explicit state: a file system maps path strings to contents, and a script step is a
  function from the file system to a result and the file system it leaves, also when it raises.
  Directories always exist (the tools create them with \<^verbatim>\<open>mkdir(parents=True, exist_ok=True)\<close>), paths
  are already resolved, and two different paths are two different files. Text files are ASCII: the
  codec refuses any other byte, a bound of the model (the tools' own text output is ASCII).
\<close>

type_synonym fs = "string \<rightharpoonup> bytes"
type_synonym 'a io = "fs \<Rightarrow> 'a res \<times> fs"

named_theorems io_simps

definition io_return :: "'a \<Rightarrow> 'a io" where
  "io_return x = (\<lambda>s. (Inr x, s))"

definition io_raise :: "exn \<Rightarrow> 'a io" where
  "io_raise e = (\<lambda>s. (Inl e, s))"

definition io_bind :: "'a io \<Rightarrow> ('a \<Rightarrow> 'b io) \<Rightarrow> 'b io" where
  "io_bind m f = (\<lambda>s. case m s of (Inl e, s') \<Rightarrow> (Inl e, s') | (Inr x, s') \<Rightarrow> f x s')"

definition io_lift :: "'a res \<Rightarrow> 'a io" where
  "io_lift r = (\<lambda>s. (r, s))"

definition path_is_file :: "string \<Rightarrow> bool io" where
  "path_is_file p = (\<lambda>s. (Inr (s p \<noteq> None), s))"

definition read_bytes :: "string \<Rightarrow> bytes io" where
  "read_bytes p = (\<lambda>s. (of_option (FileNotFoundError ''No such file or directory'') (s p), s))"

definition write_bytes :: "string \<Rightarrow> bytes \<Rightarrow> unit io" where
  "write_bytes p bs = (\<lambda>s. (Inr (), s(p \<mapsto> bs)))"

definition file_size :: "string \<Rightarrow> nat io" where
  "file_size p = io_bind (read_bytes p) (\<lambda>bs. io_return (length bs))"

definition ascii_decode :: "bytes \<Rightarrow> string res" where
  "ascii_decode bs = (if list_all (\<lambda>b. unat b < 128) bs then Inr (map (\<lambda>b. char_of (unat b)) bs)
                      else Inl (UnicodeError ''codec can't decode byte''))"

definition ascii_encode :: "string \<Rightarrow> bytes" where
  "ascii_encode s = map (\<lambda>c. word_of_nat (cp c)) s"

definition read_text :: "string \<Rightarrow> string io" where
  "read_text p = io_bind (read_bytes p) (\<lambda>bs. io_lift (ascii_decode bs))"

definition write_text :: "string \<Rightarrow> string \<Rightarrow> unit io" where
  "write_text p t = write_bytes p (ascii_encode t)"

text \<open>A file written by a loop that may raise half-way: the bytes stay, the exception goes on.\<close>

definition write_out :: "string \<Rightarrow> bytes \<times> exn option \<Rightarrow> unit io" where
  "write_out p r = (\<lambda>s. (case snd r of None \<Rightarrow> Inr () | Some e \<Rightarrow> Inl e, s(p \<mapsto> fst r)))"

lemma io_return_app [simp, io_simps]: "io_return x s = (Inr x, s)"
  by (simp add: io_return_def)

lemma io_raise_app [simp, io_simps]: "io_raise e s = (Inl e, s)"
  by (simp add: io_raise_def)

lemma io_lift_app [simp, io_simps]: "io_lift r s = (r, s)"
  by (simp add: io_lift_def)

lemma read_bytes_app [simp, io_simps]:
  "read_bytes p s = (of_option (FileNotFoundError ''No such file or directory'') (s p), s)"
  by (simp add: read_bytes_def)

lemma write_bytes_app [simp, io_simps]: "write_bytes p bs s = (Inr (), s(p \<mapsto> bs))"
  by (simp add: write_bytes_def)

lemma io_bind_Inr [io_simps]: "m s = (Inr x, s') \<Longrightarrow> io_bind m f s = f x s'"
  by (simp add: io_bind_def)

lemma io_bind_Inl [io_simps]: "m s = (Inl e, s') \<Longrightarrow> io_bind m f s = (Inl e, s')"
  by (simp add: io_bind_def)

lemma io_bind_eq_Inr:
  "io_bind m f s = (Inr y, t) \<longleftrightarrow> (\<exists>x s'. m s = (Inr x, s') \<and> f x s' = (Inr y, t))"
  by (auto simp: io_bind_def split: prod.splits sum.splits)

lemma io_bind_return [simp]: "io_bind (io_return x) f = f x"
  by (simp add: io_bind_def io_return_def)

lemma io_bind_raise [simp]: "io_bind (io_raise e) f = io_raise e"
  by (simp add: io_bind_def io_raise_def)

lemma io_bind_lift_app: "io_bind (io_lift r) f s = (case r of Inl e \<Rightarrow> (Inl e, s) | Inr x \<Rightarrow> f x s)"
  by (simp add: io_bind_def io_lift_def split: sum.splits)

lemma file_size_app [simp, io_simps]:
  "file_size p s = (case s p of None \<Rightarrow> Inl (FileNotFoundError ''No such file or directory'')
                    | Some bs \<Rightarrow> Inr (length bs), s)"
  by (simp add: file_size_def io_bind_def split: option.splits)

lemma read_text_app [io_simps]:
  "read_text p s = (rbind (of_option (FileNotFoundError ''No such file or directory'') (s p)) ascii_decode, s)"
  by (cases "s p") (simp_all add: read_text_def io_bind_def)

text \<open>How a successful step followed by more code ran.\<close>

named_theorems io_iffs

lemma io_bind_lift_iff [io_iffs]:
  "io_bind (io_lift r) f s = (Inr y, t) \<longleftrightarrow> (\<exists>x. r = Inr x \<and> f x s = (Inr y, t))"
  by (cases r) (simp_all add: io_bind_lift_app)

lemma io_bind_read_iff [io_iffs]:
  "io_bind (read_bytes p) f s = (Inr y, t) \<longleftrightarrow> (\<exists>bs. s p = Some bs \<and> f bs s = (Inr y, t))"
  by (cases "s p") (simp_all add: io_bind_def)

lemma io_bind_size_iff [io_iffs]:
  "io_bind (file_size p) f s = (Inr y, t) \<longleftrightarrow> (\<exists>bs. s p = Some bs \<and> f (length bs) s = (Inr y, t))"
  by (cases "s p") (simp_all add: io_bind_def)

lemma io_bind_text_iff [io_iffs]:
  "io_bind (read_text p) f s = (Inr y, t) \<longleftrightarrow>
     (\<exists>bs x. s p = Some bs \<and> ascii_decode bs = Inr x \<and> f x s = (Inr y, t))"
  by (cases "s p"; cases "ascii_decode (the (s p))") (simp_all add: io_bind_def read_text_app)

lemma io_raise_iff [io_iffs]: "io_raise e s = (Inr y, t) \<longleftrightarrow> False"
  by simp

lemma io_if_iff [io_iffs]:
  "(if b then m else n) s = (Inr y, t) \<longleftrightarrow> (if b then m s = (Inr y, t) else n s = (Inr y, t))"
  by simp

text \<open>ASCII text written to a file reads back unchanged.\<close>

definition is_ascii :: "string \<Rightarrow> bool" where
  "is_ascii s = list_all (\<lambda>c. cp c < 128) s"

lemma ascii_roundtrip: "is_ascii s \<Longrightarrow> ascii_decode (ascii_encode s) = Inr s"
proof -
  assume a: "is_ascii s"
  have u: "unat (word_of_nat (cp c) :: byte) = cp c" if "c \<in> set s" for c
  proof -
    from a that have "cp c < 128" by (auto simp: is_ascii_def list_all_iff)
    then show ?thesis by (simp add: unsigned_of_nat take_bit_eq_mod)
  qed
  then have "list_all (\<lambda>b. unat b < 128) (ascii_encode s)"
    using a by (auto simp: ascii_encode_def list_all_iff is_ascii_def)
  moreover have "map (\<lambda>b. char_of (unat b)) (ascii_encode s) = s"
    using u by (auto simp: ascii_encode_def cp_def intro!: map_idI)
  ultimately show ?thesis by (simp add: ascii_decode_def)
qed

lemma is_ascii_append [simp]: "is_ascii (s @ t) \<longleftrightarrow> is_ascii s \<and> is_ascii t"
  by (simp add: is_ascii_def)

lemma is_ascii_digits: "list_all is_digit s \<Longrightarrow> is_ascii s"
  by (auto simp: is_ascii_def list_all_iff is_digit_def)

text \<open>\<^verbatim>\<open>directory / name\<close>.\<close>

definition in_dir :: "string \<Rightarrow> string \<Rightarrow> string" where
  "in_dir dir name = dir @ ''/'' @ name"

lemma in_dir_neq:
  assumes "last (butlast x) \<noteq> last (butlast y)" "1 < length x" "1 < length y"
  shows "in_dir d x \<noteq> in_dir e y"
proof
  assume a: "in_dir d x = in_dir e y"
  have "last (butlast (u @ v)) = last (butlast v)" if "1 < length v" for u v :: string
    using that by (cases v rule: rev_cases) (auto simp: butlast_append split: if_splits)
  with a assms show False unfolding in_dir_def by (metis append_assoc)
qed

end
