(* ===== verification/ExpertStore.thy ===== *)
theory ExpertStore
  imports FileIO "HOL-Library.Product_Lexorder"
begin

text \<open>
  The expert store on disk: header and record formats of \<^verbatim>\<open>experts.idx\<close> (shared by every packer), the
  checked index reader and the mask files of \<^verbatim>\<open>tools/compact_expert_store.py\<close>.
\<close>

section \<open>Header and records\<close>

text \<open>\<^verbatim>\<open>HDR = struct.Struct("<8sIIIIIIQQ")\<close>, \<^verbatim>\<open>REC = struct.Struct("<IIQQQQQQQQQ")\<close>.\<close>

record xhdr =
  h_magic :: bytes
  h_version :: nat
  h_align :: nat
  h_n_layers :: nat
  h_n_experts :: nat
  h_n_records :: nat
  h_dtype :: nat
  h_records_offset :: nat
  h_data_bytes :: nat

record xrec =
  r_layer :: nat
  r_expert :: nat
  r_offset :: nat
  r_read :: nat
  r_payload :: nat
  r_gate_off :: nat
  r_gate_len :: nat
  r_up_off :: nat
  r_up_len :: nat
  r_down_off :: nat
  r_down_len :: nat

definition MAGIC :: bytes where
  "MAGIC = ascii_encode ''KVLXPRT1''"

definition VERSION :: nat where "VERSION = 1"
definition DTYPE_Q8_ROW :: nat where "DTYPE_Q8_ROW = 3"
definition HDR_SIZE :: nat where "HDR_SIZE = 48"
definition REC_SIZE :: nat where "REC_SIZE = 80"
definition CHUNK :: nat where "CHUNK = 1024 * 1024"

definition hdr_widths :: "nat list" where
  "hdr_widths = [4, 4, 4, 4, 4, 4, 8, 8]"

definition rec_widths :: "nat list" where
  "rec_widths = [4, 4, 8, 8, 8, 8, 8, 8, 8, 8, 8]"

definition hdr_values :: "xhdr \<Rightarrow> nat list" where
  "hdr_values h = [h_version h, h_align h, h_n_layers h, h_n_experts h, h_n_records h, h_dtype h,
                   h_records_offset h, h_data_bytes h]"

definition rec_values :: "xrec \<Rightarrow> nat list" where
  "rec_values r = [r_layer r, r_expert r, r_offset r, r_read r, r_payload r, r_gate_off r,
                   r_gate_len r, r_up_off r, r_up_len r, r_down_off r, r_down_len r]"

text \<open>\<^verbatim>\<open>8s\<close> pads or truncates its argument to eight bytes.\<close>

definition HDR_pack :: "xhdr \<Rightarrow> bytes res" where
  "HDR_pack h = rmap (\<lambda>bs. take 8 (h_magic h @ replicate 8 0) @ bs) (pack_fields hdr_widths (hdr_values h))"

definition HDR_unpack :: "bytes \<Rightarrow> xhdr" where
  "HDR_unpack bs = (let v = unpack_fields hdr_widths (drop 8 bs) in
     \<lparr> h_magic = take 8 bs, h_version = v ! 0, h_align = v ! 1, h_n_layers = v ! 2,
       h_n_experts = v ! 3, h_n_records = v ! 4, h_dtype = v ! 5, h_records_offset = v ! 6,
       h_data_bytes = v ! 7 \<rparr>)"

definition REC_pack :: "xrec \<Rightarrow> bytes res" where
  "REC_pack r = pack_fields rec_widths (rec_values r)"

definition REC_unpack :: "bytes \<Rightarrow> xrec" where
  "REC_unpack bs = (let v = unpack_fields rec_widths bs in
     \<lparr> r_layer = v ! 0, r_expert = v ! 1, r_offset = v ! 2, r_read = v ! 3, r_payload = v ! 4,
       r_gate_off = v ! 5, r_gate_len = v ! 6, r_up_off = v ! 7, r_up_len = v ! 8,
       r_down_off = v ! 9, r_down_len = v ! 10 \<rparr>)"

definition hdr_fits :: "xhdr \<Rightarrow> bool" where
  "hdr_fits h = (length (h_magic h) = 8 \<and> fields_fit hdr_widths (hdr_values h))"

definition rec_fits :: "xrec \<Rightarrow> bool" where
  "rec_fits r = fields_fit rec_widths (rec_values r)"

lemma sum_hdr_widths [simp]: "sum_list hdr_widths = 40"
  by (simp add: hdr_widths_def)

lemma sum_rec_widths [simp]: "sum_list rec_widths = 80"
  by (simp add: rec_widths_def)

lemma length_MAGIC [simp]: "length MAGIC = 8"
  by (simp add: MAGIC_def ascii_encode_def)

text \<open>A header with any eight-byte magic unpacks to itself; records likewise.\<close>

lemma HDR_unpack_pack:
  assumes "HDR_pack h = Inr bs" "length (h_magic h) = 8"
  shows "length bs = HDR_SIZE \<and> HDR_unpack bs = h"
proof -
  from assms obtain b where b: "pack_fields hdr_widths (hdr_values h) = Inr b" "bs = h_magic h @ b"
    by (auto simp: HDR_pack_def rmap_eq_Inr)
  have v: "unpack_fields hdr_widths b = hdr_values h"
    using unpack_pack_fields [OF b(1), of "[]"] by simp
  have "length b = 40" using pack_fields_length [OF b(1)] by simp
  then show ?thesis
    using assms(2) by (simp add: HDR_unpack_def b(2) v hdr_values_def HDR_SIZE_def)
qed

lemma REC_unpack_pack:
  assumes "REC_pack r = Inr bs"
  shows "length bs = REC_SIZE \<and> REC_unpack bs = r"
proof -
  have v: "unpack_fields rec_widths bs = rec_values r"
    using unpack_pack_fields [of rec_widths "rec_values r" bs "[]"] assms by (simp add: REC_pack_def)
  have "length bs = 80" using pack_fields_length assms by (fastforce simp: REC_pack_def)
  then show ?thesis by (simp add: REC_unpack_def v rec_values_def REC_SIZE_def)
qed

lemma REC_pack_fits: "rec_fits r \<Longrightarrow> \<exists>bs. REC_pack r = Inr bs"
  by (simp add: rec_fits_def REC_pack_def pack_fields_fit)

interpretation rec_codec: codec REC_pack REC_unpack REC_SIZE rec_fits
  by unfold_locales (simp_all add: REC_pack_fits REC_unpack_pack)

lemma REC_unpack_fits: "length bs = REC_SIZE \<Longrightarrow> rec_fits (REC_unpack bs)"
proof -
  assume l: "length bs = REC_SIZE"
  define v where "v = unpack_fields rec_widths bs"
  have f: "fields_fit rec_widths v"
    unfolding v_def using l by (intro unpack_fields_fit) (simp add: REC_SIZE_def)
  have "length v = Suc (Suc (Suc (Suc (Suc (Suc (Suc (Suc (Suc (Suc (Suc 0))))))))))"
    by (simp add: v_def rec_widths_def)
  then have "rec_values (REC_unpack bs) = v"
    by (auto simp: rec_values_def REC_unpack_def v_def [symmetric] Let_def length_Suc_conv)
  with f show ?thesis by (simp add: rec_fits_def)
qed

section \<open>Reading an index\<close>

type_synonym expert_id = "nat \<times> nat"

definition rec_id :: "xrec \<Rightarrow> expert_id" where
  "rec_id r = (r_layer r, r_expert r)"

record index_meta =
  m_header :: xhdr
  m_n_layers :: nat
  m_n_experts :: nat
  m_n_records :: nat
  m_data_bytes :: nat
  m_records :: "xrec list"
  m_ids :: "expert_id set"

fun read_records ::
  "nat \<Rightarrow> nat \<Rightarrow> bytes \<Rightarrow> nat \<Rightarrow> nat \<Rightarrow> expert_id set \<Rightarrow> (xrec list \<times> expert_id set) res" where
  "read_records n_layers n_experts raw pos 0 seen = Inr ([], seen)"
| "read_records n_layers n_experts raw pos (Suc n) seen =
     rbind (unpack_at REC_unpack REC_SIZE raw pos) (\<lambda>r.
       if n_layers \<le> r_layer r \<or> n_experts \<le> r_expert r
       then Inl (ValueError ''record id out of range'')
       else if rec_id r \<in> seen then Inl (ValueError ''duplicate record'')
       else if r_read r = 0 \<or> r_read r mod ALIGN \<noteq> 0
       then Inl (ValueError ''record read_bytes not aligned'')
       else if r_offset r mod ALIGN \<noteq> 0
       then Inl (ValueError ''record file_offset not aligned'')
       else rmap (\<lambda>(rs, ids). (r # rs, ids))
              (read_records n_layers n_experts raw (pos + REC_SIZE) n (insert (rec_id r) seen)))"

definition read_index :: "bytes \<Rightarrow> index_meta res" where
  "read_index raw =
     (if length raw < HDR_SIZE then Inl (ValueError ''truncated header'')
      else let h = HDR_unpack (take HDR_SIZE raw) in
        if h_magic h \<noteq> MAGIC \<or> h_version h \<noteq> VERSION
        then Inl (ValueError ''unsupported expert index'')
        else if h_align h \<noteq> ALIGN \<or> h_dtype h \<noteq> DTYPE_Q8_ROW \<or> h_records_offset h \<noteq> HDR_SIZE
        then Inl (ValueError ''incompatible Q8 store header'')
        else if length raw \<noteq> h_records_offset h + h_n_records h * REC_SIZE
        then Inl (ValueError ''size mismatch'')
        else rmap (\<lambda>(rs, ids). \<lparr> m_header = h, m_n_layers = h_n_layers h, m_n_experts = h_n_experts h,
               m_n_records = h_n_records h, m_data_bytes = h_data_bytes h, m_records = rs, m_ids = ids \<rparr>)
             (read_records (h_n_layers h) (h_n_experts h) raw (h_records_offset h) (h_n_records h) {}))"

text \<open>What the reader guarantees of the records it accepts.\<close>

definition records_ok :: "nat \<Rightarrow> nat \<Rightarrow> xrec list \<Rightarrow> bool" where
  "records_ok n_layers n_experts rs =
     (distinct (map rec_id rs) \<and>
      list_all (\<lambda>r. r_layer r < n_layers \<and> r_expert r < n_experts \<and> 0 < r_read r
                    \<and> ALIGN dvd r_read r \<and> ALIGN dvd r_offset r) rs)"

lemma read_records_iff:
  "read_records nl ne raw pos n seen = Inr (rs, ids) \<longleftrightarrow>
     unpack_table REC_unpack REC_SIZE raw pos n = Inr rs \<and> records_ok nl ne rs \<and>
     rec_id ` set rs \<inter> seen = {} \<and> ids = seen \<union> rec_id ` set rs"
proof (induction n arbitrary: pos seen rs ids)
  case 0
  then show ?case by (auto simp: records_ok_def)
next
  case (Suc n)
  show ?case
  proof (cases rs)
    case Nil
    then show ?thesis by (auto simp: rbind_eq_Inr rmap_eq_Inr split: if_splits)
  next
    case (Cons r rs')
    have step: "read_records nl ne raw pos (Suc n) seen = Inr (rs, ids) \<longleftrightarrow>
        unpack_at REC_unpack REC_SIZE raw pos = Inr r \<and> r_layer r < nl \<and> r_expert r < ne \<and>
        rec_id r \<notin> seen \<and> 0 < r_read r \<and> ALIGN dvd r_read r \<and> ALIGN dvd r_offset r \<and>
        read_records nl ne raw (pos + REC_SIZE) n (insert (rec_id r) seen) = Inr (rs', ids)"
      by (cases "unpack_at REC_unpack REC_SIZE raw pos")
        (auto simp: Cons rmap_eq_Inr dvd_eq_mod_eq_0 not_le)
    have tab: "unpack_table REC_unpack REC_SIZE raw pos (Suc n) = Inr rs \<longleftrightarrow>
        unpack_at REC_unpack REC_SIZE raw pos = Inr r \<and>
        unpack_table REC_unpack REC_SIZE raw (pos + REC_SIZE) n = Inr rs'"
      by (cases "unpack_at REC_unpack REC_SIZE raw pos") (auto simp: Cons rmap_eq_Inr)
    have ok: "records_ok nl ne rs \<longleftrightarrow> r_layer r < nl \<and> r_expert r < ne \<and> 0 < r_read r \<and>
        ALIGN dvd r_read r \<and> ALIGN dvd r_offset r \<and> rec_id r \<notin> rec_id ` set rs' \<and> records_ok nl ne rs'"
      by (auto simp: Cons records_ok_def)
    have ids: "ids = insert (rec_id r) seen \<union> rec_id ` set rs' \<longleftrightarrow> ids = seen \<union> rec_id ` set rs"
      by (simp add: Cons)
    have disj: "rec_id r \<notin> seen \<and> rec_id ` set rs' \<inter> insert (rec_id r) seen = {} \<longleftrightarrow>
        rec_id r \<notin> rec_id ` set rs' \<and> rec_id ` set rs \<inter> seen = {}"
      by (auto simp: Cons)
    show ?thesis
      unfolding step tab ok Suc.IH ids using disj by satx
  qed
qed

lemma read_index_InrD:
  assumes "read_index raw = Inr m"
  shows "records_ok (m_n_layers m) (m_n_experts m) (m_records m)"
    and "m_ids m = rec_id ` set (m_records m)"
    and "length (m_records m) = m_n_records m"
    and "list_all rec_fits (m_records m)"
    and "length raw = HDR_SIZE + REC_SIZE * m_n_records m"
    and "m_n_layers m < 2 ^ 32 \<and> m_n_experts m < 2 ^ 32 \<and> m_n_records m < 2 ^ 32"
proof -
  define h where "h = HDR_unpack (take HDR_SIZE raw)"
  obtain rs ids where len: "HDR_SIZE \<le> length raw"
    and size: "length raw = h_records_offset h + h_n_records h * REC_SIZE" "h_records_offset h = HDR_SIZE"
    and rr: "read_records (h_n_layers h) (h_n_experts h) raw (h_records_offset h) (h_n_records h) {} = Inr (rs, ids)"
    and m: "m = \<lparr> m_header = h, m_n_layers = h_n_layers h, m_n_experts = h_n_experts h,
               m_n_records = h_n_records h, m_data_bytes = h_data_bytes h, m_records = rs, m_ids = ids \<rparr>"
    using assms unfolding read_index_def h_def [symmetric] Let_def
    by (auto simp: rmap_eq_Inr split: if_splits)
  note tab = rr [unfolded read_records_iff]
  show "records_ok (m_n_layers m) (m_n_experts m) (m_records m)"
    and "m_ids m = rec_id ` set (m_records m)" using tab by (auto simp: m)
  show "length (m_records m) = m_n_records m"
    using tab unpack_table_length by (fastforce simp: m)
  have "unpack_table REC_unpack REC_SIZE raw pos n = Inr rs' \<Longrightarrow> list_all rec_fits rs'" for pos n rs'
    by (induction n arbitrary: pos rs')
      (auto simp: rbind_eq_Inr rmap_eq_Inr unpack_at_def REC_unpack_fits split: if_splits)
  then show "list_all rec_fits (m_records m)" using tab by (auto simp: m)
  show "length raw = HDR_SIZE + REC_SIZE * m_n_records m"
    using size by (simp add: m)
  have "fields_fit hdr_widths (unpack_fields hdr_widths (drop 8 (take HDR_SIZE raw)))"
    using len by (intro unpack_fields_fit) (simp add: HDR_SIZE_def)
  then show "m_n_layers m < 2 ^ 32 \<and> m_n_experts m < 2 ^ 32 \<and> m_n_records m < 2 ^ 32"
    by (simp add: m h_def HDR_unpack_def hdr_widths_def fields_fit_def Let_def)
qed

text \<open>An index written from a well-formed header and records reads back.\<close>

lemma read_index_written:
  assumes hp: "HDR_pack h = Inr hb" and w: "write_all REC_pack hb rs = (file, None)"
    and h: "h = \<lparr> h_magic = MAGIC, h_version = VERSION, h_align = ALIGN, h_n_layers = nl, h_n_experts = ne,
               h_n_records = length rs, h_dtype = DTYPE_Q8_ROW, h_records_offset = HDR_SIZE, h_data_bytes = db \<rparr>"
    and fits: "list_all rec_fits rs" and ok: "records_ok nl ne rs"
  shows "read_index file = Inr \<lparr> m_header = h, m_n_layers = nl, m_n_experts = ne, m_n_records = length rs,
           m_data_bytes = db, m_records = rs, m_ids = rec_id ` set rs \<rparr>"
proof -
  have hu: "length hb = HDR_SIZE" "HDR_unpack hb = h"
    using HDR_unpack_pack [OF hp] by (simp_all add: h)
  have t: "length file = HDR_SIZE + REC_SIZE * length rs" "take HDR_SIZE file = hb"
    "unpack_table REC_unpack REC_SIZE file HDR_SIZE (length rs) = Inr rs"
    using rec_codec.table_roundtrip [OF fits w] hu(1) by auto
  have "read_records nl ne file HDR_SIZE (length rs) {} = Inr (rs, rec_id ` set rs)"
    by (subst read_records_iff) (simp add: t ok)
  then show ?thesis
    by (simp add: read_index_def t(1,2) hu(2)) (simp add: h)
qed

section \<open>The store as a map\<close>

text \<open>
  What a store means to the runtime: each logical expert id has its record (up to the position of the
  payload in the data file) and the payload bytes. \<open>records_by_id\<close> is the dictionary
  \<^verbatim>\<open>{(int(r[0]), int(r[1])): r for r in records}\<close>, where a later record replaces an earlier one.
\<close>

definition records_by_id :: "xrec list \<Rightarrow> (expert_id \<rightharpoonup> xrec)" where
  "records_by_id rs = map_of (rev (map (\<lambda>r. (rec_id r, r)) rs))"

definition blob :: "bytes \<Rightarrow> xrec \<Rightarrow> bytes" where
  "blob bin r = take (r_read r) (drop (r_offset r) bin)"

definition store_view :: "xrec list \<Rightarrow> bytes \<Rightarrow> (expert_id \<rightharpoonup> xrec \<times> bytes)" where
  "store_view rs bin = (\<lambda>k. map_option (\<lambda>r. (r\<lparr>r_offset := 0\<rparr>, blob bin r)) (records_by_id rs k))"

definition read_of :: "(expert_id \<rightharpoonup> xrec) \<Rightarrow> expert_id \<Rightarrow> nat" where
  "read_of srs key = (case srs key of Some r \<Rightarrow> r_read r | None \<Rightarrow> 0)"

lemma records_by_id_Some:
  "distinct (map rec_id rs) \<Longrightarrow> records_by_id rs k = Some r \<longleftrightarrow> r \<in> set rs \<and> rec_id r = k"
proof -
  assume d: "distinct (map rec_id rs)"
  have "distinct (map fst (rev (map (\<lambda>r. (rec_id r, r)) rs)))"
    using d by (simp add: rev_map [symmetric] comp_def)
  then show ?thesis
    unfolding records_by_id_def by (subst map_of_eq_Some_iff) auto
qed

lemma records_by_id_dom: "dom (records_by_id rs) = rec_id ` set rs"
  unfolding records_by_id_def dom_map_of_conv_image_fst by force

lemma records_by_id_None: "records_by_id rs k = None \<longleftrightarrow> k \<notin> rec_id ` set rs"
  by (metis domIff records_by_id_dom)

lemma store_view_dom: "dom (store_view rs bin) = rec_id ` set rs"
  using records_by_id_dom [of rs] by (auto simp: store_view_def dom_def)

section \<open>Masks\<close>

definition mask_sidecar_path :: "string \<Rightarrow> string" where
  "mask_sidecar_path idx_path =
     (let name = rev (takeWhile (\<lambda>c. c \<noteq> CHR ''/'') (rev idx_path)) in
      if 4 < length name \<and> drop (length name - 4) name = ''.idx''
      then take (length idx_path - 4) idx_path @ ''.mask''
      else idx_path @ ''.mask'')"

definition read_mask_line :: "expert_id set \<Rightarrow> string \<Rightarrow> expert_id set res" where
  "read_mask_line disabled raw =
     (let line = py_strip (before_hash raw) in
      if line = [] then Inr disabled
      else case py_split line of
          [a, b] \<Rightarrow>
            rbind (int_res a) (\<lambda>layer. rbind (int_res b) (\<lambda>expert.
              if layer < 0 \<or> expert < 0 then Inl (ValueError ''negative layer/expert'')
              else let key = (nat layer, nat expert) in
                if key \<in> disabled then Inl (ValueError ''duplicate mask entry'')
                else Inr (insert key disabled)))
        | _ \<Rightarrow> Inl (ValueError ''expected layer expert''))"

definition read_mask :: "string \<Rightarrow> expert_id set res" where
  "read_mask text =
     rbind (foldR read_mask_line {} (splitlines text)) (\<lambda>disabled.
       if disabled = {} then Inl (ValueError ''no disabled experts'') else Inr disabled)"

definition mask_line :: "expert_id \<Rightarrow> string" where
  "mask_line k = show_nat (fst k) @ '' '' @ show_nat (snd k)"

definition mask_lines :: "expert_id set \<Rightarrow> string list" where
  "mask_lines disabled =
     [''# KVL_MOE_MASK_V1'', ''# Bound to the physically absent routed expert records.'']
     @ map mask_line (sorted_list_of_set disabled)"

definition write_mask_sidecar :: "string \<Rightarrow> expert_id set \<Rightarrow> unit io" where
  "write_mask_sidecar path disabled = write_text path (join [LF] (mask_lines disabled) @ [LF])"

lemma mask_sidecar_path_neq: "mask_sidecar_path p \<noteq> p"
proof
  assume "mask_sidecar_path p = p"
  then have "length (mask_sidecar_path p) = length p" by simp
  moreover have "length (rev (takeWhile (\<lambda>c. c \<noteq> CHR ''/'') (rev p))) \<le> length p"
    by (metis length_rev length_takeWhile_le)
  ultimately show False by (auto simp: mask_sidecar_path_def Let_def split: if_splits)
qed

lemma join_LF: "ls \<noteq> [] \<Longrightarrow> join [LF] ls @ [LF] = concat (map (\<lambda>l. l @ [LF]) ls)"
  by (induction "[LF]" ls rule: join.induct) auto

lemma foldR_mask_comments: "take 1 l = ''#'' \<Longrightarrow> read_mask_line d l = Inr d"
  by (cases l) (auto simp: read_mask_line_def before_hash_def py_strip_def)

lemma read_mask_line_entry:
  "k \<notin> d \<Longrightarrow> read_mask_line d (mask_line k) = Inr (insert k d)"
proof -
  assume k: "k \<notin> d"
  obtain a b where ab: "k = (a, b)" by (cases k)
  have sp: "is_space (CHR '' '')" by (simp add: is_space_def cp_def)
  have nh: "list_all (\<lambda>c. c \<noteq> CHR ''#'') (mask_line k)"
    using show_nat_digits [of a] show_nat_digits [of b]
    by (auto simp: mask_line_def ab list_all_iff dest!: bspec digit_not_hash)
  have bh: "before_hash (mask_line k) = mask_line k"
    using takeWhile_all [OF nh, of "[]"] by (simp add: before_hash_def)
  have hd: "\<not> is_space (hd (mask_line k))" "\<not> is_space (last (mask_line k))"
    using nonspace_show_nat [of a] nonspace_show_nat [of b]
    by (simp_all add: mask_line_def ab list_all_iff hd_append)
  then have st: "py_strip (mask_line k) = mask_line k" by (intro py_strip_id) simp
  have "py_split (mask_line k) = [show_nat a, show_nat b]"
    using py_split_word [OF _ nonspace_show_nat sp, of a "show_nat b"]
      py_split_single [OF _ nonspace_show_nat, of b] by (simp add: mask_line_def ab)
  moreover have "mask_line k \<noteq> []" by (simp add: mask_line_def)
  moreover have "(a, b) \<notin> d" using k by (simp add: ab)
  ultimately show ?thesis
    unfolding read_mask_line_def bh st Let_def by (simp add: int_res_def) (simp add: ab)
qed

lemma foldR_mask_lines:
  "distinct ks \<Longrightarrow> set ks \<inter> d = {} \<Longrightarrow> foldR read_mask_line d (map mask_line ks) = Inr (d \<union> set ks)"
  by (induction ks arbitrary: d) (auto simp: read_mask_line_entry)

lemma nobreak_mask_lines: "list_all (list_all (\<lambda>c. \<not> is_linebreak c)) (mask_lines disabled)"
proof -
  have "list_all (\<lambda>c. \<not> is_linebreak c) (mask_line k)" for k
    using nobreak_show_nat by (simp add: mask_line_def is_linebreak_def cp_def)
  moreover have "list_all (list_all (\<lambda>c. \<not> is_linebreak c))
     [''# KVL_MOE_MASK_V1'', ''# Bound to the physically absent routed expert records.'']"
    by code_simp
  ultimately show ?thesis by (auto simp: mask_lines_def list_all_iff)
qed

lemma ascii_mask_lines: "is_ascii (join [LF] (mask_lines disabled) @ [LF])"
proof -
  have "is_ascii (mask_line k)" for k
    using is_ascii_digits [OF show_nat_digits] by (simp add: mask_line_def) (simp add: is_ascii_def cp_def)
  moreover have "is_ascii ''# KVL_MOE_MASK_V1''"
    "is_ascii ''# Bound to the physically absent routed expert records.''" "is_ascii [LF]"
    by code_simp+
  ultimately have "\<forall>l \<in> set (mask_lines disabled). is_ascii (l @ [LF])"
    by (auto simp: mask_lines_def)
  then have "is_ascii (concat (map (\<lambda>l. l @ [LF]) (mask_lines disabled)))"
    by (auto simp: is_ascii_def list_all_iff)
  then show ?thesis by (subst join_LF) (simp_all add: mask_lines_def)
qed

text \<open>The sidecar is a mask file with exactly the entries it was written from.\<close>

lemma read_mask_of_lines:
  assumes "finite disabled" "disabled \<noteq> {}"
  shows "read_mask (join [LF] (mask_lines disabled) @ [LF]) = Inr disabled"
proof -
  have "splitlines (join [LF] (mask_lines disabled) @ [LF]) = mask_lines disabled"
    using splitlines_joined [OF nobreak_mask_lines [of disabled]]
    by (subst join_LF) (simp_all add: mask_lines_def)
  moreover have "foldR read_mask_line {} (mask_lines disabled) = Inr disabled"
    using foldR_mask_lines [of "sorted_list_of_set disabled" "{}"] assms(1)
    by (simp add: mask_lines_def foldR_mask_comments)
  ultimately show ?thesis using assms(2) by (simp add: read_mask_def)
qed

lemma read_mask_finite: "read_mask text = Inr d \<Longrightarrow> finite d \<and> d \<noteq> {}"
proof -
  assume "read_mask text = Inr d"
  then have f: "foldR read_mask_line {} (splitlines text) = Inr d" and "d \<noteq> {}"
    by (auto simp: read_mask_def rbind_eq_Inr split: if_splits)
  have "finite d"
    by (rule foldR_invariant [OF f])
      (auto simp: read_mask_line_def Let_def rbind_eq_Inr split: if_splits list.splits)
  with \<open>d \<noteq> {}\<close> show ?thesis by simp
qed

end
