(* ===== verification/PyFloat.thy ===== *)
theory PyFloat
  imports Complex_Main PyText
begin

text \<open>
  Python's \<open>float\<close>: IEEE binary64 with round-to-nearest-even, written out on rationals. A finite
  double is the rational it denotes; the two infinities and NaN are constructors of their own. The
  sign of zero is not kept: no routine of the tools observes it, and Python raises on division by
  either zero. Arithmetic rounds the exact result once (\<open>fl\<close>), with gradual underflow below
  \<open>2 ^ -1022\<close> and overflow to an infinity.
\<close>

datatype pyfloat = Fin rat | PosInf | NegInf | NaN

named_theorems fl_simps

section \<open>Rounding\<close>

function ilog2 :: "int \<Rightarrow> int" where
  "ilog2 n = (if n < 2 then 0 else 1 + ilog2 (n div 2))"
  by pat_completeness auto
termination
  by (relation "measure nat") auto

declare ilog2.simps [simp del]

definition pow2 :: "int \<Rightarrow> rat" where
  "pow2 e = (if 0 \<le> e then 2 ^ nat e else 1 / 2 ^ nat (- e))"

definition floor_log2 :: "rat \<Rightarrow> int" where
  "floor_log2 r = (let (a, b) = quotient_of r;
                       e = ilog2 a - ilog2 b
                   in if pow2 e \<le> r then e else e - 1)"

definition round_half_even :: "rat \<Rightarrow> int" where
  "round_half_even r = (let f = \<lfloor>r\<rfloor>; d = r - of_int f in
     if d < 1 / 2 then f else if 1 / 2 < d then f + 1 else if even f then f else f + 1)"

definition quantum :: "rat \<Rightarrow> int" where
  "quantum r = max (- 1074) (floor_log2 r - 52)"

definition rnd_pos :: "rat \<Rightarrow> rat" where
  "rnd_pos r = of_int (round_half_even (r / pow2 (quantum r))) * pow2 (quantum r)"

definition rnd :: "rat \<Rightarrow> rat" where
  "rnd r = (if r = 0 then 0 else if 0 < r then rnd_pos r else - rnd_pos (- r))"

text \<open>The result overflows when it needs an exponent above 1023.\<close>

definition fl :: "rat \<Rightarrow> pyfloat" where
  "fl r = (let x = rnd r in
     if x \<noteq> 0 \<and> 1024 \<le> floor_log2 \<bar>x\<bar> then (if 0 < x then PosInf else NegInf) else Fin x)"

subsection \<open>Powers and logarithms of two\<close>

lemma ilog2_nonneg: "0 \<le> ilog2 n"
proof (induction n rule: ilog2.induct)
  case (1 n)
  then show ?case by (subst ilog2.simps) simp
qed

lemma pow2_pos [simp]: "0 < pow2 e"
  by (simp add: pow2_def)

lemma pow2_nonzero [simp]: "pow2 e \<noteq> 0"
  using pow2_pos [of e] by linarith

lemma pow2_powi: "pow2 e = 2 powi e"
  by (simp add: pow2_def power_int_def power_one_over inverse_eq_divide)

lemma pow2_add: "pow2 (a + b) = pow2 a * pow2 b"
  by (simp add: pow2_powi power_int_add)

lemma pow2_diff: "pow2 (a - b) = pow2 a / pow2 b"
  by (simp add: pow2_powi power_int_diff)

lemma pow2_mono: "a \<le> b \<Longrightarrow> pow2 a \<le> pow2 b"
  by (simp add: pow2_powi power_int_increasing)

lemma pow2_less_iff: "pow2 a < pow2 b \<longleftrightarrow> a < b"
proof
  show "pow2 a < pow2 b \<Longrightarrow> a < b" using pow2_mono [of b a] by linarith
  show "a < b \<Longrightarrow> pow2 a < pow2 b" by (simp add: pow2_powi power_int_strict_increasing)
qed

lemma pow2_of_nat: "pow2 (int n) = 2 ^ n"
  by (simp add: pow2_def)

lemma pow2_is_int: "0 \<le> e \<Longrightarrow> \<exists>z. pow2 e = of_int z"
  by (intro exI [of _ "2 ^ nat e"]) (simp add: pow2_def)

lemma ilog2_bounds_int: "0 < n \<Longrightarrow> 2 ^ nat (ilog2 n) \<le> n \<and> n < 2 ^ Suc (nat (ilog2 n))"
proof (induction n rule: ilog2.induct)
  case (1 n)
  show ?case
  proof (cases "n < 2")
    case True
    with 1 have "n = 1" by simp
    then show ?thesis by (simp add: ilog2.simps)
  next
    case False
    with 1 have IH: "2 ^ nat (ilog2 (n div 2)) \<le> n div 2 \<and> n div 2 < 2 ^ Suc (nat (ilog2 (n div 2)))"
      by auto
    have "nat (ilog2 n) = Suc (nat (ilog2 (n div 2)))"
      using False ilog2_nonneg [of "n div 2"] by (simp add: ilog2.simps [of n] nat_add_distrib)
    then have P: "(2::int) ^ nat (ilog2 n) = 2 * 2 ^ nat (ilog2 (n div 2))" by simp
    from IH have "(2::int) ^ nat (ilog2 (n div 2)) \<le> n div 2"
      "n div 2 < 2 * 2 ^ nat (ilog2 (n div 2))" by auto
    then have "2 * (2::int) ^ nat (ilog2 (n div 2)) \<le> n" "n < 4 * 2 ^ nat (ilog2 (n div 2))"
      by linarith+
    then show ?thesis using P by simp
  qed
qed

lemma ilog2_bounds: "0 < n \<Longrightarrow> pow2 (ilog2 n) \<le> of_int n \<and> of_int n < pow2 (ilog2 n + 1)"
proof -
  assume n: "0 < n"
  define k where "k = nat (ilog2 n)"
  have k: "ilog2 n = int k" using ilog2_nonneg [of n] by (simp add: k_def)
  have "(of_int (2 ^ k) :: rat) \<le> of_int n" "(of_int n :: rat) < of_int (2 ^ Suc k)"
    using ilog2_bounds_int [OF n] unfolding k_def [symmetric] of_int_le_iff of_int_less_iff by auto
  moreover have "pow2 (ilog2 n) = of_int (2 ^ k)" "pow2 (ilog2 n + 1) = of_int (2 ^ Suc k)"
    using pow2_of_nat [of k] pow2_of_nat [of "Suc k"] by (simp_all add: k add.commute)
  ultimately show ?thesis by simp
qed

lemma floor_log2_spec:
  assumes "0 < r"
  shows "pow2 (floor_log2 r) \<le> r \<and> r < pow2 (floor_log2 r + 1)"
proof -
  obtain a b where q: "quotient_of r = (a, b)" by (cases "quotient_of r")
  have b: "0 < b" using quotient_of_denom_pos [OF q] .
  have r: "r = of_int a / of_int b" using quotient_of_div [OF q] .
  have a: "0 < a" using assms b by (simp add: r zero_less_divide_iff)
  define i j where "i = ilog2 a" and "j = ilog2 b"
  note A = ilog2_bounds [OF a, folded i_def]
  note B = ilog2_bounds [OF b, folded j_def]
  have "pow2 i / pow2 (j + 1) \<le> of_int a / of_int b"
    using A B a b by (intro frac_le) (auto simp: less_imp_le)
  then have lo: "pow2 (i - j - 1) \<le> r"
    using pow2_diff [of i "j + 1"] by (simp add: r algebra_simps)
  have "of_int a / of_int b < pow2 (i + 1) / pow2 j"
    using A B a by (intro frac_less) auto
  then have hi: "r < pow2 (i - j + 1)"
    using pow2_diff [of "i + 1" j] by (simp add: r algebra_simps)
  show ?thesis
    using lo hi by (auto simp: floor_log2_def q i_def [symmetric] j_def [symmetric] Let_def)
qed

lemma floor_log2_mono:
  assumes "0 < r" "r \<le> s"
  shows "floor_log2 r \<le> floor_log2 s"
proof -
  have "pow2 (floor_log2 r) < pow2 (floor_log2 s + 1)"
    using floor_log2_spec [of r] floor_log2_spec [of s] assms by linarith
  then show ?thesis by (simp add: pow2_less_iff)
qed

subsection \<open>Rounding is monotone\<close>

lemma round_half_even_of_int [simp]: "round_half_even (of_int z) = z"
  by (simp add: round_half_even_def)

lemma round_half_even_bounds: "\<lfloor>r\<rfloor> \<le> round_half_even r \<and> round_half_even r \<le> \<lfloor>r\<rfloor> + 1"
  by (simp add: round_half_even_def Let_def)

lemma round_half_even_mono:
  assumes "r \<le> s"
  shows "round_half_even r \<le> round_half_even s"
proof (cases "\<lfloor>r\<rfloor> = \<lfloor>s\<rfloor>")
  case True
  then show ?thesis using assms by (auto simp: round_half_even_def Let_def)
next
  case False
  then have "\<lfloor>r\<rfloor> + 1 \<le> \<lfloor>s\<rfloor>" using floor_mono [OF assms] by linarith
  then show ?thesis using round_half_even_bounds [of r] round_half_even_bounds [of s] by linarith
qed

lemma round_half_even_le: "r \<le> of_int z \<Longrightarrow> round_half_even r \<le> z"
  using round_half_even_mono [of r "of_int z"] by simp

lemma round_half_even_ge: "of_int z \<le> r \<Longrightarrow> z \<le> round_half_even r"
  using round_half_even_mono [of "of_int z" r] by simp

text \<open>A power of two on the grid is a fixed bound of rounding.\<close>

lemma rnd_pos_le_pow2:
  assumes "r \<le> pow2 e" "quantum r \<le> e"
  shows "rnd_pos r \<le> pow2 e"
proof -
  obtain z where z: "pow2 (e - quantum r) = of_int z" using pow2_is_int assms(2) by fastforce
  have "r / pow2 (quantum r) \<le> of_int z"
    using assms(1) by (simp add: z [symmetric] pow2_diff divide_right_mono less_imp_le)
  then have "round_half_even (r / pow2 (quantum r)) \<le> z" by (rule round_half_even_le)
  then have "rnd_pos r \<le> of_int z * pow2 (quantum r)"
    by (simp add: rnd_pos_def mult_right_mono less_imp_le)
  then show ?thesis by (simp add: z [symmetric] pow2_diff)
qed

lemma rnd_pos_ge_pow2:
  assumes "pow2 e \<le> r" "quantum r \<le> e"
  shows "pow2 e \<le> rnd_pos r"
proof -
  obtain z where z: "pow2 (e - quantum r) = of_int z" using pow2_is_int assms(2) by fastforce
  have "of_int z \<le> r / pow2 (quantum r)"
    using assms(1) by (simp add: z [symmetric] pow2_diff divide_right_mono less_imp_le)
  then have "z \<le> round_half_even (r / pow2 (quantum r))" by (rule round_half_even_ge)
  then have "of_int z * pow2 (quantum r) \<le> rnd_pos r"
    by (simp add: rnd_pos_def mult_right_mono less_imp_le)
  then show ?thesis by (simp add: z [symmetric] pow2_diff)
qed

lemma rnd_pos_nonneg: "0 < r \<Longrightarrow> 0 \<le> rnd_pos r"
proof -
  assume "0 < r"
  then have "of_int 0 \<le> r / pow2 (quantum r)" by (simp add: less_imp_le)
  then have "0 \<le> round_half_even (r / pow2 (quantum r))" by (rule round_half_even_ge)
  then show ?thesis by (simp add: rnd_pos_def less_imp_le)
qed

lemma rnd_pos_mono:
  assumes "0 < r" "r \<le> s"
  shows "rnd_pos r \<le> rnd_pos s"
proof (cases "quantum r = quantum s")
  case True
  have "round_half_even (r / pow2 (quantum s)) \<le> round_half_even (s / pow2 (quantum s))"
    using assms(2) by (intro round_half_even_mono) (simp add: divide_right_mono less_imp_le)
  then show ?thesis by (simp add: rnd_pos_def True mult_right_mono less_imp_le)
next
  case False
  have mono: "floor_log2 r \<le> floor_log2 s" using floor_log2_mono assms by blast
  with False have q: "quantum r < quantum s" "quantum s = floor_log2 s - 52"
    "floor_log2 r + 1 \<le> floor_log2 s"
    by (auto simp: quantum_def max_def split: if_splits)
  define B where "B = floor_log2 s"
  have "r \<le> pow2 B"
    using floor_log2_spec [OF assms(1)] pow2_mono [OF q(3)] unfolding B_def by linarith
  then have "rnd_pos r \<le> pow2 B" using q by (intro rnd_pos_le_pow2) (auto simp: B_def)
  moreover have "pow2 B \<le> s" using floor_log2_spec [of s] assms unfolding B_def by linarith
  then have "pow2 B \<le> rnd_pos s" using q by (intro rnd_pos_ge_pow2) (auto simp: B_def)
  ultimately show ?thesis by linarith
qed

lemma rnd_0 [simp, fl_simps]: "rnd 0 = 0"
  by (simp add: rnd_def)

lemma rnd_minus: "rnd (- r) = - rnd r"
  by (simp add: rnd_def)

lemma rnd_nonneg: "0 \<le> r \<Longrightarrow> 0 \<le> rnd r"
  by (simp add: rnd_def rnd_pos_nonneg)

lemma rnd_mono: "r \<le> s \<Longrightarrow> rnd r \<le> rnd s"
proof -
  assume le: "r \<le> s"
  consider "0 < r" | "r \<le> 0" "0 \<le> s" | "s < 0" by linarith
  then show ?thesis
  proof cases
    case 1
    then show ?thesis using le by (simp add: rnd_def rnd_pos_mono)
  next
    case 2
    have "rnd r \<le> 0" using rnd_nonneg [of "- r"] 2(1) by (simp add: rnd_minus)
    then show ?thesis using rnd_nonneg [OF 2(2)] by linarith
  next
    case 3
    then have "rnd_pos (- s) \<le> rnd_pos (- r)" using le by (intro rnd_pos_mono) auto
    then show ?thesis using 3 le by (simp add: rnd_def)
  qed
qed

text \<open>A rational on its own grid is rounded to itself: doubles, and integers up to \<open>2 ^ 53\<close>.\<close>

lemma rnd_pos_grid: "r = of_int z * pow2 (quantum r) \<Longrightarrow> rnd_pos r = r"
proof -
  assume r: "r = of_int z * pow2 (quantum r)"
  then have "r / pow2 (quantum r) = of_int z"
    by (metis nonzero_mult_div_cancel_right pow2_nonzero)
  then show ?thesis using r by (simp add: rnd_pos_def)
qed

lemma rnd_of_nat: "n < 2 ^ 53 \<Longrightarrow> rnd (of_nat n) = of_nat n"
proof (cases "n = 0")
  case True
  then show ?thesis by simp
next
  case False
  assume n: "n < 2 ^ 53"
  let ?r = "of_nat n :: rat"
  have r: "0 < ?r" using False by simp
  have "pow2 (floor_log2 ?r) < pow2 53"
  proof -
    have "?r < of_nat (2 ^ 53)" using n of_nat_less_iff by blast
    then show ?thesis using floor_log2_spec [OF r] by (simp add: pow2_def)
  qed
  then have q: "quantum ?r \<le> 0" by (simp add: pow2_less_iff quantum_def)
  then obtain z where z: "pow2 (- quantum ?r) = of_int z" using pow2_is_int by fastforce
  have "?r = of_int (int n * z) * pow2 (quantum ?r)"
    by (simp add: z [symmetric] mult.assoc flip: pow2_add) (simp add: pow2_def)
  then have "rnd_pos ?r = ?r" by (rule rnd_pos_grid)
  then show ?thesis using r by (simp add: rnd_def)
qed


section \<open>Comparisons\<close>

fun fle :: "pyfloat \<Rightarrow> pyfloat \<Rightarrow> bool" where
  "fle NaN y = False"
| "fle x NaN = False"
| "fle NegInf y = True"
| "fle x PosInf = True"
| "fle (Fin a) (Fin b) = (a \<le> b)"
| "fle x y = False"

definition flt :: "pyfloat \<Rightarrow> pyfloat \<Rightarrow> bool" where
  "flt x y = (fle x y \<and> \<not> fle y x)"

definition feq :: "pyfloat \<Rightarrow> pyfloat \<Rightarrow> bool" where
  "feq x y = (fle x y \<and> fle y x)"

definition is_finite :: "pyfloat \<Rightarrow> bool" where
  "is_finite x = (case x of Fin r \<Rightarrow> True | _ \<Rightarrow> False)"

definition is_nan :: "pyfloat \<Rightarrow> bool" where
  "is_nan x = (x = NaN)"

lemma fle_Fin [simp]: "fle (Fin a) (Fin b) \<longleftrightarrow> a \<le> b"
  by simp

lemma flt_Fin [simp]: "flt (Fin a) (Fin b) \<longleftrightarrow> a < b"
  by (auto simp: flt_def)

lemma feq_Fin [simp]: "feq (Fin a) (Fin b) \<longleftrightarrow> a = b"
  by (auto simp: feq_def)

lemma is_finite_Fin [simp]: "is_finite (Fin r)"
  by (simp add: is_finite_def)

lemma is_finite_iff: "is_finite x \<longleftrightarrow> (\<exists>r. x = Fin r)"
  by (cases x) (auto simp: is_finite_def)

lemma fle_refl: "x \<noteq> NaN \<Longrightarrow> fle x x"
  by (cases x) auto

lemma fle_trans: "fle x y \<Longrightarrow> fle y z \<Longrightarrow> fle x z"
  by (cases x; cases y; cases z) auto

lemma fle_total: "x \<noteq> NaN \<Longrightarrow> y \<noteq> NaN \<Longrightarrow> fle x y \<or> fle y x"
  by (cases x; cases y) auto

lemma fle_antisym: "fle x y \<Longrightarrow> fle y x \<Longrightarrow> x = y"
  by (cases x; cases y) auto

lemma flt_not_fle: "x \<noteq> NaN \<Longrightarrow> y \<noteq> NaN \<Longrightarrow> \<not> flt x y \<longleftrightarrow> fle y x"
  using fle_total [of x y] by (auto simp: flt_def)

lemma fle_not_NaN: "fle x y \<Longrightarrow> x \<noteq> NaN \<and> y \<noteq> NaN"
  by (cases x; cases y) auto

section \<open>Arithmetic\<close>

fun fneg :: "pyfloat \<Rightarrow> pyfloat" where
  "fneg (Fin a) = Fin (- a)"
| "fneg PosInf = NegInf"
| "fneg NegInf = PosInf"
| "fneg NaN = NaN"

fun fabs :: "pyfloat \<Rightarrow> pyfloat" where
  "fabs (Fin a) = Fin \<bar>a\<bar>"
| "fabs NaN = NaN"
| "fabs _ = PosInf"

fun fadd :: "pyfloat \<Rightarrow> pyfloat \<Rightarrow> pyfloat" where
  "fadd (Fin a) (Fin b) = fl (a + b)"
| "fadd NaN y = NaN"
| "fadd x NaN = NaN"
| "fadd PosInf NegInf = NaN"
| "fadd NegInf PosInf = NaN"
| "fadd PosInf y = PosInf"
| "fadd NegInf y = NegInf"
| "fadd (Fin a) y = y"

definition fsub :: "pyfloat \<Rightarrow> pyfloat \<Rightarrow> pyfloat" where
  "fsub x y = fadd x (fneg y)"

definition finf :: "bool \<Rightarrow> pyfloat" where
  "finf pos = (if pos then PosInf else NegInf)"

fun fmul :: "pyfloat \<Rightarrow> pyfloat \<Rightarrow> pyfloat" where
  "fmul (Fin a) (Fin b) = fl (a * b)"
| "fmul NaN y = NaN"
| "fmul x NaN = NaN"
| "fmul (Fin a) y = (if a = 0 then NaN else finf ((0 < a) = (y = PosInf)))"
| "fmul x (Fin b) = (if b = 0 then NaN else finf ((0 < b) = (x = PosInf)))"
| "fmul x y = finf (x = y)"

text \<open>Float division raises on a zero divisor, whatever the dividend.\<close>

definition fdiv :: "pyfloat \<Rightarrow> pyfloat \<Rightarrow> pyfloat res" where
  "fdiv x y = (if y = Fin 0 then Inl ZeroDivisionError else Inr (
     case (x, y) of
       (Fin a, Fin b) \<Rightarrow> fl (a / b)
     | (NaN, _) \<Rightarrow> NaN
     | (_, NaN) \<Rightarrow> NaN
     | (Fin a, _) \<Rightarrow> Fin 0
     | (_, Fin b) \<Rightarrow> finf ((0 < b) = (x = PosInf))
     | (_, _) \<Rightarrow> NaN))"

text \<open>Python's \<^verbatim>\<open>max(x, y)\<close> and \<^verbatim>\<open>min(x, y)\<close>: the first argument unless the second is strictly better.\<close>

definition fmax2 :: "pyfloat \<Rightarrow> pyfloat \<Rightarrow> pyfloat" where
  "fmax2 x y = (if flt x y then y else x)"

definition fmin2 :: "pyfloat \<Rightarrow> pyfloat \<Rightarrow> pyfloat" where
  "fmin2 x y = (if flt y x then y else x)"

text \<open>\<^verbatim>\<open>sum(xs)\<close> from zero, left to right (CPython up to 3.11, the version the repository names).\<close>

definition fsum :: "pyfloat list \<Rightarrow> pyfloat" where
  "fsum xs = foldl fadd (Fin 0) xs"

text \<open>\<^verbatim>\<open>float(n)\<close> and the true division \<^verbatim>\<open>a / b\<close> of integers: one rounding, an exception on overflow.\<close>

definition float_of_int :: "int \<Rightarrow> pyfloat res" where
  "float_of_int n = (case fl (of_int n) of Fin r \<Rightarrow> Inr (Fin r)
                     | _ \<Rightarrow> Inl (OverflowError ''int too large to convert to float''))"

definition int_truediv :: "int \<Rightarrow> int \<Rightarrow> pyfloat res" where
  "int_truediv a b = (if b = 0 then Inl ZeroDivisionError
     else case fl (of_int a / of_int b) of Fin r \<Rightarrow> Inr (Fin r)
          | _ \<Rightarrow> Inl (OverflowError ''integer division result too large for a float''))"

subsection \<open>Laws\<close>

lemma fl_not_NaN [simp]: "fl r \<noteq> NaN"
  by (simp add: fl_def Let_def)

lemma fl_0 [simp, fl_simps]: "fl 0 = Fin 0"
  by (simp add: fl_def)

lemma floor_log2_ge_iff: "0 < r \<Longrightarrow> e \<le> floor_log2 r \<longleftrightarrow> pow2 e \<le> r"
proof -
  assume r: "0 < r"
  have "e \<le> floor_log2 r" if "pow2 e \<le> r"
  proof -
    have "pow2 e < pow2 (floor_log2 r + 1)" using that floor_log2_spec [OF r] by linarith
    then show ?thesis by (simp add: pow2_less_iff)
  qed
  then show ?thesis using floor_log2_spec [OF r] pow2_mono [of e "floor_log2 r"] by fastforce
qed

lemma fl_alt:
  "fl r = (if pow2 1024 \<le> rnd r then PosInf else if rnd r \<le> - pow2 1024 then NegInf else Fin (rnd r))"
proof -
  have big: "0 < pow2 1024" by (rule pow2_pos)
  consider "rnd r = 0" | "0 < rnd r" | "rnd r < 0" by linarith
  then show ?thesis
  proof cases
    case 1
    then show ?thesis using big by (simp add: fl_def not_le)
  next
    case 2
    then show ?thesis using big floor_log2_ge_iff [of "rnd r" 1024] by (simp add: fl_def Let_def)
  next
    case 3
    then have "\<not> pow2 1024 \<le> rnd r" using big by linarith
    moreover have "1024 \<le> floor_log2 (- rnd r) \<longleftrightarrow> rnd r \<le> - pow2 1024"
      using 3 floor_log2_ge_iff [of "- rnd r" 1024] by linarith
    ultimately show ?thesis using 3 by (simp add: fl_def Let_def)
  qed
qed

lemma fl_mono: "r \<le> s \<Longrightarrow> fle (fl r) (fl s)"
  using rnd_mono [of r s] by (auto simp: fl_alt)

lemma fl_nonneg: "0 \<le> r \<Longrightarrow> fle (Fin 0) (fl r)"
  using fl_mono [of 0 r] by simp

lemma fadd_not_NaN: "x \<noteq> NaN \<Longrightarrow> is_finite y \<Longrightarrow> fadd x y \<noteq> NaN"
  by (cases x; cases y) (auto simp: is_finite_def)

lemma fadd_mono: "fle x y \<Longrightarrow> is_finite z \<Longrightarrow> fle (fadd x z) (fadd y z)"
proof -
  assume le: "fle x y" and "is_finite z"
  then obtain c where z: "z = Fin c" by (auto simp: is_finite_iff)
  have nn: "fle (fl r) PosInf" "fle NegInf (fl r)" for r
    by (cases "fl r"; simp)+
  show ?thesis using le by (cases x; cases y) (auto simp: z fl_mono nn)
qed

lemma fl_of_nat: "n < 2 ^ 53 \<Longrightarrow> fl (of_nat n) = Fin (of_nat n)"
proof -
  assume n: "n < 2 ^ 53"
  have "(of_nat n :: rat) < of_nat (2 ^ 53)" using n of_nat_less_iff by blast
  also have "\<dots> = pow2 53" by (simp add: pow2_def)
  also have "\<dots> \<le> pow2 1024" by (rule pow2_mono) simp
  finally have "\<not> pow2 1024 \<le> (of_nat n :: rat)" by linarith
  moreover have "\<not> (of_nat n :: rat) \<le> - pow2 1024" 
    using pow2_pos [of 1024] of_nat_0_le_iff [of n, where ?'a = rat] by linarith
  ultimately show ?thesis by (simp add: fl_alt rnd_of_nat [OF n])
qed

lemma fl_numeral [fl_simps]: "numeral k < (2 :: nat) ^ 53 \<Longrightarrow> fl (numeral k) = Fin (numeral k)"
  using fl_of_nat [of "numeral k"] by simp

lemma fl_1 [fl_simps]: "fl 1 = Fin 1"
  using fl_of_nat [of 1] by simp

text \<open>A quotient of naturals with the numerator at most the denominator is a fraction in [0, 1].\<close>

lemma int_truediv_fraction:
  assumes "0 \<le> a" "a \<le> b" "0 < b"
  shows "\<exists>r. int_truediv a b = Inr (Fin r) \<and> 0 \<le> r \<and> r \<le> 1"
proof -
  let ?q = "of_int a / of_int b :: rat"
  have "0 \<le> ?q" "?q \<le> 1" using assms by (auto simp: divide_le_eq_1)
  then have "fle (Fin 0) (fl ?q)" "fle (fl ?q) (fl 1)" using fl_nonneg fl_mono by blast+
  moreover have "fl 1 = Fin 1" using fl_of_nat [of 1] by simp
  ultimately obtain r where "fl ?q = Fin r" "0 \<le> r" "r \<le> 1" by (cases "fl ?q") auto
  then show ?thesis using assms by (auto simp: int_truediv_def)
qed

lemma int_truediv_bounded:
  assumes "0 \<le> a" "a \<le> int n * b" "0 < b" "n < 2 ^ 53"
  shows "\<exists>r. int_truediv a b = Inr (Fin r) \<and> 0 \<le> r \<and> r \<le> of_nat n"
proof -
  let ?q = "of_int a / of_int b :: rat"
  have "(of_int a :: rat) \<le> of_int (int n * b)" using assms(2) of_int_le_iff by blast
  then have "?q \<le> of_nat n" using assms(3) by (simp add: divide_le_eq)
  moreover have "0 \<le> ?q" using assms by simp
  ultimately have "fle (Fin 0) (fl ?q)" "fle (fl ?q) (fl (of_nat n))" using fl_nonneg fl_mono by blast+
  then obtain r where "fl ?q = Fin r" "0 \<le> r" "r \<le> of_nat n"
    using fl_of_nat [OF assms(4)] by (cases "fl ?q") auto
  then show ?thesis using assms by (auto simp: int_truediv_def)
qed

section \<open>Floats in text\<close>

text \<open>
  \<open>digit_run\<close> reads digits, with single underscores between digits, into a value and a count.
  \<open>py_float\<close> is the grammar of \<^verbatim>\<open>float(s)\<close>: sign, \<^verbatim>\<open>inf\<close>, \<^verbatim>\<open>infinity\<close>, \<^verbatim>\<open>nan\<close>, or a decimal with optional
  fraction and exponent, rounded once.
\<close>

fun digit_run :: "nat \<Rightarrow> nat \<Rightarrow> string \<Rightarrow> nat \<times> nat \<times> string" where
  "digit_run v k [] = (v, k, [])"
| "digit_run v k (c # cs) =
     (if is_digit c then digit_run (10 * v + digit_val c) (Suc k) cs
      else if c = CHR ''_'' \<and> 0 < k \<and> cs \<noteq> [] \<and> is_digit (hd cs) then digit_run v k cs
      else (v, k, c # cs))"

definition scan_exponent :: "string \<Rightarrow> int option" where
  "scan_exponent s = (case s of
     [] \<Rightarrow> Some 0
   | c # cs \<Rightarrow> if c \<noteq> CHR ''e'' then None else
       let neg = starts_with cs ''-'';
           ds = (if neg \<or> starts_with cs ''+'' then tl cs else cs);
           (v, k, rest) = digit_run 0 0 ds
       in if k = 0 \<or> rest \<noteq> [] then None else Some (if neg then - int v else int v))"

definition pow10 :: "int \<Rightarrow> rat" where
  "pow10 e = (if 0 \<le> e then 10 ^ nat e else 1 / 10 ^ nat (- e))"

definition scan_decimal :: "string \<Rightarrow> rat option" where
  "scan_decimal t =
     (let (iv, ik, r1) = digit_run 0 0 t;
          (m, fk, r2) = (if starts_with r1 ''.'' then digit_run iv 0 (tl r1) else (iv, 0, r1))
      in if ik + fk = 0 then None
         else map_option (\<lambda>e. of_nat m * pow10 (e - int fk)) (scan_exponent r2))"

definition py_float :: "string \<Rightarrow> pyfloat option" where
  "py_float s =
     (let t = py_lower (py_strip s);
          neg = starts_with t ''-'';
          u = (if neg \<or> starts_with t ''+'' then tl t else t)
      in if u = ''inf'' \<or> u = ''infinity'' then Some (finf (\<not> neg))
         else if u = ''nan'' then Some NaN
         else map_option (\<lambda>r. fl (if neg then - r else r)) (scan_decimal u))"

definition float_res :: "string \<Rightarrow> pyfloat res" where
  "float_res s = of_option (ValueError ''could not convert string to float'') (py_float s)"

end
