(* ===== verification/CompactStore.thy ===== *)
theory CompactStore
  imports ExpertStore PyFloat
begin

text \<open>
  \<^verbatim>\<open>tools/compact_expert_store.py\<close>: drop the records a mask names, copy the rest byte for byte into a
  new aligned data file, write the new index and the mask sidecar.
\<close>

section \<open>Copying one record\<close>

text \<open>
  The \<^verbatim>\<open>while remain\<close> loop over blocks of at most \<open>chunk\<close> bytes; a short source leaves what it
  copied in the destination and raises. \<^verbatim>\<open>seek\<close> refuses offsets that are not a signed 64-bit number.
\<close>

function copy_blocks :: "nat \<Rightarrow> bytes \<Rightarrow> nat \<Rightarrow> nat \<Rightarrow> bytes \<Rightarrow> bytes \<times> exn option" where
  "copy_blocks chunk src pos remain dst =
     (if remain = 0 then (dst, None)
      else let block = take (min chunk remain) (drop pos src) in
        if block = [] then (dst, Some (OSError ''short source read''))
        else copy_blocks chunk src (pos + length block) (remain - length block) (dst @ block))"
  by auto
termination by (relation "measure (\<lambda>(chunk, src, pos, remain, dst). remain)") (auto simp: Let_def)

declare copy_blocks.simps [simp del]

definition seek_error :: "nat \<Rightarrow> exn option" where
  "seek_error offset = (if offset < 2 ^ 63 then None
                        else Some (ValueError ''cannot fit 'int' into an offset-sized integer''))"

definition copy_exact :: "bytes \<Rightarrow> bytes \<Rightarrow> nat \<Rightarrow> nat \<Rightarrow> bytes \<times> exn option" where
  "copy_exact src dst offset n =
     (case seek_error offset of Some e \<Rightarrow> (dst, Some e) | None \<Rightarrow> copy_blocks CHUNK src offset n dst)"

lemma copy_blocks_enough:
  "0 < chunk \<Longrightarrow> pos + remain \<le> length src \<Longrightarrow> copy_blocks chunk src pos remain dst = (dst @ take remain (drop pos src), None)"
proof (induction chunk src pos remain dst rule: copy_blocks.induct)
  case (1 chunk src pos remain dst)
  define block where "block = take (min chunk remain) (drop pos src)"
  show ?case
  proof (cases "remain = 0")
    case True
    then show ?thesis by (subst copy_blocks.simps) simp
  next
    case False
    have len: "length block = min chunk remain" using 1(3) by (simp add: block_def)
    then have ne: "block \<noteq> []" using False 1(2) by auto
    have "copy_blocks chunk src (pos + length block) (remain - length block) (dst @ block)
        = ((dst @ block) @ take (remain - length block) (drop (pos + length block) src), None)"
      using False ne len 1(2,3) by (intro 1(1) [OF _ block_def]) auto
    moreover have "block @ take (remain - length block) (drop (pos + length block) src)
        = take remain (drop pos src)"
    proof -
      have "take remain (drop pos src) = take (length block + (remain - length block)) (drop pos src)"
        using len by simp
      also have "\<dots> = take (length block) (drop pos src)
          @ take (remain - length block) (drop (length block) (drop pos src))"
        by (rule take_add)
      also have "take (length block) (drop pos src) = block"
        using len by (simp add: block_def)
      finally show ?thesis by (simp add: add.commute)
    qed
    ultimately show ?thesis
      using False ne by (subst copy_blocks.simps) (simp add: block_def [symmetric])
  qed
qed

lemma copy_blocks_ok_enough:
  "copy_blocks chunk src pos remain dst = (out, None) \<Longrightarrow> remain = 0 \<or> pos + remain \<le> length src"
proof (induction chunk src pos remain dst rule: copy_blocks.induct)
  case (1 chunk src pos remain dst)
  define block where "block = take (min chunk remain) (drop pos src)"
  show ?case
  proof (cases "remain = 0")
    case False
    with 1(2) have ne: "block \<noteq> []"
      and rec: "copy_blocks chunk src (pos + length block) (remain - length block) (dst @ block) = (out, None)"
      by (subst (asm) copy_blocks.simps; auto simp: block_def [symmetric] Let_def split: if_splits)+
    have "remain - length block = 0 \<or> pos + length block + (remain - length block) \<le> length src"
      using 1(1) [OF False block_def ne rec] .
    moreover have "length block \<le> remain" "length block \<le> length src - pos"
      by (simp_all add: block_def)
    ultimately show ?thesis using ne by (cases block) auto
  qed simp
qed

text \<open>The copy succeeds exactly when the span lies inside the source, and then appends that span.\<close>

lemma copy_exact_iff:
  assumes "0 < n"
  shows "copy_exact src dst off n = (out, None) \<longleftrightarrow>
     off < 2 ^ 63 \<and> off + n \<le> length src \<and> out = dst @ take n (drop off src)"
  using assms copy_blocks_enough [of CHUNK off n src dst] copy_blocks_ok_enough [of CHUNK src off n dst out]
  by (auto simp: copy_exact_def seek_error_def CHUNK_def)

section \<open>The record loop\<close>

record compact_state =
  c_out :: bytes
  c_kept :: "xrec list"
  c_removed :: nat
  c_removed_bytes :: nat

fun compact_records ::
  "expert_id set \<Rightarrow> bytes \<Rightarrow> compact_state \<Rightarrow> xrec list \<Rightarrow> compact_state \<times> exn option" where
  "compact_records disabled src st [] = (st, None)"
| "compact_records disabled src st (r # rs) =
     (if rec_id r \<in> disabled
      then compact_records disabled src
             (st\<lparr>c_removed := c_removed st + 1, c_removed_bytes := c_removed_bytes st + r_read r\<rparr>) rs
      else let start = align_up (length (c_out st)) ALIGN;
               padded = pad_to ALIGN (c_out st)
           in case copy_exact src padded (r_offset r) (r_read r) of
                (out, Some e) \<Rightarrow> (st\<lparr>c_out := out\<rparr>, Some e)
              | (out, None) \<Rightarrow> compact_records disabled src
                  (st\<lparr>c_out := out, c_kept := c_kept st @ [r\<lparr>r_offset := start\<rparr>]\<rparr>) rs)"

definition compact_start :: compact_state where
  "compact_start = \<lparr> c_out = [], c_kept = [], c_removed = 0, c_removed_bytes = 0 \<rparr>"

text \<open>\<open>copied src out r r'\<close>: \<open>r'\<close> is \<open>r\<close> moved to an aligned place of \<open>out\<close> that holds its payload.\<close>

definition copied :: "bytes \<Rightarrow> bytes \<Rightarrow> xrec \<Rightarrow> xrec \<Rightarrow> bool" where
  "copied src out r r' =
     (r' = r\<lparr>r_offset := r_offset r'\<rparr> \<and> ALIGN dvd r_offset r' \<and> r_offset r < 2 ^ 63 \<and>
      r_offset r + r_read r \<le> length src \<and> r_offset r' + r_read r \<le> length out \<and>
      blob out r' = blob src r)"

lemma copied_same_fields: "copied src out r r' \<Longrightarrow> r'\<lparr>r_offset := x\<rparr> = r\<lparr>r_offset := x\<rparr>"
  by (cases r; cases r') (simp add: copied_def)

lemma copied_fields:
  "copied src out r r' \<Longrightarrow> r_layer r' = r_layer r \<and> r_expert r' = r_expert r \<and> r_read r' = r_read r
     \<and> rec_id r' = rec_id r"
  by (cases r; cases r') (simp add: copied_def rec_id_def)

lemma copied_extend: "copied src out r r' \<Longrightarrow> copied src (out @ ext) r r'"
proof -
  assume c: "copied src out r r'"
  then have "r_read r' = r_read r" using copied_fields by blast
  then show ?thesis using c by (auto simp: copied_def blob_def)
qed

lemma copied_step:
  assumes "copy_exact src (pad_to ALIGN out) (r_offset r) (r_read r) = (out', None)" "0 < r_read r"
  shows "copied src out' r (r\<lparr>r_offset := align_up (length out) ALIGN\<rparr>)"
    and "\<exists>ext. out' = out @ ext"
    and "length out' = align_up (length out) ALIGN + r_read r"
proof -
  from assms have o: "r_offset r < 2 ^ 63" "r_offset r + r_read r \<le> length src"
    "out' = pad_to ALIGN out @ take (r_read r) (drop (r_offset r) src)"
    by (auto simp: copy_exact_iff)
  define p where "p = pad_to ALIGN out"
  have l: "align_up (length out) ALIGN = length p" by (simp add: p_def)
  have "ALIGN dvd length p" unfolding l [symmetric] by simp
  then show "copied src out' r (r\<lparr>r_offset := align_up (length out) ALIGN\<rparr>)"
    using o(1,2) unfolding copied_def blob_def o(3) l p_def [symmetric] by simp
  show "\<exists>ext. out' = out @ ext" by (simp add: o(3) pad_to_def)
  show "length out' = align_up (length out) ALIGN + r_read r" using o(2) by (simp add: o(3))
qed

abbreviation kept_of :: "expert_id set \<Rightarrow> xrec list \<Rightarrow> xrec list" where
  "kept_of disabled rs \<equiv> filter (\<lambda>r. rec_id r \<notin> disabled) rs"

abbreviation dropped_of :: "expert_id set \<Rightarrow> xrec list \<Rightarrow> xrec list" where
  "dropped_of disabled rs \<equiv> filter (\<lambda>r. rec_id r \<in> disabled) rs"

lemma compact_records_ok:
  assumes "compact_records disabled src st rs = (st', None)" "list_all (\<lambda>r. 0 < r_read r) rs"
  shows "\<exists>kept ext. c_kept st' = c_kept st @ kept \<and> c_out st' = c_out st @ ext
     \<and> list_all2 (copied src (c_out st')) (kept_of disabled rs) kept
     \<and> c_removed st' = c_removed st + length (dropped_of disabled rs)
     \<and> c_removed_bytes st' = c_removed_bytes st + sum_list (map r_read (dropped_of disabled rs))"
  using assms
proof (induction rs arbitrary: st)
  case Nil
  then show ?case by simp
next
  case (Cons r rs)
  note pos = Cons.prems(2)
  show ?case
  proof (cases "rec_id r \<in> disabled")
    case True
    then have rec: "compact_records disabled src
        (st\<lparr>c_removed := c_removed st + 1, c_removed_bytes := c_removed_bytes st + r_read r\<rparr>) rs = (st', None)"
      using Cons.prems(1) by simp
    show ?thesis using Cons.IH [OF rec] pos True by auto
  next
    case False
    then obtain out' where cp: "copy_exact src (pad_to ALIGN (c_out st)) (r_offset r) (r_read r) = (out', None)"
      and rec: "compact_records disabled src (st\<lparr>c_out := out',
          c_kept := c_kept st @ [r\<lparr>r_offset := align_up (length (c_out st)) ALIGN\<rparr>]\<rparr>) rs = (st', None)"
      using Cons.prems(1) by (auto simp: Let_def split: prod.splits option.splits)
    note step = copied_step [OF cp]
    obtain kept ext where ih: "c_kept st' = (c_kept st @ [r\<lparr>r_offset := align_up (length (c_out st)) ALIGN\<rparr>]) @ kept"
      "c_out st' = out' @ ext" "list_all2 (copied src (c_out st')) (kept_of disabled rs) kept"
      "c_removed st' = c_removed st + length (dropped_of disabled rs)"
      "c_removed_bytes st' = c_removed_bytes st + sum_list (map r_read (dropped_of disabled rs))"
      using Cons.IH [OF rec] pos by auto
    have "copied src (c_out st') r (r\<lparr>r_offset := align_up (length (c_out st)) ALIGN\<rparr>)"
      unfolding ih(2) using step(1) pos by (intro copied_extend) simp
    with ih step(2) pos False show ?thesis by fastforce
  qed
qed

text \<open>The loop runs through when every kept record lies inside the source, and packs them tightly.\<close>

lemma compact_records_total:
  assumes "\<forall>r \<in> set (kept_of disabled rs). r_offset r < 2 ^ 63 \<and> r_offset r + r_read r \<le> length src"
    and "list_all (\<lambda>r. 0 < r_read r \<and> ALIGN dvd r_read r) rs" and "ALIGN dvd length (c_out st)"
  shows "\<exists>st'. compact_records disabled src st rs = (st', None)
     \<and> length (c_out st') = length (c_out st) + sum_list (map r_read (kept_of disabled rs))
     \<and> length (c_kept st') = length (c_kept st) + length (kept_of disabled rs)"
  using assms
proof (induction rs arbitrary: st)
  case Nil
  then show ?case by simp
next
  case (Cons r rs)
  show ?case
  proof (cases "rec_id r \<in> disabled")
    case True
    then show ?thesis
      using Cons.IH [of "st\<lparr>c_removed := c_removed st + 1, c_removed_bytes := c_removed_bytes st + r_read r\<rparr>"]
        Cons.prems by simp
  next
    case False
    let ?out = "pad_to ALIGN (c_out st) @ take (r_read r) (drop (r_offset r) src)"
    have cp: "copy_exact src (pad_to ALIGN (c_out st)) (r_offset r) (r_read r) = (?out, None)"
      using Cons.prems False by (simp add: copy_exact_iff)
    have len: "length ?out = length (c_out st) + r_read r"
      using Cons.prems False by (auto simp: align_up_id)
    have "ALIGN dvd length ?out" unfolding len using Cons.prems by simp
    then obtain st' where "compact_records disabled src (st\<lparr>c_out := ?out,
          c_kept := c_kept st @ [r\<lparr>r_offset := align_up (length (c_out st)) ALIGN\<rparr>]\<rparr>) rs = (st', None)"
      and "length (c_out st') = length ?out + sum_list (map r_read (kept_of disabled rs))"
      and "length (c_kept st') = Suc (length (c_kept st) + length (kept_of disabled rs))"
      using Cons.IH [of "st\<lparr>c_out := ?out,
          c_kept := c_kept st @ [r\<lparr>r_offset := align_up (length (c_out st)) ALIGN\<rparr>]\<rparr>"]
        Cons.prems by auto
    with cp False len show ?thesis by (intro exI [of _ st']) (simp add: Let_def del: length_append)
  qed
qed

section \<open>The whole tool\<close>

record compact_report =
  source_records :: nat
  output_records :: nat
  disabled_mask_entries :: nat
  disabled_missing_from_source :: nat
  removed_records :: nat
  source_bytes :: nat
  output_bytes :: nat
  removed_read_bytes :: nat
  byte_reduction :: int
  byte_reduction_fraction :: pyfloat
  rep_n_layers :: nat
  rep_n_experts :: nat
  rep_dtype :: nat
  mask_sidecar :: string
  mask_sidecar_entries :: nat

text \<open>\<^verbatim>\<open>(a - b) / a if a else 0.0\<close>\<close>

definition reduction_fraction :: "nat \<Rightarrow> nat \<Rightarrow> pyfloat res" where
  "reduction_fraction a b = (if a \<noteq> 0 then int_truediv (int a - int b) (int a) else Inr (Fin 0))"

definition compact_header :: "index_meta \<Rightarrow> xrec list \<Rightarrow> nat \<Rightarrow> xhdr" where
  "compact_header m kept new_size =
     \<lparr> h_magic = MAGIC, h_version = VERSION, h_align = ALIGN, h_n_layers = m_n_layers m,
       h_n_experts = m_n_experts m, h_n_records = length kept, h_dtype = DTYPE_Q8_ROW,
       h_records_offset = HDR_SIZE, h_data_bytes = new_size \<rparr>"

text \<open>\<^verbatim>\<open>f.write(HDR.pack(*header))\<close> and then every record; the file keeps what was written.\<close>

definition write_index :: "xhdr \<Rightarrow> xrec list \<Rightarrow> bytes \<times> exn option" where
  "write_index h rs = (case HDR_pack h of Inl e \<Rightarrow> ([], Some e) | Inr hb \<Rightarrow> write_all REC_pack hb rs)"

definition compact_check :: "index_meta \<Rightarrow> expert_id set \<Rightarrow> bool \<Rightarrow> nat res" where
  "compact_check m disabled allow_missing =
     (if \<exists>k \<in> disabled. m_n_layers m \<le> fst k \<or> m_n_experts m \<le> snd k
      then Inl (ValueError ''mask ids out of range'')
      else if disabled - m_ids m \<noteq> {} \<and> \<not> allow_missing
      then Inl (ValueError ''mask entries missing from source store'')
      else Inr (card (disabled - m_ids m)))"

definition compact_write ::
  "string \<Rightarrow> string \<Rightarrow> index_meta \<Rightarrow> expert_id set \<Rightarrow> nat \<Rightarrow> bytes \<Rightarrow> compact_report io" where
  "compact_write dst_bin dst_idx m disabled missing src =
     (case compact_records disabled src compact_start (m_records m) of (st, err) \<Rightarrow>
        io_bind (write_out dst_bin (c_out st, err)) (\<lambda>_.
        io_bind (file_size dst_bin) (\<lambda>new_size.
        io_bind (write_out dst_idx (write_index (compact_header m (c_kept st) new_size) (c_kept st))) (\<lambda>_.
        io_bind (write_mask_sidecar (mask_sidecar_path dst_idx) disabled) (\<lambda>_.
        io_bind (io_lift (reduction_fraction (length src) new_size)) (\<lambda>frac.
        io_return
          \<lparr> source_records = m_n_records m, output_records = length (c_kept st),
            disabled_mask_entries = card disabled, disabled_missing_from_source = missing,
            removed_records = c_removed st, source_bytes = length src, output_bytes = new_size,
            removed_read_bytes = c_removed_bytes st, byte_reduction = int (length src) - int new_size,
            byte_reduction_fraction = frac, rep_n_layers = m_n_layers m, rep_n_experts = m_n_experts m,
            rep_dtype = DTYPE_Q8_ROW, mask_sidecar = mask_sidecar_path dst_idx,
            mask_sidecar_entries = card disabled \<rparr>))))))"

definition compact_store ::
  "string \<Rightarrow> string \<Rightarrow> string \<Rightarrow> string \<Rightarrow> string \<Rightarrow> bool \<Rightarrow> compact_report io" where
  "compact_store src_bin src_idx mask_path dst_bin dst_idx allow_missing =
     (if dst_bin = src_bin \<or> dst_idx = src_idx
      then io_raise (ValueError ''destination must not overwrite source store'')
      else io_bind (read_bytes src_idx) (\<lambda>raw. io_bind (io_lift (read_index raw)) (\<lambda>m.
        io_bind (read_text mask_path) (\<lambda>t. io_bind (io_lift (read_mask t)) (\<lambda>disabled.
        io_bind (io_lift (compact_check m disabled allow_missing)) (\<lambda>missing.
        io_bind (file_size src_bin) (\<lambda>actual.
        if m_data_bytes m \<noteq> actual then io_raise (ValueError ''source data size mismatch'')
        else io_bind (read_bytes src_bin) (\<lambda>src.
          compact_write dst_bin dst_idx m disabled missing src))))))))"

text \<open>A readable store of the file system, and a readable mask.\<close>

definition store_on :: "fs \<Rightarrow> string \<Rightarrow> string \<Rightarrow> index_meta \<Rightarrow> bytes \<Rightarrow> bool" where
  "store_on s bin idx m data =
     ((\<exists>raw. s idx = Some raw \<and> read_index raw = Inr m) \<and> s bin = Some data \<and> m_data_bytes m = length data)"

definition mask_on :: "fs \<Rightarrow> string \<Rightarrow> expert_id set \<Rightarrow> bool" where
  "mask_on s path d = (\<exists>mb t. s path = Some mb \<and> ascii_decode mb = Inr t \<and> read_mask t = Inr d)"

lemma store_on_unique: "store_on s b i m x \<Longrightarrow> store_on s b i m' x' \<Longrightarrow> m = m' \<and> x = x'"
  by (auto simp: store_on_def)

lemma mask_on_unique: "mask_on s p d \<Longrightarrow> mask_on s p d' \<Longrightarrow> d = d'"
  by (auto simp: mask_on_def)

lemma read_mask_on: "read_text p s = (Inr t, s) \<and> read_mask t = Inr d \<Longrightarrow> mask_on s p d"
  by (auto simp: read_text_app mask_on_def rbind_eq_Inr of_option_eq_Inr)

lemma REC_pack_Inr_fits: "REC_pack r = Inr b \<Longrightarrow> rec_fits r"
  by (simp add: REC_pack_def rec_fits_def pack_fields_Inr_fit)

lemma write_all_fits: "write_all REC_pack out rs = (idxb, None) \<Longrightarrow> list_all rec_fits rs"
  by (induction rs arbitrary: out) (auto simp: REC_pack_Inr_fits split: sum.splits)

text \<open>An index that was written without an error reads back.\<close>

lemma write_index_reads:
  assumes "write_index (compact_header m rs n) rs = (idxb, None)"
    and "records_ok (m_n_layers m) (m_n_experts m) rs"
  shows "read_index idxb = Inr \<lparr> m_header = compact_header m rs n, m_n_layers = m_n_layers m,
      m_n_experts = m_n_experts m, m_n_records = length rs, m_data_bytes = n, m_records = rs,
      m_ids = rec_id ` set rs \<rparr>"
proof -
  obtain hb where hb: "HDR_pack (compact_header m rs n) = Inr hb" "write_all REC_pack hb rs = (idxb, None)"
    using assms(1) by (auto simp: write_index_def split: sum.splits)
  show ?thesis
    by (rule read_index_written [OF hb _ write_all_fits [OF hb(2)] assms(2)]) (simp add: compact_header_def)
qed

lemma hdr_fits_compact:
  "m_n_layers m < 2 ^ 32 \<Longrightarrow> m_n_experts m < 2 ^ 32 \<Longrightarrow> length rs < 2 ^ 32 \<Longrightarrow> n < 2 ^ 64 \<Longrightarrow>
     \<exists>hb. HDR_pack (compact_header m rs n) = Inr hb"
proof -
  assume "m_n_layers m < 2 ^ 32" "m_n_experts m < 2 ^ 32" "length rs < 2 ^ 32" "n < 2 ^ 64"
  then have "fields_fit hdr_widths (hdr_values (compact_header m rs n))"
    by (simp add: fields_fit_def hdr_widths_def hdr_values_def compact_header_def VERSION_def
        ALIGN_def DTYPE_Q8_ROW_def HDR_SIZE_def)
  then obtain b where "pack_fields hdr_widths (hdr_values (compact_header m rs n)) = Inr b"
    using pack_fields_fit by blast
  then show ?thesis by (simp add: HDR_pack_def)
qed

text \<open>What a successful run did, step by step.\<close>

lemma compact_store_InrD:
  assumes "compact_store sb si mk db di allow s = (Inr rep, s')"
  obtains m d src missing st idxb where
    "db \<noteq> sb" "di \<noteq> si" "store_on s sb si m src" "mask_on s mk d"
    "compact_check m d allow = Inr missing"
    "compact_records d src compact_start (m_records m) = (st, None)"
    "write_index (compact_header m (c_kept st) (length (c_out st))) (c_kept st) = (idxb, None)"
    "s' = s(db \<mapsto> c_out st, di \<mapsto> idxb,
            mask_sidecar_path di \<mapsto> ascii_encode (join [LF] (mask_lines d) @ [LF]))"
    "output_records rep = length (c_kept st)" "output_bytes rep = length (c_out st)"
    "removed_records rep = c_removed st" "removed_read_bytes rep = c_removed_bytes st"
    "disabled_missing_from_source rep = missing" "source_bytes rep = length src"
    "source_records rep = m_n_records m"
proof -
  have ne: "db \<noteq> sb" "di \<noteq> si" using assms by (auto simp: compact_store_def)
  then obtain m d src missing where inp: "store_on s sb si m src" "mask_on s mk d"
    and chk: "compact_check m d allow = Inr missing"
    and wr: "compact_write db di m d missing src s = (Inr rep, s')"
    using assms
    by (auto simp: compact_store_def io_bind_eq_Inr of_option_eq_Inr store_on_def mask_on_def
        read_text_app rbind_eq_Inr split: if_splits option.splits)
  obtain st err where st: "compact_records d src compact_start (m_records m) = (st, err)"
    by (metis surj_pair)
  have err: "err = None"
    using wr by (auto simp: compact_write_def st io_bind_eq_Inr write_out_def split: option.splits)
  obtain idxb ferr where f: "write_index (compact_header m (c_kept st) (length (c_out st))) (c_kept st) = (idxb, ferr)"
    by (metis surj_pair)
  have ferr: "ferr = None"
    using wr by (auto simp: compact_write_def st err io_bind_eq_Inr write_out_def f split: option.splits)
  show ?thesis
    using wr by (intro that [OF ne inp chk st [unfolded err] f [unfolded ferr]])
      (auto simp: compact_write_def st err io_bind_eq_Inr write_out_def f ferr
        write_mask_sidecar_def write_text_def)
qed

lemma list_all2_copied_ids:
  "list_all2 (copied src out) rs ks \<Longrightarrow> map rec_id ks = map rec_id rs"
  by (induction rule: list_all2_induct) (auto dest: copied_fields)

lemma list_all2_copied_ok:
  "list_all2 (copied src out) rs ks \<Longrightarrow> records_ok nl ne rs \<Longrightarrow> records_ok nl ne ks"
proof -
  assume c: "list_all2 (copied src out) rs ks" and ok: "records_ok nl ne rs"
  have "list_all (\<lambda>r. r_layer r < nl \<and> r_expert r < ne \<and> 0 < r_read r \<and> ALIGN dvd r_read r
      \<and> ALIGN dvd r_offset r) ks"
    using c ok [unfolded records_ok_def, THEN conjunct2]
  proof (induction rule: list_all2_induct)
    case (Cons r rs k ks)
    then show ?case using copied_fields [OF Cons(1)] by (auto simp: copied_def)
  qed simp
  then show ?thesis using ok list_all2_copied_ids [OF c] by (simp add: records_ok_def)
qed

lemma list_all2_copied_view:
  assumes "list_all2 (copied src out) rs ks" "distinct (map rec_id rs)"
  shows "store_view ks out = store_view rs src"
proof
  fix k
  have d: "distinct (map rec_id ks)" using assms list_all2_copied_ids by metis
  show "store_view ks out k = store_view rs src k"
  proof (cases "records_by_id rs k")
    case None
    then have "records_by_id ks k = None"
      using list_all2_copied_ids [OF assms(1)]
      by (simp only: records_by_id_None) (metis image_set)
    with None show ?thesis by (simp add: store_view_def)
  next
    case (Some r)
    then obtain i where i: "i < length rs" "rs ! i = r" "rec_id r = k"
      using assms(2) by (auto simp: records_by_id_Some in_set_conv_nth)
    then have c: "copied src out r (ks ! i)" using assms(1) list_all2_nthD by fastforce
    have "records_by_id ks k = Some (ks ! i)"
      using i c copied_fields [OF c] list_all2_lengthD [OF assms(1)] by (auto simp: records_by_id_Some [OF d])
    with Some c show ?thesis
      by (simp add: store_view_def copied_same_fields) (simp add: copied_def)
  qed
qed

lemma records_by_id_filter:
  "records_by_id (filter (\<lambda>r. rec_id r \<notin> d) rs) = records_by_id rs |` (- d)"
proof -
  have "map_of (map (\<lambda>r. (rec_id r, r)) (filter (\<lambda>r. rec_id r \<notin> d) xs))
      = map_of (map (\<lambda>r. (rec_id r, r)) xs) |` (- d)" for xs
    by (induction xs) (auto simp: restrict_map_def fun_eq_iff)
  from this [of "rev rs"] show ?thesis
    by (simp add: records_by_id_def rev_map [symmetric] rev_filter [symmetric])
qed

lemma store_view_filter:
  "store_view (filter (\<lambda>r. rec_id r \<notin> d) rs) bin = store_view rs bin |` (- d)"
  by (auto simp: store_view_def records_by_id_filter restrict_map_def fun_eq_iff)

lemma mask_sidecar_reads: "finite d \<Longrightarrow> d \<noteq> {} \<Longrightarrow>
    s (p :: string) = Some (ascii_encode (join [LF] (mask_lines d) @ [LF])) \<Longrightarrow> mask_on s p d"
  unfolding mask_on_def using read_mask_of_lines ascii_roundtrip [OF ascii_mask_lines] by blast

text \<open>
  The file system a successful run leaves holds a store whose view is the source view without the
  masked ids, and the sidecar holds that mask.
\<close>

lemma compact_store_result:
  assumes "compact_store sb si mk db di allow s = (Inr rep, s')"
    and "di \<noteq> db" "mask_sidecar_path di \<noteq> db"
  shows "\<exists>m d src m' out. store_on s sb si m src \<and> mask_on s mk d \<and> store_on s' db di m' out
    \<and> mask_on s' (mask_sidecar_path di) d
    \<and> list_all2 (copied src out) (kept_of d (m_records m)) (m_records m')
    \<and> store_view (m_records m') out = store_view (m_records m) src |` (- d)
    \<and> m_n_layers m' = m_n_layers m \<and> m_n_experts m' = m_n_experts m
    \<and> m_ids m' = m_ids m - d \<and> (\<forall>k \<in> d. fst k < m_n_layers m \<and> snd k < m_n_experts m)
    \<and> (allow \<or> d \<subseteq> m_ids m)
    \<and> output_records rep + removed_records rep = source_records rep"
  using assms(1)
proof (rule compact_store_InrD)
  fix m d src missing st idxb
  assume inp: "store_on s sb si m src" "mask_on s mk d"
    and chk: "compact_check m d allow = Inr missing"
    and run: "compact_records d src compact_start (m_records m) = (st, None)"
    and wi: "write_index (compact_header m (c_kept st) (length (c_out st))) (c_kept st) = (idxb, None)"
    and s': "s' = s(db \<mapsto> c_out st, di \<mapsto> idxb,
            mask_sidecar_path di \<mapsto> ascii_encode (join [LF] (mask_lines d) @ [LF]))"
    and rep: "output_records rep = length (c_kept st)" "removed_records rep = c_removed st"
      "source_records rep = m_n_records m"
  obtain raw where raw: "read_index raw = Inr m" using inp(1) by (auto simp: store_on_def)
  note ri = read_index_InrD [OF raw]
  have "list_all (\<lambda>r. 0 < r_read r) (m_records m)"
    using ri(1) by (simp add: records_ok_def list_all_iff)
  from compact_records_ok [OF run this]
  have cp: "list_all2 (copied src (c_out st)) (kept_of d (m_records m)) (c_kept st)"
    and rem: "c_removed st = length (dropped_of d (m_records m))"
    by (auto simp: compact_start_def)
  have okk: "records_ok (m_n_layers m) (m_n_experts m) (kept_of d (m_records m))"
    using ri(1) by (auto simp: records_ok_def list_all_iff distinct_map_filter)
  define m' where "m' = \<lparr> m_header = compact_header m (c_kept st) (length (c_out st)),
      m_n_layers = m_n_layers m, m_n_experts = m_n_experts m, m_n_records = length (c_kept st),
      m_data_bytes = length (c_out st), m_records = c_kept st, m_ids = rec_id ` set (c_kept st) \<rparr>"
  have m': "read_index idxb = Inr m'"
    unfolding m'_def by (rule write_index_reads [OF wi list_all2_copied_ok [OF cp okk]])
  have on: "store_on s' db di m' (c_out st)"
    using m' assms(2,3) mask_sidecar_path_neq [of di] by (auto simp: store_on_def s' m'_def)
  have fin: "finite d" "d \<noteq> {}" using inp(2) read_mask_finite by (auto simp: mask_on_def)
  have sc: "mask_on s' (mask_sidecar_path di) d"
    using fin by (intro mask_sidecar_reads) (simp_all add: s')
  have view: "store_view (c_kept st) (c_out st) = store_view (m_records m) src |` (- d)"
    using list_all2_copied_view [OF cp] okk by (simp add: store_view_filter records_ok_def)
  have ids: "rec_id ` set (c_kept st) = m_ids m - d"
  proof -
    have "rec_id ` set (c_kept st) = rec_id ` set (kept_of d (m_records m))"
      using list_all2_copied_ids [OF cp] by (metis image_set)
    then show ?thesis by (auto simp: ri(2))
  qed
  have "length (c_kept st) + length (dropped_of d (m_records m)) = m_n_records m"
    using list_all2_lengthD [OF cp] ri(3) sum_length_filter_compl [of "\<lambda>r. rec_id r \<in> d" "m_records m"] by simp
  then have cnt: "output_records rep + removed_records rep = source_records rep"
    by (simp add: rep rem)
  have range: "(\<forall>k \<in> d. fst k < m_n_layers m \<and> snd k < m_n_experts m) \<and> (allow \<or> d \<subseteq> m_ids m)"
    using chk by (auto simp: compact_check_def not_le split: if_splits)
  show ?thesis
    using inp on sc cp view ids cnt range
    by (intro exI [of _ m] exI [of _ d] exI [of _ src] exI [of _ m'] exI [of _ "c_out st"])
      (simp add: m'_def)
qed

section \<open>When the tool succeeds\<close>

lemma rec_fits_moved: "rec_fits r \<Longrightarrow> x < 2 ^ 64 \<Longrightarrow> rec_fits (r\<lparr>r_offset := x\<rparr>)"
  by (simp add: rec_fits_def fields_fit_def rec_widths_def rec_values_def)

lemma list_all2_copied_fits:
  "list_all2 (copied src out) rs ks \<Longrightarrow> list_all rec_fits rs \<Longrightarrow> length out < 2 ^ 64 \<Longrightarrow> list_all rec_fits ks"
proof (induction rule: list_all2_induct)
  case (Cons r rs k ks)
  then have "k = r\<lparr>r_offset := r_offset k\<rparr>" "r_offset k < 2 ^ 64" by (auto simp: copied_def)
  with Cons rec_fits_moved [of r "r_offset k"] show ?case by simp
qed simp

lemma write_index_ok:
  "HDR_pack h = Inr hb \<Longrightarrow> list_all rec_fits rs \<Longrightarrow> \<exists>idxb. write_index h rs = (idxb, None)"
  using rec_codec.write_all_ok [of rs hb] by (auto simp: write_index_def)

text \<open>
  A readable store whose kept records lie inside the data file and do not overlap in total is always
  compacted, and the result has exactly the kept bytes.
\<close>

lemma compact_store_success:
  assumes "store_on s sb si m src" "mask_on s mk d" "db \<noteq> sb" "di \<noteq> si"
    and "\<forall>k \<in> d. fst k < m_n_layers m \<and> snd k < m_n_experts m" "allow \<or> d \<subseteq> m_ids m"
    and "\<forall>r \<in> set (kept_of d (m_records m)). r_offset r + r_read r \<le> length src"
    and "sum_list (map r_read (kept_of d (m_records m))) \<le> length src" "length src < 2 ^ 63"
  shows "\<exists>rep s'. compact_store sb si mk db di allow s = (Inr rep, s')
     \<and> output_bytes rep = sum_list (map r_read (kept_of d (m_records m)))"
proof -
  obtain raw where raw: "s si = Some raw" "read_index raw = Inr m" using assms(1) by (auto simp: store_on_def)
  note ri = read_index_InrD [OF raw(2)]
  let ?kept = "kept_of d (m_records m)"
  have pos: "list_all (\<lambda>r. 0 < r_read r \<and> ALIGN dvd r_read r) (m_records m)"
    using ri(1) by (simp add: records_ok_def list_all_iff)
  obtain st where run: "compact_records d src compact_start (m_records m) = (st, None)"
    and len: "length (c_out st) = sum_list (map r_read ?kept)" "length (c_kept st) = length ?kept"
    using compact_records_total [OF _ pos, of d src compact_start] assms(7,9)
    by (fastforce simp: compact_start_def)
  have cp: "list_all2 (copied src (c_out st)) ?kept (c_kept st)"
    using compact_records_ok [OF run] pos by (auto simp: compact_start_def list_all_iff)
  have out: "length (c_out st) < 2 ^ 64" using len(1) assms(8,9) by simp
  have "length ?kept \<le> length (m_records m)" by simp
  then have nrec: "length (c_kept st) < 2 ^ 32" using len(2) ri(3,6) by simp
  obtain hb where hb: "HDR_pack (compact_header m (c_kept st) (length (c_out st))) = Inr hb"
    using hdr_fits_compact ri(6) nrec out by blast
  have "list_all rec_fits (c_kept st)"
    using list_all2_copied_fits [OF cp _ out] ri(4) by (simp add: list_all_iff)
  then obtain idxb where wi: "write_index (compact_header m (c_kept st) (length (c_out st))) (c_kept st) = (idxb, None)"
    using write_index_ok [OF hb] by blast
  have "\<exists>fr. reduction_fraction (length src) (length (c_out st)) = Inr fr"
    using int_truediv_fraction [of "int (length src) - int (length (c_out st))" "int (length src)"] len(1) assms(8)
    by (auto simp: reduction_fraction_def)
  then obtain fr where fr: "reduction_fraction (length src) (length (c_out st)) = Inr fr" ..
  have chk: "compact_check m d allow = Inr (card (d - m_ids m))"
    using assms(5,6) by (auto simp: compact_check_def)
  have "\<exists>rep s'. compact_write db di m d (card (d - m_ids m)) src s = (Inr rep, s')
      \<and> output_bytes rep = length (c_out st)"
    by (simp add: compact_write_def run io_bind_def write_out_def wi write_mask_sidecar_def write_text_def fr)
  moreover have "compact_store sb si mk db di allow s
      = compact_write db di m d (card (d - m_ids m)) src s"
    using assms(1-4) raw chk
    by (auto simp: compact_store_def io_bind_def store_on_def mask_on_def read_text_app)
  ultimately show ?thesis by (simp add: len(1))
qed

section \<open>A concrete store\<close>

text \<open>Two experts of one layer, 4096 bytes each, and a mask that removes the second one.\<close>

definition ex_rec :: "nat \<Rightarrow> xrec" where
  "ex_rec e = \<lparr> r_layer = 1, r_expert = e, r_offset = e * 4096, r_read = 4096, r_payload = 3000,
     r_gate_off = 0, r_gate_len = 1000, r_up_off = 1000, r_up_len = 1000, r_down_off = 2000, r_down_len = 1000 \<rparr>"

definition ex_records :: "xrec list" where "ex_records = [ex_rec 0, ex_rec 1]"

definition ex_dims :: index_meta where
  "ex_dims = \<lparr> m_header = HDR_unpack [], m_n_layers = 2, m_n_experts = 2, m_n_records = 0, m_data_bytes = 0,
     m_records = [], m_ids = {} \<rparr>"

definition ex_header :: xhdr where "ex_header = compact_header ex_dims ex_records 8192"

definition ex_index :: bytes where "ex_index = fst (write_index ex_header ex_records)"

definition ex_data :: bytes where "ex_data = replicate 8192 7"

definition ex_fs :: fs where
  "ex_fs = [''s.bin'' \<mapsto> ex_data, ''s.idx'' \<mapsto> ex_index, ''m.mask'' \<mapsto> ascii_encode ''1 1'']"

definition ex_meta :: index_meta where
  "ex_meta = \<lparr> m_header = ex_header, m_n_layers = 2, m_n_experts = 2, m_n_records = 2, m_data_bytes = 8192,
     m_records = ex_records, m_ids = {(1, 0), (1, 1)} \<rparr>"

lemma ex_records_ok: "records_ok 2 2 ex_records" "list_all rec_fits ex_records"
  by (simp_all add: records_ok_def ex_records_def ex_rec_def rec_id_def ALIGN_def rec_fits_def fields_fit_def
      rec_widths_def rec_values_def)

lemma ex_write_index: "write_index ex_header ex_records = (ex_index, None)"
proof -
  obtain hb where hb: "HDR_pack ex_header = Inr hb"
    using hdr_fits_compact [of ex_dims ex_records 8192] by (auto simp: ex_header_def ex_dims_def ex_records_def)
  then show ?thesis using write_index_ok [OF hb ex_records_ok(2)] by (auto simp: ex_index_def)
qed

lemma ex_read_index: "read_index ex_index = Inr ex_meta"
proof -
  have "rec_id ` set ex_records = {(1, 0), (1, 1)}" by (simp add: ex_records_def ex_rec_def rec_id_def)
  then show ?thesis
    using write_index_reads [of ex_dims ex_records 8192 ex_index] ex_write_index ex_records_ok(1)
    by (simp add: ex_header_def [symmetric] ex_meta_def) (simp add: ex_dims_def ex_records_def)
qed

lemma ex_store_on: "store_on ex_fs ''s.bin'' ''s.idx'' ex_meta ex_data"
  by (simp add: store_on_def ex_fs_def ex_read_index) (simp add: ex_meta_def ex_data_def)

lemma ex_mask_on: "mask_on ex_fs ''m.mask'' {(1, 1)}"
proof -
  have "is_ascii ''1 1''" "read_mask ''1 1'' = Inr {(1, 1)}" by code_simp+
  then show ?thesis using ascii_roundtrip by (auto simp: mask_on_def ex_fs_def)
qed

lemma ex_compact_runs:
  "\<exists>rep s'. compact_store ''s.bin'' ''s.idx'' ''m.mask'' ''d.bin'' ''d.idx'' False ex_fs = (Inr rep, s')
     \<and> output_bytes rep = 4096"
proof -
  have k: "kept_of {(1, 1)} (m_records ex_meta) = [ex_rec 0]"
    by (simp add: ex_meta_def ex_records_def ex_rec_def rec_id_def)
  show ?thesis
    using compact_store_success [OF ex_store_on ex_mask_on, of "''d.bin''" "''d.idx''" False]
    unfolding k by (simp add: ex_meta_def ex_rec_def ex_data_def)
qed

section \<open>Properties\<close>

text \<open>The sidecar written next to a compacted index is a mask file that reads back as exactly the
  disabled experts, and writing it touches no other file.\<close>

theorem mask_sidecar_roundtrip:
  assumes "finite d" "d \<noteq> {}"
  shows "\<exists>s'. write_mask_sidecar path d s = (Inr (), s') \<and> mask_on s' path d \<and> (\<forall>q. q \<noteq> path \<longrightarrow> s' q = s q)"
proof -
  let ?s' = "s(path \<mapsto> ascii_encode (join [LF] (mask_lines d) @ [LF]))"
  have "write_mask_sidecar path d s = (Inr (), ?s')" by (simp add: write_mask_sidecar_def write_text_def)
  moreover have "mask_on ?s' path d" by (rule mask_sidecar_reads [OF assms]) simp
  ultimately show ?thesis by auto
qed

theorem mask_sidecar_roundtrip_witness:
  "\<exists>s'. write_mask_sidecar ''x.mask'' {(2, 7), (1, 63)} ex_fs = (Inr (), s')
     \<and> mask_on s' ''x.mask'' {(2, 7), (1, 63)} \<and> (\<forall>q. q \<noteq> ''x.mask'' \<longrightarrow> s' q = ex_fs q)"
  by (rule mask_sidecar_roundtrip) simp_all

text \<open>C1: compaction refines restriction. The store a successful run writes, read back through its own
  index, is the source store without the masked experts: same metadata, same payload bytes, same
  logical dimensions; the sidecar holds the mask, and no record is lost.\<close>

theorem compact_store_refines_restriction:
  assumes "compact_store sb si mk db di allow s = (Inr rep, s')" "di \<noteq> db" "mask_sidecar_path di \<noteq> db"
  shows "\<exists>m d src m' out. store_on s sb si m src \<and> mask_on s mk d \<and> store_on s' db di m' out
    \<and> mask_on s' (mask_sidecar_path di) d
    \<and> store_view (m_records m') out = store_view (m_records m) src |` (- d)
    \<and> m_n_layers m' = m_n_layers m \<and> m_n_experts m' = m_n_experts m \<and> m_ids m' = m_ids m - d
    \<and> output_records rep + removed_records rep = source_records rep"
  using compact_store_result [OF assms] by blast

theorem compact_store_refines_restriction_witness:
  "\<exists>rep s'. compact_store ''s.bin'' ''s.idx'' ''m.mask'' ''d.bin'' ''d.idx'' False ex_fs = (Inr rep, s')
    \<and> (\<exists>m d src m' out. store_on ex_fs ''s.bin'' ''s.idx'' m src \<and> mask_on ex_fs ''m.mask'' d
        \<and> store_on s' ''d.bin'' ''d.idx'' m' out
        \<and> store_view (m_records m') out = store_view (m_records m) src |` (- d))"
proof -
  obtain rep s' where run: "compact_store ''s.bin'' ''s.idx'' ''m.mask'' ''d.bin'' ''d.idx'' False ex_fs = (Inr rep, s')"
    using ex_compact_runs by blast
  have p: "''d.idx'' \<noteq> ''d.bin''" "mask_sidecar_path ''d.idx'' \<noteq> ''d.bin''" by code_simp+
  show ?thesis using run compact_store_refines_restriction [OF run p] by blast
qed

text \<open>C9: compaction to files other than the source's succeeds whenever the source store and the mask are
  readable, the ids of the mask are within the store's shape and, unless missing ids are allowed, in the store, and
  the kept records lie inside the data file and are together no larger than it (below 2^63 bytes). It then writes exactly
  the kept bytes.\<close>

theorem compact_store_accepts:
  assumes "store_on s sb si m src" "mask_on s mk d" "db \<noteq> sb" "di \<noteq> si"
    and "\<forall>k \<in> d. fst k < m_n_layers m \<and> snd k < m_n_experts m" "allow \<or> d \<subseteq> m_ids m"
    and "\<forall>r \<in> set (m_records m). rec_id r \<notin> d \<longrightarrow> r_offset r + r_read r \<le> length src"
    and "sum_list (map r_read (filter (\<lambda>r. rec_id r \<notin> d) (m_records m))) \<le> length src" "length src < 2 ^ 63"
  shows "\<exists>rep s'. compact_store sb si mk db di allow s = (Inr rep, s')
     \<and> output_bytes rep = sum_list (map r_read (filter (\<lambda>r. rec_id r \<notin> d) (m_records m)))"
  using assms by (intro compact_store_success) auto

theorem compact_store_accepts_witness:
  "\<exists>rep s'. compact_store ''s.bin'' ''s.idx'' ''m.mask'' ''d.bin'' ''d.idx'' False ex_fs = (Inr rep, s')
     \<and> output_bytes rep = 4096"
  using compact_store_accepts [OF ex_store_on ex_mask_on, of "''d.bin''" "''d.idx''" False]
  by (simp add: ex_meta_def ex_records_def ex_rec_def rec_id_def ex_data_def)

text \<open>A destination that is the source file of the same kind is refused before anything is written.\<close>

theorem compact_store_refuses_source:
  "compact_store sb si mk sb di allow s = (Inl (ValueError ''destination must not overwrite source store''), s)
   \<and> compact_store sb si mk db si allow s = (Inl (ValueError ''destination must not overwrite source store''), s)"
  by (simp add: compact_store_def)

text \<open>C39: but the guard compares like with like only, so the new data file may overwrite the source
  index: a run with the output data at the source index path succeeds and leaves the source index gone.\<close>

theorem compact_store_can_destroy_source_index:
  "\<exists>rep s'. compact_store ''s.bin'' ''s.idx'' ''m.mask'' ''s.idx'' ''d.idx'' False ex_fs = (Inr rep, s')
     \<and> s' ''s.idx'' \<noteq> ex_fs ''s.idx''"
proof -
  have k: "kept_of {(1, 1)} (m_records ex_meta) = [ex_rec 0]"
    by (simp add: ex_meta_def ex_records_def ex_rec_def rec_id_def)
  obtain rep s' where run: "compact_store ''s.bin'' ''s.idx'' ''m.mask'' ''s.idx'' ''d.idx'' False ex_fs = (Inr rep, s')"
    and ob: "output_bytes rep = 4096"
    using compact_store_success [OF ex_store_on ex_mask_on, of "''s.idx''" "''d.idx''" False]
    unfolding k by (auto simp: ex_meta_def ex_rec_def ex_data_def)
  have p: "''d.idx'' \<noteq> ''s.idx''" "mask_sidecar_path ''d.idx'' \<noteq> ''s.idx''" by code_simp+
  have li: "length ex_index = 208"
    using read_index_InrD(5) [OF ex_read_index] by (simp add: ex_meta_def HDR_SIZE_def REC_SIZE_def)
  from run have "length (the (s' ''s.idx'')) = 4096"
    by (rule compact_store_InrD) (use ob p in auto)
  then have "s' ''s.idx'' \<noteq> Some ex_index" using li by auto
  then show ?thesis using run by (auto simp: ex_fs_def)
qed

end
