(* ===== verification/VerifyStore.thy ===== *)
theory VerifyStore
  imports CompactStore
begin

text \<open>
  \<^verbatim>\<open>tools/verify_compact_expert_store.py\<close>: the offline check that a compacted store holds the source
  store without the masked experts. The digest is a parameter: \<open>sha\<close> is \<^verbatim>\<open>hashlib.sha256\<close> of everything
  fed to \<^verbatim>\<open>update\<close>, as a hex string; the model carries the bytes fed so far.
\<close>

section \<open>Comparing one record\<close>

record verify_state =
  v_src_fed :: bytes
  v_dst_fed :: bytes
  v_bytes :: nat

function verify_blocks ::
  "bytes \<Rightarrow> bytes \<Rightarrow> nat \<Rightarrow> nat \<Rightarrow> nat \<Rightarrow> verify_state \<Rightarrow> verify_state res" where
  "verify_blocks sf df spos dpos remain st =
     (if remain = 0 then Inr st
      else let want = min CHUNK remain; a = take want (drop spos sf); b = take want (drop dpos df) in
        if length a \<noteq> want \<or> length b \<noteq> want then Inl (OSError ''short record read'')
        else if a \<noteq> b then Inl (ValueError ''record payload mismatch'')
        else verify_blocks sf df (spos + want) (dpos + want) (remain - want)
               (st\<lparr>v_src_fed := v_src_fed st @ a, v_dst_fed := v_dst_fed st @ b,
                   v_bytes := v_bytes st + want\<rparr>))"
  by auto
termination by (relation "measure (\<lambda>(sf, df, spos, dpos, remain, st). remain)") (auto simp: CHUNK_def)

declare verify_blocks.simps [simp del]

definition key_tag :: "expert_id \<Rightarrow> nat \<Rightarrow> bytes" where
  "key_tag k n = ascii_encode (show_nat (fst k) @ '':'' @ show_nat (snd k) @ '':'' @ show_nat n @ [LF])"

definition seek_ok :: "nat \<Rightarrow> unit res" where
  "seek_ok offset = (case seek_error offset of None \<Rightarrow> Inr () | Some e \<Rightarrow> Inl e)"

text \<open>\<^verbatim>\<open>sr[:2] != dr[:2] or sr[3:] != dr[3:]\<close>: every field but the file offset.\<close>

definition same_metadata :: "xrec \<Rightarrow> xrec \<Rightarrow> bool" where
  "same_metadata sr dr = (sr\<lparr>r_offset := 0\<rparr> = dr\<lparr>r_offset := 0\<rparr>)"

definition verify_record ::
  "(expert_id \<rightharpoonup> xrec) \<Rightarrow> (expert_id \<rightharpoonup> xrec) \<Rightarrow> bytes \<Rightarrow> bytes \<Rightarrow> verify_state \<Rightarrow> expert_id \<Rightarrow> verify_state res" where
  "verify_record srs drs sf df st key =
     rbind (of_option (KeyError ''record'') (srs key)) (\<lambda>sr.
     rbind (of_option (KeyError ''record'') (drs key)) (\<lambda>dr.
     if \<not> same_metadata sr dr then Inl (ValueError ''record metadata mismatch'')
     else let n = r_read sr; tag = key_tag key n in
       rbind (seek_ok (r_offset sr)) (\<lambda>_. rbind (seek_ok (r_offset dr)) (\<lambda>_.
         verify_blocks sf df (r_offset sr) (r_offset dr) n
           (st\<lparr>v_src_fed := v_src_fed st @ tag, v_dst_fed := v_dst_fed st @ tag\<rparr>)))))"

section \<open>The whole check\<close>

record verify_report =
  vr_source_records :: nat
  vr_sparse_records :: nat
  vr_disabled_records :: nat
  vr_records_verified :: nat
  vr_bytes_verified :: nat
  vr_source_bytes :: nat
  vr_sparse_bytes :: nat
  vr_byte_reduction :: int
  vr_byte_reduction_fraction :: pyfloat
  vr_sha256 :: string
  vr_byte_exact :: bool
  vr_n_layers :: nat
  vr_n_experts :: nat

definition verify_ids :: "index_meta \<Rightarrow> index_meta \<Rightarrow> expert_id set \<Rightarrow> expert_id set res" where
  "verify_ids src dst disabled =
     (if disabled - m_ids src \<noteq> {} then Inl (ValueError ''mask ids missing from source store'')
      else let expected = m_ids src - disabled in
        if m_ids dst \<noteq> expected then Inl (ValueError ''sparse logical ids mismatch'')
        else if m_n_records dst \<noteq> card expected then Inl (ValueError ''sparse record count'')
        else Inr expected)"

definition verify_payloads ::
  "(bytes \<Rightarrow> string) \<Rightarrow> index_meta \<Rightarrow> index_meta \<Rightarrow> expert_id set \<Rightarrow> expert_id set \<Rightarrow> bytes \<Rightarrow> bytes
     \<Rightarrow> verify_report res" where
  "verify_payloads sha src dst disabled expected sf df =
     rbind (foldR (verify_record (records_by_id (m_records src)) (records_by_id (m_records dst)) sf df)
              \<lparr> v_src_fed = [], v_dst_fed = [], v_bytes = 0 \<rparr> (sorted_list_of_set expected)) (\<lambda>st.
     if sha (v_src_fed st) \<noteq> sha (v_dst_fed st) then Inl (AssertionError ''kept-record digests differ'')
     else rbind (reduction_fraction (length sf) (length df)) (\<lambda>frac. Inr
       \<lparr> vr_source_records = m_n_records src, vr_sparse_records = m_n_records dst,
         vr_disabled_records = card disabled, vr_records_verified = card expected,
         vr_bytes_verified = v_bytes st, vr_source_bytes = length sf, vr_sparse_bytes = length df,
         vr_byte_reduction = int (length sf) - int (length df), vr_byte_reduction_fraction = frac,
         vr_sha256 = sha (v_src_fed st), vr_byte_exact = True, vr_n_layers = m_n_layers src,
         vr_n_experts = m_n_experts src \<rparr>))"

definition verify_compaction ::
  "(bytes \<Rightarrow> string) \<Rightarrow> string \<Rightarrow> string \<Rightarrow> string \<Rightarrow> string \<Rightarrow> string \<Rightarrow> verify_report io" where
  "verify_compaction sha source_bin source_idx sparse_bin sparse_idx mask_path =
     io_bind (read_bytes source_idx) (\<lambda>rs. io_bind (io_lift (read_index rs)) (\<lambda>src.
     io_bind (read_bytes sparse_idx) (\<lambda>rd. io_bind (io_lift (read_index rd)) (\<lambda>dst.
     io_bind (read_text mask_path) (\<lambda>t. io_bind (io_lift (read_mask t)) (\<lambda>disabled.
     if m_n_layers src \<noteq> m_n_layers dst \<or> m_n_experts src \<noteq> m_n_experts dst
     then io_raise (ValueError ''logical store shape changed'')
     else io_bind (file_size source_bin) (\<lambda>ssz.
       if ssz \<noteq> m_data_bytes src then io_raise (ValueError ''source data size does not match source index'')
       else io_bind (file_size sparse_bin) (\<lambda>dsz.
         if dsz \<noteq> m_data_bytes dst then io_raise (ValueError ''sparse data size does not match sparse index'')
         else io_bind (io_lift (verify_ids src dst disabled)) (\<lambda>expected.
           io_bind (read_bytes source_bin) (\<lambda>sf. io_bind (read_bytes sparse_bin) (\<lambda>df.
             io_lift (verify_payloads sha src dst disabled expected sf df))))))))))))"

section \<open>Lemmas\<close>

definition span_equal :: "bytes \<Rightarrow> bytes \<Rightarrow> nat \<Rightarrow> nat \<Rightarrow> nat \<Rightarrow> bool" where
  "span_equal sf df spos dpos n =
     (n = 0 \<or> spos + n \<le> length sf \<and> dpos + n \<le> length df \<and> take n (drop spos sf) = take n (drop dpos df))"

lemma take_drop_split: "w \<le> n \<Longrightarrow> take n (drop p xs) = take w (drop p xs) @ take (n - w) (drop (p + w) xs)"
proof -
  assume "w \<le> n"
  then have "take n (drop p xs) = take (w + (n - w)) (drop p xs)" by simp
  then show ?thesis by (simp only: take_add) (simp add: add.commute)
qed

lemma verify_blocks_iff:
  "verify_blocks sf df spos dpos n st = Inr st' \<longleftrightarrow> span_equal sf df spos dpos n \<and>
     st' = st\<lparr>v_src_fed := v_src_fed st @ take n (drop spos sf), v_dst_fed := v_dst_fed st @ take n (drop dpos df),
              v_bytes := v_bytes st + n\<rparr>"
proof (induction sf df spos dpos n st rule: verify_blocks.induct)
  case (1 sf df spos dpos n st)
  show ?case
  proof (cases "n = 0")
    case True
    then show ?thesis by (subst verify_blocks.simps) (auto simp: span_equal_def)
  next
    case False
    define w where "w = min CHUNK n"
    define a where "a = take w (drop spos sf)"
    define b where "b = take w (drop dpos df)"
    have w: "0 < w" "w \<le> n" using False by (auto simp: w_def CHUNK_def)
    have split: "take n (drop spos sf) = a @ take (n - w) (drop (spos + w) sf)"
      "take n (drop dpos df) = b @ take (n - w) (drop (dpos + w) df)"
      using take_drop_split [OF w(2)] by (simp_all add: a_def b_def)
    have eq: "verify_blocks sf df spos dpos n st =
        (if length a \<noteq> w \<or> length b \<noteq> w then Inl (OSError ''short record read'')
         else if a \<noteq> b then Inl (ValueError ''record payload mismatch'')
         else verify_blocks sf df (spos + w) (dpos + w) (n - w)
          (st\<lparr>v_src_fed := v_src_fed st @ a, v_dst_fed := v_dst_fed st @ b, v_bytes := v_bytes st + w\<rparr>))"
      by (subst verify_blocks.simps) (simp only: Let_def w_def a_def b_def False if_False)
    show ?thesis
    proof (cases "length a = w \<and> length b = w \<and> a = b")
      case False
      then have "\<not> span_equal sf df spos dpos n"
        using w split by (auto simp: span_equal_def a_def b_def append_eq_append_conv)
      moreover have "verify_blocks sf df spos dpos n st \<noteq> Inr st'"
        unfolding eq using False by auto
      ultimately show ?thesis by simp
    next
      case True
      then have le: "spos + w \<le> length sf" "dpos + w \<le> length df"
        using w by (auto simp: a_def b_def min_def split: if_splits)
      have "span_equal sf df spos dpos n \<longleftrightarrow> span_equal sf df (spos + w) (dpos + w) (n - w)"
        using True w le split by (auto simp: span_equal_def)
      moreover have "verify_blocks sf df spos dpos n st = verify_blocks sf df (spos + w) (dpos + w) (n - w)
          (st\<lparr>v_src_fed := v_src_fed st @ a, v_dst_fed := v_dst_fed st @ b, v_bytes := v_bytes st + w\<rparr>)"
        unfolding eq using True by auto
      ultimately show ?thesis
        using 1 [OF \<open>n \<noteq> 0\<close> w_def a_def b_def] True w split by (auto simp: add.assoc)
    qed
  qed
qed

lemma seek_ok_iff: "seek_ok x = Inr u \<longleftrightarrow> x < 2 ^ 63"
  by (simp add: seek_ok_def seek_error_def)

lemma verify_record_iff:
  "verify_record srs drs sf df st key = Inr st' \<longleftrightarrow> (\<exists>sr dr. srs key = Some sr \<and> drs key = Some dr
     \<and> same_metadata sr dr \<and> r_offset sr < 2 ^ 63 \<and> r_offset dr < 2 ^ 63
     \<and> span_equal sf df (r_offset sr) (r_offset dr) (r_read sr)
     \<and> st' = st\<lparr>v_src_fed := v_src_fed st @ key_tag key (r_read sr) @ blob sf sr,
              v_dst_fed := v_dst_fed st @ key_tag key (r_read sr) @ take (r_read sr) (drop (r_offset dr) df),
              v_bytes := v_bytes st + r_read sr\<rparr>)"
proof (cases "srs key"; cases "drs key")
  fix sr dr
  assume s: "srs key = Some sr" "drs key = Some dr"
  show ?thesis
  proof (cases "same_metadata sr dr")
    case True
    then show ?thesis
      by (auto simp: verify_record_def s Let_def rbind_eq_Inr seek_ok_iff verify_blocks_iff blob_def)
  qed (simp add: verify_record_def s)
qed (simp_all add: verify_record_def)

text \<open>The pair of records of one id passes the check.\<close>

definition record_match ::
  "(expert_id \<rightharpoonup> xrec) \<Rightarrow> (expert_id \<rightharpoonup> xrec) \<Rightarrow> bytes \<Rightarrow> bytes \<Rightarrow> expert_id \<Rightarrow> bool" where
  "record_match srs drs sf df key = (case (srs key, drs key) of
     (Some sr, Some dr) \<Rightarrow> same_metadata sr dr \<and> r_offset sr < 2 ^ 63 \<and> r_offset dr < 2 ^ 63
       \<and> span_equal sf df (r_offset sr) (r_offset dr) (r_read sr)
   | _ \<Rightarrow> False)"

lemma verify_record_match:
  "verify_record srs drs sf df st key = Inr st' \<Longrightarrow> record_match srs drs sf df key"
  by (auto simp: verify_record_iff record_match_def)

lemma match_verify_record:
  assumes "record_match srs drs sf df key" "v_src_fed st = v_dst_fed st"
  shows "\<exists>st'. verify_record srs drs sf df st key = Inr st' \<and> v_src_fed st' = v_dst_fed st'
     \<and> v_bytes st' = v_bytes st + read_of srs key"
proof -
  from assms(1) obtain sr dr where m: "srs key = Some sr" "drs key = Some dr" "same_metadata sr dr"
    "r_offset sr < 2 ^ 63" "r_offset dr < 2 ^ 63" "span_equal sf df (r_offset sr) (r_offset dr) (r_read sr)"
    by (auto simp: record_match_def split: option.splits)
  then have "blob sf sr = take (r_read sr) (drop (r_offset dr) df)"
    by (auto simp: span_equal_def blob_def)
  with m assms(2) show ?thesis by (simp add: verify_record_iff read_of_def)
qed

lemma verify_fold_match:
  "foldR (verify_record srs drs sf df) st ks = Inr st' \<Longrightarrow> list_all (record_match srs drs sf df) ks"
  by (induction ks arbitrary: st) (auto simp: rbind_eq_Inr verify_record_match)

lemma match_verify_fold:
  "list_all (record_match srs drs sf df) ks \<Longrightarrow> v_src_fed st = v_dst_fed st \<Longrightarrow>
     \<exists>st'. foldR (verify_record srs drs sf df) st ks = Inr st' \<and> v_src_fed st' = v_dst_fed st'
       \<and> v_bytes st' = v_bytes st + sum_list (map (read_of srs) ks)"
proof (induction ks arbitrary: st)
  case (Cons k ks)
  then obtain st1 where "verify_record srs drs sf df st k = Inr st1" "v_src_fed st1 = v_dst_fed st1"
    "v_bytes st1 = v_bytes st + read_of srs k"
    using match_verify_record by fastforce
  with Cons show ?case by fastforce
qed simp

lemma verify_ids_iff:
  "verify_ids src dst d = Inr e \<longleftrightarrow> d \<subseteq> m_ids src \<and> e = m_ids src - d \<and> m_ids dst = e \<and> m_n_records dst = card e"
  by (auto simp: verify_ids_def Let_def)

lemma verify_compaction_InrD:
  assumes "verify_compaction sha sb si db di mk s = (Inr rep, s')"
  obtains src dst d sf df where "store_on s sb si src sf" "store_on s db di dst df" "mask_on s mk d"
    "m_n_layers src = m_n_layers dst" "m_n_experts src = m_n_experts dst" "s' = s"
    "verify_ids src dst d = Inr (m_ids src - d)"
    "verify_payloads sha src dst d (m_ids src - d) sf df = Inr rep"
proof -
  from assms obtain src dst d sf df e where "store_on s sb si src sf" "store_on s db di dst df" "mask_on s mk d"
    "m_n_layers src = m_n_layers dst" "m_n_experts src = m_n_experts dst" "s' = s"
    and e: "verify_ids src dst d = Inr e" and "verify_payloads sha src dst d e sf df = Inr rep"
    unfolding verify_compaction_def io_iffs store_on_def mask_on_def
    by (auto split: if_splits)
  moreover have "e = m_ids src - d" using e by (simp add: verify_ids_iff)
  ultimately show ?thesis by (intro that) simp_all
qed

text \<open>Equal spans under equal metadata make equal views.\<close>

lemma match_view:
  assumes "record_match srs drs sf df k" "srs = records_by_id rs" "drs = records_by_id ds"
  shows "store_view ds df k = store_view rs sf k"
proof -
  from assms(1) obtain sr dr where m: "srs k = Some sr" "drs k = Some dr" "same_metadata sr dr"
    "span_equal sf df (r_offset sr) (r_offset dr) (r_read sr)"
    by (auto simp: record_match_def split: option.splits)
  have "r_read dr = r_read sr" using m(3) by (cases sr; cases dr) (simp add: same_metadata_def)
  then have "blob df dr = blob sf sr" using m(4) by (auto simp: span_equal_def blob_def)
  then show ?thesis using m assms(2,3) by (simp add: store_view_def same_metadata_def)
qed

lemma verify_sound:
  assumes "verify_compaction sha sb si db di mk s = (Inr rep, s')"
  shows "\<exists>src dst d sf df. store_on s sb si src sf \<and> store_on s db di dst df \<and> mask_on s mk d
    \<and> m_n_layers src = m_n_layers dst \<and> m_n_experts src = m_n_experts dst \<and> d \<subseteq> m_ids src
    \<and> store_view (m_records dst) df = store_view (m_records src) sf |` (- d)"
  using assms
proof (rule verify_compaction_InrD)
  fix src dst d sf df
  assume on: "store_on s sb si src sf" "store_on s db di dst df" "mask_on s mk d"
    and dims: "m_n_layers src = m_n_layers dst" "m_n_experts src = m_n_experts dst"
    and ids: "verify_ids src dst d = Inr (m_ids src - d)"
    and pay: "verify_payloads sha src dst d (m_ids src - d) sf df = Inr rep"
  obtain raw raw' where raw: "read_index raw = Inr src" "read_index raw' = Inr dst"
    using on by (auto simp: store_on_def)
  have idset: "m_ids src = rec_id ` set (m_records src)" "m_ids dst = rec_id ` set (m_records dst)"
    using read_index_InrD(2) raw by blast+
  have "list_all (record_match (records_by_id (m_records src)) (records_by_id (m_records dst)) sf df)
      (sorted_list_of_set (m_ids src - d))"
    using pay by (auto simp: verify_payloads_def rbind_eq_Inr dest: verify_fold_match)
  moreover have "finite (m_ids src - d)" by (simp add: idset)
  ultimately have match: "record_match (records_by_id (m_records src)) (records_by_id (m_records dst)) sf df k"
    if "k \<in> m_ids src - d" for k using that by (simp add: list_all_iff)
  have "store_view (m_records dst) df k = (store_view (m_records src) sf |` (- d)) k" for k
  proof (cases "k \<in> m_ids src - d")
    case True
    then show ?thesis using match_view [OF match refl refl] by simp
  next
    case False
    then have "k \<notin> dom (store_view (m_records dst) df)"
      using ids by (simp add: store_view_dom verify_ids_iff idset [symmetric])
    moreover have "k \<notin> dom (store_view (m_records src) sf |` (- d))"
      using False by (auto simp: store_view_dom idset [symmetric])
    ultimately show ?thesis by (metis domIff)
  qed
  then have "store_view (m_records dst) df = store_view (m_records src) sf |` (- d)" by (rule ext)
  moreover have "d \<subseteq> m_ids src" using ids by (simp add: verify_ids_iff)
  ultimately show ?thesis using on dims by blast
qed

section \<open>A compacted store passes\<close>

lemma copied_match:
  assumes cp: "list_all2 (copied src out) rs ks" and d: "distinct (map rec_id rs)" and k: "k \<in> rec_id ` set rs"
    and len: "length out < 2 ^ 63"
    and srs: "srs k = records_by_id rs k"
  shows "record_match srs (records_by_id ks) src out k"
proof -
  obtain i where i: "i < length rs" "rec_id (rs ! i) = k" using k by (auto simp: in_set_conv_nth)
  then have c: "copied src out (rs ! i) (ks ! i)" using cp list_all2_nthD by blast
  have "records_by_id rs k = Some (rs ! i)" using i d by (auto simp: records_by_id_Some)
  moreover have "records_by_id ks k = Some (ks ! i)"
    using i c copied_fields [OF c] list_all2_lengthD [OF cp] d
    by (subst records_by_id_Some) (simp_all add: list_all2_copied_ids [OF cp])
  moreover have "same_metadata (rs ! i) (ks ! i)"
    using copied_same_fields [OF c] by (simp add: same_metadata_def)
  ultimately show ?thesis
    using c copied_fields [OF c] len
    by (auto simp: record_match_def srs copied_def span_equal_def blob_def)
qed

lemma records_by_id_kept: "k \<notin> d \<Longrightarrow> records_by_id rs k = records_by_id (kept_of d rs) k"
  by (simp add: records_by_id_filter)

lemma verify_after_compact:
  assumes run: "compact_store sb si mk db di allow s = (Inr rep, s')"
    and paths: "di \<noteq> db" "mask_sidecar_path di \<noteq> db"
      "{db, di, mask_sidecar_path di} \<inter> {sb, si, mk} = {}"
    and size: "output_bytes rep \<le> source_bytes rep" "source_bytes rep < 2 ^ 63"
  shows "\<exists>m src d. store_on s sb si m src \<and> mask_on s mk d \<and> (allow \<or> d \<subseteq> m_ids m) \<and>
    (if d \<subseteq> m_ids m
     then \<exists>vr. verify_compaction sha sb si db di mk s' = (Inr vr, s')
       \<and> vr_records_verified vr = output_records rep \<and> vr_byte_exact vr
     else verify_compaction sha sb si db di mk s' = (Inl (ValueError ''mask ids missing from source store''), s'))"
proof -
  obtain m d src m' out where r: "store_on s sb si m src" "mask_on s mk d" "store_on s' db di m' out"
    "list_all2 (copied src out) (kept_of d (m_records m)) (m_records m')"
    "m_n_layers m' = m_n_layers m" "m_n_experts m' = m_n_experts m" "m_ids m' = m_ids m - d" "allow \<or> d \<subseteq> m_ids m"
    using compact_store_result [OF run paths(1,2)] by blast
  have facts: "source_bytes rep = length src \<and> output_bytes rep = length out \<and>
      output_records rep = length (m_records m') \<and> (\<forall>p. p \<notin> {db, di, mask_sidecar_path di} \<longrightarrow> s' p = s p)"
    using run
  proof (rule compact_store_InrD)
    fix m2 d2 src2 missing st idxb
    assume a: "store_on s sb si m2 src2" "mask_on s mk d2"
      "write_index (compact_header m2 (c_kept st) (length (c_out st))) (c_kept st) = (idxb, None)"
      "compact_records d2 src2 compact_start (m_records m2) = (st, None)"
      "s' = s(db \<mapsto> c_out st, di \<mapsto> idxb,
            mask_sidecar_path di \<mapsto> ascii_encode (join [LF] (mask_lines d2) @ [LF]))"
      "output_records rep = length (c_kept st)" "output_bytes rep = length (c_out st)"
      "source_bytes rep = length src2"
    have eq: "m2 = m" "src2 = src" "d2 = d" using store_on_unique mask_on_unique a r by blast+
    have out: "out = c_out st"
      using a(5) r(3) paths by (auto simp: store_on_def)
    obtain raw where raw: "read_index raw = Inr m" using r(1) by (auto simp: store_on_def)
    have pos: "list_all (\<lambda>r. 0 < r_read r) (m_records m)"
      using read_index_InrD(1) [OF raw] by (simp add: records_ok_def list_all_iff)
    have "length (c_kept st) = length (m_records m')"
    proof -
      have "list_all2 (copied src (c_out st)) (kept_of d (m_records m)) (c_kept st)"
        using compact_records_ok [OF a(4) [unfolded eq] pos] by (auto simp: compact_start_def)
      then show ?thesis using r(4) list_all2_lengthD by metis
    qed
    then show ?thesis using a(5-8) by (simp add: eq out)
  qed
  then have sizes: "source_bytes rep = length src" "output_bytes rep = length out"
      "output_records rep = length (m_records m')"
    and s': "\<forall>p. p \<notin> {db, di, mask_sidecar_path di} \<longrightarrow> s' p = s p" by blast+
  obtain raw where raw: "read_index raw = Inr m" using r(1) by (auto simp: store_on_def)
  obtain raw' where raw': "read_index raw' = Inr m'" using r(3) by (auto simp: store_on_def)
  note ri = read_index_InrD [OF raw] and ri' = read_index_InrD [OF raw']
  have d: "distinct (map rec_id (kept_of d (m_records m)))"
    using ri(1) by (simp add: records_ok_def distinct_map_filter)
  have card: "card (m_ids m - d) = length (m_records m')"
    using distinct_card [of "map rec_id (m_records m')"] ri'(1) by (simp add: r(7) [symmetric] ri'(2) records_ok_def)
  have fin: "finite (m_ids m)" by (simp add: ri(2))
  have "record_match (records_by_id (m_records m)) (records_by_id (m_records m')) src out k" if "k \<in> m_ids m - d" for k
    using that size sizes by (intro copied_match [OF r(4) d] records_by_id_kept) (auto simp: ri(2))
  then have "list_all (record_match (records_by_id (m_records m)) (records_by_id (m_records m')) src out)
      (sorted_list_of_set (m_ids m - d))"
    using fin by (simp add: list_all_iff)
  from match_verify_fold [OF this, of "\<lparr> v_src_fed = [], v_dst_fed = [], v_bytes = 0 \<rparr>"]
  obtain st' where fold: "foldR (verify_record (records_by_id (m_records m)) (records_by_id (m_records m')) src out)
      \<lparr> v_src_fed = [], v_dst_fed = [], v_bytes = 0 \<rparr> (sorted_list_of_set (m_ids m - d)) = Inr st'"
    "v_src_fed st' = v_dst_fed st'" by auto
  have "\<exists>fr. reduction_fraction (length src) (length out) = Inr fr"
    using int_truediv_fraction [of "int (length src) - int (length out)" "int (length src)"] size sizes
    by (auto simp: reduction_fraction_def)
  then obtain vr where vr: "verify_payloads sha m m' d (m_ids m - d) src out = Inr vr"
    "vr_records_verified vr = card (m_ids m - d)" "vr_byte_exact vr"
    using fold by (auto simp: verify_payloads_def)
  have same: "s' sb = s sb" "s' si = s si" "s' mk = s mk" using s' paths(3) by auto
  have ids: "verify_ids m m' d = (if d \<subseteq> m_ids m then Inr (m_ids m - d) else Inl (ValueError ''mask ids missing from source store''))"
    using r(7) card ri'(3) by (auto simp: verify_ids_def Let_def)
  obtain sraw draw mb t where on: "s si = Some sraw" "read_index sraw = Inr m" "s sb = Some src" "m_data_bytes m = length src"
      "s' di = Some draw" "read_index draw = Inr m'" "s' db = Some out" "m_data_bytes m' = length out"
      "s mk = Some mb" "ascii_decode mb = Inr t" "read_mask t = Inr d"
    using r(1-3) unfolding store_on_def mask_on_def by blast
  have run': "verify_compaction sha sb si db di mk s' = (rbind (verify_ids m m' d) (\<lambda>ex. verify_payloads sha m m' d ex src out), s')"
    by (cases "verify_ids m m' d") (simp_all add: verify_compaction_def io_bind_def read_text_app same on r(5,6))
  show ?thesis
  proof (cases "d \<subseteq> m_ids m")
    case True
    then show ?thesis using run' ids vr card sizes r(1,2)
      by (intro exI [of _ m] exI [of _ src] exI [of _ d]) simp
  next
    case False
    then show ?thesis using run' ids r(1,2,8)
      by (intro exI [of _ m] exI [of _ src] exI [of _ d]) simp
  qed
qed

section \<open>The concrete store\<close>

lemma ex_compact_sizes:
  "\<exists>rep s'. compact_store ''s.bin'' ''s.idx'' ''m.mask'' ''d.bin'' ''d.idx'' False ex_fs = (Inr rep, s')
     \<and> output_bytes rep = 4096 \<and> source_bytes rep = 8192"
proof -
  obtain rep s' where run: "compact_store ''s.bin'' ''s.idx'' ''m.mask'' ''d.bin'' ''d.idx'' False ex_fs = (Inr rep, s')"
    and ob: "output_bytes rep = 4096"
    using ex_compact_runs by blast
  from run have "source_bytes rep = 8192"
    by (rule compact_store_InrD) (use ex_store_on store_on_unique in \<open>fastforce simp: ex_data_def\<close>)
  then show ?thesis using run ob by blast
qed

lemma ex_paths:
  "''d.idx'' \<noteq> ''d.bin''" "mask_sidecar_path ''d.idx'' \<noteq> ''d.bin''"
  "{''d.bin'', ''d.idx'', mask_sidecar_path ''d.idx''} \<inter> {''s.bin'', ''s.idx'', ''m.mask''} = {}"
  by code_simp+

lemma ex_verify_runs:
  "\<exists>rep s' vr. compact_store ''s.bin'' ''s.idx'' ''m.mask'' ''d.bin'' ''d.idx'' False ex_fs = (Inr rep, s')
     \<and> verify_compaction sha ''s.bin'' ''s.idx'' ''d.bin'' ''d.idx'' ''m.mask'' s' = (Inr vr, s')"
proof -
  obtain rep s' where run: "compact_store ''s.bin'' ''s.idx'' ''m.mask'' ''d.bin'' ''d.idx'' False ex_fs = (Inr rep, s')"
    and "output_bytes rep = 4096" "source_bytes rep = 8192"
    using ex_compact_sizes by blast
  then show ?thesis using verify_after_compact [OF run ex_paths, of sha] by auto
qed

section \<open>Properties\<close>

text \<open>C2: the offline check is sound. When it accepts, whatever the digest function, the sparse store is the
  source store restricted to the experts outside the mask: same ids, metadata and payload bytes.\<close>

theorem verify_accepts_only_restrictions:
  assumes "verify_compaction sha sb si db di mk s = (Inr rep, s')"
  shows "\<exists>src dst d sf df. store_on s sb si src sf \<and> store_on s db di dst df \<and> mask_on s mk d
    \<and> m_n_layers src = m_n_layers dst \<and> m_n_experts src = m_n_experts dst \<and> d \<subseteq> m_ids src
    \<and> store_view (m_records dst) df = store_view (m_records src) sf |` (- d)"
  by (rule verify_sound [OF assms])

theorem verify_accepts_only_restrictions_witness:
  "\<exists>s rep s'. verify_compaction (\<lambda>bs. show_nat (length bs)) ''s.bin'' ''s.idx'' ''d.bin'' ''d.idx'' ''m.mask'' s = (Inr rep, s')
     \<and> (\<exists>src dst d sf df. store_on s ''s.bin'' ''s.idx'' src sf \<and> store_on s ''d.bin'' ''d.idx'' dst df
       \<and> mask_on s ''m.mask'' d \<and> store_view (m_records dst) df = store_view (m_records src) sf |` (- d))"
proof -
  obtain s' vr where v: "verify_compaction (\<lambda>bs. show_nat (length bs)) ''s.bin'' ''s.idx'' ''d.bin'' ''d.idx'' ''m.mask'' s' = (Inr vr, s')"
    using ex_verify_runs by blast
  show ?thesis using v verify_accepts_only_restrictions [OF v] by blast
qed

text \<open>C3: how the check judges the compactor. Take a run of the compactor whose outputs lie apart from its
  inputs, and whose output is no larger than the source, itself below 2^63 bytes. If every id of the mask is in the source
  store, as it must be without --allow-missing-disabled, the check passes on the written store and compares every kept
  record. If the flag let unknown ids through, the check refuses the store for these ids. It changes no file either way.\<close>

theorem compaction_passes_verification:
  assumes "compact_store sb si mk db di allow s = (Inr rep, s')"
    and "di \<noteq> db" "mask_sidecar_path di \<noteq> db" "{db, di, mask_sidecar_path di} \<inter> {sb, si, mk} = {}"
    and "output_bytes rep \<le> source_bytes rep" "source_bytes rep < 2 ^ 63"
  shows "\<exists>m src d. store_on s sb si m src \<and> mask_on s mk d \<and> (allow \<or> d \<subseteq> m_ids m) \<and>
    (if d \<subseteq> m_ids m
     then \<exists>vr. verify_compaction sha sb si db di mk s' = (Inr vr, s')
       \<and> vr_records_verified vr = output_records rep \<and> vr_byte_exact vr
     else verify_compaction sha sb si db di mk s' = (Inl (ValueError ''mask ids missing from source store''), s'))"
  by (rule verify_after_compact [OF assms])

theorem compaction_passes_verification_witness:
  "\<exists>rep s'. compact_store ''s.bin'' ''s.idx'' ''m.mask'' ''d.bin'' ''d.idx'' False ex_fs = (Inr rep, s')
     \<and> (\<exists>vr. verify_compaction (\<lambda>bs. []) ''s.bin'' ''s.idx'' ''d.bin'' ''d.idx'' ''m.mask'' s' = (Inr vr, s')
        \<and> vr_records_verified vr = output_records rep \<and> vr_byte_exact vr)"
proof -
  obtain rep s' where run: "compact_store ''s.bin'' ''s.idx'' ''m.mask'' ''d.bin'' ''d.idx'' False ex_fs = (Inr rep, s')"
    and "output_bytes rep = 4096" "source_bytes rep = 8192"
    using ex_compact_sizes by blast
  then show ?thesis
    using compaction_passes_verification [OF run ex_paths, of "\<lambda>bs. []"] by auto
qed

text \<open>The block loop that compares two payloads succeeds exactly when the two spans lie inside their
  files and are equal, and then feeds both digests the span and counts its bytes, whatever the chunk size.\<close>

theorem verify_blocks_compares_spans:
  "verify_blocks sf df spos dpos n st = Inr st' \<longleftrightarrow>
     (n = 0 \<or> spos + n \<le> length sf \<and> dpos + n \<le> length df \<and> take n (drop spos sf) = take n (drop dpos df)) \<and>
     st' = st\<lparr>v_src_fed := v_src_fed st @ take n (drop spos sf), v_dst_fed := v_dst_fed st @ take n (drop dpos df),
              v_bytes := v_bytes st + n\<rparr>"
  by (simp only: verify_blocks_iff span_equal_def)

end
