(* ===== verification/Json.thy ===== *)
theory Json
  imports PyFloat
begin

text \<open>
  The values \<^verbatim>\<open>json.loads\<close> returns and the Python operations the tools apply to them: dictionary
  access, truth, numeric comparison with \<^verbatim>\<open>==\<close>, and the conversions \<^verbatim>\<open>int(v)\<close>, \<^verbatim>\<open>float(v)\<close>. The parser
  itself is not modelled: the operations below start from a parsed value. An object is the list of
  its items in insertion order, without duplicate keys.
\<close>

datatype json =
    JNull
  | JBool bool
  | JInt int
  | JFloat pyfloat
  | JStr string
  | JList "json list"
  | JObj "(string \<times> json) list"

definition is_dict :: "json \<Rightarrow> bool" where
  "is_dict v = (case v of JObj kvs \<Rightarrow> True | _ \<Rightarrow> False)"

definition is_list :: "json \<Rightarrow> bool" where
  "is_list v = (case v of JList vs \<Rightarrow> True | _ \<Rightarrow> False)"

definition is_str :: "json \<Rightarrow> bool" where
  "is_str v = (case v of JStr s \<Rightarrow> True | _ \<Rightarrow> False)"

text \<open>\<^verbatim>\<open>isinstance(v, bool)\<close>; \<^verbatim>\<open>isinstance(v, int)\<close>, which a \<^verbatim>\<open>bool\<close> also satisfies.\<close>

definition is_bool :: "json \<Rightarrow> bool" where
  "is_bool v = (case v of JBool b \<Rightarrow> True | _ \<Rightarrow> False)"

definition is_int :: "json \<Rightarrow> bool" where
  "is_int v = (case v of JBool b \<Rightarrow> True | JInt n \<Rightarrow> True | _ \<Rightarrow> False)"

text \<open>\<^verbatim>\<open>v.get(k, d)\<close>, \<^verbatim>\<open>v[k]\<close> and \<^verbatim>\<open>v.items()\<close> of a dictionary.\<close>

definition json_get :: "json \<Rightarrow> string \<Rightarrow> json \<Rightarrow> json res" where
  "json_get v k d = (case v of
     JObj kvs \<Rightarrow> Inr (case map_of kvs k of None \<Rightarrow> d | Some x \<Rightarrow> x)
   | _ \<Rightarrow> Inl (AttributeError ''object has no attribute 'get' ''))"

definition json_index :: "json \<Rightarrow> string \<Rightarrow> json res" where
  "json_index v k = (case v of
     JObj kvs \<Rightarrow> of_option (KeyError k) (map_of kvs k)
   | _ \<Rightarrow> Inl (TypeError ''indices must be integers''))"

definition json_items :: "json \<Rightarrow> (string \<times> json) list res" where
  "json_items v = (case v of JObj kvs \<Rightarrow> Inr kvs
                   | _ \<Rightarrow> Inl (AttributeError ''object has no attribute 'items' ''))"

text \<open>Iterating a value: a dict gives its keys, a string its characters.\<close>

definition json_list :: "json \<Rightarrow> json list res" where
  "json_list v = (case v of
     JList vs \<Rightarrow> Inr vs
   | JObj kvs \<Rightarrow> Inr (map (JStr \<circ> fst) kvs)
   | JStr s \<Rightarrow> Inr (map (\<lambda>c. JStr [c]) s)
   | _ \<Rightarrow> Inl (TypeError ''object is not iterable''))"

text \<open>\<^verbatim>\<open>k in v\<close> for a string \<open>k\<close>.\<close>

fun infix_of :: "string \<Rightarrow> string \<Rightarrow> bool" where
  "infix_of p [] = (p = [])"
| "infix_of p (c # s) = (take (length p) (c # s) = p \<or> infix_of p s)"

definition json_contains :: "json \<Rightarrow> string \<Rightarrow> bool res" where
  "json_contains v k = (case v of
     JObj kvs \<Rightarrow> Inr (k \<in> fst ` set kvs)
   | JList vs \<Rightarrow> Inr (JStr k \<in> set vs)
   | JStr s \<Rightarrow> Inr (infix_of k s)
   | _ \<Rightarrow> Inl (TypeError ''argument is not iterable''))"

text \<open>Numbers: booleans count as 0 and 1, floats compare by value.\<close>

definition json_eq_int :: "json \<Rightarrow> int \<Rightarrow> bool" where
  "json_eq_int v n = (case v of
     JBool b \<Rightarrow> (if b then 1 else 0) = n
   | JInt m \<Rightarrow> m = n
   | JFloat x \<Rightarrow> x = Fin (of_int n)
   | _ \<Rightarrow> False)"

definition json_truthy :: "json \<Rightarrow> bool" where
  "json_truthy v = (case v of
     JNull \<Rightarrow> False | JBool b \<Rightarrow> b | JInt n \<Rightarrow> n \<noteq> 0 | JFloat x \<Rightarrow> x \<noteq> Fin 0
   | JStr s \<Rightarrow> s \<noteq> [] | JList vs \<Rightarrow> vs \<noteq> [] | JObj kvs \<Rightarrow> kvs \<noteq> [])"

definition trunc :: "rat \<Rightarrow> int" where
  "trunc r = (if 0 \<le> r then \<lfloor>r\<rfloor> else - \<lfloor>- r\<rfloor>)"

definition float_to_int :: "pyfloat \<Rightarrow> int res" where
  "float_to_int x = (case x of
     Fin r \<Rightarrow> Inr (trunc r)
   | NaN \<Rightarrow> Inl (ValueError ''cannot convert float NaN to integer'')
   | _ \<Rightarrow> Inl (OverflowError ''cannot convert float infinity to integer''))"

text \<open>\<^verbatim>\<open>int(v)\<close> and \<^verbatim>\<open>float(v)\<close>\<close>

definition json_int :: "json \<Rightarrow> int res" where
  "json_int v = (case v of
     JBool b \<Rightarrow> Inr (if b then 1 else 0)
   | JInt n \<Rightarrow> Inr n
   | JFloat x \<Rightarrow> float_to_int x
   | JStr s \<Rightarrow> int_res s
   | _ \<Rightarrow> Inl (TypeError ''int() argument must be a string, a bytes-like object or a real number''))"

definition json_float :: "json \<Rightarrow> pyfloat res" where
  "json_float v = (case v of
     JBool b \<Rightarrow> Inr (Fin (if b then 1 else 0))
   | JInt n \<Rightarrow> float_of_int n
   | JFloat x \<Rightarrow> Inr x
   | JStr s \<Rightarrow> float_res s
   | _ \<Rightarrow> Inl (TypeError ''float() argument must be a string or a real number''))"

lemma trunc_of_int [simp]: "trunc (of_int n) = n"
  by (simp add: trunc_def)

lemma json_int_JInt [simp]: "json_int (JInt n) = Inr n"
  by (simp add: json_int_def)

lemma json_int_JStr [simp]: "json_int (JStr s) = int_res s"
  by (simp add: json_int_def)

lemma json_get_JObj [simp]: "json_get (JObj kvs) k d = Inr (case map_of kvs k of None \<Rightarrow> d | Some x \<Rightarrow> x)"
  by (simp add: json_get_def)

lemma json_index_JObj [simp]: "json_index (JObj kvs) k = of_option (KeyError k) (map_of kvs k)"
  by (simp add: json_index_def)

end
