(* ===== verification/MergeStore.thy ===== *)
theory MergeStore
  imports CompactStore Json
begin

text \<open>
  \<^verbatim>\<open>tools/merge_expert_store.py\<close>: rewrite a store so that logical experts of one cluster share a payload.
\<close>

section \<open>Inputs\<close>

definition merge_read_index :: "bytes \<Rightarrow> (xhdr \<times> xrec list) res" where
  "merge_read_index raw =
     (if length raw < HDR_SIZE then Inl (SystemExit ''bad experts.idx: short header'')
      else let h = HDR_unpack (take HDR_SIZE raw) in
        if h_magic h \<noteq> MAGIC \<or> h_version h \<noteq> VERSION \<or> h_align h \<noteq> ALIGN
        then Inl (SystemExit ''bad experts.idx header'')
        else if length raw < h_records_offset h + h_n_records h * REC_SIZE
        then Inl (SystemExit ''bad experts.idx: truncated records'')
        else rmap (Pair h) (unpack_table REC_unpack REC_SIZE raw (h_records_offset h) (h_n_records h)))"

text \<open>\<^verbatim>\<open>{int(k): int(v) for k, v in info.get("map", {}).items()}\<close> for each layer of the manifest.\<close>

type_synonym layer_map = "int \<rightharpoonup> (int \<rightharpoonup> int)"

definition map_entries :: "json \<Rightarrow> (int \<rightharpoonup> int) res" where
  "map_entries info =
     rbind (json_get info ''map'' (JObj [])) (\<lambda>mp. rbind (json_items mp) (\<lambda>kvs.
       foldR (\<lambda>m (k, v). rbind (int_res k) (\<lambda>a. rbind (json_int v) (\<lambda>b. Inr (m(a \<mapsto> b))))) Map.empty kvs))"

definition load_mapping :: "json \<Rightarrow> layer_map res" where
  "load_mapping obj =
     rbind (json_get obj ''version'' JNull) (\<lambda>v. rbind (json_contains obj ''layers'') (\<lambda>has.
       if \<not> json_eq_int v 1 \<or> \<not> has then Inl (SystemExit ''unsupported pruning manifest'')
       else rbind (json_index obj ''layers'') (\<lambda>ls. rbind (json_items ls) (\<lambda>kvs.
         foldR (\<lambda>m (k, info). rbind (int_res k) (\<lambda>layer. rbind (map_entries info) (\<lambda>e.
                  Inr (m(layer \<mapsto> e))))) Map.empty kvs))))"

section \<open>Prototypes\<close>

text \<open>\<^verbatim>\<open>layer_map.get(layer, {}).get(expert, expert)\<close>\<close>

definition prototype_of :: "layer_map \<Rightarrow> expert_id \<Rightarrow> int" where
  "prototype_of lm k =
     (case lm (int (fst k)) of None \<Rightarrow> int (snd k)
      | Some e \<Rightarrow> (case e (int (snd k)) of None \<Rightarrow> int (snd k) | Some p \<Rightarrow> p))"

definition assign_prototypes ::
  "layer_map \<Rightarrow> xrec list \<Rightarrow> (expert_id \<times> nat) list res" where
  "assign_prototypes lm recs =
     mapR (\<lambda>r. let p = prototype_of lm (rec_id r) in
       if p < 0 \<or> records_by_id recs (r_layer r, nat p) = None
       then Inl (SystemExit ''prototype not present'') else Inr (rec_id r, nat p)) recs"

definition referenced :: "(expert_id \<times> nat) list \<Rightarrow> expert_id list" where
  "referenced protos = sorted_list_of_set ((\<lambda>(k, p). (fst k, p)) ` set protos)"

section \<open>Copying the payloads\<close>

record merge_state =
  g_out :: bytes
  g_loc :: "expert_id \<rightharpoonup> nat"

fun merge_copy ::
  "(expert_id \<rightharpoonup> xrec) \<Rightarrow> bytes \<Rightarrow> merge_state \<Rightarrow> expert_id list \<Rightarrow> merge_state \<times> exn option" where
  "merge_copy by_key src st [] = (st\<lparr>g_out := pad_to ALIGN (g_out st)\<rparr>, None)"
| "merge_copy by_key src st (key # keys) =
     (case by_key key of
        None \<Rightarrow> (st, Some (KeyError ''record''))
      | Some r \<Rightarrow>
          if r_offset r mod ALIGN \<noteq> 0 \<or> r_read r mod ALIGN \<noteq> 0
          then (st, Some (SystemExit ''source direct-I/O span is not aligned''))
          else let out = pad_to ALIGN (g_out st); new_off = length out in
            (case seek_error (r_offset r) of
               Some e \<Rightarrow> (st\<lparr>g_out := out\<rparr>, Some e)
             | None \<Rightarrow>
                 let payload = blob src r in
                 if length payload \<noteq> r_read r
                 then (st\<lparr>g_out := out\<rparr>, Some (SystemExit ''short expert payload read''))
                 else merge_copy by_key src
                        \<lparr> g_out = out @ payload, g_loc = (g_loc st)(key \<mapsto> new_off) \<rparr> keys))"

definition merged_records ::
  "(expert_id \<rightharpoonup> xrec) \<Rightarrow> (expert_id \<rightharpoonup> nat) \<Rightarrow> (expert_id \<rightharpoonup> nat) \<Rightarrow> xrec list \<Rightarrow> xrec list res" where
  "merged_records by_key loc proto_for recs =
     mapR (\<lambda>r. rbind (of_option (KeyError ''prototype'') (proto_for (rec_id r))) (\<lambda>proto.
       rbind (of_option (KeyError ''record'') (by_key (r_layer r, proto))) (\<lambda>pr.
       rbind (of_option (KeyError ''location'') (loc (r_layer r, proto))) (\<lambda>off.
         Inr (pr\<lparr>r_layer := r_layer r, r_expert := r_expert r, r_offset := off\<rparr>))))) recs"

section \<open>The whole tool\<close>

record merge_report =
  mr_logical_records :: nat
  mr_unique_payloads :: nat
  mr_bytes :: nat
  mr_source_bytes :: nat
  mr_ratio :: pyfloat
  mr_counts :: "(nat \<times> nat) list"

definition layer_counts :: "expert_id list \<Rightarrow> (nat \<times> nat) list" where
  "layer_counts refd = map (\<lambda>l. (l, length (filter (\<lambda>k. fst k = l) refd))) (remdups (map fst refd))"

definition merge_write ::
  "string \<Rightarrow> string \<Rightarrow> string \<Rightarrow> xhdr \<Rightarrow> xrec list \<Rightarrow> (expert_id \<times> nat) list \<Rightarrow> merge_report io" where
  "merge_write src_bin out_bin out_idx h recs protos =
     io_bind (write_bytes out_bin []) (\<lambda>_. io_bind (read_bytes src_bin) (\<lambda>src.
     case merge_copy (records_by_id recs) src \<lparr> g_out = [], g_loc = Map.empty \<rparr> (referenced protos) of
       (st, err) \<Rightarrow>
         io_bind (write_out out_bin (g_out st, err)) (\<lambda>_.
         io_bind (io_lift (merged_records (records_by_id recs) (g_loc st) (map_of (rev protos)) recs)) (\<lambda>outs.
         io_bind (write_out out_idx (write_index
           (h\<lparr>h_records_offset := HDR_SIZE, h_data_bytes := length (g_out st)\<rparr>) outs)) (\<lambda>_.
         io_bind (file_size src_bin) (\<lambda>src_bytes.
         io_bind (io_lift (if src_bytes \<noteq> 0 then int_truediv (int (length (g_out st))) (int src_bytes)
                           else Inr (Fin 0))) (\<lambda>ratio.
         io_return
           \<lparr> mr_logical_records = h_n_records h, mr_unique_payloads = length (referenced protos),
             mr_bytes = length (g_out st), mr_source_bytes = src_bytes, mr_ratio = ratio,
             mr_counts = layer_counts (referenced protos) \<rparr>)))))))"

definition merge_main ::
  "(string \<Rightarrow> json res) \<Rightarrow> string \<Rightarrow> string \<Rightarrow> string \<Rightarrow> string \<Rightarrow> string \<Rightarrow> merge_report io" where
  "merge_main loads src_bin src_idx mapping_json out_bin out_idx =
     io_bind (read_bytes src_idx) (\<lambda>raw. io_bind (io_lift (merge_read_index raw)) (\<lambda>(h, recs).
     io_bind (file_size src_bin) (\<lambda>sz.
     if sz < h_data_bytes h then io_raise (SystemExit ''experts.bin shorter than index declares'')
     else io_bind (read_text mapping_json) (\<lambda>t. io_bind (io_lift (rbind (loads t) load_mapping)) (\<lambda>lm.
       if \<not> distinct (map rec_id recs)
       then io_raise (SystemExit ''duplicate expert records in source index'')
       else io_bind (io_lift (assign_prototypes lm recs)) (\<lambda>protos.
         merge_write src_bin out_bin out_idx h recs protos))))))"

section \<open>Lemmas\<close>

lemma assign_prototypes_map:
  "assign_prototypes lm recs = Inr protos \<Longrightarrow>
     protos = map (\<lambda>r. (rec_id r, nat (prototype_of lm (rec_id r)))) recs \<and>
     (\<forall>r \<in> set recs. 0 \<le> prototype_of lm (rec_id r) \<and>
        records_by_id recs (r_layer r, nat (prototype_of lm (rec_id r))) \<noteq> None)"
  unfolding assign_prototypes_def
  by (rule mapR_map) (auto simp: Let_def split: if_splits)

lemma length_blob: "length (blob src r) = r_read r \<longleftrightarrow> r_read r = 0 \<or> r_offset r + r_read r \<le> length src"
  by (auto simp: blob_def)

text \<open>After the loop every referenced payload sits at its aligned location, untouched.\<close>

lemma merge_copy_ok:
  assumes "merge_copy by_key src st keys = (st', None)" "distinct keys"
    and "\<forall>k \<in> set keys. g_loc st k = None"
  shows "(\<exists>ext. g_out st' = g_out st @ ext) \<and> (\<forall>k. k \<notin> set keys \<longrightarrow> g_loc st' k = g_loc st k)
    \<and> (\<forall>k \<in> set keys. \<exists>r off. by_key k = Some r \<and> g_loc st' k = Some off \<and> ALIGN dvd off
       \<and> off + r_read r \<le> length (g_out st') \<and> take (r_read r) (drop off (g_out st')) = blob src r
       \<and> length (blob src r) = r_read r \<and> ALIGN dvd r_read r)"
  using assms
proof (induction keys arbitrary: st)
  case Nil
  then show ?case by (auto simp: pad_to_def)
next
  case (Cons key keys)
  define pad where "pad = pad_to ALIGN (g_out st)"
  define st1 where "st1 = (\<lambda>r. \<lparr> g_out = pad @ blob src r, g_loc = (g_loc st)(key \<mapsto> length pad) \<rparr>)"
  from Cons.prems(1) obtain r where r: "by_key key = Some r" "length (blob src r) = r_read r" "ALIGN dvd r_read r"
    and run: "merge_copy by_key src (st1 r) keys = (st', None)"
    by (auto simp: Let_def st1_def pad_def dvd_eq_mod_eq_0 split: option.splits if_splits)
  have "\<forall>k \<in> set keys. g_loc (st1 r) k = None" "distinct keys"
    using Cons.prems(2,3) by (auto simp: st1_def)
  from Cons.IH [OF run this(2,1)]
  obtain ext where ext: "g_out st' = (pad @ blob src r) @ ext"
    and frame: "\<forall>k. k \<notin> set keys \<longrightarrow> g_loc st' k = ((g_loc st)(key \<mapsto> length pad)) k"
    and done_: "\<forall>k \<in> set keys. \<exists>r off. by_key k = Some r \<and> g_loc st' k = Some off \<and> ALIGN dvd off
       \<and> off + r_read r \<le> length (g_out st') \<and> take (r_read r) (drop off (g_out st')) = blob src r
       \<and> length (blob src r) = r_read r \<and> ALIGN dvd r_read r"
    by (auto simp: st1_def)
  have loc: "g_loc st' key = Some (length pad)" using frame [rule_format, of key] Cons.prems(2) by simp
  have al: "ALIGN dvd length pad" by (simp add: pad_def)
  have "\<exists>r off. by_key key = Some r \<and> g_loc st' key = Some off \<and> ALIGN dvd off
       \<and> off + r_read r \<le> length (g_out st') \<and> take (r_read r) (drop off (g_out st')) = blob src r
       \<and> length (blob src r) = r_read r \<and> ALIGN dvd r_read r"
    using r loc al unfolding ext by (intro exI [of _ r] exI [of _ "length pad"]) simp
  moreover have "\<exists>ext. g_out st' = g_out st @ ext" unfolding ext by (simp add: pad_def pad_to_def)
  moreover have "\<forall>k. k \<notin> set (key # keys) \<longrightarrow> g_loc st' k = g_loc st k" using frame by simp
  ultimately show ?case using done_ by simp
qed

text \<open>Payload sizes are multiples of the alignment, so the output holds nothing but payloads.\<close>

lemma merge_copy_size:
  assumes "merge_copy by_key src st keys = (st', None)" "ALIGN dvd length (g_out st)"
  shows "length (g_out st') = length (g_out st) + sum_list (map (read_of by_key) keys)"
  using assms
proof (induction keys arbitrary: st)
  case Nil
  then show ?case by (auto simp: pad_to_aligned)
next
  case (Cons key keys)
  have pad: "pad_to ALIGN (g_out st) = g_out st" using Cons.prems(2) by (simp add: pad_to_aligned)
  from Cons.prems(1) obtain r where r: "by_key key = Some r" "length (blob src r) = r_read r" "ALIGN dvd r_read r"
    and run: "merge_copy by_key src \<lparr> g_out = g_out st @ blob src r,
        g_loc = (g_loc st)(key \<mapsto> length (g_out st)) \<rparr> keys = (st', None)"
    by (auto simp: Let_def pad dvd_eq_mod_eq_0 split: option.splits if_splits)
  from Cons.IH [OF run] Cons.prems(2) r show ?case by (simp add: read_of_def)
qed

lemma distinct_referenced [simp]: "distinct (referenced protos)"
  by (simp add: referenced_def)

lemma set_referenced [simp]: "set (referenced protos) = (\<lambda>(k, p). (fst k, p)) ` set protos"
  by (simp add: referenced_def)

lemma merge_index_reads:
  assumes w: "write_index h rs = (idxb, None)" and n: "length rs = h_n_records h"
    and h: "h_magic h = MAGIC" "h_version h = VERSION" "h_align h = ALIGN" "h_records_offset h = HDR_SIZE"
  shows "merge_read_index idxb = Inr (h, rs)"
proof -
  obtain hb where hb: "HDR_pack h = Inr hb" "write_all REC_pack hb rs = (idxb, None)"
    using w by (auto simp: write_index_def split: sum.splits)
  have u: "length hb = HDR_SIZE" "HDR_unpack hb = h" using HDR_unpack_pack [OF hb(1)] h(1) by simp_all
  have "length idxb = HDR_SIZE + REC_SIZE * length rs" "take HDR_SIZE idxb = hb"
    "unpack_table REC_unpack REC_SIZE idxb HDR_SIZE (length rs) = Inr rs"
    using rec_codec.table_roundtrip [OF write_all_fits [OF hb(2)] hb(2)] u(1) by simp_all
  then show ?thesis by (simp add: merge_read_index_def u(2) h n [symmetric])
qed

text \<open>\<open>shared\<close>: record \<open>r'\<close> of the output stands for record \<open>r\<close> and carries the payload of its prototype.\<close>

definition shared :: "layer_map \<Rightarrow> xrec list \<Rightarrow> bytes \<Rightarrow> bytes \<Rightarrow> (expert_id \<rightharpoonup> nat) \<Rightarrow> xrec \<Rightarrow> xrec \<Rightarrow> bool" where
  "shared lm recs src out loc r r' =
     (let p = (r_layer r, nat (prototype_of lm (rec_id r))) in
      case records_by_id recs p of
        None \<Rightarrow> False
      | Some pr \<Rightarrow> rec_id r' = rec_id r \<and> r'\<lparr>r_expert := snd p, r_offset := 0\<rparr> = pr\<lparr>r_offset := 0\<rparr>
          \<and> loc p = Some (r_offset r') \<and> ALIGN dvd r_offset r' \<and> r_offset r' + r_read r' \<le> length out
          \<and> blob out r' = blob src pr)"

lemma merge_write_InrD:
  assumes "merge_write sb ob oi h recs protos s = (Inr rep, s')" "sb \<noteq> ob"
  obtains src st outs idxb where "s sb = Some src"
    "merge_copy (records_by_id recs) src \<lparr> g_out = [], g_loc = Map.empty \<rparr> (referenced protos) = (st, None)"
    "merged_records (records_by_id recs) (g_loc st) (map_of (rev protos)) recs = Inr outs"
    "write_index (h\<lparr>h_records_offset := HDR_SIZE, h_data_bytes := length (g_out st)\<rparr>) outs = (idxb, None)"
    "s' = s(ob \<mapsto> g_out st, oi \<mapsto> idxb)" "mr_bytes rep = length (g_out st)"
    "mr_unique_payloads rep = length (referenced protos)" "mr_logical_records rep = h_n_records h"
proof -
  obtain src where src: "s sb = Some src"
    using assms by (auto simp: merge_write_def io_bind_eq_Inr of_option_eq_Inr)
  obtain st err where st: "merge_copy (records_by_id recs) src \<lparr> g_out = [], g_loc = Map.empty \<rparr>
      (referenced protos) = (st, err)" by (metis surj_pair)
  have err: "err = None"
    using assms src by (auto simp: merge_write_def st io_bind_def write_out_def split: option.splits)
  obtain outs where outs: "merged_records (records_by_id recs) (g_loc st) (map_of (rev protos)) recs = Inr outs"
    using assms src by (auto simp: merge_write_def st err io_bind_def write_out_def split: sum.splits)
  obtain idxb ferr where w: "write_index (h\<lparr>h_records_offset := HDR_SIZE, h_data_bytes := length (g_out st)\<rparr>) outs
      = (idxb, ferr)" by (metis surj_pair)
  have ferr: "ferr = None"
    using assms src by (auto simp: merge_write_def st err outs w io_bind_def write_out_def split: option.splits)
  show ?thesis
    using assms src
    by (intro that [OF src st [unfolded err] outs w [unfolded ferr]])
      (auto simp: merge_write_def st err outs w ferr io_bind_def write_out_def split: sum.splits prod.splits)
qed

lemma merged_records_shared:
  assumes cp: "merge_copy (records_by_id recs) src \<lparr> g_out = [], g_loc = Map.empty \<rparr> (referenced protos) = (st, None)"
    and pr: "assign_prototypes lm recs = Inr protos" and d: "distinct (map rec_id recs)"
    and m: "merged_records (records_by_id recs) (g_loc st) (map_of (rev protos)) recs = Inr outs"
  shows "list_all2 (shared lm recs src (g_out st) (g_loc st)) recs outs"
proof -
  note pm = assign_prototypes_map [OF pr]
  have protos: "protos = map (\<lambda>r. (rec_id r, nat (prototype_of lm (rec_id r)))) recs" using pm by blast
  have "distinct (map fst protos)" using d by (simp add: protos comp_def)
  then have look: "map_of (rev protos) (rec_id r) = Some (nat (prototype_of lm (rec_id r)))" if "r \<in> set recs" for r
    using that by (subst map_of_eq_Some_iff) (auto simp: protos rev_map [symmetric])
  show ?thesis
  proof (rule list_all2_all_nthI)
    show "length recs = length outs" using mapR_length m by (fastforce simp: merged_records_def)
    fix i assume i: "i < length recs"
    define r where "r = recs ! i"
    define p where "p = (r_layer r, nat (prototype_of lm (rec_id r)))"
    have r: "r \<in> set recs" using i by (simp add: r_def)
    have "(rec_id r, snd p) \<in> set protos" using r by (auto simp: protos p_def)
    then have "p \<in> set (referenced protos)" by (force simp: p_def rec_id_def)
    then obtain q off where q: "records_by_id recs p = Some q" "g_loc st p = Some off" "ALIGN dvd off"
      "off + r_read q \<le> length (g_out st)" "take (r_read q) (drop off (g_out st)) = blob src q"
      using merge_copy_ok [OF cp] by fastforce
    have "outs ! i = q\<lparr>r_layer := r_layer r, r_expert := r_expert r, r_offset := off\<rparr>"
      using mapR_nth [OF m [unfolded merged_records_def] i] q look [OF r] by (simp add: r_def [symmetric] p_def)
    moreover have "r_layer q = r_layer r \<and> r_expert q = snd p"
      using q(1) d by (auto simp: records_by_id_Some rec_id_def p_def)
    ultimately show "shared lm recs src (g_out st) (g_loc st) (recs ! i) (outs ! i)"
      using q unfolding r_def [symmetric] shared_def p_def [symmetric] Let_def
      by (cases q) (simp add: rec_id_def blob_def)
  qed
qed

lemma merge_result:
  assumes "merge_main loads sb si mp ob oi s = (Inr rep, s')" "ob \<noteq> sb" "oi \<noteq> ob"
  shows "\<exists>h recs src lm loc outs out raw raw' h'.
    s si = Some raw \<and> merge_read_index raw = Inr (h, recs) \<and> s sb = Some src
    \<and> (\<exists>mb t. s mp = Some mb \<and> ascii_decode mb = Inr t \<and> rbind (loads t) load_mapping = Inr lm)
    \<and> s' ob = Some out \<and> s' oi = Some raw' \<and> merge_read_index raw' = Inr (h', outs)
    \<and> h' = h\<lparr>h_records_offset := HDR_SIZE, h_data_bytes := length out\<rparr>
    \<and> list_all2 (shared lm recs src out loc) recs outs
    \<and> mr_bytes rep = length out
    \<and> length out = sum_list (map (read_of (records_by_id recs))
        (sorted_list_of_set ((\<lambda>r. (r_layer r, nat (prototype_of lm (rec_id r)))) ` set recs)))"
proof -
  from assms(1) obtain raw h recs lm mb t protos where inp: "s si = Some raw" "merge_read_index raw = Inr (h, recs)"
    "s mp = Some mb" "ascii_decode mb = Inr t" "rbind (loads t) load_mapping = Inr lm"
    and d: "distinct (map rec_id recs)" and pr: "assign_prototypes lm recs = Inr protos"
    and w: "merge_write sb ob oi h recs protos s = (Inr rep, s')"
    unfolding merge_main_def io_iffs split_paired_Ex prod.case io_if_iff
    by (auto simp: io_iffs split: if_splits)
  from w assms(2) [symmetric] show ?thesis
  proof (elim merge_write_InrD)
    fix src st outs idxb
    assume a: "s sb = Some src"
      "merge_copy (records_by_id recs) src \<lparr> g_out = [], g_loc = Map.empty \<rparr> (referenced protos) = (st, None)"
      "merged_records (records_by_id recs) (g_loc st) (map_of (rev protos)) recs = Inr outs"
      "write_index (h\<lparr>h_records_offset := HDR_SIZE, h_data_bytes := length (g_out st)\<rparr>) outs = (idxb, None)"
      "s' = s(ob \<mapsto> g_out st, oi \<mapsto> idxb)" "mr_bytes rep = length (g_out st)"
    have hd: "h_magic h = MAGIC" "h_version h = VERSION" "h_align h = ALIGN"
      "unpack_table REC_unpack REC_SIZE raw (h_records_offset h) (h_n_records h) = Inr recs"
      using inp(2) by (auto simp: merge_read_index_def Let_def rmap_eq_Inr split: if_splits)
    have "length outs = h_n_records h"
      using mapR_length a(3) unpack_table_length [OF hd(4)] by (fastforce simp: merged_records_def)
    then have rd: "merge_read_index idxb = Inr (h\<lparr>h_records_offset := HDR_SIZE, h_data_bytes := length (g_out st)\<rparr>, outs)"
      using hd by (intro merge_index_reads [OF a(4)]) simp_all
    have "referenced protos = sorted_list_of_set ((\<lambda>r. (r_layer r, nat (prototype_of lm (rec_id r)))) ` set recs)"
      using assign_prototypes_map [OF pr] by (simp add: referenced_def image_image rec_id_def)
    then have "length (g_out st) = sum_list (map (read_of (records_by_id recs))
        (sorted_list_of_set ((\<lambda>r. (r_layer r, nat (prototype_of lm (rec_id r)))) ` set recs)))"
      using merge_copy_size [OF a(2)] by simp
    then show ?thesis
      using inp a rd merged_records_shared [OF a(2) pr d a(3)] assms(3) by auto
  qed
qed

section \<open>A concrete run\<close>

text \<open>The two experts of the example store, the second one replaced by the first.\<close>

definition ex_manifest :: json where
  "ex_manifest = JObj [(''version'', JInt 1),
     (''layers'', JObj [(''1'', JObj [(''map'', JObj [(''1'', JInt 0)])])])]"

definition ex_layer_map :: layer_map where
  "ex_layer_map = [1 \<mapsto> [1 \<mapsto> 0]]"

lemma ex_load_mapping: "load_mapping ex_manifest = Inr ex_layer_map"
proof -
  have "int_res ''1'' = Inr 1" by code_simp
  then show ?thesis
    by (simp add: load_mapping_def ex_manifest_def ex_layer_map_def map_entries_def json_contains_def
        json_items_def json_eq_int_def)
qed

lemma ex_merge_copy:
  "merge_copy (records_by_id ex_records) ex_data \<lparr> g_out = [], g_loc = Map.empty \<rparr> [(1, 0)]
     = (\<lparr> g_out = replicate 4096 7, g_loc = [(1, 0) \<mapsto> 0] \<rparr>, None)"
proof -
  have "records_by_id ex_records (1, 0) = Some (ex_rec 0)"
    by (simp add: records_by_id_def ex_records_def ex_rec_def rec_id_def)
  moreover have "blob ex_data (ex_rec 0) = replicate 4096 7"
    by (simp add: blob_def ex_data_def ex_rec_def)
  moreover have "pad_to ALIGN ([] :: bytes) = []" "pad_to ALIGN (replicate 4096 (7 :: byte)) = replicate 4096 7"
    by (simp_all add: pad_to_aligned ALIGN_def)
  ultimately show ?thesis
    by (simp add: ex_rec_def seek_error_def ALIGN_def)
qed

lemma ex_merge_runs:
  "\<exists>rep s'. merge_main (\<lambda>t. Inr ex_manifest) ''s.bin'' ''s.idx'' ''m.mask'' ''d.bin'' ''d.idx'' ex_fs = (Inr rep, s')
     \<and> mr_bytes rep = 4096"
proof -
  let ?h = "ex_header\<lparr>h_records_offset := HDR_SIZE, h_data_bytes := 4096\<rparr>"
  let ?outs = "[ex_rec 0, (ex_rec 0)\<lparr>r_expert := 1\<rparr>]"
  have rd: "merge_read_index ex_index = Inr (ex_header, ex_records)"
    by (rule merge_index_reads [OF ex_write_index])
      (simp_all add: ex_header_def compact_header_def ex_records_def ex_dims_def)
  have bk: "records_by_id ex_records (1, 0) = Some (ex_rec 0)"
    by (simp add: records_by_id_def ex_records_def ex_rec_def rec_id_def)
  have pr: "assign_prototypes ex_layer_map ex_records = Inr [((1, 0), 0), ((1, 1), 0)]"
    using bk by (simp add: assign_prototypes_def ex_layer_map_def prototype_of_def ex_records_def ex_rec_def rec_id_def)
  have ref: "referenced [((1, 0), 0), ((1, 1), 0)] = [(1, 0)]" by (simp add: referenced_def)
  have outs: "merged_records (records_by_id ex_records) [(1, 0) \<mapsto> 0] (map_of (rev [((1, 0), 0), ((1, 1), 0)])) ex_records
      = Inr ?outs"
    using bk by (simp add: merged_records_def ex_records_def ex_rec_def rec_id_def)
  have "hdr_fits ?h" "list_all rec_fits ?outs"
    by (simp_all add: hdr_fits_def rec_fits_def fields_fit_def hdr_widths_def hdr_values_def rec_widths_def
        rec_values_def ex_rec_def ex_header_def compact_header_def ex_dims_def ex_records_def VERSION_def ALIGN_def
        DTYPE_Q8_ROW_def HDR_SIZE_def)
  then obtain hb idxb where "write_index ?h ?outs = (idxb, None)"
    using write_index_ok pack_fields_fit unfolding hdr_fits_def HDR_pack_def by (metis rmap_Inr)
  moreover have "\<exists>q. int_truediv 4096 8192 = Inr q"
    using int_truediv_fraction [of 4096 8192] by auto
  moreover have "distinct (map rec_id ex_records)" by (simp add: ex_records_def ex_rec_def rec_id_def)
  moreover have "h_data_bytes ex_header = 8192" "h_n_records ex_header = 2"
    by (simp_all add: ex_header_def compact_header_def ex_records_def)
  moreover obtain mb where "ex_fs ''m.mask'' = Some mb" "\<exists>t. ascii_decode mb = Inr t"
    using ex_mask_on by (auto simp: mask_on_def)
  ultimately show ?thesis
    by (auto simp: merge_main_def merge_write_def io_bind_def ex_fs_def rd ex_data_def read_text_app ex_load_mapping pr ref
        ex_merge_copy [unfolded ex_data_def] outs write_out_def simp del: One_nat_def rev.simps merge_copy.simps)
qed

section \<open>Properties\<close>

text \<open>C8: a merged store keeps every logical expert and shares payloads. Its index reads back with the source
  header, the i-th record stands for the i-th source record and carries the metadata and the exact payload
  bytes of that expert's prototype at one shared aligned place, and the data file holds each referenced
  prototype once and nothing else.\<close>

theorem merged_store_shares_payloads:
  assumes "merge_main loads sb si mp ob oi s = (Inr rep, s')" "ob \<noteq> sb" "oi \<noteq> ob"
  shows "\<exists>h recs src lm loc outs out raw raw' h'.
    s si = Some raw \<and> merge_read_index raw = Inr (h, recs) \<and> s sb = Some src
    \<and> (\<exists>mb t. s mp = Some mb \<and> ascii_decode mb = Inr t \<and> rbind (loads t) load_mapping = Inr lm)
    \<and> s' ob = Some out \<and> s' oi = Some raw' \<and> merge_read_index raw' = Inr (h', outs)
    \<and> h' = h\<lparr>h_records_offset := HDR_SIZE, h_data_bytes := length out\<rparr>
    \<and> list_all2 (shared lm recs src out loc) recs outs
    \<and> mr_bytes rep = length out
    \<and> length out = sum_list (map (read_of (records_by_id recs))
        (sorted_list_of_set ((\<lambda>r. (r_layer r, nat (prototype_of lm (rec_id r)))) ` set recs)))"
  by (rule merge_result [OF assms])

theorem merged_store_shares_payloads_witness:
  "\<exists>rep s'. merge_main (\<lambda>t. Inr ex_manifest) ''s.bin'' ''s.idx'' ''m.mask'' ''d.bin'' ''d.idx'' ex_fs = (Inr rep, s')
     \<and> (\<exists>recs src lm loc outs out. ex_fs ''s.bin'' = Some src \<and> s' ''d.bin'' = Some out
         \<and> list_all2 (shared lm recs src out loc) recs outs \<and> mr_bytes rep = length out)"
proof -
  obtain rep s' where run: "merge_main (\<lambda>t. Inr ex_manifest) ''s.bin'' ''s.idx'' ''m.mask'' ''d.bin'' ''d.idx'' ex_fs = (Inr rep, s')"
    using ex_merge_runs by blast
  show ?thesis using run merged_store_shares_payloads [OF run] by fastforce
qed

end
