(* ===== verification/GgufIndex.thy ===== *)
theory GgufIndex
  imports CompactStore Json
begin

text \<open>
  Streaming experts straight from a GGUF file: \<^verbatim>\<open>tools/index_kimi_gguf_q8.py\<close>, which writes the sidecar
  index. The third-party \<^verbatim>\<open>gguf\<close> reader is a parameter: the model starts from the tensor descriptors it
  returns, which \<open>GgufProbe\<close> shares.
\<close>

section \<open>Tensor descriptors\<close>

record tensor =
  t_name :: string
  t_type :: string
  t_nbytes :: nat
  t_offset :: nat
  t_shape :: "nat list"
  t_logical :: "nat list"
  t_contig_first :: bool
  t_contig_last :: bool

definition Q8_0 :: string where "Q8_0 = ''Q8_0''"
definition DTYPE_GGUF_Q8_0 :: nat where "DTYPE_GGUF_Q8_0 = 5"

section \<open>The sidecar index\<close>

record part =
  p_raw :: nat
  p_src :: nat
  p_sub :: nat
  p_read :: nat
  p_bytes :: nat

definition part_info :: "tensor \<Rightarrow> nat \<Rightarrow> nat \<Rightarrow> part res" where
  "part_info t expert n_experts =
     (if t_type t \<noteq> Q8_0 then Inl (SystemExit ''expected Q8_0'')
      else if t_nbytes t mod n_experts \<noteq> 0 then Inl (SystemExit ''tensor bytes not divisible by experts'')
      else let slice_bytes = t_nbytes t div n_experts in
        if length (t_shape t) \<noteq> 3 \<or> t_shape t ! 0 \<noteq> n_experts
        then Inl (SystemExit ''expert is not outer physical axis'')
        else let raw = t_offset t + expert * slice_bytes;
                 src = align_down raw ALIGN;
                 sub = raw - src;
                 read = align_up (sub + slice_bytes) ALIGN
          in Inr \<lparr> p_raw = raw, p_src = src, p_sub = sub, p_read = read, p_bytes = slice_bytes \<rparr>)"

text \<open>\<^verbatim>\<open>SRC = struct.Struct("<QQQQQQQQQ")\<close>: source offset, read length and slot offset of each part.\<close>

record xsrc =
  x_gate_src :: nat
  x_gate_read :: nat
  x_gate_dst :: nat
  x_up_src :: nat
  x_up_read :: nat
  x_up_dst :: nat
  x_down_src :: nat
  x_down_read :: nat
  x_down_dst :: nat

definition SRC_SIZE :: nat where "SRC_SIZE = 72"

definition src_widths :: "nat list" where
  "src_widths = [8, 8, 8, 8, 8, 8, 8, 8, 8]"

definition SRC_pack :: "xsrc \<Rightarrow> bytes res" where
  "SRC_pack x = pack_fields src_widths
     [x_gate_src x, x_gate_read x, x_gate_dst x, x_up_src x, x_up_read x, x_up_dst x,
      x_down_src x, x_down_read x, x_down_dst x]"

definition SRC_unpack :: "bytes \<Rightarrow> xsrc" where
  "SRC_unpack bs = (let v = unpack_fields src_widths bs in
     \<lparr> x_gate_src = v ! 0, x_gate_read = v ! 1, x_gate_dst = v ! 2, x_up_src = v ! 3, x_up_read = v ! 4,
       x_up_dst = v ! 5, x_down_src = v ! 6, x_down_read = v ! 7, x_down_dst = v ! 8 \<rparr>)"

definition src_fits :: "xsrc \<Rightarrow> bool" where
  "src_fits x = fields_fit src_widths
     [x_gate_src x, x_gate_read x, x_gate_dst x, x_up_src x, x_up_read x, x_up_dst x,
      x_down_src x, x_down_read x, x_down_dst x]"

definition N_LAYERS :: nat where "N_LAYERS = 27"
definition N_EXPERTS :: nat where "N_EXPERTS = 64"
definition FIRST_MOE :: nat where "FIRST_MOE = 1"
definition LAST_MOE :: nat where "LAST_MOE = 26"

text \<open>\<^verbatim>\<open>f"blk.{layer}.ffn_{part}_exps.weight"\<close> and the dictionary \<^verbatim>\<open>{t.name: t for t in r.tensors}\<close>.\<close>

definition tensor_name :: "nat \<Rightarrow> string \<Rightarrow> string" where
  "tensor_name layer part = ''blk.'' @ show_nat layer @ ''.ffn_'' @ part @ ''_exps.weight''"

definition by_name :: "tensor list \<Rightarrow> (string \<rightharpoonup> tensor)" where
  "by_name ts = map_of (rev (map (\<lambda>t. (t_name t, t)) ts))"

definition layer_tensors :: "tensor list \<Rightarrow> nat \<Rightarrow> (tensor \<times> tensor \<times> tensor) res" where
  "layer_tensors ts layer =
     (let get = (\<lambda>p. of_option (SystemExit ''missing tensor'') (by_name ts (tensor_name layer p))) in
      rbind (get ''gate'') (\<lambda>g. rbind (get ''up'') (\<lambda>u. rbind (get ''down'') (\<lambda>d. Inr (g, u, d)))))"

definition build_record :: "nat \<Rightarrow> nat \<Rightarrow> part \<Rightarrow> part \<Rightarrow> part \<Rightarrow> xrec \<times> xsrc" where
  "build_record layer expert g u d =
     (let gate_dst = align_up 0 ALIGN;
          up_dst = align_up (gate_dst + p_read g) ALIGN;
          down_dst = align_up (up_dst + p_read u) ALIGN;
          read_bytes = down_dst + p_read d;
          payload = p_bytes g + p_bytes u + p_bytes d
      in (\<lparr> r_layer = layer, r_expert = expert, r_offset = min (p_src g) (min (p_src u) (p_src d)),
            r_read = read_bytes, r_payload = payload,
            r_gate_off = gate_dst + p_sub g, r_gate_len = p_bytes g,
            r_up_off = up_dst + p_sub u, r_up_len = p_bytes u,
            r_down_off = down_dst + p_sub d, r_down_len = p_bytes d \<rparr>,
          \<lparr> x_gate_src = p_src g, x_gate_read = p_read g, x_gate_dst = gate_dst,
            x_up_src = p_src u, x_up_read = p_read u, x_up_dst = up_dst,
            x_down_src = p_src d, x_down_read = p_read d, x_down_dst = down_dst \<rparr>))"

definition expert_record :: "nat \<Rightarrow> tensor \<times> tensor \<times> tensor \<Rightarrow> nat \<Rightarrow> (xrec \<times> xsrc) res" where
  "expert_record layer tens expert = (case tens of (tg, tu, td) \<Rightarrow>
     rbind (part_info tg expert N_EXPERTS) (\<lambda>g. rbind (part_info tu expert N_EXPERTS) (\<lambda>u.
     rbind (part_info td expert N_EXPERTS) (\<lambda>d. Inr (build_record layer expert g u d)))))"

definition gguf_records :: "tensor list \<Rightarrow> (xrec \<times> xsrc) list res" where
  "gguf_records ts =
     (let layers = [FIRST_MOE..<LAST_MOE + 1] in
      rbind (mapR (layer_tensors ts) layers) (\<lambda>tens.
        rmap concat (mapR (\<lambda>(layer, t). mapR (expert_record layer t) [0..<N_EXPERTS]) (zip layers tens))))"

definition gguf_header :: "nat \<Rightarrow> nat \<Rightarrow> xhdr" where
  "gguf_header n_records data_bytes =
     \<lparr> h_magic = MAGIC, h_version = VERSION, h_align = ALIGN, h_n_layers = N_LAYERS, h_n_experts = N_EXPERTS,
       h_n_records = n_records, h_dtype = DTYPE_GGUF_Q8_0, h_records_offset = HDR_SIZE, h_data_bytes = data_bytes \<rparr>"

text \<open>The three writes of the index file, each of which may raise after the previous ones.\<close>

definition gguf_index_file :: "(xrec \<times> xsrc) list \<Rightarrow> nat \<Rightarrow> bytes \<times> exn option" where
  "gguf_index_file recs data_bytes =
     (case write_index (gguf_header (length recs) data_bytes) (map fst recs) of
        (out, Some e) \<Rightarrow> (out, Some e)
      | (out, None) \<Rightarrow> write_all SRC_pack out (map snd recs))"

definition index_main :: "tensor list \<Rightarrow> string \<Rightarrow> string \<Rightarrow> unit io" where
  "index_main ts gguf out_idx =
     io_bind (io_lift (gguf_records ts)) (\<lambda>recs.
     io_bind (file_size gguf) (\<lambda>data_bytes.
       write_out out_idx (gguf_index_file recs data_bytes)))"

section \<open>Lemmas about one part\<close>

interpretation src_codec: codec SRC_pack SRC_unpack SRC_SIZE src_fits
proof
  fix x show "src_fits x \<Longrightarrow> \<exists>bs. SRC_pack x = Inr bs"
    by (simp add: src_fits_def SRC_pack_def pack_fields_fit)
next
  fix x bs assume p: "SRC_pack x = Inr bs"
  show "length bs = SRC_SIZE"
    using pack_fields_length [OF p [unfolded SRC_pack_def]] by (simp add: SRC_SIZE_def src_widths_def)
next
  fix x bs assume p: "SRC_pack x = Inr bs"
  have "unpack_fields src_widths bs = [x_gate_src x, x_gate_read x, x_gate_dst x, x_up_src x, x_up_read x,
      x_up_dst x, x_down_src x, x_down_read x, x_down_dst x]"
    using unpack_pack_fields [OF p [unfolded SRC_pack_def], of "[]"] by simp
  then show "SRC_unpack bs = x" by (simp add: SRC_unpack_def)
qed

lemma part_info_InrD:
  assumes "part_info t e n = Inr p"
  shows "p_raw p = t_offset t + e * (t_nbytes t div n)" "p_bytes p = t_nbytes t div n"
    "n * p_bytes p = t_nbytes t" "t_type t = Q8_0" "t_shape t \<noteq> []" "hd (t_shape t) = n"
    "p_src p = align_down (p_raw p) ALIGN" "p_sub p = p_raw p - p_src p"
    "p_read p = align_up (p_sub p + p_bytes p) ALIGN"
proof -
  have c: "t_type t = Q8_0" "t_nbytes t mod n = 0" "length (t_shape t) = 3" "t_shape t ! 0 = n"
    using assms by (auto simp: part_info_def Let_def split: if_splits)
  have p: "p = (let raw = t_offset t + e * (t_nbytes t div n); src = align_down raw ALIGN; sub = raw - src in
      \<lparr> p_raw = raw, p_src = src, p_sub = sub, p_read = align_up (sub + t_nbytes t div n) ALIGN,
        p_bytes = t_nbytes t div n \<rparr>)"
    using assms c by (simp add: part_info_def Let_def)
  show "p_raw p = t_offset t + e * (t_nbytes t div n)" "p_bytes p = t_nbytes t div n"
    "p_src p = align_down (p_raw p) ALIGN" "p_sub p = p_raw p - p_src p"
    "p_read p = align_up (p_sub p + p_bytes p) ALIGN" "t_type t = Q8_0"
    using c by (simp_all add: p Let_def)
  show "n * p_bytes p = t_nbytes t" using c(2) by (simp add: p Let_def mult.commute dvd_eq_mod_eq_0)
  show ne: "t_shape t \<noteq> []" using c(3) by auto
  show "hd (t_shape t) = n" using c(4) ne by (simp add: hd_conv_nth)
qed

text \<open>The aligned read covers the expert's slice, and at most two alignment units more than it.\<close>

lemma part_cover:
  assumes "part_info t e n = Inr p"
  shows "ALIGN dvd p_src p \<and> ALIGN dvd p_read p \<and> p_src p \<le> p_raw p \<and> p_src p + p_sub p = p_raw p \<and> p_sub p < ALIGN
     \<and> p_sub p + p_bytes p \<le> p_read p \<and> p_read p < p_bytes p + 2 * ALIGN"
proof -
  note d = part_info_InrD [OF assms]
  have le: "p_src p \<le> p_raw p" and gt: "p_raw p < p_src p + ALIGN"
    using align_down_gt [of ALIGN "p_raw p"] by (simp_all add: d(7))
  then have "p_sub p < ALIGN" "p_src p + p_sub p = p_raw p" by (simp_all add: d(8))
  moreover have "p_sub p + p_bytes p \<le> p_read p" "p_read p < p_sub p + p_bytes p + ALIGN"
    using align_up_ge [of ALIGN "p_sub p + p_bytes p"] align_up_less [of ALIGN "p_sub p + p_bytes p"]
    by (simp_all add: d(9))
  ultimately show ?thesis using le by (simp add: d(7,9))
qed

text \<open>The slices of one tensor tile it.\<close>

lemma part_slice_inside:
  assumes "part_info t e n = Inr p" "e < n"
  shows "t_offset t \<le> p_raw p \<and> p_raw p + p_bytes p \<le> t_offset t + t_nbytes t"
proof -
  note d = part_info_InrD [OF assms(1)]
  have "e * p_bytes p + p_bytes p \<le> n * p_bytes p"
    using assms(2) by (metis Suc_leI add.commute mult_Suc mult_le_mono1)
  then show ?thesis using d(1-3) by simp
qed

section \<open>The slot a record describes\<close>

text \<open>
  The runtime fills the slot by three positioned reads from the GGUF file. \<open>file_read\<close> reads past the
  end of the file as zeros, which is how an unbuffered read of the last block ends.
\<close>

definition file_read :: "bytes \<Rightarrow> nat \<Rightarrow> nat \<Rightarrow> bytes" where
  "file_read f off n = (let got = take n (drop off f) in got @ replicate (n - length got) 0)"



lemma length_file_read [simp]: "length (file_read f off n) = n"
  by (simp add: file_read_def Let_def)






section \<open>The whole index\<close>

lemma expert_record_id: "expert_record l t e = Inr (r, x) \<Longrightarrow> r_layer r = l \<and> r_expert r = e"
  by (auto simp: expert_record_def build_record_def rbind_eq_Inr Let_def split: prod.splits)

lemma build_record_aligned:
  assumes "expert_record l t e = Inr (r, x)"
  shows "ALIGN dvd r_offset r \<and> ALIGN dvd r_read r"
proof -
  obtain tg tu td where t: "t = (tg, tu, td)" by (cases t)
  from assms obtain g u d where p: "part_info tg e N_EXPERTS = Inr g" "part_info tu e N_EXPERTS = Inr u"
    "part_info td e N_EXPERTS = Inr d" and rx: "(r, x) = build_record l e g u d"
    by (auto simp: t expert_record_def rbind_eq_Inr)
  note cg = part_cover [OF p(1)] and cu = part_cover [OF p(2)] and cd = part_cover [OF p(3)]
  have "ALIGN dvd min (p_src g) (min (p_src u) (p_src d))" using cg cu cd by (simp add: min_def)
  then show ?thesis using rx cd by (simp add: build_record_def Let_def)
qed

lemma gguf_records_concat:
  assumes "gguf_records ts = Inr recs"
  obtains tens rss where "mapR (layer_tensors ts) [FIRST_MOE..<LAST_MOE + 1] = Inr tens"
    "mapR (\<lambda>(layer, t). mapR (expert_record layer t) [0..<N_EXPERTS]) (zip [FIRST_MOE..<LAST_MOE + 1] tens) = Inr rss"
    "recs = concat rss" "length rss = 26" "length tens = 26"
    "\<And>i. i < 26 \<Longrightarrow> mapR (expert_record (i + 1) (tens ! i)) [0..<N_EXPERTS] = Inr (rss ! i)"
proof -
  from assms obtain tens rss where a: "mapR (layer_tensors ts) [FIRST_MOE..<LAST_MOE + 1] = Inr tens"
    "mapR (\<lambda>(layer, t). mapR (expert_record layer t) [0..<N_EXPERTS]) (zip [FIRST_MOE..<LAST_MOE + 1] tens) = Inr rss"
    "recs = concat rss"
    by (auto simp: gguf_records_def Let_def rbind_eq_Inr rmap_eq_Inr)
  have n: "length tens = 26" using mapR_length [OF a(1)] by (simp add: FIRST_MOE_def LAST_MOE_def)
  have m: "length rss = 26" using mapR_length [OF a(2)] n by (simp add: FIRST_MOE_def LAST_MOE_def)
  show ?thesis
    using mapR_nth [OF a(2)] n by (intro that [OF a m n]) (simp add: FIRST_MOE_def LAST_MOE_def)
qed

lemma gguf_records_ids:
  assumes "gguf_records ts = Inr recs"
  shows "map (\<lambda>rx. rec_id (fst rx)) recs = List.product [FIRST_MOE..<LAST_MOE + 1] [0..<N_EXPERTS]"
  using assms
proof (rule gguf_records_concat)
  fix tens rss
  assume a: "recs = concat rss" "length rss = 26"
    "\<And>i. i < 26 \<Longrightarrow> mapR (expert_record (i + 1) (tens ! i)) [0..<N_EXPERTS] = Inr (rss ! i)"
  have one: "map (\<lambda>rx. rec_id (fst rx)) (rss ! i) = map (Pair (i + 1)) [0..<N_EXPERTS]" if "i < 26" for i
  proof (rule nth_equalityI)
    show len: "length (map (\<lambda>rx. rec_id (fst rx)) (rss ! i)) = length (map (Pair (i + 1)) [0..<N_EXPERTS])"
      using mapR_length [OF a(3) [OF that]] by simp
    fix j assume j: "j < length (map (\<lambda>rx. rec_id (fst rx)) (rss ! i))"
    then have "expert_record (i + 1) (tens ! i) j = Inr (rss ! i ! j)"
      using mapR_nth [OF a(3) [OF that], of j] len by simp
    then have "rec_id (fst (rss ! i ! j)) = (i + 1, j)"
      using expert_record_id by (metis prod.collapse rec_id_def)
    then show "map (\<lambda>rx. rec_id (fst rx)) (rss ! i) ! j = map (Pair (i + 1)) [0..<N_EXPERTS] ! j"
      using j len by simp
  qed
  have "map (map (\<lambda>rx. rec_id (fst rx))) rss = map (\<lambda>l. map (Pair l) [0..<N_EXPERTS]) [FIRST_MOE..<LAST_MOE + 1]"
    using one a(2) by (intro nth_equalityI) (simp_all add: FIRST_MOE_def LAST_MOE_def del: upt_Suc)
  then show ?thesis by (simp add: a(1) map_concat product_concat_map)
qed

lemma gguf_records_each:
  assumes "gguf_records ts = Inr recs" "rx \<in> set recs"
  shows "\<exists>t. layer_tensors ts (r_layer (fst rx)) = Inr t \<and> r_expert (fst rx) < N_EXPERTS
    \<and> expert_record (r_layer (fst rx)) t (r_expert (fst rx)) = Inr rx"
  using assms(1)
proof (rule gguf_records_concat)
  fix tens rss
  assume a: "recs = concat rss" "length rss = 26" "length tens = 26"
    "\<And>i. i < 26 \<Longrightarrow> mapR (expert_record (i + 1) (tens ! i)) [0..<N_EXPERTS] = Inr (rss ! i)"
    and t: "mapR (layer_tensors ts) [FIRST_MOE..<LAST_MOE + 1] = Inr tens"
  from assms(2) obtain i j where ij: "i < 26" "j < length (rss ! i)" "rx = rss ! i ! j"
    by (auto simp: a(1,2) in_set_conv_nth)
  have j: "j < N_EXPERTS" using mapR_length [OF a(4) [OF ij(1)]] ij(2) by simp
  then have e: "expert_record (i + 1) (tens ! i) j = Inr rx"
    using mapR_nth [OF a(4) [OF ij(1)], of j] ij(3) by simp
  have "layer_tensors ts (i + 1) = Inr (tens ! i)"
    using mapR_nth [OF t, of i] ij(1) by (simp add: FIRST_MOE_def LAST_MOE_def del: upt_Suc)
  moreover have "r_layer (fst rx) = i + 1 \<and> r_expert (fst rx) = j"
    using expert_record_id e by (metis prod.collapse)
  ultimately show ?thesis using e j by auto
qed

lemma records_ok_gguf:
  assumes "gguf_records ts = Inr recs" "\<forall>rx \<in> set recs. 0 < r_read (fst rx)"
  shows "records_ok N_LAYERS N_EXPERTS (map fst recs) \<and> length recs = 1664"
proof -
  have ids: "map rec_id (map fst recs) = List.product [FIRST_MOE..<LAST_MOE + 1] [0..<N_EXPERTS]"
    using gguf_records_ids [OF assms(1)] by (simp add: comp_def)
  have "distinct (map rec_id (map fst recs))" unfolding ids by (simp add: distinct_product)
  moreover have "length recs = 1664"
    using arg_cong [OF ids, of length] by (simp add: FIRST_MOE_def LAST_MOE_def N_EXPERTS_def)
  moreover have "r_layer (fst rx) < N_LAYERS \<and> r_expert (fst rx) < N_EXPERTS
      \<and> ALIGN dvd r_read (fst rx) \<and> ALIGN dvd r_offset (fst rx)" if "rx \<in> set recs" for rx
  proof -
    have "rec_id (fst rx) \<in> set (map rec_id (map fst recs))" using that by simp
    then have "rec_id (fst rx) \<in> set [FIRST_MOE..<LAST_MOE + 1] \<times> set [0..<N_EXPERTS]"
      unfolding ids by (simp add: set_product)
    moreover have "ALIGN dvd r_read (fst rx) \<and> ALIGN dvd r_offset (fst rx)"
      using gguf_records_each [OF assms(1) that] build_record_aligned by (metis prod.collapse)
    ultimately show ?thesis by (simp add: rec_id_def N_LAYERS_def LAST_MOE_def)
  qed
  ultimately show ?thesis using assms(2) by (auto simp: records_ok_def list_all_iff)
qed

text \<open>The index file written without an error holds the header and both tables.\<close>

lemma write_all_SRC_fits: "write_all SRC_pack out rs = (idxb, None) \<Longrightarrow> list_all src_fits rs"
  by (induction rs arbitrary: out)
    (auto simp: SRC_pack_def src_fits_def dest: pack_fields_Inr_fit split: sum.splits)

lemma gguf_index_file_reads:
  assumes "gguf_index_file recs n = (out, None)"
  shows "HDR_unpack (take HDR_SIZE out) = gguf_header (length recs) n
    \<and> unpack_table REC_unpack REC_SIZE out HDR_SIZE (length recs) = Inr (map fst recs)
    \<and> unpack_table SRC_unpack SRC_SIZE out (HDR_SIZE + REC_SIZE * length recs) (length recs) = Inr (map snd recs)
    \<and> length out = HDR_SIZE + (REC_SIZE + SRC_SIZE) * length recs"
proof -
  from assms obtain mid where m: "write_index (gguf_header (length recs) n) (map fst recs) = (mid, None)"
    "write_all SRC_pack mid (map snd recs) = (out, None)"
    by (auto simp: gguf_index_file_def split: prod.splits option.splits)
  obtain hb where hb: "HDR_pack (gguf_header (length recs) n) = Inr hb" "write_all REC_pack hb (map fst recs) = (mid, None)"
    using m(1) by (auto simp: write_index_def split: sum.splits)
  have h: "length hb = HDR_SIZE" "HDR_unpack hb = gguf_header (length recs) n"
    using HDR_unpack_pack [OF hb(1)] by (simp_all add: gguf_header_def)
  have t: "length mid = HDR_SIZE + REC_SIZE * length recs" "take HDR_SIZE mid = hb"
    "unpack_table REC_unpack REC_SIZE mid HDR_SIZE (length recs) = Inr (map fst recs)"
    using rec_codec.table_roundtrip [OF write_all_fits [OF hb(2)] hb(2)] h(1) by simp_all
  have u: "length out = length mid + SRC_SIZE * length recs" "take (length mid) out = mid"
    "unpack_table SRC_unpack SRC_SIZE out (length mid) (length recs) = Inr (map snd recs)"
    using src_codec.table_roundtrip [OF write_all_SRC_fits [OF m(2)] m(2)] by simp_all
  have "take HDR_SIZE out = take HDR_SIZE (take (length mid) out)" by (simp add: t(1) min_def)
  then have "take HDR_SIZE out = hb" using t(2) u(2) by simp
  moreover have "unpack_table REC_unpack REC_SIZE out HDR_SIZE (length recs) = Inr (map fst recs)"
    using t(3) unpack_table_prefix [of REC_unpack REC_SIZE mid HDR_SIZE "length recs" "map fst recs" "drop (length mid) out"]
      u(2) by (metis append_take_drop_id)
  ultimately show ?thesis using h(2) u t(1) by (simp add: algebra_simps)
qed

section \<open>When the index can be built\<close>

definition tensor_ok :: "tensor \<Rightarrow> bool" where
  "tensor_ok t = (t_type t = Q8_0 \<and> N_EXPERTS dvd t_nbytes t \<and> length (t_shape t) = 3 \<and> t_shape t ! 0 = N_EXPERTS)"

definition moe_tensors_ok :: "tensor list \<Rightarrow> bool" where
  "moe_tensors_ok ts = (\<forall>layer \<in> {FIRST_MOE..LAST_MOE}. \<forall>p \<in> {''gate'', ''up'', ''down''}.
     case by_name ts (tensor_name layer p) of None \<Rightarrow> False | Some t \<Rightarrow> tensor_ok t)"

lemma part_info_ok: "tensor_ok t \<Longrightarrow> \<exists>p. part_info t e N_EXPERTS = Inr p"
  by (auto simp: tensor_ok_def part_info_def Let_def dvd_eq_mod_eq_0)

lemma moe_tensors_layer:
  assumes "moe_tensors_ok ts" "layer \<in> {FIRST_MOE..LAST_MOE}"
  shows "\<exists>g u d. layer_tensors ts layer = Inr (g, u, d) \<and> tensor_ok g \<and> tensor_ok u \<and> tensor_ok d"
proof -
  have "\<exists>t. by_name ts (tensor_name layer p) = Some t \<and> tensor_ok t" if "p \<in> {''gate'', ''up'', ''down''}" for p
    using assms that unfolding moe_tensors_ok_def by (fastforce split: option.splits)
  then obtain g u d where "by_name ts (tensor_name layer ''gate'') = Some g \<and> tensor_ok g"
    "by_name ts (tensor_name layer ''up'') = Some u \<and> tensor_ok u"
    "by_name ts (tensor_name layer ''down'') = Some d \<and> tensor_ok d"
    by (meson insertI1 insertI2)
  then show ?thesis by (simp add: layer_tensors_def)
qed

lemma gguf_records_total:
  assumes "moe_tensors_ok ts"
  shows "\<exists>recs. gguf_records ts = Inr recs"
proof -
  let ?ls = "[FIRST_MOE..<LAST_MOE + 1]"
  have l: "\<exists>g u d. layer_tensors ts layer = Inr (g, u, d) \<and> tensor_ok g \<and> tensor_ok u \<and> tensor_ok d"
    if "layer \<in> set ?ls" for layer
    using that by (intro moe_tensors_layer [OF assms]) (simp only: set_upt atLeastLessThanSuc_atLeastAtMost Suc_eq_plus1 [symmetric])
  then obtain tens where tens: "mapR (layer_tensors ts) ?ls = Inr tens"
    using mapR_total [of ?ls "layer_tensors ts"] by metis
  have that_all: "\<exists>rs. (case lt of (layer, t) \<Rightarrow> mapR (expert_record layer t) [0..<N_EXPERTS]) = Inr rs"
    if lt: "lt \<in> set (zip ?ls tens)" for lt
  proof -
    obtain i where i: "i < length ?ls" "lt = (?ls ! i, tens ! i)"
      using lt mapR_length [OF tens] by (auto simp: set_zip)
    have "layer_tensors ts (?ls ! i) = Inr (tens ! i)" using mapR_nth [OF tens i(1)] .
    then obtain g u d where t: "tens ! i = (g, u, d)" "tensor_ok g" "tensor_ok u" "tensor_ok d"
      using l [OF nth_mem [OF i(1)]] by auto
    have "\<exists>y. expert_record (?ls ! i) (tens ! i) e = Inr y" for e
      using part_info_ok [OF t(2), of e] part_info_ok [OF t(3), of e] part_info_ok [OF t(4), of e]
      by (auto simp: expert_record_def t(1))
    then show ?thesis by (simp only: i(2) prod.case) (rule mapR_total, blast)
  qed
  have "\<exists>rss. mapR (\<lambda>(layer, t). mapR (expert_record layer t) [0..<N_EXPERTS]) (zip ?ls tens) = Inr rss"
    by (rule mapR_total) (rule that_all)
  then show ?thesis using tens by (auto simp only: gguf_records_def Let_def rbind_Inr rmap_Inr)
qed

lemma index_main_writes:
  assumes "index_main ts gguf out_idx s = (Inr u, s')"
  obtains recs f out where "gguf_records ts = Inr recs" "s gguf = Some f"
    "gguf_index_file recs (length f) = (out, None)" "s' = s(out_idx \<mapsto> out)"
proof -
  obtain recs f where r: "gguf_records ts = Inr recs" "s gguf = Some f"
    "write_out out_idx (gguf_index_file recs (length f)) s = (Inr u, s')"
    using assms by (auto simp: index_main_def io_iffs)
  obtain out err where g: "gguf_index_file recs (length f) = (out, err)" by (metis surj_pair)
  then show ?thesis using r by (intro that [OF r(1,2)]) (auto simp: write_out_def split: option.splits)
qed

lemma by_name_in: "by_name ts n = Some t \<Longrightarrow> t \<in> set ts"
  by (auto simp: by_name_def dest: map_of_SomeD)

lemma by_name_total: "n \<in> t_name ` set ts \<Longrightarrow> \<exists>t. by_name ts n = Some t"
proof -
  assume "n \<in> t_name ` set ts"
  then have "n \<in> fst ` set (rev (map (\<lambda>t. (t_name t, t)) ts))" by force
  then have "by_name ts n \<noteq> None" by (simp only: by_name_def map_of_eq_None_iff not_not)
  then show ?thesis by blast
qed

lemma layer_tensors_in:
  "layer_tensors ts l = Inr (g, u, d) \<Longrightarrow> {g, u, d} \<subseteq> set ts"
  by (auto simp: layer_tensors_def rbind_eq_Inr of_option_eq_Inr dest: by_name_in)

text \<open>A file of 78 tensors of 640 bytes.\<close>

definition ex_tensor :: "nat \<Rightarrow> string \<Rightarrow> tensor" where
  "ex_tensor l p = \<lparr> t_name = tensor_name l p, t_type = Q8_0, t_nbytes = 640, t_offset = 100 + 640 * l,
     t_shape = [64, 1, 10], t_logical = [8, 1, 64], t_contig_first = True, t_contig_last = True \<rparr>"

definition ex_tensors :: "tensor list" where
  "ex_tensors = concat (map (\<lambda>l. map (ex_tensor l) [''gate'', ''up'', ''down'']) [1..<27])"

lemma ex_tensors_each: "t \<in> set ex_tensors \<Longrightarrow> tensor_ok t \<and> t_offset t + t_nbytes t \<le> 18000"
  by (auto simp: ex_tensors_def ex_tensor_def tensor_ok_def N_EXPERTS_def)

lemma ex_tensors_ok: "moe_tensors_ok ex_tensors"
proof -
  have "tensor_name l p \<in> t_name ` set ex_tensors" if "l \<in> {FIRST_MOE..LAST_MOE}" "p \<in> {''gate'', ''up'', ''down''}" for l p
  proof -
    have "ex_tensor l p \<in> set ex_tensors"
      using that unfolding ex_tensors_def by (auto simp: FIRST_MOE_def LAST_MOE_def)
    then show ?thesis by (force simp: ex_tensor_def)
  qed
  then show ?thesis
    unfolding moe_tensors_ok_def using by_name_total by_name_in ex_tensors_each
    by (fastforce split: option.split)
qed

lemma part_small:
  assumes "part_info t e n = Inr p" "t_offset t + e * (t_nbytes t div n) + t_nbytes t div n \<le> 2 ^ 60"
  shows "p_src p \<le> 2 ^ 60 \<and> p_sub p < 4096 \<and> p_read p < 2 ^ 61 \<and> p_bytes p \<le> 2 ^ 60"
  using part_cover [OF assms(1)] part_info_InrD(1,2) [OF assms(1)] assms(2) by (simp add: ALIGN_def)

lemma build_record_fits:
  assumes "l < 27" "e < 64" "\<forall>p \<in> {g, u, d}. p_src p \<le> 2 ^ 60 \<and> p_sub p < 4096 \<and> p_read p < 2 ^ 61 \<and> p_bytes p \<le> 2 ^ 60"
    and "\<forall>p \<in> {g, u, d}. ALIGN dvd p_read p"
  shows "rec_fits (fst (build_record l e g u d)) \<and> src_fits (snd (build_record l e g u d))"
proof -
  have al: "align_up 0 ALIGN = 0" "align_up (p_read g) ALIGN = p_read g"
    "align_up (p_read g + p_read u) ALIGN = p_read g + p_read u"
    using assms(4) by (simp_all add: align_up_id)
  show ?thesis
    using assms(1-3)
    by (simp add: build_record_def Let_def al rec_fits_def src_fits_def fields_fit_def rec_widths_def src_widths_def
        rec_values_def min_def)
qed

lemma gguf_records_fit:
  assumes "gguf_records ts = Inr recs" "rx \<in> set recs" "\<forall>t \<in> set ts. t_offset t + t_nbytes t \<le> 2 ^ 60"
  shows "rec_fits (fst rx) \<and> src_fits (snd rx)"
proof -
  obtain r x where rx: "rx = (r, x)" by (cases rx)
  from gguf_records_each [OF assms(1,2)] obtain g u d
    where l: "layer_tensors ts (r_layer r) = Inr (g, u, d)" and e: "r_expert r < N_EXPERTS"
      and er: "expert_record (r_layer r) (g, u, d) (r_expert r) = Inr (r, x)"
    unfolding rx by (metis fst_conv prod_cases3)
  from er obtain pg pu pd where p: "part_info g (r_expert r) N_EXPERTS = Inr pg" "part_info u (r_expert r) N_EXPERTS = Inr pu"
    "part_info d (r_expert r) N_EXPERTS = Inr pd" and b: "(r, x) = build_record (r_layer r) (r_expert r) pg pu pd"
    by (auto simp: expert_record_def rbind_eq_Inr)
  have "\<forall>t \<in> {g, u, d}. t_offset t + t_nbytes t \<le> 2 ^ 60" using layer_tensors_in [OF l] assms(3) by blast
  then have q: "q \<in> {pg, pu, pd} \<Longrightarrow> p_src q \<le> 2 ^ 60 \<and> p_sub q < 4096 \<and> p_read q < 2 ^ 61 \<and> p_bytes q \<le> 2 ^ 60" for q
    using p part_small part_slice_inside [OF _ e] part_info_InrD(1,2) by (smt (verit) insertE insertI1 insertI2 le_trans singletonD)
  have al: "\<forall>q \<in> {pg, pu, pd}. ALIGN dvd p_read q" using p part_cover by blast
  have "rec_id r \<in> set (map (\<lambda>rx. rec_id (fst rx)) recs)" using assms(2) rx by force
  then have "r_layer r < 27" unfolding gguf_records_ids [OF assms(1)]
    by (simp add: set_product rec_id_def FIRST_MOE_def LAST_MOE_def)
  moreover have "r_expert r < 64" using e by (simp add: N_EXPERTS_def)
  ultimately have "rec_fits (fst (build_record (r_layer r) (r_expert r) pg pu pd))
      \<and> src_fits (snd (build_record (r_layer r) (r_expert r) pg pu pd))"
    using q al by (intro build_record_fits) blast+
  then show ?thesis unfolding b [symmetric] rx .
qed

lemma index_main_total:
  assumes "moe_tensors_ok ts" "\<forall>t \<in> set ts. t_offset t + t_nbytes t \<le> 2 ^ 60" "s gguf = Some f" "length f < 2 ^ 64"
  shows "\<exists>s'. index_main ts gguf out_idx s = (Inr (), s')"
proof -
  obtain recs where recs: "gguf_records ts = Inr recs" using gguf_records_total [OF assms(1)] by blast
  have fits: "list_all rec_fits (map fst recs)" "list_all src_fits (map snd recs)"
    using gguf_records_fit [OF recs _ assms(2)] by (auto simp: list_all_iff)
  have ids: "map (\<lambda>rx. rec_id (fst rx)) recs = List.product [1..<27] [0..<64]"
    using gguf_records_ids [OF recs] by (simp add: FIRST_MOE_def LAST_MOE_def N_EXPERTS_def del: upt_Suc)
  have "length (map (\<lambda>rx. rec_id (fst rx)) recs) = 1664" unfolding ids by simp
  then have n: "length recs = 1664" by simp
  have "fields_fit hdr_widths (hdr_values (gguf_header (length recs) (length f)))"
    using assms(4) by (simp add: n gguf_header_def fields_fit_def hdr_widths_def hdr_values_def VERSION_def ALIGN_def
        N_LAYERS_def N_EXPERTS_def DTYPE_GGUF_Q8_0_def HDR_SIZE_def)
  then obtain hb where "HDR_pack (gguf_header (length recs) (length f)) = Inr hb"
    using pack_fields_fit by (fastforce simp: HDR_pack_def)
  then obtain mid where mid: "write_index (gguf_header (length recs) (length f)) (map fst recs) = (mid, None)"
    using write_index_ok fits(1) by blast
  obtain bs where "write_all SRC_pack mid (map snd recs) = (mid @ bs, None)"
    using src_codec.write_all_ok [OF fits(2)] by blast
  then have "gguf_index_file recs (length f) = (mid @ bs, None)" by (simp add: gguf_index_file_def mid)
  then show ?thesis by (simp add: index_main_def io_bind_lift_app recs io_bind_def assms(3) write_out_def)
qed

section \<open>Properties\<close>

text \<open>C10: a written GGUF sidecar index reads back: the header, one record per MoE layer and expert in order
  (26 layers, 64 experts), and after them the table of source spans, with nothing else in the file; the GGUF
  file itself is not touched unless the index is written over it.\<close>

theorem gguf_index_reads_back:
  assumes "index_main ts gguf out_idx s = (Inr u, s')"
  shows "\<exists>recs f out. gguf_records ts = Inr recs \<and> s gguf = Some f \<and> s' = s(out_idx \<mapsto> out)
    \<and> HDR_unpack (take HDR_SIZE out) = gguf_header 1664 (length f)
    \<and> unpack_table REC_unpack REC_SIZE out HDR_SIZE 1664 = Inr (map fst recs)
    \<and> unpack_table SRC_unpack SRC_SIZE out (HDR_SIZE + REC_SIZE * 1664) 1664 = Inr (map snd recs)
    \<and> length out = HDR_SIZE + (REC_SIZE + SRC_SIZE) * 1664
    \<and> map (\<lambda>rx. rec_id (fst rx)) recs = List.product [1..<27] [0..<64]"
  using assms
proof (rule index_main_writes)
  fix recs f out
  assume a: "gguf_records ts = Inr recs" "s gguf = Some f" "gguf_index_file recs (length f) = (out, None)"
    "s' = s(out_idx \<mapsto> out)"
  have ids: "map (\<lambda>rx. rec_id (fst rx)) recs = List.product [1..<27] [0..<64]"
    using gguf_records_ids [OF a(1)] by (simp add: FIRST_MOE_def LAST_MOE_def N_EXPERTS_def del: upt_Suc)
  have "length (map (\<lambda>rx. rec_id (fst rx)) recs) = 1664" unfolding ids by simp
  then have "length recs = 1664" by simp
  then show ?thesis using gguf_index_file_reads [OF a(3)] a ids by metis
qed

theorem gguf_index_reads_back_witness:
  "\<exists>s' recs out. index_main ex_tensors ''g'' ''i'' [''g'' \<mapsto> replicate 18000 9] = (Inr (), s') \<and> s' ''i'' = Some out
     \<and> gguf_records ex_tensors = Inr recs \<and> unpack_table REC_unpack REC_SIZE out HDR_SIZE 1664 = Inr (map fst recs)"
proof -
  have "\<forall>t \<in> set ex_tensors. t_offset t + t_nbytes t \<le> 2 ^ 60" using ex_tensors_each by fastforce
  then obtain s' where run: "index_main ex_tensors ''g'' ''i'' [''g'' \<mapsto> replicate 18000 9] = (Inr (), s')"
    using index_main_total [OF ex_tensors_ok, of "[''g'' \<mapsto> replicate 18000 9]" "''g''" "replicate 18000 9" "''i''"]
    by auto
  obtain recs out where "s' = [''g'' \<mapsto> replicate 18000 9, ''i'' \<mapsto> out]" "gguf_records ex_tensors = Inr recs"
    "unpack_table REC_unpack REC_SIZE out HDR_SIZE 1664 = Inr (map fst recs)"
    using gguf_index_reads_back [OF run] by (elim exE conjE) (rule that; assumption)
  then show ?thesis using run by (intro exI [of _ s'] exI [of _ recs] exI [of _ out] conjI) simp_all
qed



text \<open>Each aligned read of the index covers its expert's slice, stays aligned on both sides, and wastes less
  than two alignment units.\<close>

theorem part_read_covers_slice:
  assumes "part_info t expert n = Inr p"
  shows "ALIGN dvd p_src p \<and> ALIGN dvd p_read p \<and> p_src p \<le> t_offset t + expert * (t_nbytes t div n)
    \<and> t_offset t + expert * (t_nbytes t div n) + t_nbytes t div n \<le> p_src p + p_read p
    \<and> p_read p < t_nbytes t div n + 2 * ALIGN"
  using part_cover [OF assms] part_info_InrD(1,2) [OF assms] by simp

theorem part_read_covers_slice_witness:
  "\<exists>p. part_info (ex_tensor 2 ''up'') 7 64 = Inr p \<and> p_src p = 0 \<and> p_read p = 4096
     \<and> 1380 + 70 + 10 \<le> p_src p + p_read p"
proof -
  obtain p where p: "part_info (ex_tensor 2 ''up'') 7 64 = Inr p" "p_src p = 0" "p_read p = 4096"
    by (simp add: part_info_def ex_tensor_def Let_def ALIGN_def align_down_def align_up_def)
  show ?thesis using part_read_covers_slice [OF p(1)] p by (simp add: ex_tensor_def)
qed

end
