(* ===== verification/GgufProbe.thy ===== *)
theory GgufProbe
  imports GgufIndex
begin

text \<open>
  \<^verbatim>\<open>tools/inspect_kimi_gguf_q8.py\<close>: does the physical layout of a GGUF file allow streaming single
  experts? The reader's metadata fields and tensors are arguments, and so is the dequantizer applied
  to a sample of the first expert.
\<close>

section \<open>Tensor names\<close>

text \<open>
  \<^verbatim>\<open>ROUTED_RE\<close>: \<open>blk.<digits>.ffn_<part>_exps.weight\<close>; the pattern's \<^verbatim>\<open>$\<close> also matches before a final
  newline. The alternatives cannot overlap because each is followed by \<open>_exps\<close>.
\<close>

fun match_part :: "string list \<Rightarrow> string \<Rightarrow> string option" where
  "match_part [] s = None"
| "match_part (p # ps) s =
     (if s = p @ ''_exps.weight'' \<or> s = p @ ''_exps.weight'' @ [LF] then Some p else match_part ps s)"

definition routed_name :: "string \<Rightarrow> (nat \<times> string) option" where
  "routed_name name =
     (case strip_prefix ''blk.'' name of
        None \<Rightarrow> None
      | Some s \<Rightarrow>
          (case leading_number s of
             None \<Rightarrow> None
           | Some (layer, s2) \<Rightarrow>
               (case strip_prefix ''.ffn_'' s2 of
                  None \<Rightarrow> None
                | Some r \<Rightarrow> map_option (Pair layer) (match_part [''down'', ''gate'', ''up'', ''gate_up''] r))))"

section \<open>Metadata\<close>

definition EXPECTED_LAYERS :: nat where "EXPECTED_LAYERS = 27"
definition EXPECTED_EXPERTS :: nat where "EXPECTED_EXPERTS = 64"
definition EXPECTED_USED :: nat where "EXPECTED_USED = 6"
definition EXPECTED_EXPERT_FF :: nat where "EXPECTED_EXPERT_FF = 1408"

definition metadata_checks :: "(string \<Rightarrow> json) \<Rightarrow> bool list" where
  "metadata_checks field =
     [field ''general.architecture'' = JStr ''deepseek2'',
      json_eq_int (field ''deepseek2.block_count'') (int EXPECTED_LAYERS),
      json_eq_int (field ''deepseek2.expert_count'') (int EXPECTED_EXPERTS),
      json_eq_int (field ''deepseek2.expert_used_count'') (int EXPECTED_USED),
      json_eq_int (field ''deepseek2.expert_feed_forward_length'') (int EXPECTED_EXPERT_FF),
      field ''deepseek2.leading_dense_block_count'' = JNull
        \<or> json_eq_int (field ''deepseek2.leading_dense_block_count'') 1]"

section \<open>Layers\<close>

text \<open>
  \<^verbatim>\<open>by_layer.setdefault(layer, {})[part] = t\<close>: an insertion-ordered dictionary, where a repeated part
  keeps its place and takes the new tensor.
\<close>

type_synonym parts = "(string \<times> tensor) list"

definition add_routed :: "(nat \<times> parts) list \<Rightarrow> tensor \<Rightarrow> (nat \<times> parts) list" where
  "add_routed acc t = (case routed_name (t_name t) of
     None \<Rightarrow> acc
   | Some (layer, part) \<Rightarrow>
       dict_set layer (dict_set part t (case map_of acc layer of None \<Rightarrow> [] | Some ps \<Rightarrow> ps)) acc)"

definition by_layer :: "tensor list \<Rightarrow> (nat \<times> parts) list" where
  "by_layer ts = foldl add_routed [] ts"

text \<open>The entry of the report for one routed tensor.\<close>

record routed_entry =
  re_name :: string
  re_layer :: nat
  re_part :: string
  re_type :: string
  re_logical_shape :: "nat list"
  re_byte_shape :: "nat list"
  re_bytes :: nat
  re_offset :: nat
  re_outer_axis :: bool
  re_slice_bytes :: "nat option"
  re_slice_contiguous :: bool

definition routed_entry_of :: "tensor \<Rightarrow> routed_entry option" where
  "routed_entry_of t = (case routed_name (t_name t) of
     None \<Rightarrow> None
   | Some (layer, part) \<Rightarrow>
       let outer_experts = (t_shape t \<noteq> [] \<and> hd (t_shape t) = EXPECTED_EXPERTS);
           divisible = (t_nbytes t mod EXPECTED_EXPERTS = 0)
       in Some \<lparr> re_name = t_name t, re_layer = layer, re_part = part, re_type = t_type t,
            re_logical_shape = t_logical t, re_byte_shape = t_shape t, re_bytes = t_nbytes t,
            re_offset = t_offset t, re_outer_axis = outer_experts,
            re_slice_bytes = (if divisible then Some (t_nbytes t div EXPECTED_EXPERTS) else None),
            re_slice_contiguous = (outer_experts \<and> divisible \<and> t_contig_first t \<and> t_contig_last t) \<rparr>)"

definition routed_entries :: "tensor list \<Rightarrow> routed_entry list" where
  "routed_entries ts = List.map_filter routed_entry_of ts"

record layer_info =
  li_split :: bool
  li_fused :: bool
  li_q8 :: bool
  li_contiguous :: bool
  li_total :: nat
  li_overheads :: "nat list"

definition slice_overheads :: "tensor \<Rightarrow> nat list" where
  "slice_overheads t =
     (let sb = t_nbytes t div EXPECTED_EXPERTS in
      map (\<lambda>e. let start = t_offset t + e * sb; stop = start + sb
               in align_up stop ALIGN - align_down start ALIGN - sb)
        [0, EXPECTED_EXPERTS div 2, EXPECTED_EXPERTS - 1])"

text \<open>\<^verbatim>\<open>t.data.shape[0]\<close> raises on a tensor without axes, but only when the sizes divide.\<close>

definition part_contiguous :: "tensor \<Rightarrow> bool res" where
  "part_contiguous t =
     (if t_nbytes t mod EXPECTED_EXPERTS \<noteq> 0 then Inr False
      else if t_shape t = [] then Inl (IndexError ''tuple index out of range'')
      else Inr (hd (t_shape t) = EXPECTED_EXPERTS \<and> t_contig_first t))"

definition add_part :: "layer_info \<Rightarrow> tensor \<Rightarrow> layer_info res" where
  "add_part li t =
     rbind (part_contiguous t) (\<lambda>c.
       let li1 = li\<lparr>li_q8 := li_q8 li \<and> t_type t = Q8_0, li_contiguous := li_contiguous li \<and> c\<rparr> in
       if t_nbytes t mod EXPECTED_EXPERTS \<noteq> 0 then Inr li1
       else Inr (li1\<lparr>li_total := li_total li + t_nbytes t div EXPECTED_EXPERTS,
                     li_overheads := li_overheads li @ slice_overheads t\<rparr>))"

definition layer_layout :: "parts \<Rightarrow> layer_info res" where
  "layer_layout ps =
     (let names = fst ` set ps in
      foldR add_part
        \<lparr> li_split = {''down'', ''gate'', ''up''} \<subseteq> names, li_fused = {''down'', ''gate_up''} \<subseteq> names,
          li_q8 = True, li_contiguous = True, li_total = 0, li_overheads = [] \<rparr> (map snd ps))"

section \<open>The verdict\<close>

text \<open>The dequantized sample: \<open>dequant t\<close> says whether it is finite and whether it is non-zero.\<close>

definition sample_tensor :: "(nat \<times> parts) list \<Rightarrow> tensor option" where
  "sample_tensor bl =
     (if bl = [] then None
      else let ps = the (map_of bl (Min (fst ` set bl))) in
        case map_of ps ''down'' of Some t \<Rightarrow> Some t | None \<Rightarrow> Some (snd (hd ps)))"

definition take_sample :: "(tensor \<Rightarrow> bool \<times> bool) \<Rightarrow> (nat \<times> parts) list \<Rightarrow> (bool \<times> bool) option res" where
  "take_sample dequant bl = (case sample_tensor bl of
     None \<Rightarrow> Inr None
   | Some t \<Rightarrow>
       if t_type t \<noteq> Q8_0 then Inr None
       else if t_shape t = [] then Inl (IndexError ''tuple index out of range'')
       else if hd (t_shape t) = EXPECTED_EXPERTS then Inr (Some (dequant t)) else Inr None)"

record io_stats =
  io_reads :: nat
  io_min :: nat
  io_max :: nat
  io_mean :: pyfloat

definition io_summary :: "nat list \<Rightarrow> io_stats option res" where
  "io_summary os =
     (if os = [] then Inr None
      else rbind (int_truediv (int (sum_list os)) (int (length os))) (\<lambda>mean.
        Inr (Some \<lparr> io_reads = length os, io_min = Min (set os), io_max = Max (set os), io_mean = mean \<rparr>)))"

record probe_result =
  pr_layers :: "nat list"
  pr_layout :: "(nat \<times> layer_info) list"
  pr_routed :: "routed_entry list"
  pr_routed_bytes :: nat
  pr_sample :: "(bool \<times> bool) option"
  pr_io :: "io_stats option"
  pr_streamable :: bool

definition inspect :: "(string \<Rightarrow> json) \<Rightarrow> (tensor \<Rightarrow> bool \<times> bool) \<Rightarrow> tensor list \<Rightarrow> probe_result res" where
  "inspect field dequant ts =
     (let bl = by_layer ts; layers = sorted_list_of_set (fst ` set bl) in
      rbind (mapR (\<lambda>l. rmap (Pair l) (layer_layout (the (map_of bl l)))) layers) (\<lambda>infos.
      rbind (take_sample dequant bl) (\<lambda>sample.
      rbind (io_summary (concat (map (li_overheads \<circ> snd) infos))) (\<lambda>io.
        Inr \<lparr> pr_layers = layers, pr_layout = infos,
              pr_routed = routed_entries ts, pr_routed_bytes = sum_list (map re_bytes (routed_entries ts)),
              pr_sample = sample, pr_io = io,
              pr_streamable = list_all id (metadata_checks field)
                \<and> fst ` set bl = {1..<EXPECTED_LAYERS}
                \<and> list_all (\<lambda>(l, li). li_split li \<or> li_fused li) infos
                \<and> list_all (\<lambda>(l, li). li_q8 li) infos
                \<and> list_all (\<lambda>(l, li). li_contiguous li) infos
                \<and> (case sample of None \<Rightarrow> False | Some (fin, nonzero) \<Rightarrow> fin \<and> nonzero) \<rparr>))))"

definition probe_exit_code :: "probe_result \<Rightarrow> nat" where
  "probe_exit_code r = (if pr_streamable r then 0 else 2)"

section \<open>Lemmas\<close>

text \<open>Every sampled aligned read wastes less than two alignment units.\<close>

lemma slice_overheads_bound: "x \<in> set (slice_overheads t) \<Longrightarrow> x < 2 * ALIGN"
proof -
  have "align_up (start + sb) ALIGN - align_down start ALIGN - sb < 2 * ALIGN" for start sb
    using align_up_less [of ALIGN "start + sb"] align_down_gt [of ALIGN start] align_down_le [of start ALIGN] ALIGN_pos
    by linarith
  then show "x \<in> set (slice_overheads t) \<Longrightarrow> x < 2 * ALIGN"
    by (auto simp: slice_overheads_def Let_def)
qed

lemma add_part_facts:
  assumes "add_part li t = Inr li'"
  shows "(li_q8 li' \<longleftrightarrow> li_q8 li \<and> t_type t = Q8_0)
    \<and> (li_contiguous li' \<longleftrightarrow> li_contiguous li \<and> part_contiguous t = Inr True)
    \<and> li_split li' = li_split li \<and> li_fused li' = li_fused li
    \<and> set (li_overheads li') \<subseteq> set (li_overheads li) \<union> set (slice_overheads t)"
  using assms by (auto simp: add_part_def rbind_eq_Inr Let_def split: if_splits)

lemma layer_fold_facts:
  "foldR add_part li ts = Inr li' \<Longrightarrow>
     (li_q8 li' \<longleftrightarrow> li_q8 li \<and> list_all (\<lambda>t. t_type t = Q8_0) ts)
     \<and> (li_contiguous li' \<longleftrightarrow> li_contiguous li \<and> list_all (\<lambda>t. part_contiguous t = Inr True) ts)
     \<and> li_split li' = li_split li \<and> li_fused li' = li_fused li
     \<and> (\<forall>x \<in> set (li_overheads li'). x \<in> set (li_overheads li) \<or> x < 2 * ALIGN)"
proof (induction ts arbitrary: li)
  case (Cons t ts)
  then obtain li1 where l: "add_part li t = Inr li1" "foldR add_part li1 ts = Inr li'"
    by (auto simp: rbind_eq_Inr)
  from Cons.IH [OF l(2)] add_part_facts [OF l(1)] show ?case
    using slice_overheads_bound [of _ t] by auto
qed simp

lemma layer_layout_facts:
  assumes "layer_layout ps = Inr li"
  shows "(li_q8 li \<longleftrightarrow> (\<forall>t \<in> snd ` set ps. t_type t = Q8_0))
    \<and> (li_contiguous li \<longleftrightarrow> (\<forall>t \<in> snd ` set ps. part_contiguous t = Inr True))
    \<and> (li_split li \<longleftrightarrow> {''down'', ''gate'', ''up''} \<subseteq> fst ` set ps)
    \<and> (li_fused li \<longleftrightarrow> {''down'', ''gate_up''} \<subseteq> fst ` set ps)
    \<and> (\<forall>x \<in> set (li_overheads li). x < 2 * ALIGN)"
  using layer_fold_facts [OF assms [unfolded layer_layout_def Let_def]] by (auto simp: list_all_iff)

text \<open>The layer table holds exactly the routed tensors, the last one of each name.\<close>

definition last_routed :: "tensor list \<Rightarrow> nat \<Rightarrow> string \<Rightarrow> tensor option" where
  "last_routed ts layer part =
     (case filter (\<lambda>t. routed_name (t_name t) = Some (layer, part)) ts of [] \<Rightarrow> None | xs \<Rightarrow> Some (last xs))"

definition part_at :: "(nat \<times> parts) list \<Rightarrow> nat \<Rightarrow> string \<Rightarrow> tensor option" where
  "part_at bl layer part = (case map_of bl layer of None \<Rightarrow> None | Some ps \<Rightarrow> map_of ps part)"

lemma part_at_add:
  "part_at (add_routed bl t) layer part =
     (if routed_name (t_name t) = Some (layer, part) then Some t else part_at bl layer part)"
  by (auto simp: part_at_def add_routed_def split: option.splits)

lemma part_at_fold: "part_at (foldl add_routed bl ts) layer part =
    (case last_routed ts layer part of None \<Rightarrow> part_at bl layer part | Some t \<Rightarrow> Some t)"
proof (induction ts rule: rev_induct)
  case Nil
  then show ?case by (simp add: last_routed_def)
next
  case (snoc t ts)
  then show ?case
    by (simp add: part_at_add last_routed_def split: list.splits option.splits)
qed

lemma part_at_by_layer: "part_at (by_layer ts) layer part = last_routed ts layer part"
  by (simp add: by_layer_def part_at_fold) (simp add: part_at_def split: option.splits)

lemma distinct_by_layer: "distinct (map fst (by_layer ts)) \<and> (\<forall>ps \<in> snd ` set (by_layer ts). distinct (map fst ps))"
proof -
  have step: "distinct (map fst bl) \<and> (\<forall>ps \<in> snd ` set bl. distinct (map fst ps)) \<Longrightarrow>
      distinct (map fst (add_routed bl t)) \<and> (\<forall>ps \<in> snd ` set (add_routed bl t). distinct (map fst ps))" for bl t
  proof -
    assume a: "distinct (map fst bl) \<and> (\<forall>ps \<in> snd ` set bl. distinct (map fst ps))"
    have vals: "snd ` set (dict_set k v kvs) \<subseteq> insert v (snd ` set kvs)" for k v and kvs :: "(nat \<times> parts) list"
      by (induction k v kvs rule: dict_set.induct) auto
    show ?thesis
    proof (cases "routed_name (t_name t)")
      case None
      then show ?thesis using a by (simp add: add_routed_def)
    next
      case (Some lp)
      obtain l p where lp: "lp = (l, p)" by (cases lp)
      define ps where "ps = (case map_of bl l of None \<Rightarrow> [] | Some ps \<Rightarrow> ps)"
      have "distinct (map fst ps)"
        using a by (auto simp: ps_def split: option.splits dest: map_of_SomeD)
      then have dps: "distinct (map fst (dict_set p t ps))" by (rule distinct_dict_set)
      have "\<forall>b \<in> snd ` set (dict_set l (dict_set p t ps) bl). distinct (map fst b)"
      proof (rule ballI)
        fix b assume "b \<in> snd ` set (dict_set l (dict_set p t ps) bl)"
        then have "b = dict_set p t ps \<or> b \<in> snd ` set bl"
          using subsetD [OF vals [of l "dict_set p t ps" bl]] by (simp only: insert_iff)
        then show "distinct (map fst b)"
          using a dps by (elim disjE) (simp_all only: simp_thms)
      qed
      moreover have "distinct (map fst (dict_set l (dict_set p t ps) bl))"
        using a by (intro distinct_dict_set) blast
      ultimately show ?thesis by (simp add: add_routed_def Some lp ps_def [symmetric])
    qed
  qed
  show ?thesis
    unfolding by_layer_def
  proof (induction ts rule: rev_induct)
    case (snoc t ts)
    show ?case using step [OF snoc.IH] by simp
  qed simp
qed

lemma part_at_layout:
  assumes "map_of (by_layer ts) l = Some ps"
  shows "(last_routed ts l part = Some t \<longleftrightarrow> (part, t) \<in> set ps)"
    and "part \<in> fst ` set ps \<longleftrightarrow> last_routed ts l part \<noteq> None"
proof -
  have "ps \<in> snd ` set (by_layer ts)" using assms by (force dest: map_of_SomeD)
  then have d: "distinct (map fst ps)" using distinct_by_layer by blast
  have m: "last_routed ts l part = map_of ps part" for part
    using part_at_by_layer [of ts l part] assms by (simp add: part_at_def)
  show "last_routed ts l part = Some t \<longleftrightarrow> (part, t) \<in> set ps" using d by (simp add: m)
  show "part \<in> fst ` set ps \<longleftrightarrow> last_routed ts l part \<noteq> None"
    by (auto simp: m map_of_eq_None_iff)
qed

text \<open>What a positive verdict says of the routed tensors.\<close>

definition routed_layer_ok :: "tensor list \<Rightarrow> nat \<Rightarrow> bool" where
  "routed_layer_ok ts l =
     (last_routed ts l ''down'' \<noteq> None \<and>
      (last_routed ts l ''gate'' \<noteq> None \<and> last_routed ts l ''up'' \<noteq> None \<or> last_routed ts l ''gate_up'' \<noteq> None) \<and>
      (\<forall>part \<in> {''down'', ''gate'', ''up'', ''gate_up''}. case last_routed ts l part of None \<Rightarrow> True
         | Some t \<Rightarrow> t_type t = Q8_0 \<and> EXPECTED_EXPERTS dvd t_nbytes t \<and> t_shape t \<noteq> []
             \<and> hd (t_shape t) = EXPECTED_EXPERTS \<and> t_contig_first t))"

lemma inspect_InrD:
  assumes "inspect field dequant ts = Inr r"
  obtains infos sample io where
    "mapR (\<lambda>l. rmap (Pair l) (layer_layout (the (map_of (by_layer ts) l)))) (sorted_list_of_set (fst ` set (by_layer ts))) = Inr infos"
    "io_summary (concat (map (li_overheads \<circ> snd) infos)) = Inr io" "pr_io r = io" "pr_layout r = infos"
    "pr_streamable r \<longleftrightarrow> list_all id (metadata_checks field)
       \<and> fst ` set (by_layer ts) = {1..<EXPECTED_LAYERS}
       \<and> list_all (\<lambda>(l, li). li_split li \<or> li_fused li) infos
       \<and> list_all (\<lambda>(l, li). li_q8 li) infos \<and> list_all (\<lambda>(l, li). li_contiguous li) infos
       \<and> (case sample of None \<Rightarrow> False | Some (fin, nonzero) \<Rightarrow> fin \<and> nonzero)"
  using assms by (auto simp: inspect_def Let_def rbind_eq_Inr)

lemma inspect_infos:
  assumes "mapR (\<lambda>l. rmap (Pair l) (layer_layout (the (map_of bl l)))) (sorted_list_of_set (fst ` set bl)) = Inr infos"
    and "l \<in> fst ` set bl"
  shows "\<exists>li. (l, li) \<in> set infos \<and> layer_layout (the (map_of bl l)) = Inr li"
proof -
  let ?ls = "sorted_list_of_set (fst ` set bl)"
  obtain i where i: "i < length ?ls" "?ls ! i = l" using assms(2) by (metis finite_imageI finite_set in_set_conv_nth set_sorted_list_of_set)
  have "i < length infos" using mapR_length [OF assms(1)] i by simp
  moreover have "rmap (Pair l) (layer_layout (the (map_of bl l))) = Inr (infos ! i)"
    using mapR_nth [OF assms(1) i(1)] i(2) by simp
  ultimately show ?thesis by (auto simp: rmap_eq_Inr) (metis nth_mem)
qed

lemma streamable_layers:
  assumes "inspect field dequant ts = Inr r" "pr_streamable r" "l \<in> {1..<EXPECTED_LAYERS}"
  shows "routed_layer_ok ts l"
  using assms(1)
proof (rule inspect_InrD)
  fix infos sample io
  assume m: "mapR (\<lambda>l. rmap (Pair l) (layer_layout (the (map_of (by_layer ts) l)))) (sorted_list_of_set (fst ` set (by_layer ts))) = Inr infos"
    and s: "pr_streamable r \<longleftrightarrow> list_all id (metadata_checks field)
       \<and> fst ` set (by_layer ts) = {1..<EXPECTED_LAYERS}
       \<and> list_all (\<lambda>(l, li). li_split li \<or> li_fused li) infos
       \<and> list_all (\<lambda>(l, li). li_q8 li) infos \<and> list_all (\<lambda>(l, li). li_contiguous li) infos
       \<and> (case sample of None \<Rightarrow> False | Some (fin, nonzero) \<Rightarrow> fin \<and> nonzero)"
  have layers: "fst ` set (by_layer ts) = {1..<EXPECTED_LAYERS}"
    and ok: "list_all (\<lambda>(l, li). (li_split li \<or> li_fused li) \<and> li_q8 li \<and> li_contiguous li) infos"
    using s assms(2) by (auto simp: list_all_iff)
  have l: "l \<in> fst ` set (by_layer ts)" using assms(3) layers by simp
  obtain li where li: "(l, li) \<in> set infos" "layer_layout (the (map_of (by_layer ts) l)) = Inr li"
    using inspect_infos [OF m l] by blast
  obtain ps where ps: "map_of (by_layer ts) l = Some ps" using l by (cases "map_of (by_layer ts) l") (auto simp: map_of_eq_None_iff)
  have f: "(li_split li \<or> li_fused li) \<and> li_q8 li \<and> li_contiguous li" using ok li(1) by (auto simp: list_all_iff)
  note lay = layer_layout_facts [OF li(2) [unfolded ps option.sel]]
  have names: "{''down'', ''gate'', ''up''} \<subseteq> fst ` set ps \<or> {''down'', ''gate_up''} \<subseteq> fst ` set ps"
    using f lay by blast
  then have present: "last_routed ts l ''down'' \<noteq> None \<and>
      (last_routed ts l ''gate'' \<noteq> None \<and> last_routed ts l ''up'' \<noteq> None \<or> last_routed ts l ''gate_up'' \<noteq> None)"
    unfolding insert_subset part_at_layout(2) [OF ps] by blast
  have all_parts: "(\<forall>t \<in> snd ` set ps. t_type t = Q8_0) \<and> (\<forall>t \<in> snd ` set ps. part_contiguous t = Inr True)"
    using f lay by satx
  have each: "t_type t = Q8_0 \<and> EXPECTED_EXPERTS dvd t_nbytes t \<and> t_shape t \<noteq> []
      \<and> hd (t_shape t) = EXPECTED_EXPERTS \<and> t_contig_first t" if "last_routed ts l part = Some t" for part t
  proof -
    have "t \<in> snd ` set ps" using that part_at_layout(1) [OF ps] by force
    then have "t_type t = Q8_0" "part_contiguous t = Inr True" using all_parts by auto
    then show ?thesis by (auto simp: part_contiguous_def dvd_eq_mod_eq_0 split: if_splits)
  qed
  have all: "\<forall>part \<in> {''down'', ''gate'', ''up'', ''gate_up''}. case last_routed ts l part of None \<Rightarrow> True
         | Some t \<Rightarrow> t_type t = Q8_0 \<and> EXPECTED_EXPERTS dvd t_nbytes t \<and> t_shape t \<noteq> []
             \<and> hd (t_shape t) = EXPECTED_EXPERTS \<and> t_contig_first t"
  proof (rule ballI)
    fix part
    show "case last_routed ts l part of None \<Rightarrow> True
         | Some t \<Rightarrow> t_type t = Q8_0 \<and> EXPECTED_EXPERTS dvd t_nbytes t \<and> t_shape t \<noteq> []
             \<and> hd (t_shape t) = EXPECTED_EXPERTS \<and> t_contig_first t"
      by (cases "last_routed ts l part") (simp, simp only: option.case, rule each)
  qed
  show ?thesis
    unfolding routed_layer_ok_def
    by (rule conjI [OF present [THEN conjunct1] conjI [OF present [THEN conjunct2] all]])
qed

lemma io_bound:
  assumes "inspect field dequant ts = Inr r" "pr_io r = Some io"
  shows "io_min io \<le> io_max io \<and> io_max io < 2 * ALIGN"
  using assms(1)
proof (rule inspect_InrD)
  fix infos sample io'
  assume m: "mapR (\<lambda>l. rmap (Pair l) (layer_layout (the (map_of (by_layer ts) l)))) (sorted_list_of_set (fst ` set (by_layer ts))) = Inr infos"
    and io: "io_summary (concat (map (li_overheads \<circ> snd) infos)) = Inr io'" "pr_io r = io'"
  let ?os = "concat (map (li_overheads \<circ> snd) infos)"
  have "\<forall>x \<in> set ?os. x < 2 * ALIGN"
  proof
    fix x assume "x \<in> set ?os"
    then obtain e where e: "e \<in> set infos" "x \<in> set (li_overheads (snd e))" by auto
    then obtain i where i: "i < length infos" "x \<in> set (li_overheads (snd (infos ! i)))"
      by (metis in_set_conv_nth)
    then have "\<exists>l. rmap (Pair l) (layer_layout (the (map_of (by_layer ts) l))) = Inr (infos ! i)"
      using mapR_nth [OF m, of i] mapR_length [OF m] by auto
    then obtain ps where "layer_layout ps = Inr (snd (infos ! i))" by (auto simp: rmap_eq_Inr)
    then show "x < 2 * ALIGN" using layer_layout_facts i(2) by blast
  qed
  moreover have ne: "?os \<noteq> []" "io_min io = Min (set ?os)" "io_max io = Max (set ?os)"
    using io assms(2) by (auto simp: io_summary_def rbind_eq_Inr split: if_splits)
  moreover have "Min (set ?os) \<le> Max (set ?os)" "Max (set ?os) \<in> set ?os"
    using ne(1) by (metis List.finite_set Max_in Min_le set_empty)+
  ultimately show ?thesis by simp
qed

lemma io_summary_total:
  assumes "\<forall>x \<in> set os. x < 2 * ALIGN" "os \<noteq> []"
  shows "\<exists>io. io_summary os = Inr (Some io)"
proof -
  have "sum_list os \<le> 2 * ALIGN * length os" using assms(1) by (intro sum_list_le_mult) (simp add: less_imp_le)
  then have "int (sum_list os) \<le> int (2 * ALIGN) * int (length os)" by (metis of_nat_le_iff of_nat_mult)
  then show ?thesis
    using int_truediv_bounded [of "int (sum_list os)" "2 * ALIGN" "int (length os)"] assms(2)
    by (fastforce simp: io_summary_def ALIGN_def)
qed

section \<open>The names the index asks for\<close>

lemma routed_tensor_name:
  assumes "p \<in> {''down'', ''gate'', ''up'', ''gate_up''}"
  shows "routed_name (tensor_name l p) = Some (l, p)"
proof -
  have pre: "strip_prefix ''blk.'' (''blk.'' @ s) = Some s" "strip_prefix ''.ffn_'' (''.ffn_'' @ s) = Some s" for s
    by (rule strip_prefix_append)+
  have dot: "\<not> is_digit CHR ''.''" by code_simp
  have num: "leading_number (show_nat l @ ''.ffn_'' @ s) = Some (l, ''.ffn_'' @ s)" for s
    using leading_number_show_nat [OF dot, of l "''ffn_'' @ s"] by simp
  have "match_part [''down'', ''gate'', ''up'', ''gate_up''] (p @ ''_exps.weight'') = Some p"
    using assms by auto
  then show ?thesis
    unfolding routed_name_def tensor_name_def pre option.case num prod.case by (simp only: option.map)
qed

section \<open>A concrete file\<close>

definition ex_field :: "string \<Rightarrow> json" where
  "ex_field k = (case map_of [(''general.architecture'', JStr ''deepseek2''), (''deepseek2.block_count'', JInt 27),
     (''deepseek2.expert_count'', JInt 64), (''deepseek2.expert_used_count'', JInt 6),
     (''deepseek2.expert_feed_forward_length'', JInt 1408)] k of None \<Rightarrow> JNull | Some v \<Rightarrow> v)"

definition ex_parts :: "nat \<Rightarrow> parts" where
  "ex_parts l = [(''gate'', ex_tensor l ''gate''), (''up'', ex_tensor l ''up''), (''down'', ex_tensor l ''down'')]"

lemma ex_add_layer:
  assumes "l \<notin> fst ` set bl"
  shows "foldl add_routed bl (map (ex_tensor l) [''gate'', ''up'', ''down'']) = bl @ [(l, ex_parts l)]"
proof -
  have n: "t_name (ex_tensor l p) = tensor_name l p" for p by (simp add: ex_tensor_def)
  have m: "map_of bl l = None" using assms by (simp add: map_of_eq_None_iff)
  have r: "routed_name (tensor_name l ''gate'') = Some (l, ''gate'')" "routed_name (tensor_name l ''up'') = Some (l, ''up'')"
    "routed_name (tensor_name l ''down'') = Some (l, ''down'')"
    by (rule routed_tensor_name; simp)+
  show ?thesis
    by (simp add: add_routed_def n r m dict_set_new [OF assms] dict_set_last [OF assms] map_add_def ex_parts_def)
qed

lemma ex_by_layer: "by_layer ex_tensors = map (\<lambda>l. (l, ex_parts l)) [1..<27]"
proof -
  have "distinct ls \<Longrightarrow> set ls \<inter> fst ` set bl = {} \<Longrightarrow>
      foldl add_routed bl (concat (map (\<lambda>l. map (ex_tensor l) [''gate'', ''up'', ''down'']) ls))
        = bl @ map (\<lambda>l. (l, ex_parts l)) ls" for ls bl
  proof (induction ls arbitrary: bl)
    case (Cons l ls)
    have "l \<notin> fst ` set bl" using Cons.prems(2) by auto
    then have "foldl add_routed bl (map (ex_tensor l) [''gate'', ''up'', ''down'']) = bl @ [(l, ex_parts l)]"
      by (rule ex_add_layer)
    then show ?case
      using Cons.IH [of "bl @ [(l, ex_parts l)]"] Cons.prems
      by (simp only: concat.simps list.map(2) foldl_append) (auto simp: append_assoc)
  qed simp
  from this [of "[1..<27]" "[]"] show ?thesis by (simp only: by_layer_def ex_tensors_def) simp
qed

lemma ex_layer_layout: "\<exists>li. layer_layout (ex_parts l) = Inr li \<and> li_split li \<and> li_q8 li \<and> li_contiguous li \<and> li_overheads li \<noteq> []"
  by (simp add: layer_layout_def ex_parts_def add_part_def part_contiguous_def ex_tensor_def EXPECTED_EXPERTS_def
      Let_def slice_overheads_def Q8_0_def)

lemma ex_inspect:
  "\<exists>r io. inspect ex_field (\<lambda>t. (True, True)) ex_tensors = Inr r \<and> pr_streamable r \<and> pr_io r = Some io"
proof -
  obtain li where li: "layer_layout (ex_parts l) = Inr (li l) \<and> li_split (li l) \<and> li_q8 (li l) \<and> li_contiguous (li l)
      \<and> li_overheads (li l) \<noteq> []" for l
    using ex_layer_layout by metis
  have bl: "fst ` set (by_layer ex_tensors) = {1..<27}" by (simp add: ex_by_layer image_image)
  have look: "map_of (by_layer ex_tensors) l = Some (ex_parts l)" if "l \<in> {1..<27}" for l
    using that unfolding ex_by_layer by (simp add: map_of_map_restrict)
  have infos: "mapR (\<lambda>l. rmap (Pair l) (layer_layout (the (map_of (by_layer ex_tensors) l)))) [1..<27]
      = Inr (map (\<lambda>l. (l, li l)) [1..<27])"
    by (rule mapR_all_Inr) (use look li in simp)
  have ne: "by_layer ex_tensors \<noteq> []" using bl by fastforce
  have "Min {1..<27::nat} = 1" by (rule Min_eqI) auto
  then have "sample_tensor (by_layer ex_tensors) = Some (ex_tensor 1 ''down'')"
    using ne look [of 1] by (simp add: sample_tensor_def bl ex_parts_def)
  then have sample: "take_sample (\<lambda>t. (True, True)) (by_layer ex_tensors) = Inr (Some (True, True))"
    by (simp add: take_sample_def ex_tensor_def EXPECTED_EXPERTS_def)
  let ?os = "concat (map (li_overheads \<circ> snd) (map (\<lambda>l. (l, li l)) [1..<27]))"
  have os: "?os \<noteq> []" using li [of 1] by (auto intro!: bexI [of _ 1])
  have "\<forall>x \<in> set ?os. x < 2 * ALIGN" using layer_layout_facts li by fastforce
  then have io: "\<exists>io. io_summary ?os = Inr (Some io)" using io_summary_total os by blast
  have md: "list_all id (metadata_checks ex_field)"
    by (simp add: metadata_checks_def ex_field_def json_eq_int_def EXPECTED_LAYERS_def EXPECTED_EXPERTS_def
        EXPECTED_USED_def EXPECTED_EXPERT_FF_def)
  show ?thesis
    using io li md by (auto simp: inspect_def Let_def bl infos sample EXPECTED_LAYERS_def list_all_iff
        simp del: upt_Suc One_nat_def)
qed

section \<open>Properties\<close>

text \<open>C11: a positive verdict of the layout probe means what streaming needs: in every MoE layer the routed
  tensors are there, split or fused, and each of them is Q8_0, divides into 64 experts and has the expert as
  its outer physical axis with contiguous slices.\<close>

theorem streamable_verdict_sound:
  assumes "inspect field dequant ts = Inr r" "pr_streamable r" "l \<in> {1..<EXPECTED_LAYERS}"
  shows "routed_layer_ok ts l"
  by (rule streamable_layers [OF assms])

theorem streamable_verdict_sound_witness:
  "\<exists>r. inspect ex_field (\<lambda>t. (True, True)) ex_tensors = Inr r \<and> routed_layer_ok ex_tensors 26"
proof -
  obtain r where r: "inspect ex_field (\<lambda>t. (True, True)) ex_tensors = Inr r" "pr_streamable r" using ex_inspect by blast
  have "(26 :: nat) \<in> {1..<EXPECTED_LAYERS}" by (simp add: EXPECTED_LAYERS_def)
  then show ?thesis using streamable_verdict_sound [OF r] r by blast
qed

text \<open>The padding the probe reports for aligned expert reads is always less than two alignment units.\<close>

theorem probe_padding_bound:
  assumes "inspect field dequant ts = Inr r" "pr_io r = Some io"
  shows "io_min io \<le> io_max io \<and> io_max io < 2 * ALIGN"
  by (rule io_bound [OF assms])

theorem probe_padding_bound_witness:
  "\<exists>r io. inspect ex_field (\<lambda>t. (True, True)) ex_tensors = Inr r \<and> pr_io r = Some io \<and> io_max io < 8192"
proof -
  obtain r io where r: "inspect ex_field (\<lambda>t. (True, True)) ex_tensors = Inr r" "pr_io r = Some io" using ex_inspect by blast
  then show ?thesis using probe_padding_bound [OF r] by (auto simp: ALIGN_def)
qed

text \<open>The probe's regular expression accepts exactly the names the index builder generates: the layer and the
  matrix are read back from the name.\<close>

theorem routed_name_roundtrip:
  assumes "p \<in> {''down'', ''gate'', ''up'', ''gate_up''}"
  shows "routed_name (tensor_name l p) = Some (l, p)"
  by (rule routed_tensor_name [OF assms])

theorem routed_name_roundtrip_witness: "routed_name ''blk.17.ffn_gate_up_exps.weight'' = Some (17, ''gate_up'')"
proof -
  have "tensor_name 17 ''gate_up'' = ''blk.17.ffn_gate_up_exps.weight''" by (simp add: tensor_name_def) code_simp
  then show ?thesis using routed_name_roundtrip [of "''gate_up''" 17] by simp
qed

end
