(* ===== verification/MixedBit.thy ===== *)
theory MixedBit
  imports Json
begin

text \<open>
  \<^verbatim>\<open>tools/kimi_mixed_bit_plan.py\<close>: one bit width per expert, chosen by dynamic programming over a
  byte budget. Sizes are Python integers, errors are floats added in the order of the experts.
\<close>

section \<open>Candidates\<close>

record choice =
  ch_bits :: int
  ch_bytes :: int
  ch_error :: pyfloat

type_synonym expert_choices = "string \<times> choice list"

text \<open>\<^verbatim>\<open>f"{n:02d}"\<close>\<close>

definition fmt02 :: "int \<Rightarrow> string" where
  "fmt02 n = (let s = show_int n in if length s < 2 then ''0'' @ s else s)"

definition expert_key :: "json \<Rightarrow> string \<Rightarrow> string res" where
  "expert_key doc fallback =
     rbind (json_get doc ''metadata'' JNull) (\<lambda>m0.
       let m = (if json_truthy m0 then m0 else JObj []) in
       rbind (json_contains m ''layer'') (\<lambda>has_layer.
       rbind (if has_layer then json_contains m ''expert'' else Inr False) (\<lambda>both.
         if both then
           rbind (json_index m ''layer'') (\<lambda>l. rbind (json_int l) (\<lambda>layer.
           rbind (json_index m ''expert'') (\<lambda>e. rbind (json_int e) (\<lambda>expert.
             Inr (''L'' @ fmt02 layer @ ''E'' @ fmt02 expert)))))
         else Inr fallback)))"

definition load_choice :: "string \<Rightarrow> json \<Rightarrow> choice res" where
  "load_choice error_field c =
     rbind (json_contains c error_field) (\<lambda>has.
       if \<not> has then Inl (ValueError ''candidate missing error field'')
       else rbind (json_index c ''bits'') (\<lambda>b. rbind (json_int b) (\<lambda>bits.
         rbind (json_index c ''projected_total_bytes_f16_scales'') (\<lambda>n. rbind (json_int n) (\<lambda>size.
         rbind (json_index c error_field) (\<lambda>e. rbind (json_float e) (\<lambda>err.
           Inr \<lparr> ch_bits = bits, ch_bytes = size, ch_error = err \<rparr>)))))))"

text \<open>\<^verbatim>\<open>choices.sort(key=lambda x: (-x.bits, x.bytes, x.error))\<close>\<close>

definition choice_lt :: "choice \<Rightarrow> choice \<Rightarrow> bool" where
  "choice_lt a b =
     (if ch_bits a \<noteq> ch_bits b then - ch_bits a < - ch_bits b
      else if ch_bytes a \<noteq> ch_bytes b then ch_bytes a < ch_bytes b
      else flt (ch_error a) (ch_error b))"

definition load_doc :: "string \<Rightarrow> (string \<times> json) \<Rightarrow> expert_choices list \<Rightarrow> expert_choices list res" where
  "load_doc error_field inp experts = (case inp of (stem, doc) \<Rightarrow>
     rbind (json_get doc ''schema'' JNull) (\<lambda>schema.
       if schema \<noteq> JStr ''kimi-expert-quant-sensitivity-v1'' then Inl (ValueError ''unsupported schema'')
       else rbind (expert_key doc stem) (\<lambda>key.
         if key \<in> fst ` set experts then Inl (ValueError ''duplicate expert key'')
         else rbind (json_get doc ''candidates'' (JList [])) (\<lambda>cs. rbind (json_list cs) (\<lambda>cands.
           rbind (mapR (load_choice error_field) cands) (\<lambda>choices.
             if choices = [] then Inl (ValueError ''no candidates'')
             else Inr (experts @ [(key, py_sort choice_lt choices)])))))))"

definition load_choices :: "string \<Rightarrow> (string \<times> json) list \<Rightarrow> expert_choices list res" where
  "load_choices error_field docs = foldR (\<lambda>ex d. load_doc error_field d ex) [] docs"

section \<open>The dynamic program\<close>

text \<open>\<^verbatim>\<open>dict[int, tuple[float, tuple[int, ...]]]\<close>, in insertion order.\<close>

type_synonym dp_table = "(int \<times> pyfloat \<times> nat list) list"

definition choice_units :: "int \<Rightarrow> choice \<Rightarrow> int" where
  "choice_units qb c = (ch_bytes c + qb - 1) div qb"

definition dp_relax ::
  "int \<Rightarrow> int \<Rightarrow> int \<Rightarrow> pyfloat \<times> nat list \<Rightarrow> dp_table \<Rightarrow> nat \<times> choice \<Rightarrow> dp_table" where
  "dp_relax qb budget_units used entry nxt ic = (case (entry, ic) of ((err, picks), (idx, c)) \<Rightarrow>
     let new_used = used + choice_units qb c in
     if new_used > budget_units then nxt
     else let new_err = fadd err (ch_error c) in
       case map_of nxt new_used of
         None \<Rightarrow> dict_set new_used (new_err, picks @ [idx]) nxt
       | Some cur \<Rightarrow> if flt new_err (fst cur) then dict_set new_used (new_err, picks @ [idx]) nxt else nxt)"

definition dp_step :: "int \<Rightarrow> int \<Rightarrow> choice list \<Rightarrow> dp_table \<Rightarrow> dp_table" where
  "dp_step qb budget_units choices dp =
     foldl (\<lambda>nxt (used, entry). foldl (dp_relax qb budget_units used entry) nxt (enumerate 0 choices)) [] dp"

fun dp_run :: "int \<Rightarrow> int \<Rightarrow> expert_choices list \<Rightarrow> dp_table \<Rightarrow> dp_table res" where
  "dp_run qb budget_units [] dp = Inr dp"
| "dp_run qb budget_units ((key, choices) # experts) dp =
     (let nxt = dp_step qb budget_units choices dp in
      if nxt = [] then Inl (ValueError ''no feasible assignment under projected byte budget'')
      else dp_run qb budget_units experts nxt)"

text \<open>\<^verbatim>\<open>min(dp.items(), key=lambda kv: (kv[1][0], kv[0]))\<close>\<close>

definition dp_lt :: "int \<times> pyfloat \<times> nat list \<Rightarrow> int \<times> pyfloat \<times> nat list \<Rightarrow> bool" where
  "dp_lt a b = (if feq (fst (snd a)) (fst (snd b)) then fst a < fst b else flt (fst (snd a)) (fst (snd b)))"

record assigned =
  as_expert :: string
  as_bits :: int
  as_bytes :: int
  as_error :: pyfloat

record plan_out =
  po_budget :: int
  po_quantum :: int
  po_bytes :: int
  po_total_error :: pyfloat
  po_count :: nat
  po_assignment :: "assigned list"

definition assign_choices :: "expert_choices list \<Rightarrow> nat list \<Rightarrow> assigned list" where
  "assign_choices experts picks =
     map (\<lambda>((key, choices), idx). let c = choices ! idx in
            \<lparr> as_expert = key, as_bits = ch_bits c, as_bytes = ch_bytes c, as_error = ch_error c \<rparr>)
       (zip experts picks)"

definition optimize :: "expert_choices list \<Rightarrow> int \<Rightarrow> int \<Rightarrow> plan_out res" where
  "optimize experts budget qb =
     (if budget \<le> 0 then Inl (ValueError ''budget_bytes must be positive'')
      else if qb \<le> 0 then Inl (ValueError ''quantum must be positive'')
      else let units = budget div qb in
        if units \<le> 0 then Inl (ValueError ''budget is smaller than one quantum'')
        else rbind (dp_run qb units experts [(0, Fin 0, [])]) (\<lambda>dp.
          let (used, total, picks) = first_min dp_lt (hd dp) (tl dp);
              asg = assign_choices experts picks; exact = sum_list (map as_bytes asg)
          in if exact > budget then Inl (AssertionError ''quantized DP plan exceeded exact byte budget'')
             else Inr \<lparr> po_budget = budget, po_quantum = qb, po_bytes = exact, po_total_error = total,
                         po_count = length experts, po_assignment = asg \<rparr>))"

section \<open>Assignments\<close>

text \<open>
  An assignment picks a candidate of every expert. Its error is the float sum in the order of the
  experts; its size counts quanta rounded up, expert by expert.
\<close>

fun valid_picks :: "expert_choices list \<Rightarrow> nat list \<Rightarrow> bool" where
  "valid_picks [] ps = (ps = [])"
| "valid_picks (e # es) ps = (case ps of [] \<Rightarrow> False | p # ps' \<Rightarrow> p < length (snd e) \<and> valid_picks es ps')"

fun picks_units :: "int \<Rightarrow> expert_choices list \<Rightarrow> nat list \<Rightarrow> int" where
  "picks_units q (e # es) (p # ps) = choice_units q (snd e ! p) + picks_units q es ps"
| "picks_units q es ps = 0"

fun picks_error :: "pyfloat \<Rightarrow> expert_choices list \<Rightarrow> nat list \<Rightarrow> pyfloat" where
  "picks_error acc (e # es) (p # ps) = picks_error (fadd acc (ch_error (snd e ! p))) es ps"
| "picks_error acc es ps = acc"

fun picks_bytes :: "expert_choices list \<Rightarrow> nat list \<Rightarrow> int" where
  "picks_bytes (e # es) (p # ps) = ch_bytes (snd e ! p) + picks_bytes es ps"
| "picks_bytes es ps = 0"

section \<open>One step of the program\<close>

type_synonym dp_candidate = "int \<times> (pyfloat \<times> nat list) \<times> (nat \<times> choice)"

definition cand :: "int \<Rightarrow> dp_candidate \<Rightarrow> int \<times> pyfloat \<times> nat list" where
  "cand qb x = (case x of (used, (err, picks), (idx, c)) \<Rightarrow>
     (used + choice_units qb c, fadd err (ch_error c), picks @ [idx]))"

definition dp_cands :: "choice list \<Rightarrow> dp_table \<Rightarrow> dp_candidate list" where
  "dp_cands choices dp = concat (map (\<lambda>(used, entry). map (\<lambda>ic. (used, entry, ic)) (enumerate 0 choices)) dp)"

lemma set_dp_cands: "(u, en, ic) \<in> set (dp_cands choices dp) \<longleftrightarrow> (u, en) \<in> set dp \<and> ic \<in> set (enumerate 0 choices)"
proof
  show "(u, en) \<in> set dp \<and> ic \<in> set (enumerate 0 choices)" if "(u, en, ic) \<in> set (dp_cands choices dp)"
    using that by (auto simp: dp_cands_def)
  show "(u, en, ic) \<in> set (dp_cands choices dp)" if "(u, en) \<in> set dp \<and> ic \<in> set (enumerate 0 choices)"
    using that unfolding dp_cands_def by (cases en) (auto intro!: bexI [of _ "(u, en)"])
qed

lemma dp_step_flat:
  "dp_step qb B choices dp = foldl (\<lambda>nxt (used, entry, ic). dp_relax qb B used entry nxt ic) [] (dp_cands choices dp)"
proof -
  have "foldl (\<lambda>nxt (used, entry). foldl (dp_relax qb B used entry) nxt (enumerate 0 choices)) nxt dp
      = foldl (\<lambda>nxt (used, entry, ic). dp_relax qb B used entry nxt ic) nxt (dp_cands choices dp)" for nxt
    by (induction dp arbitrary: nxt) (auto simp: dp_cands_def foldl_map)
  then show ?thesis by (simp add: dp_step_def)
qed

text \<open>Every entry is a candidate within budget, and every candidate within budget is matched or beaten.\<close>

definition dp_inv :: "int \<Rightarrow> int \<Rightarrow> dp_candidate set \<Rightarrow> dp_table \<Rightarrow> bool" where
  "dp_inv qb B P nxt =
     (distinct (map fst nxt) \<and> (\<forall>y \<in> set nxt. fst y \<le> B \<and> y \<in> cand qb ` P) \<and>
      (\<forall>x \<in> P. fst (cand qb x) \<le> B \<longrightarrow>
         (\<exists>v. map_of nxt (fst (cand qb x)) = Some v \<and> fle (fst v) (fst (snd (cand qb x))))))"

lemma set_dict_set: "set (dict_set k v kvs) \<subseteq> insert (k, v) (set kvs)"
  by (induction k v kvs rule: dict_set.induct) auto

lemma dp_inv_relax:
  assumes inv: "dp_inv qb B P nxt" and nan: "fst (snd (cand qb (used, entry, ic))) \<noteq> NaN"
  shows "dp_inv qb B (insert (used, entry, ic) P) (dp_relax qb B used entry nxt ic)"
proof -
  obtain e ps i c where x: "entry = (e, ps)" "ic = (i, c)" by (cases entry, cases ic)
  define y where "y = cand qb (used, entry, ic)"
  define u where "u = used + choice_units qb c"
  define r where "r = fadd e (ch_error c)"
  have y: "y = (u, r, ps @ [i])" by (simp add: y_def cand_def x u_def r_def)
  have rn: "r \<noteq> NaN" using nan by (simp add: y_def [symmetric] y)
  have old: "distinct (map fst nxt)" "\<forall>z \<in> set nxt. fst z \<le> B \<and> z \<in> cand qb ` P"
    "\<forall>x \<in> P. fst (cand qb x) \<le> B \<longrightarrow> (\<exists>v. map_of nxt (fst (cand qb x)) = Some v \<and> fle (fst v) (fst (snd (cand qb x))))"
    using inv by (auto simp: dp_inv_def)
  show ?thesis
  proof (cases "u > B")
    case True
    then have "dp_relax qb B used entry nxt ic = nxt" by (simp add: dp_relax_def x u_def Let_def)
    then show ?thesis using old True by (auto simp: dp_inv_def y_def [symmetric] y)
  next
    case le: False
    show ?thesis
    proof (cases "\<exists>cur. map_of nxt u = Some cur \<and> \<not> flt r (fst cur)")
      case True
      then obtain cur where cur: "map_of nxt u = Some cur" "\<not> flt r (fst cur)" by blast
      then have keep: "dp_relax qb B used entry nxt ic = nxt"
        using le by (simp add: dp_relax_def x u_def [symmetric] r_def [symmetric] Let_def)
      have "(u, cur) \<in> cand qb ` P" using old(2) map_of_SomeD [OF cur(1)] by fastforce
      then obtain z where z: "z \<in> P" "cand qb z = (u, cur)" by force
      then have "fle (fst cur) (fst cur)" using old(3) le cur(1) by force
      then have "fle (fst cur) r" using cur(2) rn flt_not_fle fle_not_NaN by blast
      then show ?thesis
        unfolding keep dp_inv_def ball_simps y_def [symmetric] y using old cur
        by (intro conjI) (auto simp: dp_inv_def intro: exI [of _ "fst cur"] exI [of _ "snd cur"])
    next
      case False
      then have set_: "dp_relax qb B used entry nxt ic = dict_set u (r, ps @ [i]) nxt"
        using le by (auto simp: dp_relax_def x u_def [symmetric] r_def [symmetric] Let_def split: option.split)
      have better: "fle r (fst v)" if "map_of nxt u = Some v" for v
        using False that by (auto simp: flt_def)
      have "\<exists>v. map_of (dict_set u (r, ps @ [i]) nxt) (fst (cand qb x)) = Some v \<and> fle (fst v) (fst (snd (cand qb x)))"
        if x: "x \<in> insert (used, entry, ic) P" and b: "fst (cand qb x) \<le> B" for x
      proof (cases "fst (cand qb x) = u")
        case u: True
        show ?thesis
        proof (cases "x = (used, entry, ic)")
          case True
          then show ?thesis using rn by (simp add: y_def [symmetric] y fle_refl)
        next
          case False
          then obtain v where "map_of nxt u = Some v" "fle (fst v) (fst (snd (cand qb x)))"
            using x b old(3) u by force
          then show ?thesis using better fle_trans u by auto
        qed
      next
        case nu: False
        then have "x \<in> P" using x by (auto simp: y_def [symmetric] y)
        then show ?thesis using old(3) b nu by auto
      qed
      moreover have "\<forall>z \<in> set (dict_set u (r, ps @ [i]) nxt). fst z \<le> B \<and> z \<in> cand qb ` insert (used, entry, ic) P"
        using set_dict_set [of u "(r, ps @ [i])" nxt] old(2) le by (fastforce simp: y_def [symmetric] y)
      ultimately show ?thesis
        unfolding set_ dp_inv_def using distinct_dict_set [OF old(1)] by blast
    qed
  qed
qed

lemma dp_step_inv:
  assumes "\<forall>x \<in> set (dp_cands choices dp). fst (snd (cand qb x)) \<noteq> NaN"
  shows "dp_inv qb B (set (dp_cands choices dp)) (dp_step qb B choices dp)"
proof -
  have "dp_inv qb B P nxt \<Longrightarrow> \<forall>x \<in> set xs. fst (snd (cand qb x)) \<noteq> NaN \<Longrightarrow>
      dp_inv qb B (P \<union> set xs) (foldl (\<lambda>nxt (used, entry, ic). dp_relax qb B used entry nxt ic) nxt xs)" for P nxt xs
  proof (induction xs arbitrary: P nxt)
    case (Cons x xs)
    obtain used entry ic where x: "x = (used, entry, ic)" by (cases x)
    have "dp_inv qb B (insert x P) (dp_relax qb B used entry nxt ic)"
      unfolding x using Cons.prems by (intro dp_inv_relax) (simp_all add: x)
    from Cons.IH [OF this] Cons.prems(2) show ?case by (simp add: x)
  qed simp
  moreover have "dp_inv qb B {} []" by (simp add: dp_inv_def)
  ultimately show ?thesis using assms unfolding dp_step_flat by (metis Un_empty_left)
qed

section \<open>All steps\<close>

lemma valid_picks_length: "valid_picks es ps \<Longrightarrow> length ps = length es"
  by (induction es ps rule: valid_picks.induct) (auto split: list.splits)

lemma picks_snoc:
  assumes "length ps = length es"
  shows "valid_picks (es @ [x]) (ps @ [i]) \<longleftrightarrow> valid_picks es ps \<and> i < length (snd x)"
    and "picks_units qb (es @ [x]) (ps @ [i]) = picks_units qb es ps + choice_units qb (snd x ! i)"
    and "picks_error acc (es @ [x]) (ps @ [i]) = fadd (picks_error acc es ps) (ch_error (snd x ! i))"
  using assms by (induction ps es arbitrary: acc rule: list_induct2) auto

definition errors_finite :: "expert_choices list \<Rightarrow> bool" where
  "errors_finite es = (\<forall>e \<in> set es. \<forall>c \<in> set (snd e). is_finite (ch_error c))"

definition sizes_nonneg :: "expert_choices list \<Rightarrow> bool" where
  "sizes_nonneg es = (\<forall>e \<in> set es. \<forall>c \<in> set (snd e). 0 \<le> ch_bytes c)"

lemma picks_error_not_NaN: "errors_finite es \<Longrightarrow> valid_picks es ps \<Longrightarrow> acc \<noteq> NaN \<Longrightarrow> picks_error acc es ps \<noteq> NaN"
  by (induction es arbitrary: ps acc) (auto simp: errors_finite_def fadd_not_NaN split: list.splits)

text \<open>The table after the experts \<open>es\<close>: its entries are assignments, and it beats every assignment.\<close>

definition dp_exact :: "int \<Rightarrow> int \<Rightarrow> expert_choices list \<Rightarrow> dp_table \<Rightarrow> bool" where
  "dp_exact qb B es dp =
     (distinct (map fst dp) \<and>
      (\<forall>(u, e, ps) \<in> set dp. valid_picks es ps \<and> u = picks_units qb es ps \<and> u \<le> B \<and> e = picks_error (Fin 0) es ps) \<and>
      (\<forall>ps. valid_picks es ps \<longrightarrow> picks_units qb es ps \<le> B \<longrightarrow>
         (\<exists>e ps'. (picks_units qb es ps, e, ps') \<in> set dp \<and> fle e (picks_error (Fin 0) es ps))))"

lemma choice_units_nonneg: "0 < qb \<Longrightarrow> 0 \<le> ch_bytes c \<Longrightarrow> 0 \<le> choice_units qb c"
  by (simp add: choice_units_def pos_imp_zdiv_nonneg_iff)

lemma dp_exact_step:
  assumes ex: "dp_exact qb B es dp" and fin: "errors_finite (es @ [x])" and nn: "sizes_nonneg [x]" and q: "0 < qb"
  shows "dp_exact qb B (es @ [x]) (dp_step qb B (snd x) dp)"
proof -
  have fes: "errors_finite es" and fx: "\<forall>c \<in> set (snd x). is_finite (ch_error c)"
    using fin by (auto simp: errors_finite_def)
  have ent: "valid_picks es ps \<and> u = picks_units qb es ps \<and> u \<le> B \<and> e = picks_error (Fin 0) es ps"
    if "(u, e, ps) \<in> set dp" for u e ps using ex that by (auto simp: dp_exact_def)
  have cands: "z \<in> set (dp_cands (snd x) dp) \<longleftrightarrow>
      (\<exists>u e ps i. z = (u, (e, ps), (i, snd x ! i)) \<and> (u, e, ps) \<in> set dp \<and> i < length (snd x))" for z
    by (cases z) (auto simp: set_dp_cands in_set_enumerate_eq)
  have nn2: "fst (snd (cand qb z)) \<noteq> NaN" if "z \<in> set (dp_cands (snd x) dp)" for z
  proof -
    from that obtain u e ps i where z: "z = (u, (e, ps), (i, snd x ! i))" "(u, e, ps) \<in> set dp" "i < length (snd x)"
      by (auto simp: cands)
    have "e \<noteq> NaN" using ent [OF z(2)] picks_error_not_NaN [OF fes] by auto
    then show ?thesis using z fx by (simp add: cand_def fadd_not_NaN)
  qed
  have inv: "dp_inv qb B (set (dp_cands (snd x) dp)) (dp_step qb B (snd x) dp)"
    using nn2 by (intro dp_step_inv) blast
  have sound: "valid_picks (es @ [x]) ps \<and> u = picks_units qb (es @ [x]) ps \<and> u \<le> B
      \<and> e = picks_error (Fin 0) (es @ [x]) ps" if "(u, e, ps) \<in> set (dp_step qb B (snd x) dp)" for u e ps
  proof -
    have "u \<le> B \<and> (u, e, ps) \<in> cand qb ` set (dp_cands (snd x) dp)"
      using inv that unfolding dp_inv_def by (metis fst_conv)
    then obtain u0 e0 ps0 i where z: "(u0, e0, ps0) \<in> set dp" "i < length (snd x)" "u \<le> B"
      "(u, e, ps) = cand qb (u0, (e0, ps0), (i, snd x ! i))" by (auto simp: cands)
    have len: "length ps0 = length es" using ent [OF z(1)] valid_picks_length by blast
    show ?thesis using z ent [OF z(1)] by (simp add: cand_def picks_snoc [OF len])
  qed
  have complete: "\<exists>e ps'. (picks_units qb (es @ [x]) ps, e, ps') \<in> set (dp_step qb B (snd x) dp)
      \<and> fle e (picks_error (Fin 0) (es @ [x]) ps)"
    if v: "valid_picks (es @ [x]) ps" and b: "picks_units qb (es @ [x]) ps \<le> B" for ps
  proof -
    have "length ps = Suc (length es)" using valid_picks_length [OF v] by simp
    then obtain ps0 i where ps: "ps = ps0 @ [i]" by (metis append_butlast_last_id length_0_conv nat.distinct(1))
    have len: "length ps0 = length es" using valid_picks_length [OF v] ps by simp
    note sn = picks_snoc [OF len]
    have v0: "valid_picks es ps0" "i < length (snd x)" using v by (simp_all add: ps sn(1))
    have "0 \<le> choice_units qb (snd x ! i)" using nn v0(2) q by (intro choice_units_nonneg) (auto simp: sizes_nonneg_def)
    then have "picks_units qb es ps0 \<le> B" using b by (simp add: ps sn(2))
    then obtain e ps' where d: "(picks_units qb es ps0, e, ps') \<in> set dp" "fle e (picks_error (Fin 0) es ps0)"
      using ex v0(1) by (auto simp: dp_exact_def)
    define z where "z = (picks_units qb es ps0, (e, ps'), (i, snd x ! i))"
    have z: "z \<in> set (dp_cands (snd x) dp)" using d(1) v0(2) by (auto simp: z_def cands)
    have cz: "cand qb z = (picks_units qb (es @ [x]) ps, fadd e (ch_error (snd x ! i)), ps' @ [i])"
      by (simp add: z_def cand_def ps sn(2))
    then obtain w where w: "map_of (dp_step qb B (snd x) dp) (picks_units qb (es @ [x]) ps) = Some w"
      "fle (fst w) (fadd e (ch_error (snd x ! i)))"
      using inv z b by (force simp: dp_inv_def)
    have "fle (fadd e (ch_error (snd x ! i))) (picks_error (Fin 0) (es @ [x]) ps)"
      unfolding ps sn(3) using d(2) fx v0(2) by (intro fadd_mono) auto
    then have "fle (fst w) (picks_error (Fin 0) (es @ [x]) ps)" using w(2) fle_trans by blast
    then show ?thesis using map_of_SomeD [OF w(1)] by (metis prod.collapse)
  qed
  show ?thesis
    using inv sound complete by (auto simp: dp_exact_def dp_inv_def)
qed

lemma picks_units_nonneg:
  assumes q: "0 < qb"
  shows "valid_picks bs ps \<Longrightarrow> sizes_nonneg bs \<Longrightarrow> 0 \<le> picks_units qb bs ps"
proof (induction bs arbitrary: ps)
  case (Cons b bs)
  then show ?case
    using q by (auto simp: sizes_nonneg_def choice_units_nonneg split: list.splits intro!: add_nonneg_nonneg)
qed simp

lemma picks_prefix:
  assumes q: "0 < qb"
  shows "valid_picks (xs @ bs) ps \<Longrightarrow> sizes_nonneg bs \<Longrightarrow>
     valid_picks xs (take (length xs) ps) \<and> picks_units qb xs (take (length xs) ps) \<le> picks_units qb (xs @ bs) ps"
proof (induction xs arbitrary: ps)
  case Nil
  then show ?case using picks_units_nonneg [OF q] by simp
next
  case (Cons a xs)
  then show ?case by (auto split: list.splits)
qed

text \<open>A run ends with an exact table, or no assignment fits the budget.\<close>

lemma dp_run_exact:
  assumes q: "0 < qb"
  shows "errors_finite (es @ xs) \<Longrightarrow> sizes_nonneg xs \<Longrightarrow> dp_exact qb B es dp \<Longrightarrow>
     (case dp_run qb B xs dp of
        Inr dp' \<Rightarrow> dp_exact qb B (es @ xs) dp' \<and> (dp \<noteq> [] \<longrightarrow> dp' \<noteq> [])
      | Inl err \<Rightarrow> \<not> (\<exists>ps. valid_picks (es @ xs) ps \<and> picks_units qb (es @ xs) ps \<le> B))"
proof (induction xs arbitrary: es dp)
  case Nil
  then show ?case by simp
next
  case (Cons x xs)
  obtain key choices where x: "x = (key, choices)" by (cases x)
  have nn: "sizes_nonneg [x]" "sizes_nonneg xs" using Cons.prems(2) by (auto simp: sizes_nonneg_def)
  have fin: "errors_finite (es @ [x])" "errors_finite ((es @ [x]) @ xs)"
    using Cons.prems(1) by (auto simp: errors_finite_def)
  have step: "dp_exact qb B (es @ [x]) (dp_step qb B choices dp)"
    using dp_exact_step [OF Cons.prems(3) fin(1) nn(1) q] by (simp add: x)
  show ?case
  proof (cases "dp_step qb B choices dp = []")
    case True
    have "\<not> (valid_picks (es @ x # xs) ps \<and> picks_units qb (es @ x # xs) ps \<le> B)" for ps
    proof
      assume "valid_picks (es @ x # xs) ps \<and> picks_units qb (es @ x # xs) ps \<le> B"
      then have "valid_picks (es @ [x]) (take (length (es @ [x])) ps)
          \<and> picks_units qb (es @ [x]) (take (length (es @ [x])) ps) \<le> B"
        using picks_prefix [OF q _ nn(2), of "es @ [x]" ps] by auto
      then show False using step True by (auto simp: dp_exact_def)
    qed
    then show ?thesis using True by (simp add: x Let_def)
  next
    case False
    then show ?thesis
      using Cons.IH [OF fin(2) nn(2) step] by (simp add: x Let_def split: sum.splits)
  qed
qed

lemma dp_exact_start: "0 \<le> B \<Longrightarrow> dp_exact qb B [] [(0, Fin 0, [])]"
  by (simp add: dp_exact_def)

text \<open>The final choice: least error, then fewest quanta.\<close>

definition dp_ok :: "int \<times> pyfloat \<times> nat list \<Rightarrow> bool" where
  "dp_ok x = (fst (snd x) \<noteq> NaN)"

lemma dp_lt_alt:
  "dp_ok a \<Longrightarrow> dp_ok b \<Longrightarrow> dp_lt a b \<longleftrightarrow>
     flt (fst (snd a)) (fst (snd b)) \<or> (fst (snd a) = fst (snd b) \<and> fst a < fst b)"
  by (auto simp: dp_lt_def dp_ok_def feq_def flt_def fle_refl dest: fle_antisym)

interpretation dp_order: weak_order dp_lt dp_ok
proof
  show "\<not> dp_lt x x" if "dp_ok x" for x using that by (auto simp: dp_lt_alt flt_def)
  show "\<not> dp_lt z x" if "dp_ok x" "dp_ok y" "dp_ok z" "\<not> dp_lt y x" "\<not> dp_lt z y" for x y z
    using that by (auto simp: dp_lt_alt dp_ok_def flt_def dest: fle_trans fle_antisym fle_total)
  show "\<not> dp_lt y x" if "dp_ok x" "dp_ok y" "dp_lt x y" for x y
    using that by (auto simp: dp_lt_alt flt_def)
qed

lemma ceil_units: "0 < qb \<Longrightarrow> ch_bytes c \<le> choice_units qb c * qb"
proof -
  assume q: "0 < qb"
  define n where "n = ch_bytes c + qb - 1"
  have "n = n div qb * qb + n mod qb" by simp
  moreover have "n mod qb < qb" using q by simp
  ultimately have "n < n div qb * qb + qb" by linarith
  then show ?thesis by (simp add: n_def choice_units_def)
qed

lemma picks_bytes_le: "0 < qb \<Longrightarrow> valid_picks es ps \<Longrightarrow> picks_bytes es ps \<le> picks_units qb es ps * qb"
proof (induction es arbitrary: ps)
  case (Cons e es)
  then show ?case
    using ceil_units [OF Cons.prems(1)] by (auto simp: distrib_right split: list.splits intro!: add_mono)
qed simp

lemma assign_bytes: "valid_picks es ps \<Longrightarrow> sum_list (map as_bytes (assign_choices es ps)) = picks_bytes es ps"
  by (induction es arbitrary: ps) (auto simp: assign_choices_def Let_def split: list.splits)

text \<open>The plan is an assignment within budget that no assignment within budget beats; a refusal means there is none.\<close>

lemma optimize_exact:
  assumes "errors_finite experts" "sizes_nonneg experts" "0 < qb" "qb \<le> budget"
  shows "case optimize experts budget qb of
      Inr plan \<Rightarrow> \<exists>ps. valid_picks experts ps \<and> po_assignment plan = assign_choices experts ps
        \<and> po_bytes plan = picks_bytes experts ps \<and> po_bytes plan \<le> budget
        \<and> po_total_error plan = picks_error (Fin 0) experts ps
        \<and> (\<forall>qs. valid_picks experts qs \<longrightarrow> picks_units qb experts qs \<le> budget div qb \<longrightarrow>
              fle (po_total_error plan) (picks_error (Fin 0) experts qs))
    | Inl e \<Rightarrow> e = ValueError ''no feasible assignment under projected byte budget''
        \<and> \<not> (\<exists>qs. valid_picks experts qs \<and> picks_units qb experts qs \<le> budget div qb)"
proof -
  let ?B = "budget div qb"
  have pos: "0 < budget" "0 < ?B" using assms(3,4) by (auto simp: pos_imp_zdiv_pos_iff)
  have run: "case dp_run qb ?B experts [(0, Fin 0, [])] of
        Inr dp' \<Rightarrow> dp_exact qb ?B experts dp' \<and> dp' \<noteq> []
      | Inl err \<Rightarrow> \<not> (\<exists>ps. valid_picks experts ps \<and> picks_units qb experts ps \<le> ?B)"
    using dp_run_exact [OF assms(3), of "[]" experts ?B "[(0, Fin 0, [])]"] dp_exact_start [of ?B qb] pos assms(1,2)
    by (simp split: sum.splits)
  show ?thesis
  proof (cases "dp_run qb ?B experts [(0, Fin 0, [])]")
    case (Inl e)
    have "dp_run qb ?B xs dp = Inl e \<Longrightarrow> e = ValueError ''no feasible assignment under projected byte budget''" for xs dp
      by (induction xs arbitrary: dp) (auto simp: Let_def split: if_splits)
    with Inl run pos assms(3) show ?thesis by (simp add: optimize_def Let_def not_le)
  next
    case (Inr dp)
    then have ex: "dp_exact qb ?B experts dp" and ne: "dp \<noteq> []" using run by simp_all
    define b where "b = first_min dp_lt (hd dp) (tl dp)"
    obtain used total ps where b: "b = (used, total, ps)" by (cases b)
    have inb: "(used, total, ps) \<in> set dp"
      using first_min_in [of dp_lt "hd dp" "tl dp"] ne by (simp add: b_def [symmetric] b)
    have bp: "valid_picks experts ps" "used = picks_units qb experts ps" "used \<le> ?B"
      "total = picks_error (Fin 0) experts ps"
      using ex inb by (auto simp: dp_exact_def)
    have ok: "dp_ok x" if "x \<in> set dp" for x
    proof -
      obtain u e ps where x: "x = (u, e, ps)" by (cases x)
      then have "valid_picks experts ps \<and> e = picks_error (Fin 0) experts ps"
        using ex that by (auto simp: dp_exact_def)
      then show ?thesis using picks_error_not_NaN [OF assms(1)] by (auto simp: dp_ok_def x)
    qed
    have least: "fle total (picks_error (Fin 0) experts qs)"
      if q: "valid_picks experts qs" "picks_units qb experts qs \<le> ?B" for qs
    proof -
      obtain e ps' where e: "(picks_units qb experts qs, e, ps') \<in> set dp" "fle e (picks_error (Fin 0) experts qs)"
        using ex q by (auto simp: dp_exact_def)
      have "\<not> dp_lt (picks_units qb experts qs, e, ps') b"
        unfolding b_def using ok e(1) ne
        by (intro dp_order.first_min_least) (simp_all add: list_all_iff)
      then have "\<not> flt e total"
        using ok [OF e(1)] ok [OF inb] by (simp add: b dp_lt_alt)
      then have "fle total e" using flt_not_fle ok [OF e(1)] ok [OF inb] by (simp add: dp_ok_def)
      then show ?thesis using e(2) fle_trans by blast
    qed
    have "picks_bytes experts ps \<le> used * qb" using picks_bytes_le [OF assms(3) bp(1)] bp(2) by simp
    also have "\<dots> \<le> ?B * qb" using bp(3) assms(3) by (intro mult_right_mono) simp_all
    also have "\<dots> \<le> budget" using assms(3) by (metis div_mult_mod_eq le_add_same_cancel1 pos_mod_sign)
    finally have fit: "picks_bytes experts ps \<le> budget" .
    have "optimize experts budget qb = Inr \<lparr> po_budget = budget, po_quantum = qb,
        po_bytes = picks_bytes experts ps, po_total_error = total, po_count = length experts,
        po_assignment = assign_choices experts ps \<rparr>"
      using Inr pos assms(3) fit assign_bytes [OF bp(1)]
      by (simp add: optimize_def b_def [symmetric] b not_le)
    then show ?thesis using bp fit least by auto
  qed
qed

section \<open>Properties\<close>

text \<open>C6: the mixed-bit dynamic program is exact for finite errors and sizes that are not negative, where an
  assignment fits when its candidates, each rounded up to whole quanta, fit the quanta of the budget. It returns an assignment of one candidate to each expert that
  stays within the byte budget and whose float error, summed in expert order, no assignment that fits the
  budget in quanta undercuts; it refuses only when no assignment fits.\<close>

theorem mixed_bit_plan_optimal:
  assumes "errors_finite experts" "sizes_nonneg experts" "0 < qb" "qb \<le> budget"
  shows "case optimize experts budget qb of
      Inr plan \<Rightarrow> \<exists>ps. valid_picks experts ps \<and> po_assignment plan = assign_choices experts ps
        \<and> po_bytes plan = picks_bytes experts ps \<and> po_bytes plan \<le> budget
        \<and> po_total_error plan = picks_error (Fin 0) experts ps
        \<and> (\<forall>qs. valid_picks experts qs \<longrightarrow> picks_units qb experts qs \<le> budget div qb \<longrightarrow>
              fle (po_total_error plan) (picks_error (Fin 0) experts qs))
    | Inl e \<Rightarrow> e = ValueError ''no feasible assignment under projected byte budget''
        \<and> \<not> (\<exists>qs. valid_picks experts qs \<and> picks_units qb experts qs \<le> budget div qb)"
  by (rule optimize_exact [OF assms])

definition ex_experts :: "expert_choices list" where
  "ex_experts =
     [(''L01E00'', [\<lparr> ch_bits = 8, ch_bytes = 60, ch_error = Fin (1 / 4) \<rparr>, \<lparr> ch_bits = 4, ch_bytes = 30, ch_error = Fin 2 \<rparr>]),
      (''L01E01'', [\<lparr> ch_bits = 8, ch_bytes = 60, ch_error = Fin 1 \<rparr>, \<lparr> ch_bits = 4, ch_bytes = 30, ch_error = Fin 8 \<rparr>])]"

theorem mixed_bit_plan_optimal_witness:
  "case optimize ex_experts 100 10 of
      Inr plan \<Rightarrow> po_bytes plan \<le> 100 \<and> fle (po_total_error plan) (Fin 3)
    | Inl e \<Rightarrow> False"
proof -
  have h: "errors_finite ex_experts" "sizes_nonneg ex_experts" "0 < (10 :: int)" "(10 :: int) \<le> 100"
    by (simp_all add: errors_finite_def sizes_nonneg_def ex_experts_def)
  have q: "valid_picks ex_experts [1, 0]" "picks_units 10 ex_experts [1, 0] \<le> 100 div 10"
    "picks_error (Fin 0) ex_experts [1, 0] = Fin 3"
    by code_simp+
  show ?thesis
    using mixed_bit_plan_optimal [OF h] q by (fastforce split: sum.splits)
qed

end
