(* ===== verification/Q5Pack.thy ===== *)
theory Q5Pack
  imports StructPack "HOL-Library.Word"
begin

text \<open>
  \<^verbatim>\<open>pack_signed_q5\<close> of \<^verbatim>\<open>tools/pack_experts_q5.py\<close>: signed five-bit values packed least significant bit
  first, eight at a time in a vectorised path and one by one in the tail.
\<close>

unbundle bit_operations_syntax

section \<open>The packer\<close>

text \<open>\<^verbatim>\<open>value & 31\<close> of an \<^verbatim>\<open>int8\<close>: the five-bit two's complement.\<close>

definition q5_code :: "8 word \<Rightarrow> nat" where
  "q5_code v = unat (v AND 31)"

definition q5_word :: "8 word list \<Rightarrow> 64 word" where
  "q5_word u = (let c = (\<lambda>i. word_of_nat (q5_code (u ! i)) :: 64 word) in
     c 0 OR push_bit 5 (c 1) OR push_bit 10 (c 2) OR push_bit 15 (c 3) OR push_bit 20 (c 4)
       OR push_bit 25 (c 5) OR push_bit 30 (c 6) OR push_bit 35 (c 7))"

definition q5_word_bytes :: "64 word \<Rightarrow> bytes" where
  "q5_word_bytes w = map (\<lambda>b. ucast (drop_bit (8 * b) w AND 255)) [0..<5]"

fun q5_body :: "nat \<Rightarrow> 8 word list \<Rightarrow> bytes" where
  "q5_body 0 xs = []"
| "q5_body (Suc n) xs = q5_word_bytes (q5_word (take 8 xs)) @ q5_body n (drop 8 xs)"

text \<open>The tail's accumulator is a Python integer; \<^verbatim>\<open>acc |= v << bits\<close> only sets bits that are clear.\<close>

function q5_flush :: "nat \<Rightarrow> nat \<Rightarrow> bytes \<Rightarrow> nat \<times> nat \<times> bytes" where
  "q5_flush acc bits out =
     (if 8 \<le> bits then q5_flush (drop_bit 8 acc) (bits - 8) (out @ [word_of_nat (acc AND 255)])
      else (acc, bits, out))"
  by auto
termination by (relation "measure (\<lambda>(acc, bits, out). bits)") auto

declare q5_flush.simps [simp del]

fun q5_tail :: "nat \<Rightarrow> nat \<Rightarrow> bytes \<Rightarrow> 8 word list \<Rightarrow> bytes" where
  "q5_tail acc bits out [] = (if bits \<noteq> 0 then out @ [word_of_nat (acc AND 255)] else out)"
| "q5_tail acc bits out (v # vs) =
     (case q5_flush (acc OR push_bit bits (q5_code v)) (bits + 5) out of
        (acc', bits', out') \<Rightarrow> q5_tail acc' bits' out' vs)"

definition pack_signed_q5 :: "8 word list \<Rightarrow> bytes res" where
  "pack_signed_q5 flat =
     (let n8 = length flat div 8 * 8;
          body = (if n8 \<noteq> 0 then q5_body (length flat div 8) flat else []);
          tail = (if n8 \<noteq> length flat then q5_tail 0 0 [] (drop n8 flat) else []);
          packed = body @ tail
      in if length packed \<noteq> (length flat * 5 + 7) div 8
         then Inl (AssertionError ''packed length'') else Inr packed)"

section \<open>The format\<close>

text \<open>
  The packed bytes read as one little-endian number are the values in base 32. The reader takes the
  value at position \<open>i\<close> from the five bits at \<open>5 * i\<close> and extends the sign.
\<close>

fun base32 :: "8 word list \<Rightarrow> nat" where
  "base32 [] = 0"
| "base32 (v # vs) = q5_code v + 32 * base32 vs"

definition q5_at :: "bytes \<Rightarrow> nat \<Rightarrow> 8 word" where
  "q5_at bs i = (let c = from_le bs div 32 ^ i mod 32 in
     if c < 16 then word_of_nat c else word_of_int (int c - 32))"

definition q5_range :: "8 word \<Rightarrow> bool" where
  "q5_range v = (- 16 \<le> sint v \<and> sint v < 16)"

section \<open>Arithmetic of the bit operations\<close>

lemma and_31_mod: "(x :: nat) AND 31 = x mod 32"
proof -
  have "x AND mask 5 = take_bit 5 x" by (simp add: take_bit_eq_mask)
  then show ?thesis by (simp add: take_bit_eq_mod mask_eq_exp_minus_1)
qed

lemma and_255_mod: "(x :: nat) AND 255 = x mod 256"
proof -
  have "x AND mask 8 = take_bit 8 x" by (simp add: take_bit_eq_mask)
  then show ?thesis by (simp add: take_bit_eq_mod mask_eq_exp_minus_1)
qed

lemma q5_code_mod: "q5_code v = unat v mod 32"
proof -
  have "q5_code v = unat v AND 31" by (simp add: q5_code_def unsigned_and_eq)
  then show ?thesis by (simp only: and_31_mod)
qed

lemma q5_code_less: "q5_code v < 32"
  by (simp add: q5_code_mod)

lemma or_push_add: "(a :: nat) < 2 ^ n \<Longrightarrow> a OR push_bit n b = a + 2 ^ n * b"
proof -
  assume a: "a < 2 ^ n"
  have "\<not> bit a k" if "bit (push_bit n b) k" for k
  proof -
    have "n \<le> k" using that by (simp add: bit_push_bit_iff)
    then have "a < 2 ^ k" using a by (meson less_le_trans one_le_numeral power_increasing)
    then show ?thesis by (simp add: bit_iff_odd)
  qed
  then have "a AND push_bit n b = 0" by (intro bit_eqI) (auto simp: bit_and_iff)
  then have "a + push_bit n b = a OR push_bit n b" by (simp add: disjunctive_add_eq_or)
  then show ?thesis by (simp add: push_bit_eq_mult mult.commute)
qed

lemma base32_or: "base32 (v # vs) = q5_code v OR push_bit 5 (base32 vs)"
  using or_push_add [of "q5_code v" 5 "base32 vs"] q5_code_less [of v] by simp

lemma base32_less: "base32 vs < 32 ^ length vs"
proof (induction vs)
  case (Cons v vs)
  then show ?case using q5_code_less [of v] by simp
qed simp

lemma base32_append: "base32 (xs @ ys) = base32 xs + 32 ^ length xs * base32 ys"
  by (induction xs) (simp_all add: algebra_simps)

lemma base32_digit: "i < length vs \<Longrightarrow> base32 vs div 32 ^ i mod 32 = q5_code (vs ! i)"
proof (induction vs arbitrary: i)
  case (Cons v vs)
  show ?case
  proof (cases i)
    case 0
    then show ?thesis using q5_code_less [of v] by simp
  next
    case (Suc j)
    have "base32 (v # vs) div 32 ^ i = base32 vs div 32 ^ j"
      using q5_code_less [of v] by (simp add: Suc div_mult2_eq)
    with Cons Suc show ?thesis by simp
  qed
qed simp

lemma from_le_append: "from_le (xs @ ys) = from_le xs + 256 ^ length xs * from_le ys"
  by (induction xs) (simp_all add: algebra_simps)

section \<open>The vectorised path\<close>

lemma list8: "length xs = 8 \<Longrightarrow> xs = [xs!0, xs!1, xs!2, xs!3, xs!4, xs!5, xs!6, xs!7]"
  by (intro nth_equalityI) (auto simp: less_Suc_eq numeral_eq_Suc)

lemma q5_word_base32: "length u = 8 \<Longrightarrow> q5_word u = word_of_nat (base32 u)"
proof -
  assume "length u = 8"
  then have u: "u = [u!0, u!1, u!2, u!3, u!4, u!5, u!6, u!7]" by (rule list8)
  have "base32 u = q5_code (u!0) OR push_bit 5 (q5_code (u!1)) OR push_bit 10 (q5_code (u!2))
      OR push_bit 15 (q5_code (u!3)) OR push_bit 20 (q5_code (u!4)) OR push_bit 25 (q5_code (u!5))
      OR push_bit 30 (q5_code (u!6)) OR push_bit 35 (q5_code (u!7))"
    by (subst u, unfold base32_or push_bit_or push_bit_push_bit) (simp add: or.assoc)
  then show ?thesis
    by (simp add: q5_word_def Let_def of_nat_or_eq of_nat_push_bit)
qed

lemma q5_word_bytes_le: "q5_word_bytes w = le_bytes 5 (unat w)"
proof -
  have b: "ucast (drop_bit n w AND 255) = (word_of_nat (unat w div 2 ^ n mod 256) :: byte)" for n
  proof (rule word_unat_eq_iff [THEN iffD2])
    have "unat (ucast (drop_bit n w AND 255) :: byte) = unat (drop_bit n w AND 255) mod 256"
      by (simp add: unsigned_ucast_eq take_bit_eq_mod)
    also have "unat (drop_bit n w AND 255) = unat (drop_bit n w) mod 256"
      by (simp add: unsigned_and_eq and_255_mod)
    also have "unat (drop_bit n w) = drop_bit n (unat w)" by (rule unat_drop_bit_eq)
    also have "\<dots> = unat w div 2 ^ n" by (rule drop_bit_eq_div)
    finally show "unat (ucast (drop_bit n w AND 255) :: byte) = unat (word_of_nat (unat w div 2 ^ n mod 256) :: byte)"
      by (simp add: unsigned_of_nat take_bit_eq_mod)
  qed
  have up: "[0..<5] = [0, 1, 2, 3, 4::nat]" by code_simp
  have five: "le_bytes 5 = le_bytes (Suc (Suc (Suc (Suc (Suc 0)))))" by (rule arg_cong [of _ _ le_bytes]) simp
  have d: "x div 256 div 256 = x div 65536" "x div 65536 div 256 = x div 16777216"
    "x div 16777216 div 256 = x div 4294967296" for x :: nat
    using div_mult2_eq [of x 256 256] div_mult2_eq [of x 65536 256] div_mult2_eq [of x 16777216 256] by simp_all
  show ?thesis
    unfolding q5_word_bytes_def up five le_bytes.simps by (simp add: b d)
qed

lemma q5_group:
  assumes "length u = 8"
  shows "from_le (q5_word_bytes (q5_word u)) = base32 u \<and> length (q5_word_bytes (q5_word u)) = 5"
proof -
  have lt: "base32 u < 32 ^ 8" using base32_less [of u] assms by simp
  then have "unat (q5_word u) = base32 u"
    by (simp add: q5_word_base32 [OF assms] unsigned_of_nat take_bit_eq_mod)
  moreover have "base32 u < 256 ^ 5" using lt by simp
  ultimately show ?thesis by (simp add: q5_word_bytes_le from_le_le_bytes)
qed

lemma q5_body_spec:
  "8 * n \<le> length xs \<Longrightarrow> from_le (q5_body n xs) = base32 (take (8 * n) xs) \<and> length (q5_body n xs) = 5 * n"
proof (induction n arbitrary: xs)
  case (Suc n)
  have g: "from_le (q5_word_bytes (q5_word (take 8 xs))) = base32 (take 8 xs)"
    "length (q5_word_bytes (q5_word (take 8 xs))) = 5"
    using q5_group [of "take 8 xs"] Suc.prems by simp_all
  have ih: "from_le (q5_body n (drop 8 xs)) = base32 (take (8 * n) (drop 8 xs))" "length (q5_body n (drop 8 xs)) = 5 * n"
    using Suc.IH [of "drop 8 xs"] Suc.prems by simp_all
  have "take (8 * Suc n) xs = take 8 xs @ take (8 * n) (drop 8 xs)" by (simp add: take_add)
  then have "base32 (take (8 * Suc n) xs) = base32 (take 8 xs) + 32 ^ 8 * base32 (take (8 * n) (drop 8 xs))"
    using Suc.prems by (simp add: base32_append)
  then show ?case using g ih by (simp add: from_le_append)
qed simp

section \<open>The tail\<close>

lemma q5_flush_spec:
  "acc < 2 ^ bits \<Longrightarrow> q5_flush acc bits out = (acc', bits', out') \<Longrightarrow>
     bits' = bits mod 8 \<and> acc' < 2 ^ bits' \<and> length out' = length out + bits div 8
     \<and> from_le out' + 256 ^ length out' * acc' = from_le out + 256 ^ length out * acc"
proof (induction acc bits out rule: q5_flush.induct)
  case (1 acc bits out)
  show ?case
  proof (cases "8 \<le> bits")
    case False
    then have "q5_flush acc bits out = (acc, bits, out)" by (subst q5_flush.simps) simp
    then show ?thesis using 1(2,3) False by simp
  next
    case True
    have "(2 :: nat) ^ bits = 2 ^ (bits - 8) * 2 ^ 8" using True by (simp only: power_add [symmetric]) simp
    then have "acc < 2 ^ (bits - 8) * 256" using 1(2) by simp
    then have lt: "drop_bit 8 acc < 2 ^ (bits - 8)"
      by (simp add: drop_bit_eq_div less_mult_imp_div_less)
    have eq: "q5_flush (drop_bit 8 acc) (bits - 8) (out @ [word_of_nat (acc AND 255)]) = (acc', bits', out')"
      using 1(3) True by (subst (asm) q5_flush.simps) simp
    note ih = 1(1) [OF True lt eq]
    have "256 ^ length out * acc = 256 ^ length out * (acc mod 256) + 256 ^ length out * (256 * (acc div 256))"
      by (metis distrib_left mod_mult_div_eq)
    then have "from_le (out @ [word_of_nat (acc AND 255)]) + 256 ^ Suc (length out) * drop_bit 8 acc
        = from_le out + 256 ^ length out * acc"
      by (simp add: from_le_append and_255_mod unsigned_of_nat take_bit_eq_mod drop_bit_eq_div
          mult.assoc mult.left_commute)
    then have "from_le out' + 256 ^ length out' * acc' = from_le out + 256 ^ length out * acc"
      using ih [THEN conjunct2, THEN conjunct2, THEN conjunct2] by simp
    moreover have "bits div 8 = Suc ((bits - 8) div 8)" "(bits - 8) mod 8 = bits mod 8"
      using True by (simp_all add: le_div_geq le_mod_geq)
    moreover have "bits' = (bits - 8) mod 8" "length out' = Suc (length out) + (bits - 8) div 8"
      using ih by simp_all
    moreover have "acc' < 2 ^ bits'" using ih by blast
    ultimately show ?thesis by (intro conjI) simp_all
  qed
qed

lemma q5_tail_spec:
  "acc < 2 ^ bits \<Longrightarrow> bits < 8 \<Longrightarrow>
     from_le (q5_tail acc bits out vs) = from_le out + 256 ^ length out * (acc + 2 ^ bits * base32 vs)
     \<and> length (q5_tail acc bits out vs) = length out + (bits + 5 * length vs + 7) div 8"
proof (induction vs arbitrary: acc bits out)
  case Nil
  have "(2 :: nat) ^ bits \<le> 2 ^ 8" using Nil(2) by (intro power_increasing) simp_all
  with Nil(1) have "acc < 256" by simp
  then show ?case
    using Nil by (auto simp: from_le_append and_255_mod unsigned_of_nat take_bit_eq_mod)
next
  case (Cons v vs)
  obtain acc' bits' out' where f: "q5_flush (acc OR push_bit bits (q5_code v)) (bits + 5) out = (acc', bits', out')"
    by (metis prod_cases3)
  have or: "acc OR push_bit bits (q5_code v) = acc + 2 ^ bits * q5_code v"
    using Cons.prems(1) by (rule or_push_add)
  have "acc + 2 ^ bits * q5_code v < 2 ^ bits + 2 ^ bits * q5_code v" using Cons.prems(1) by simp
  also have "\<dots> = 2 ^ bits * Suc (q5_code v)" by simp
  also have "\<dots> \<le> 2 ^ bits * 32" using q5_code_less [of v] by (intro mult_le_mono2) simp
  finally have lt: "acc OR push_bit bits (q5_code v) < 2 ^ (bits + 5)" by (simp add: or power_add)
  note fl = q5_flush_spec [OF lt f]
  have b8: "bits' < 8" using fl [THEN conjunct1] by simp
  have lt': "acc' < 2 ^ bits'" using fl by blast
  note ih = Cons.IH [OF lt' b8, of out']
  have pw: "(256 :: nat) ^ length out' * 2 ^ bits' = 256 ^ length out * 2 ^ (bits + 5)"
  proof -
    have "length out' = length out + (bits + 5) div 8" "bits' = (bits + 5) mod 8" using fl by simp_all
    moreover have "(256 :: nat) ^ k = 2 ^ (8 * k)" for k by (simp add: power_mult)
    ultimately have "(256 :: nat) ^ length out' * 2 ^ bits' = 2 ^ (8 * length out + (8 * ((bits + 5) div 8) + (bits + 5) mod 8))"
      by (simp add: power_add [symmetric] distrib_left)
    moreover have "8 * ((bits + 5) div 8) + (bits + 5) mod 8 = bits + 5" by simp
    moreover have "(256 :: nat) ^ length out * 2 ^ (bits + 5) = 2 ^ (8 * length out + (bits + 5))"
      by (simp only: power_add power_mult) simp
    ultimately show ?thesis by simp
  qed
  have "from_le (q5_tail acc' bits' out' vs) = from_le out' + 256 ^ length out' * acc' + (256 ^ length out' * 2 ^ bits') * base32 vs"
    using ih [THEN conjunct1] by (simp only: distrib_left mult.assoc add.assoc)
  also have "\<dots> = from_le out + 256 ^ length out * (acc + 2 ^ bits * q5_code v) + 256 ^ length out * 2 ^ (bits + 5) * base32 vs"
    using fl [THEN conjunct2, THEN conjunct2, THEN conjunct2] by (simp only: pw or)
  also have "\<dots> = from_le out + 256 ^ length out * (acc + 2 ^ bits * base32 (v # vs))"
    by (simp add: power_add distrib_left mult.assoc)
  finally have "from_le (q5_tail acc' bits' out' vs) = from_le out + 256 ^ length out * (acc + 2 ^ bits * base32 (v # vs))" .
  moreover have "length (q5_tail acc' bits' out' vs) = length out + (bits + 5 * length (v # vs) + 7) div 8"
  proof -
    have lo: "length out' = length out + (bits + 5) div 8" "bits' = (bits + 5) mod 8"
      using fl by blast+
    have "m div 8 + (m mod 8 + r) div 8 = (m + r) div 8" for m r :: nat
    proof -
      have "(m mod 8 + r + 8 * (m div 8)) div 8 = m div 8 + (m mod 8 + r) div 8"
        by (rule div_mult_self2) simp
      moreover have "m mod 8 + r + 8 * (m div 8) = m + r" by simp
      ultimately show ?thesis by metis
    qed
    then have "(bits + 5) div 8 + ((bits + 5) mod 8 + (5 * length vs + 7)) div 8
        = (bits + 5 + (5 * length vs + 7)) div 8" by blast
    moreover have "length (q5_tail acc' bits' out' vs) = length out'
        + (bits' + (5 * length vs + 7)) div 8"
      using ih [THEN conjunct2] by (simp only: add.assoc)
    ultimately have "length (q5_tail acc' bits' out' vs) = length out + (bits + 5 + (5 * length vs + 7)) div 8"
      unfolding lo by simp
    also have "bits + 5 + (5 * length vs + 7) = bits + 5 * length (v # vs) + 7" by simp
    finally show ?thesis .
  qed
  ultimately show ?case by (simp add: f)
qed

section \<open>The whole packer\<close>

lemma pack_signed_q5_ok:
  "\<exists>bs. pack_signed_q5 vs = Inr bs \<and> length bs = (length vs * 5 + 7) div 8 \<and> from_le bs = base32 vs"
proof -
  define n where "n = length vs div 8"
  define body where "body = q5_body n vs"
  define tail where "tail = (if n * 8 \<noteq> length vs then q5_tail 0 0 [] (drop (n * 8) vs) else [])"
  have le: "8 * n \<le> length vs" by (simp add: n_def)
  have b: "from_le body = base32 (take (8 * n) vs)" "length body = 5 * n"
    using q5_body_spec [OF le] by (simp_all add: body_def)
  have t: "from_le tail = base32 (drop (8 * n) vs) \<and> length tail = (5 * (length vs - 8 * n) + 7) div 8"
    using q5_tail_spec [of 0 0 "[]" "drop (n * 8) vs"] by (auto simp: tail_def mult.commute)
  have "vs = take (8 * n) vs @ drop (8 * n) vs" by simp
  then have "base32 vs = base32 (take (8 * n) vs) + 32 ^ (8 * n) * base32 (drop (8 * n) vs)"
    using le base32_append [of "take (8 * n) vs" "drop (8 * n) vs"] by (simp add: min_def)
  moreover have "(32 :: nat) ^ (8 * n) = 256 ^ (5 * n)" by (simp add: power_mult)
  ultimately have v: "from_le (body @ tail) = base32 vs" using b t by (simp add: from_le_append)
  have l: "length (body @ tail) = (length vs * 5 + 7) div 8"
  proof -
    have "length (body @ tail) = 5 * n + (5 * (length vs - 8 * n) + 7) div 8" using b t by simp
    also have "\<dots> = (8 * (5 * n) + (5 * (length vs - 8 * n) + 7)) div 8" by (simp add: div_mult_self4)
    also have "8 * (5 * n) + (5 * (length vs - 8 * n) + 7) = length vs * 5 + 7" using le by simp
    finally show ?thesis .
  qed
  have "(if length vs div 8 * 8 \<noteq> 0 then q5_body (length vs div 8) vs else []) = body"
    by (auto simp: body_def n_def)
  then have "pack_signed_q5 vs = Inr (body @ tail)"
    using l by (simp add: pack_signed_q5_def Let_def n_def [symmetric] tail_def)
  then show ?thesis using v l by blast
qed

lemma q5_sign: "q5_range v \<Longrightarrow> (let c = q5_code v in if c < 16 then word_of_nat c else word_of_int (int c - 32)) = v"
proof -
  assume r: "q5_range v"
  define k where "k = sint v"
  have k: "- 16 \<le> k" "k < 16" using r by (simp_all add: q5_range_def k_def)
  have v: "v = word_of_int k" by (simp add: k_def)
  have "int (unat v) = k mod 256" by (simp add: v unsigned_of_int take_bit_eq_mod)
  then have c: "int (q5_code v) = k mod 32" by (simp add: q5_code_mod zmod_int mod_mod_cancel)
  show ?thesis
  proof (cases "0 \<le> k")
    case True
    then have "int (q5_code v) = k" using c k by simp
    then show ?thesis using k v by (simp add: Let_def) (metis of_int_of_nat_eq)
  next
    case False
    have "k mod 32 = (k + 32) mod 32" by simp
    also have "\<dots> = k + 32" using k False by (intro mod_pos_pos_trivial) simp_all
    finally have "int (q5_code v) = k + 32" using c by simp
    then show ?thesis using k False v by (simp add: Let_def)
  qed
qed

text \<open>Reading any position of the packed bytes gives the value packed there.\<close>

lemma q5_roundtrip:
  assumes "list_all q5_range vs" "i < length vs" "pack_signed_q5 vs = Inr bs"
  shows "q5_at bs i = vs ! i"
proof -
  have "from_le bs = base32 vs" using pack_signed_q5_ok [of vs] assms(3) by auto
  then have "from_le bs div 32 ^ i mod 32 = q5_code (vs ! i)" using base32_digit [OF assms(2)] by simp
  then show ?thesis using q5_sign [of "vs ! i"] assms(1,2) by (simp add: q5_at_def list_all_length)
qed

section \<open>Properties\<close>

text \<open>C40: the Q5 packer never raises. The vectorised groups of eight and the scalar tail produce one bit stream:
  five bits per value, least significant first, in exactly the bytes needed.\<close>

theorem q5_packer_total:
  "\<exists>bs. pack_signed_q5 vs = Inr bs \<and> length bs = (length vs * 5 + 7) div 8 \<and> from_le bs = base32 vs"
  by (rule pack_signed_q5_ok)

text \<open>C7: unpacking any position of the Q5 stream returns the signed value that was packed there.\<close>

theorem q5_unpack_pack:
  assumes "list_all q5_range vs" "i < length vs" "pack_signed_q5 vs = Inr bs"
  shows "q5_at bs i = vs ! i"
  by (rule q5_roundtrip [OF assms])

theorem q5_unpack_pack_witness:
  "\<exists>bs. pack_signed_q5 [-15, 3, 0, 15, -1, 7, -8, 2, 11, -4] = Inr bs \<and> q5_at bs 9 = -4 \<and> q5_at bs 0 = -15"
proof -
  let ?vs = "[-15, 3, 0, 15, -1, 7, -8, 2, 11, -4] :: 8 word list"
  have r: "list_all q5_range ?vs" by code_simp
  obtain bs where bs: "pack_signed_q5 ?vs = Inr bs" using pack_signed_q5_ok by blast
  have "q5_at bs 9 = ?vs ! 9" "q5_at bs 0 = ?vs ! 0"
    by (rule q5_unpack_pack [OF r _ bs]; simp)+
  then show ?thesis using bs by simp
qed

end
