(* ===== verification/PackExperts.thy ===== *)
theory PackExperts
  imports CompactStore Json Q5Pack "HOL-Library.List_Lexorder" "HOL-Library.Char_ord"
begin

text \<open>
  The three routed-expert packers \<^verbatim>\<open>tools/pack_experts.py\<close> (BF16), \<^verbatim>\<open>pack_experts_q8.py\<close> and
  \<^verbatim>\<open>pack_experts_q5.py\<close>. They share everything but the way one matrix becomes bytes, so the shared part
  is defined once over a part writer. The quantizers (NumPy float arithmetic) and the JSON parser are
  parameters. Shard files are not the files being written.
\<close>

section \<open>Which tensors\<close>

type_synonym part_src = "string \<times> string"
type_synonym expert_parts = "(string \<times> part_src) list"

definition PART_ORDER :: "string list" where
  "PART_ORDER = [''gate_proj'', ''up_proj'', ''down_proj'']"

fun match_suffix :: "string list \<Rightarrow> string \<Rightarrow> string \<Rightarrow> string option" where
  "match_suffix [] suffix s = None"
| "match_suffix (p # ps) suffix s =
     (if s = p @ suffix \<or> s = p @ suffix @ [LF] then Some p else match_suffix ps suffix s)"

text \<open>\<^verbatim>\<open>PAT.match(name)\<close>; the final \<^verbatim>\<open>$\<close> also matches before a last newline.\<close>

definition expert_tensor_name :: "string \<Rightarrow> (nat \<times> nat \<times> string) option" where
  "expert_tensor_name name =
     (case strip_prefix ''language_model.model.layers.'' name of None \<Rightarrow> None | Some s1 \<Rightarrow>
     (case leading_number s1 of None \<Rightarrow> None | Some (layer, s2) \<Rightarrow>
     (case strip_prefix ''.mlp.experts.'' s2 of None \<Rightarrow> None | Some s3 \<Rightarrow>
     (case leading_number s3 of None \<Rightarrow> None | Some (expert, s4) \<Rightarrow>
     (case strip_prefix ''.'' s4 of None \<Rightarrow> None | Some s5 \<Rightarrow>
     (case match_suffix PART_ORDER ''.weight'' s5 of None \<Rightarrow> None | Some part \<Rightarrow>
        Some (layer, expert, part)))))))"

definition add_entry ::
  "int list option \<Rightarrow> (expert_id \<times> expert_parts) list \<Rightarrow> string \<times> string \<Rightarrow> (expert_id \<times> expert_parts) list" where
  "add_entry wanted acc ns = (case ns of (name, shard) \<Rightarrow>
     (case expert_tensor_name name of
        None \<Rightarrow> acc
      | Some (layer, expert, part) \<Rightarrow>
          if (case wanted of None \<Rightarrow> False | Some ls \<Rightarrow> int layer \<notin> set ls) then acc
          else dict_set (layer, expert)
                 (dict_set part (name, shard) (case map_of acc (layer, expert) of None \<Rightarrow> [] | Some v \<Rightarrow> v)) acc))"

definition collect_entries :: "int list option \<Rightarrow> (string \<times> string) list \<Rightarrow> (expert_id \<times> expert_parts) list" where
  "collect_entries wanted wm = foldl (add_entry wanted) [] wm"

definition entries_complete :: "(expert_id \<times> expert_parts) list \<Rightarrow> bool" where
  "entries_complete es = list_all (\<lambda>(k, v). fst ` set v = set PART_ORDER) es"

definition json_str :: "json \<Rightarrow> string res" where
  "json_str v = (case v of JStr s \<Rightarrow> Inr s | _ \<Rightarrow> Inl (TypeError ''expected str''))"

definition weight_map_of :: "json \<Rightarrow> (string \<times> string) list res" where
  "weight_map_of idx = rbind (json_index idx ''weight_map'') (\<lambda>m. rbind (json_items m) (\<lambda>kvs.
     mapR (\<lambda>(k, v). rmap (Pair k) (json_str v)) kvs))"

section \<open>Source shards\<close>

type_synonym st_header = "nat \<times> json"

definition read_st_header :: "(string \<Rightarrow> json res) \<Rightarrow> bytes \<Rightarrow> st_header res" where
  "read_st_header loads raw =
     (if length raw < 8 then Inl (StructError ''unpack requires a buffer of 8 bytes'')
      else let n = from_le (take 8 raw) in
        rbind (rbind (ascii_decode (take n (drop 8 raw))) loads) (\<lambda>h. Inr (8 + n, h)))"

text \<open>\<^verbatim>\<open>a, b = meta["data_offsets"]\<close>, then \<^verbatim>\<open>f.seek(base + a)\<close> and reads of \<^verbatim>\<open>b - a\<close> bytes.\<close>

definition data_span :: "json \<Rightarrow> (int \<times> int) res" where
  "data_span meta = rbind (json_index meta ''data_offsets'') (\<lambda>v. case v of
     JList [JInt a, JInt b] \<Rightarrow> Inr (a, b)
   | JList [x, y] \<Rightarrow> Inl (TypeError ''unsupported operand'')
   | JList xs \<Rightarrow> Inl (ValueError ''values to unpack'')
   | _ \<Rightarrow> Inl (TypeError ''cannot unpack''))"

definition check_bf16 :: "json \<Rightarrow> unit res" where
  "check_bf16 meta = rbind (json_index meta ''dtype'') (\<lambda>d.
     if d \<noteq> JStr ''BF16'' then Inl (SystemExit ''expected BF16'') else Inr ())"

definition seek_int :: "int \<Rightarrow> nat res" where
  "seek_int x = (if x < 0 then Inl (OSError ''Invalid argument'')
     else case seek_error (nat x) of Some e \<Rightarrow> Inl e | None \<Rightarrow> Inr (nat x))"

text \<open>
  A part writer appends one matrix to the output: it gets the shard's data offset, the tensor's
  metadata, the shard and the output so far, and leaves the new output, the size and any exception.
\<close>

type_synonym part_writer = "nat \<Rightarrow> json \<Rightarrow> bytes \<Rightarrow> bytes \<Rightarrow> bytes \<times> nat \<times> exn option"

definition BF16_CHUNK :: nat where "BF16_CHUNK = 16 * 1024 * 1024"

definition bf16_span :: "nat \<Rightarrow> json \<Rightarrow> (nat \<times> int) res" where
  "bf16_span base meta =
     rbind (check_bf16 meta) (\<lambda>_. rbind (data_span meta) (\<lambda>(a, b).
       rbind (seek_int (int base + a)) (\<lambda>pos. Inr (pos, b - a))))"

text \<open>The BF16 copy loop. A length of -1 reads the rest of the shard and then fails, as \<^verbatim>\<open>read(-1)\<close> does.\<close>

definition bf16_part :: part_writer where
  "bf16_part base meta src out =
     (case bf16_span base meta of
        Inl e \<Rightarrow> (out, 0, Some e)
      | Inr (pos, n) \<Rightarrow>
          if n < - 1 then (out, 0, Some (ValueError ''read length must be non-negative or -1''))
          else if n = - 1 then
            (if drop pos src = [] then (out, 0, Some (OSError ''short read''))
             else (out @ drop pos src, 0, Some (ValueError ''read length must be non-negative or -1'')))
          else (case copy_blocks BF16_CHUNK src pos (nat n) out of (out', err) \<Rightarrow> (out', nat n, err)))"

text \<open>The quantizing packers load the whole tensor first; \<open>quant\<close> maps its bytes and shape to a blob.\<close>

definition load_tensor :: "nat \<Rightarrow> json \<Rightarrow> bytes \<Rightarrow> (bytes \<times> json) res" where
  "load_tensor base meta src =
     rbind (bf16_span base meta) (\<lambda>(pos, n).
       if n < - 1 then Inl (ValueError ''read length must be non-negative or -1'')
       else if n = - 1 then Inl (OSError ''short read'')
       else let raw = take (nat n) (drop pos src) in
         if length raw \<noteq> nat n then Inl (OSError ''short read'')
         else rbind (json_index meta ''shape'') (\<lambda>shape. Inr (raw, shape)))"

definition quant_part :: "(bytes \<Rightarrow> json \<Rightarrow> bytes res) \<Rightarrow> part_writer" where
  "quant_part quant base meta src out =
     (case rbind (load_tensor base meta src) (\<lambda>(raw, shape). quant raw shape) of
        Inl e \<Rightarrow> (out, 0, Some e)
      | Inr payload \<Rightarrow> (out @ payload, length payload, None))"

section \<open>Writing the experts\<close>

text \<open>A source expert: its id and, in packing order, the writer applied to each of its three matrices.\<close>

type_synonym matrix = "bytes \<Rightarrow> bytes \<times> nat \<times> exn option"

fun pack_parts :: "matrix list \<Rightarrow> nat \<Rightarrow> bytes \<Rightarrow> (nat \<times> nat) list \<Rightarrow> bytes \<times> (nat \<times> nat) list \<times> exn option" where
  "pack_parts [] start out spans = (out, spans, None)"
| "pack_parts (w # ws) start out spans =
     (case w out of
        (out', n, Some e) \<Rightarrow> (out', spans, Some e)
      | (out', n, None) \<Rightarrow> pack_parts ws start out' (spans @ [(length out - start, n)]))"

definition pack_expert :: "expert_id \<Rightarrow> matrix list \<Rightarrow> bytes \<Rightarrow> bytes \<times> xrec option \<times> exn option" where
  "pack_expert key ws out0 =
     (let start = align_up (length out0) ALIGN; out1 = pad_to ALIGN out0 in
      case pack_parts ws start out1 [] of
        (out2, spans, Some e) \<Rightarrow> (out2, None, Some e)
      | (out2, spans, None) \<Rightarrow>
          let payload = length out2 - start; out3 = pad_to ALIGN out2 in
          (out3, Some \<lparr> r_layer = fst key, r_expert = snd key, r_offset = start, r_read = length out3 - start,
              r_payload = payload, r_gate_off = fst (spans ! 0), r_gate_len = snd (spans ! 0),
              r_up_off = fst (spans ! 1), r_up_len = snd (spans ! 1),
              r_down_off = fst (spans ! 2), r_down_len = snd (spans ! 2) \<rparr>, None))"

fun pack_entries :: "(expert_id \<times> matrix list) list \<Rightarrow> bytes \<Rightarrow> xrec list \<Rightarrow> bytes \<times> xrec list \<times> exn option" where
  "pack_entries [] out recs = (out, recs, None)"
| "pack_entries ((key, ws) # es) out recs =
     (case pack_expert key ws out of
        (out', None, e) \<Rightarrow> (out', recs, e)
      | (out', Some r, e) \<Rightarrow> pack_entries es out' (recs @ [r]))"

text \<open>Looking up one matrix: \<^verbatim>\<open>parts[part]\<close>, \<^verbatim>\<open>headers[shard]\<close>, \<^verbatim>\<open>h[name]\<close>, then the writer on the shard.\<close>

definition matrix_of ::
  "part_writer \<Rightarrow> (string \<times> st_header) list \<Rightarrow> (string \<Rightarrow> bytes) \<Rightarrow> expert_parts \<Rightarrow> string \<Rightarrow> matrix" where
  "matrix_of wp headers shard_bytes parts part = (\<lambda>out.
     (case rbind (of_option (KeyError part) (map_of parts part)) (\<lambda>(name, shard).
            rbind (of_option (KeyError shard) (map_of headers shard)) (\<lambda>(base, h).
              rmap (\<lambda>meta. (base, meta, shard)) (json_index h name))) of
        Inl e \<Rightarrow> (out, 0, Some e)
      | Inr (base, meta, shard) \<Rightarrow> wp base meta (shard_bytes shard) out))"

definition sorted_entries :: "(expert_id \<times> expert_parts) list \<Rightarrow> (expert_id \<times> expert_parts) list" where
  "sorted_entries es = map (\<lambda>k. (k, the (map_of es k))) (sorted_list_of_set (fst ` set es))"

section \<open>The packers\<close>

definition load_existing :: "nat \<Rightarrow> bytes option \<Rightarrow> (xhdr option \<times> xrec list) res" where
  "load_existing dtype idx = (case idx of
     None \<Rightarrow> Inr (None, [])
   | Some raw \<Rightarrow>
       if length raw < HDR_SIZE then Inl (SystemExit ''bad existing experts.idx'')
       else let h = HDR_unpack (take HDR_SIZE raw) in
         if h_magic h \<noteq> MAGIC \<or> h_version h \<noteq> VERSION \<or> h_align h \<noteq> ALIGN \<or> h_dtype h \<noteq> dtype
            \<or> h_records_offset h \<noteq> HDR_SIZE
         then Inl (SystemExit ''incompatible existing experts.idx'')
         else rmap (Pair (Some h)) (unpack_table REC_unpack REC_SIZE raw (h_records_offset h) (h_n_records h)))"

definition model_dims :: "json \<Rightarrow> (int \<times> int) res" where
  "model_dims cfg = rbind (json_get cfg ''text_config'' cfg) (\<lambda>tc.
     rbind (json_index tc ''num_hidden_layers'') (\<lambda>a. rbind (json_int a) (\<lambda>n_layers.
     rbind (json_index tc ''n_routed_experts'') (\<lambda>b. rbind (json_int b) (\<lambda>n_experts.
       Inr (n_layers, n_experts))))))"

definition dims_match :: "xhdr option \<Rightarrow> int \<times> int \<Rightarrow> bool" where
  "dims_match old dims = (case old of None \<Rightarrow> True
     | Some h \<Rightarrow> int (h_n_layers h) = fst dims \<and> int (h_n_experts h) = snd dims)"

definition pack_index :: "nat \<Rightarrow> int \<times> int \<Rightarrow> xrec list \<Rightarrow> nat \<Rightarrow> bytes \<times> exn option" where
  "pack_index dtype dims recs data_bytes =
     (if fst dims < 0 \<or> snd dims < 0 then ([], Some (StructError ''argument out of range''))
      else write_index \<lparr> h_magic = MAGIC, h_version = VERSION, h_align = ALIGN, h_n_layers = nat (fst dims),
             h_n_experts = nat (snd dims), h_n_records = length recs, h_dtype = dtype,
             h_records_offset = HDR_SIZE, h_data_bytes = data_bytes \<rparr> recs)"

definition read_json :: "(string \<Rightarrow> json res) \<Rightarrow> string \<Rightarrow> json io" where
  "read_json loads path = io_bind (read_text path) (\<lambda>t. io_lift (loads t))"

text \<open>\<^verbatim>\<open>headers[shard] = read_st_header(p)\<close> for the shards the remaining entries need, in sorted order.\<close>

fun read_headers :: "(string \<Rightarrow> json res) \<Rightarrow> string \<Rightarrow> string list \<Rightarrow> (string \<times> st_header) list io" where
  "read_headers loads dir [] = io_return []"
| "read_headers loads dir (shard # shards) =
     io_bind (read_bytes (in_dir dir shard)) (\<lambda>raw. io_bind (io_lift (read_st_header loads raw)) (\<lambda>h.
       io_bind (read_headers loads dir shards) (\<lambda>hs. io_return ((shard, h) # hs))))"

definition shards_of :: "(expert_id \<times> expert_parts) list \<Rightarrow> string list" where
  "shards_of es = sorted_list_of_set (\<Union>(k, v) \<in> set es. (\<lambda>(part, name, shard). shard) ` set v)"

definition write_experts ::
  "nat \<Rightarrow> part_writer \<Rightarrow> string \<Rightarrow> string \<Rightarrow> bool \<Rightarrow> int \<times> int \<Rightarrow> xrec list \<Rightarrow> (string \<times> st_header) list
     \<Rightarrow> (expert_id \<times> expert_parts) list \<Rightarrow> nat io" where
  "write_experts dtype wp model_dir out_dir appending dims recs headers entries = (\<lambda>s.
     (let binp = in_dir out_dir ''experts.bin''; idxp = in_dir out_dir ''experts.idx'';
          base = (if appending then (case s binp of None \<Rightarrow> [] | Some bs \<Rightarrow> bs) else []);
          shard_bytes = (\<lambda>shard. case s (in_dir model_dir shard) of None \<Rightarrow> [] | Some bs \<Rightarrow> bs);
          work = map (\<lambda>(k, parts). (k, map (matrix_of wp headers shard_bytes parts) PART_ORDER)) (sorted_entries entries)
      in case pack_entries work base recs of (out, recs', err) \<Rightarrow>
           io_bind (write_out binp (out, err)) (\<lambda>_.
           io_bind (file_size binp) (\<lambda>size.
           io_bind (write_out idxp (pack_index dtype dims recs' size)) (\<lambda>_.
             io_return (length recs')))) s))"

text \<open>\<^verbatim>\<open>pack_experts_q8.main\<close> and, with its own type and quantizer, \<^verbatim>\<open>pack_experts_q5.main\<close>.\<close>

definition pack_quant_main ::
  "nat \<Rightarrow> (bytes \<Rightarrow> json \<Rightarrow> bytes res) \<Rightarrow> (string \<Rightarrow> json res) \<Rightarrow> string \<Rightarrow> string \<Rightarrow> int list option \<Rightarrow> bool
     \<Rightarrow> nat option io" where
  "pack_quant_main dtype quant loads model_dir out_dir wanted appending =
     io_bind (read_json loads (in_dir model_dir ''model.safetensors.index.json'')) (\<lambda>idx.
     io_bind (io_lift (weight_map_of idx)) (\<lambda>wm.
     let entries = collect_entries wanted wm in
     if entries = [] then io_raise (SystemExit ''No routed experts matched'')
     else if \<not> entries_complete entries then io_raise (SystemExit ''Incomplete experts'')
     else io_bind (read_json loads (in_dir model_dir ''config.json'')) (\<lambda>cfg.
       io_bind (io_lift (model_dims cfg)) (\<lambda>dims. (\<lambda>s.
       io_bind (io_lift (if appending then load_existing dtype (s (in_dir out_dir ''experts.idx'')) else Inr (None, [])))
         (\<lambda>(old, recs).
          if \<not> dims_match old dims then io_raise (SystemExit ''existing expert store dimensions mismatch'')
          else let fresh = filter (\<lambda>(k, v). k \<notin> rec_id ` set recs) entries in
            if fresh = [] then io_return None
            else io_bind (read_headers loads model_dir (shards_of fresh)) (\<lambda>headers.
              io_bind (write_experts dtype (quant_part quant) model_dir out_dir appending dims recs headers fresh)
                (\<lambda>n. io_return (Some n)))) s)))))"

definition DTYPE_BF16 :: nat where "DTYPE_BF16 = 1"
definition DTYPE_Q5_G128 :: nat where "DTYPE_Q5_G128 = 4"

text \<open>\<^verbatim>\<open>pack_experts.main\<close>: here a missing or malformed \<^verbatim>\<open>config.json\<close> only loses the dimensions, after the
  store and the headers are read.\<close>

definition fallback_dims :: "(expert_id \<times> expert_parts) list \<Rightarrow> int \<times> int" where
  "fallback_dims es = (int (Max ((\<lambda>e. fst (fst e)) ` set es)) + 1, int (Max ((\<lambda>e. snd (fst e)) ` set es)) + 1)"

definition bf16_dims :: "(string \<Rightarrow> json res) \<Rightarrow> string \<Rightarrow> (expert_id \<times> expert_parts) list \<Rightarrow> (int \<times> int) io" where
  "bf16_dims loads model_dir es = (\<lambda>s.
     (case io_bind (read_json loads (in_dir model_dir ''config.json'')) (\<lambda>cfg. io_lift (model_dims cfg)) s of
        (Inl e, s') \<Rightarrow> (Inr (fallback_dims es), s')
      | (Inr d, s') \<Rightarrow> (Inr d, s')))"

definition pack_bf16_main ::
  "(string \<Rightarrow> json res) \<Rightarrow> string \<Rightarrow> string \<Rightarrow> int list option \<Rightarrow> bool \<Rightarrow> nat option io" where
  "pack_bf16_main loads model_dir out_dir wanted appending =
     io_bind (read_json loads (in_dir model_dir ''model.safetensors.index.json'')) (\<lambda>idx.
     io_bind (io_lift (weight_map_of idx)) (\<lambda>wm.
     let entries = collect_entries wanted wm in
     if entries = [] then io_raise (SystemExit ''No routed expert tensor names matched'')
     else if \<not> entries_complete entries then io_raise (SystemExit ''Incomplete experts in index'')
     else (\<lambda>s.
       io_bind (io_lift (if appending then load_existing DTYPE_BF16 (s (in_dir out_dir ''experts.idx'')) else Inr (None, [])))
         (\<lambda>(old, recs).
          let fresh = filter (\<lambda>(k, v). k \<notin> rec_id ` set recs) entries in
          if fresh = [] then io_return None
          else io_bind (read_headers loads model_dir (shards_of fresh)) (\<lambda>headers.
            io_bind (bf16_dims loads model_dir fresh) (\<lambda>dims.
              if \<not> dims_match old dims
              then io_raise (SystemExit ''existing expert store logical dimensions do not match model'')
              else io_bind (write_experts DTYPE_BF16 bf16_part model_dir out_dir appending dims recs headers fresh)
                (\<lambda>n. io_return (Some n))))) s)))"

section \<open>Matrix writers only append\<close>

definition wf_matrix :: "matrix \<Rightarrow> bool" where
  "wf_matrix w = ((\<forall>out. w out = (out @ fst (w []), snd (w []))) \<and>
     (\<forall>c n. w [] = (c, n, None) \<longrightarrow> n = length c))"

text \<open>The interface of a packing format: its writer appends, and reports the size it appended.\<close>

locale part_format =
  fixes wp :: part_writer
  assumes wp_appends: "wp base meta src out = (out @ fst (wp base meta src []), snd (wp base meta src []))"
    and wp_size: "wp base meta src [] = (c, n, None) \<Longrightarrow> n = length c"
begin

lemma wf_matrix_of: "wf_matrix (matrix_of wp headers shard_bytes parts part)"
proof -
  define look where "look = rbind (of_option (KeyError part) (map_of parts part)) (\<lambda>(name, shard).
      rbind (of_option (KeyError shard) (map_of headers shard)) (\<lambda>(base, h).
        rmap (\<lambda>meta. (base, meta, shard)) (json_index h name)))"
  have w: "matrix_of wp headers shard_bytes parts part out = (case look of
      Inl e \<Rightarrow> (out, 0, Some e) | Inr (base, meta, shard) \<Rightarrow> wp base meta (shard_bytes shard) out)" for out
    by (simp add: matrix_of_def look_def)
  show ?thesis
  proof (cases look)
    case (Inr x)
    obtain base meta shard where x: "x = (base, meta, shard)" by (cases x)
    show ?thesis
      unfolding wf_matrix_def w Inr x sum.case prod.case
      by (intro conjI allI impI) (rule wp_appends, erule wp_size)
  qed (simp add: wf_matrix_def w)
qed

end

lemma copy_blocks_appends:
  "copy_blocks chunk src pos remain (pre @ dst) =
     (pre @ fst (copy_blocks chunk src pos remain dst), snd (copy_blocks chunk src pos remain dst))"
proof (induction chunk src pos remain dst rule: copy_blocks.induct)
  case (1 chunk src pos remain dst)
  define block where "block = take (min chunk remain) (drop pos src)"
  consider (stop) "remain = 0 \<or> block = []" | (more) "remain \<noteq> 0" "block \<noteq> []" by blast
  then show ?case
  proof cases
    case stop
    have "copy_blocks chunk src pos remain d
        = (d, if remain = 0 then None else Some (OSError ''short source read''))" for d
      using stop by (subst copy_blocks.simps) (auto simp: block_def [symmetric])
    then show ?thesis by simp
  next
    case more
    have "copy_blocks chunk src pos remain d = copy_blocks chunk src (pos + length block) (remain - length block) (d @ block)" for d
      using more by (subst copy_blocks.simps) (simp add: block_def [symmetric])
    then show ?thesis using 1 [OF more(1) block_def more(2)] by simp
  qed
qed

lemma copy_blocks_size: "0 < chunk \<Longrightarrow> copy_blocks chunk src pos n [] = (c, None) \<Longrightarrow> length c = n"
  using copy_blocks_ok_enough [of chunk src pos n "[]" c] copy_blocks_enough [of chunk pos n src "[]"]
  by (auto simp: copy_blocks.simps [of chunk src pos 0 "[]"])

interpretation bf16_format: part_format bf16_part
proof
  show "bf16_part base meta src out = (out @ fst (bf16_part base meta src []), snd (bf16_part base meta src []))"
    for base meta src out
    using copy_blocks_appends [of BF16_CHUNK src _ _ out "[]"]
    by (auto simp: bf16_part_def split: sum.splits prod.splits)
  show "n = length c" if "bf16_part base meta src [] = (c, n, None)" for base meta src c n
    using that copy_blocks_size [of BF16_CHUNK]
    by (auto simp: bf16_part_def BF16_CHUNK_def split: sum.splits prod.splits if_splits)
qed

interpretation quant_format: part_format "quant_part quant" for quant
  by unfold_locales (auto simp: quant_part_def split: sum.splits)

section \<open>What a packed store holds\<close>

text \<open>Matrix \<open>i\<close> of a record is the writer's own content, at the place the record gives.\<close>

definition holds :: "bytes \<Rightarrow> xrec \<Rightarrow> matrix list \<Rightarrow> bool" where
  "holds out r ws =
     (length ws = 3 \<and> ALIGN dvd r_offset r \<and> ALIGN dvd r_read r \<and> r_offset r + r_read r \<le> length out \<and>
      r_payload r \<le> r_read r \<and> r_read r < r_payload r + ALIGN \<and>
      r_gate_off r = 0 \<and> r_up_off r = r_gate_len r \<and> r_down_off r = r_gate_len r + r_up_len r \<and>
      r_payload r = r_gate_len r + r_up_len r + r_down_len r \<and>
      take (r_gate_len r) (drop (r_offset r + r_gate_off r) out) = fst ((ws ! 0) []) \<and>
      take (r_up_len r) (drop (r_offset r + r_up_off r) out) = fst ((ws ! 1) []) \<and>
      take (r_down_len r) (drop (r_offset r + r_down_off r) out) = fst ((ws ! 2) []) \<and>
      list_all (\<lambda>w. snd (snd (w [])) = None) ws)"

lemma holds_aligned: "holds out r ws \<Longrightarrow> ALIGN dvd r_offset r \<and> ALIGN dvd r_read r"
  by (simp add: holds_def)

lemma holds_extend: "holds out r ws \<Longrightarrow> holds (out @ ext) r ws"
  by (auto simp: holds_def)

lemma wf_matrix_app: "wf_matrix w \<Longrightarrow> w out = (out', n, None) \<Longrightarrow>
    out' = out @ fst (w []) \<and> n = length (fst (w [])) \<and> snd (snd (w [])) = None"
  unfolding wf_matrix_def by (metis fst_conv prod.collapse snd_conv)

lemma pack_parts_three:
  assumes "pack_parts [w0, w1, w2] start out [] = (out', spans, None)" "wf_matrix w0" "wf_matrix w1" "wf_matrix w2"
    and "start = length out"
  shows "out' = out @ fst (w0 []) @ fst (w1 []) @ fst (w2 []) \<and>
    spans = [(0, length (fst (w0 []))), (length (fst (w0 [])), length (fst (w1 []))),
             (length (fst (w0 [])) + length (fst (w1 [])), length (fst (w2 [])))] \<and>
    list_all (\<lambda>w. snd (snd (w [])) = None) [w0, w1, w2]"
proof -
  from assms(1) obtain o1 n1 where 1: "w0 out = (o1, n1, None)"
    and r1: "pack_parts [w1, w2] start o1 [(length out - start, n1)] = (out', spans, None)"
    by (auto split: prod.splits option.splits)
  from r1 obtain o2 n2 where 2: "w1 o1 = (o2, n2, None)"
    and r2: "pack_parts [w2] start o2 [(length out - start, n1), (length o1 - start, n2)] = (out', spans, None)"
    by (auto split: prod.splits option.splits)
  from r2 obtain o3 n3 where 3: "w2 o2 = (o3, n3, None)"
    and r3: "out' = o3" "spans = [(length out - start, n1), (length o1 - start, n2), (length o2 - start, n3)]"
    by (auto split: prod.splits option.splits)
  show ?thesis
    using wf_matrix_app [OF assms(2) 1] wf_matrix_app [OF assms(3) 2] wf_matrix_app [OF assms(4) 3] r3 assms(5)
    by simp
qed

lemma pack_expert_holds:
  assumes "pack_expert key ws out0 = (out, Some r, e)" "length ws = 3" "\<forall>w \<in> set ws. wf_matrix w"
  shows "rec_id r = key \<and> holds out r ws \<and> length out0 \<le> r_offset r \<and> (\<exists>ext. out = out0 @ ext)
    \<and> r_offset r + r_read r = length out"
proof -
  obtain w0 w1 w2 where ws: "ws = [w0, w1, w2]" using assms(2) by (auto simp: length_Suc_conv numeral_eq_Suc)
  define p where "p = pad_to ALIGN out0"
  have lp: "length p = align_up (length out0) ALIGN" by (simp add: p_def)
  obtain out2 spans err where pp: "pack_parts [w0, w1, w2] (length p) p [] = (out2, spans, err)"
    by (metis prod_cases3)
  have err: "err = None"
    using assms(1) pp by (auto simp: pack_expert_def Let_def ws lp p_def split: option.splits)
  have c: "out2 = p @ fst (w0 []) @ fst (w1 []) @ fst (w2 [])"
    and sp: "spans = [(0, length (fst (w0 []))), (length (fst (w0 [])), length (fst (w1 []))),
             (length (fst (w0 [])) + length (fst (w1 [])), length (fst (w2 [])))]"
    and nofail: "list_all (\<lambda>w. snd (snd (w [])) = None) [w0, w1, w2]"
    using pack_parts_three [OF pp [unfolded err]] assms(3) by (simp_all add: ws)
  define q where "q = pad_to ALIGN out2"
  have q: "q = out2 @ replicate (align_up (length out2) ALIGN - length out2) 0" by (simp add: q_def pad_to_def)
  have lq: "length q = align_up (length out2) ALIGN" by (simp add: q_def)
  have r: "out = q" "r = \<lparr> r_layer = fst key, r_expert = snd key, r_offset = length p, r_read = length q - length p,
        r_payload = length out2 - length p, r_gate_off = fst (spans ! 0), r_gate_len = snd (spans ! 0),
        r_up_off = fst (spans ! 1), r_up_len = snd (spans ! 1), r_down_off = fst (spans ! 2),
        r_down_len = snd (spans ! 2) \<rparr>"
    using assms(1) pp unfolding err by (auto simp: pack_expert_def Let_def ws lp p_def q_def)
  have ap: "ALIGN dvd length p" by (simp add: lp)
  have aq: "ALIGN dvd length q" by (simp add: lq)
  have le: "length p \<le> length out2" "length out2 \<le> length q" "length q < length out2 + ALIGN"
    using align_up_ge [of ALIGN "length out2"] align_up_less [of ALIGN "length out2"] by (simp_all add: c lq)
  have "ALIGN dvd length q - length p" using ap aq by simp
  then have "holds q r ws"
    using ap le nofail unfolding holds_def r(2) by (simp add: ws sp c q)
  moreover have "length out0 \<le> length p" using align_up_ge [of ALIGN "length out0"] by (simp add: lp)
  moreover have "\<exists>ext. q = out0 @ ext" by (simp add: q c p_def pad_to_def)
  ultimately show ?thesis using le r by (simp add: rec_id_def)
qed

lemma pack_entries_holds:
  assumes "pack_entries es out recs = (out', recs', None)"
    and "\<forall>(k, ws) \<in> set es. length ws = 3 \<and> (\<forall>w \<in> set ws. wf_matrix w)"
  shows "\<exists>new ext. recs' = recs @ new \<and> out' = out @ ext
    \<and> list_all2 (\<lambda>(k, ws) r. rec_id r = k \<and> holds out' r ws \<and> length out \<le> r_offset r) es new
    \<and> sorted_wrt (\<lambda>a b. r_offset a + r_read a \<le> r_offset b) new"
  using assms
proof (induction es arbitrary: out recs)
  case Nil
  then show ?case by simp
next
  case (Cons e es)
  obtain key ws where e: "e = (key, ws)" by (cases e)
  have ws: "length ws = 3" "\<forall>w \<in> set ws. wf_matrix w" using Cons.prems(2) by (auto simp: e)
  obtain o1 ro er where pe: "pack_expert key ws out = (o1, ro, er)" by (metis prod_cases3)
  then obtain r where r: "ro = Some r" and rest: "pack_entries es o1 (recs @ [r]) = (out', recs', None)"
    using Cons.prems(1) by (cases ro) (auto simp: e pack_expert_def Let_def split: prod.splits option.splits)
  note ph = pack_expert_holds [OF pe [unfolded r] ws]
  obtain new ext where ih: "recs' = (recs @ [r]) @ new" "out' = o1 @ ext"
    "list_all2 (\<lambda>(k, ws) r. rec_id r = k \<and> holds out' r ws \<and> length o1 \<le> r_offset r) es new"
    "sorted_wrt (\<lambda>a b. r_offset a + r_read a \<le> r_offset b) new"
    using Cons.IH [OF rest] Cons.prems(2) by auto
  obtain ext0 where e0: "o1 = out @ ext0" using ph by blast
  have h: "holds out' r ws" unfolding ih(2) using ph holds_extend by blast
  have later: "\<forall>b \<in> set new. r_offset r + r_read r \<le> r_offset b"
  proof
    fix b assume "b \<in> set new"
    then obtain i where i: "i < length new" "new ! i = b" by (auto simp: in_set_conv_nth)
    have "case es ! i of (k, ws) \<Rightarrow> rec_id b = k \<and> holds out' b ws \<and> length o1 \<le> r_offset b"
      using list_all2_nthD2 [OF ih(3) i(1)] i(2) by (auto split: prod.splits)
    then show "r_offset r + r_read r \<le> r_offset b" using ph by (auto split: prod.splits)
  qed
  have "list_all2 (\<lambda>(k, ws) r. rec_id r = k \<and> holds out' r ws \<and> length out \<le> r_offset r) es new"
    using ih(3) by (rule list_all2_mono) (auto simp: e0)
  then show ?case
    using ih(1,2,4) ph h later e0 by (intro exI [of _ "r # new"] exI [of _ "ext0 @ ext"]) (simp add: e)
qed

section \<open>The files a packer leaves\<close>

lemma in_dir_distinct:
  "in_dir d ''experts.bin'' \<noteq> in_dir e ''experts.idx''"
  "in_dir d ''model.safetensors.index.json'' \<noteq> in_dir e ''experts.idx''"
  "in_dir d ''model.safetensors.index.json'' \<noteq> in_dir e ''experts.bin''"
  by (rule in_dir_neq; simp)+

definition packed_header :: "nat \<Rightarrow> int \<times> int \<Rightarrow> xrec list \<Rightarrow> nat \<Rightarrow> xhdr" where
  "packed_header dtype dims recs data_bytes =
     \<lparr> h_magic = MAGIC, h_version = VERSION, h_align = ALIGN, h_n_layers = nat (fst dims),
       h_n_experts = nat (snd dims), h_n_records = length recs, h_dtype = dtype,
       h_records_offset = HDR_SIZE, h_data_bytes = data_bytes \<rparr>"

lemma pack_index_reads:
  assumes "pack_index dtype dims recs n = (raw, None)"
  shows "load_existing dtype (Some raw) = Inr (Some (packed_header dtype dims recs n), recs)
    \<and> dims_match (Some (packed_header dtype dims recs n)) dims"
proof -
  let ?h = "packed_header dtype dims recs n"
  have d: "0 \<le> fst dims" "0 \<le> snd dims" and w: "write_index ?h recs = (raw, None)"
    using assms by (auto simp: pack_index_def packed_header_def split: if_splits)
  obtain hb where hb: "HDR_pack ?h = Inr hb" "write_all REC_pack hb recs = (raw, None)"
    using w by (auto simp: write_index_def split: sum.splits)
  have u: "length hb = HDR_SIZE" "HDR_unpack hb = ?h"
    using HDR_unpack_pack [OF hb(1)] by (simp_all add: packed_header_def)
  have t: "length raw = HDR_SIZE + REC_SIZE * length recs" "take HDR_SIZE raw = hb"
    "unpack_table REC_unpack REC_SIZE raw HDR_SIZE (length recs) = Inr recs"
    using rec_codec.table_roundtrip [OF write_all_fits [OF hb(2)] hb(2)] u(1) by simp_all
  show ?thesis using d by (simp add: load_existing_def t u(2)) (simp add: packed_header_def t dims_match_def)
qed

text \<open>What stays, what is new, and that nothing overlaps: the packed store after a run over \<open>base\<close> and \<open>recs\<close>.\<close>

definition packed_store ::
  "part_writer \<Rightarrow> (string \<times> st_header) list \<Rightarrow> (string \<Rightarrow> bytes) \<Rightarrow> (expert_id \<times> expert_parts) list
     \<Rightarrow> bytes \<Rightarrow> bytes \<Rightarrow> xrec list \<Rightarrow> bool" where
  "packed_store wp headers shard_bytes entries base out new =
     ((\<exists>ext. out = base @ ext)
      \<and> list_all2 (\<lambda>(k, parts) r. rec_id r = k \<and> holds out r (map (matrix_of wp headers shard_bytes parts) PART_ORDER)
           \<and> length base \<le> r_offset r) (sorted_entries entries) new
      \<and> sorted_wrt (\<lambda>a b. r_offset a + r_read a \<le> r_offset b) new)"

definition file_or_empty :: "fs \<Rightarrow> string \<Rightarrow> bytes" where
  "file_or_empty s p = (case s p of None \<Rightarrow> [] | Some bs \<Rightarrow> bs)"

context part_format
begin

lemma write_experts_result:
  assumes "write_experts dtype wp model_dir out_dir appending dims recs headers entries s = (Inr n, s')"
  shows "\<exists>out new raw. s' = s(in_dir out_dir ''experts.bin'' \<mapsto> out, in_dir out_dir ''experts.idx'' \<mapsto> raw)
    \<and> packed_store wp headers (\<lambda>shard. file_or_empty s (in_dir model_dir shard)) entries
         (if appending then file_or_empty s (in_dir out_dir ''experts.bin'') else []) out new
    \<and> load_existing dtype (Some raw) = Inr (Some (packed_header dtype dims (recs @ new) (length out)), recs @ new)
    \<and> dims_match (Some (packed_header dtype dims (recs @ new) (length out))) dims
    \<and> n = length recs + length new"
proof -
  define base where "base = (if appending then file_or_empty s (in_dir out_dir ''experts.bin'') else [])"
  define shard_bytes where "shard_bytes = (\<lambda>shard. file_or_empty s (in_dir model_dir shard))"
  define work where "work = map (\<lambda>(k, parts). (k, map (matrix_of wp headers shard_bytes parts) PART_ORDER)) (sorted_entries entries)"
  obtain out recs' err where pe: "pack_entries work base recs = (out, recs', err)" by (metis prod_cases3)
  have eq: "write_experts dtype wp model_dir out_dir appending dims recs headers entries s =
      io_bind (write_out (in_dir out_dir ''experts.bin'') (out, err)) (\<lambda>_.
      io_bind (file_size (in_dir out_dir ''experts.bin'')) (\<lambda>size.
      io_bind (write_out (in_dir out_dir ''experts.idx'') (pack_index dtype dims recs' size)) (\<lambda>_.
        io_return (length recs')))) s"
    by (simp only: write_experts_def Let_def pe [unfolded work_def base_def shard_bytes_def file_or_empty_def] prod.case)
  obtain raw ferr where pi: "pack_index dtype dims recs' (length out) = (raw, ferr)" by (metis surj_pair)
  have err: "err = None" and ferr: "ferr = None" and n: "n = length recs'"
    and s': "s' = s(in_dir out_dir ''experts.bin'' \<mapsto> out, in_dir out_dir ''experts.idx'' \<mapsto> raw)"
    using assms unfolding eq
    by (cases err; cases ferr; simp add: io_bind_def write_out_def pi)+
  have "\<forall>(k, ws) \<in> set work. length ws = 3 \<and> (\<forall>w \<in> set ws. wf_matrix w)"
    unfolding work_def PART_ORDER_def by (auto simp: wf_matrix_of)
  from pack_entries_holds [OF pe [unfolded err] this] obtain new ext where new: "recs' = recs @ new" "out = base @ ext"
    "list_all2 (\<lambda>(k, ws) r. rec_id r = k \<and> holds out r ws \<and> length base \<le> r_offset r) work new"
    "sorted_wrt (\<lambda>a b. r_offset a + r_read a \<le> r_offset b) new"
    by blast
  have "packed_store wp headers shard_bytes entries base out new"
    using new unfolding packed_store_def work_def by (auto simp: list_all2_map1 case_prod_unfold)
  then show ?thesis
    using s' n new(1) pack_index_reads [OF pi [unfolded ferr]]
    by (intro exI [of _ out] exI [of _ new] exI [of _ raw]) (simp add: base_def shard_bytes_def)
qed

end

section \<open>The two kinds of packer\<close>

text \<open>The headers in hand are those of the shard files.\<close>

definition headers_read :: "(string \<Rightarrow> json res) \<Rightarrow> string \<Rightarrow> fs \<Rightarrow> (string \<times> st_header) list \<Rightarrow> bool" where
  "headers_read loads model_dir s headers =
     (\<forall>shard h. map_of headers shard = Some h \<longrightarrow>
        (\<exists>raw. s (in_dir model_dir shard) = Some raw \<and> read_st_header loads raw = Inr h))"

text \<open>\<open>pack_run\<close>: a successful run over the entries of \<open>wm\<close>, for one dtype and part writer.\<close>

definition pack_run ::
  "nat \<Rightarrow> part_writer \<Rightarrow> (string \<Rightarrow> json res) \<Rightarrow> string \<Rightarrow> string \<Rightarrow> int list option \<Rightarrow> bool \<Rightarrow> (string \<times> string) list \<Rightarrow> fs \<Rightarrow> nat \<Rightarrow> fs \<Rightarrow> bool" where
  "pack_run dtype wp loads model_dir out_dir wanted appending wm s n s' =
     (\<exists>old recs headers dims out new raw.
        (if appending then load_existing dtype (s (in_dir out_dir ''experts.idx'')) = Inr (old, recs) else recs = [])
        \<and> s' = s(in_dir out_dir ''experts.bin'' \<mapsto> out, in_dir out_dir ''experts.idx'' \<mapsto> raw)
        \<and> headers_read loads model_dir s headers
        \<and> packed_store wp headers (\<lambda>shard. file_or_empty s (in_dir model_dir shard))
             (filter (\<lambda>(k, v). k \<notin> rec_id ` set recs) (collect_entries wanted wm))
             (if appending then file_or_empty s (in_dir out_dir ''experts.bin'') else []) out new
        \<and> load_existing dtype (Some raw) = Inr (Some (packed_header dtype dims (recs @ new) (length out)), recs @ new)
        \<and> n = length recs + length new)"

lemma read_json_state: "read_json loads p s = (r, t) \<Longrightarrow> t = s"
  by (auto simp: read_json_def io_bind_def read_text_app split: prod.splits sum.splits)

lemma read_headers_state: "read_headers loads d xs s = (r, t) \<Longrightarrow> t = s"
proof (induction xs arbitrary: r t)
  case (Cons x xs)
  obtain r' t' where "read_headers loads d xs s = (r', t')" by (metis surj_pair)
  with Cons show ?case
    by (cases "s (in_dir d x)"; cases "read_st_header loads (the (s (in_dir d x)))"; cases r') (auto simp: io_bind_def)
qed (simp add: io_return_def)

lemma read_headers_read: "read_headers loads d xs s = (Inr hs, t) \<Longrightarrow> headers_read loads d s hs"
proof (induction xs arbitrary: hs)
  case (Cons x xs)
  obtain raw h hs' where h: "s (in_dir d x) = Some raw" "read_st_header loads raw = Inr h"
    "read_headers loads d xs s = (Inr hs', t)" "hs = (x, h) # hs'"
    using Cons.prems by (auto simp: io_bind_read_iff io_bind_lift_iff io_bind_eq_Inr of_option_eq_Inr)
  show ?case using Cons.IH [OF h(3)] h(1,2) by (simp add: headers_read_def h(4))
qed (simp add: headers_read_def io_return_def)

lemma bf16_dims_state: "bf16_dims loads d es s = (r, t) \<Longrightarrow> t = s"
  using read_json_state [of loads "in_dir d ''config.json''" s]
  by (auto simp: bf16_dims_def io_bind_def split: prod.splits sum.splits)

lemma pack_bf16_run:
  assumes "pack_bf16_main loads model_dir out_dir wanted appending s = (Inr (Some n), s')"
  shows "\<exists>idx wm. read_json loads (in_dir model_dir ''model.safetensors.index.json'') s = (Inr idx, s)
    \<and> weight_map_of idx = Inr wm \<and> entries_complete (collect_entries wanted wm) \<and> collect_entries wanted wm \<noteq> []
    \<and> pack_run DTYPE_BF16 bf16_part loads model_dir out_dir wanted appending wm s n s'"
proof -
  let ?ex = "if appending then load_existing DTYPE_BF16 (s (in_dir out_dir ''experts.idx'')) else Inr (None, [])"
  obtain idx s1 where idx: "read_json loads (in_dir model_dir ''model.safetensors.index.json'') s = (Inr idx, s1)"
    using assms unfolding pack_bf16_main_def io_bind_eq_Inr by blast
  have s1: "s1 = s" using read_json_state [OF idx] .
  obtain wm where wm: "weight_map_of idx = Inr wm"
    using assms by (auto simp: pack_bf16_main_def io_bind_eq_Inr idx s1 io_bind_lift_iff)
  let ?es = "collect_entries wanted wm"
  have ok: "?es \<noteq> []" "entries_complete ?es"
    using assms by (auto simp: pack_bf16_main_def io_bind_eq_Inr idx s1 io_bind_lift_iff wm Let_def split: if_splits)
  obtain old recs where ex: "?ex = Inr (old, recs)"
    using assms ok by (auto simp: pack_bf16_main_def io_bind_def idx s1 wm Let_def split: sum.splits prod.splits)
  define fresh where "fresh = filter (\<lambda>(k, v). k \<notin> rec_id ` set recs) ?es"
  have run: "(if fresh = [] then io_return None
          else io_bind (read_headers loads model_dir (shards_of fresh)) (\<lambda>headers.
            io_bind (bf16_dims loads model_dir fresh) (\<lambda>dims.
              if \<not> dims_match old dims
              then io_raise (SystemExit ''existing expert store logical dimensions do not match model'')
              else io_bind (write_experts DTYPE_BF16 bf16_part model_dir out_dir appending dims recs headers fresh)
                (\<lambda>n. io_return (Some n))))) s = (Inr (Some n), s')"
    using assms ok ex unfolding pack_bf16_main_def Let_def fresh_def
    by (simp add: io_bind_lift_app io_bind_Inr [where m = "read_json loads _", OF idx [unfolded s1]] wm)
  have "fresh \<noteq> []" using run by auto
  then obtain headers s2 dims s3 where h: "read_headers loads model_dir (shards_of fresh) s = (Inr headers, s2)"
    "bf16_dims loads model_dir fresh s2 = (Inr dims, s3)"
    "write_experts DTYPE_BF16 bf16_part model_dir out_dir appending dims recs headers fresh s3 = (Inr n, s')"
    using run by (auto simp: io_bind_eq_Inr split: if_splits)
  have s23: "s2 = s" "s3 = s2" using read_headers_state [OF h(1)] bf16_dims_state [OF h(2)] by simp_all
  note res = bf16_format.write_experts_result [OF h(3) [unfolded s23]]
  have rc: "if appending then load_existing DTYPE_BF16 (s (in_dir out_dir ''experts.idx'')) = Inr (old, recs) else recs = []"
    using ex by (simp split: if_splits)
  have "pack_run DTYPE_BF16 bf16_part loads model_dir out_dir wanted appending wm s n s'"
    using res rc read_headers_read [OF h(1)] unfolding pack_run_def fresh_def by blast
  then show ?thesis using idx s1 wm ok by blast
qed

text \<open>A BF16 matrix that was copied is the tensor's byte span of its shard.\<close>

definition tensor_bytes :: "(string \<times> st_header) list \<Rightarrow> (string \<Rightarrow> bytes) \<Rightarrow> expert_parts \<Rightarrow> string \<Rightarrow> bytes option" where
  "tensor_bytes headers shard_bytes parts part =
     (case rbind (of_option (KeyError part) (map_of parts part)) (\<lambda>(name, shard).
            rbind (of_option (KeyError shard) (map_of headers shard)) (\<lambda>(base, h).
              rbind (json_index h name) (\<lambda>meta. rmap (\<lambda>(a, b). (int base + a, b - a, shard)) (data_span meta)))) of
        Inl e \<Rightarrow> None
      | Inr (pos, n, shard) \<Rightarrow> Some (take (nat n) (drop (nat pos) (shard_bytes shard))))"

lemma bf16_matrix_content:
  assumes "snd (snd (matrix_of bf16_part headers shard_bytes parts part [])) = None"
  shows "tensor_bytes headers shard_bytes parts part = Some (fst (matrix_of bf16_part headers shard_bytes parts part []))"
proof -
  obtain base meta shard where look: "rbind (of_option (KeyError part) (map_of parts part)) (\<lambda>(name, shard).
            rbind (of_option (KeyError shard) (map_of headers shard)) (\<lambda>(base, h).
              rmap (\<lambda>meta. (base, meta, shard)) (json_index h name))) = Inr (base, meta, shard)"
    and run: "snd (snd (bf16_part base meta (shard_bytes shard) [])) = None"
    using assms by (auto simp: matrix_of_def split: sum.splits)
  obtain pos n where sp: "bf16_span base meta = Inr (pos, n)" "0 \<le> n"
    and cp: "bf16_part base meta (shard_bytes shard) [] = (fst (copy_blocks BF16_CHUNK (shard_bytes shard) pos (nat n) []), nat n, None)"
    using run by (auto simp: bf16_part_def split: sum.splits prod.splits if_splits)
  obtain a b where ab: "data_span meta = Inr (a, b)" "pos = nat (int base + a)" "n = b - a"
    using sp(1) by (auto simp: bf16_span_def rbind_eq_Inr seek_int_def seek_error_def split: if_splits)
  have ok: "copy_blocks BF16_CHUNK (shard_bytes shard) pos (nat n) []
      = (fst (copy_blocks BF16_CHUNK (shard_bytes shard) pos (nat n) []), None)"
    using cp sp(1) by (auto simp: bf16_part_def split: if_splits prod.splits)
  have "fst (copy_blocks BF16_CHUNK (shard_bytes shard) pos (nat n) []) = take (nat n) (drop pos (shard_bytes shard))"
    using copy_blocks_ok_enough [OF ok] copy_blocks_enough [of BF16_CHUNK pos "nat n" "shard_bytes shard" "[]"] ok
    by (cases "nat n = 0") (auto simp: BF16_CHUNK_def copy_blocks.simps [of _ _ _ 0])
  then have "fst (matrix_of bf16_part headers shard_bytes parts part []) = take (nat n) (drop pos (shard_bytes shard))"
    using cp by (simp add: matrix_of_def look)
  moreover have "tensor_bytes headers shard_bytes parts part = Some (take (nat n) (drop pos (shard_bytes shard)))"
    using look ab by (auto simp: tensor_bytes_def rbind_eq_Inr rmap_eq_Inr split: sum.splits)
  ultimately show ?thesis by simp
qed

lemma holds_bf16:
  assumes "holds out r (map (matrix_of bf16_part headers shard_bytes parts) PART_ORDER)"
  shows "tensor_bytes headers shard_bytes parts ''gate_proj'' = Some (take (r_gate_len r) (drop (r_offset r + r_gate_off r) out))
    \<and> tensor_bytes headers shard_bytes parts ''up_proj'' = Some (take (r_up_len r) (drop (r_offset r + r_up_off r) out))
    \<and> tensor_bytes headers shard_bytes parts ''down_proj'' = Some (take (r_down_len r) (drop (r_offset r + r_down_off r) out))"
  using assms by (auto simp: holds_def PART_ORDER_def bf16_matrix_content)

text \<open>
  What a shard file holds under a tensor's name: eight bytes with the length \<open>n\<close> of the JSON header, the header, and
  the data region, in which the header's \<^verbatim>\<open>data_offsets\<close> name the span of the tensor.
\<close>

definition shard_tensor :: "(string \<Rightarrow> json res) \<Rightarrow> (string \<Rightarrow> bytes option) \<Rightarrow> expert_parts \<Rightarrow> string \<Rightarrow> bytes option" where
  "shard_tensor loads shards parts part =
     (case map_of parts part of None \<Rightarrow> None | Some (name, shard) \<Rightarrow>
      (case shards shard of None \<Rightarrow> None | Some raw \<Rightarrow>
       (let n = from_le (take 8 raw) in
        case rbind (rbind (rbind (ascii_decode (take n (drop 8 raw))) loads) (\<lambda>h. json_index h name)) data_span of
          Inl e \<Rightarrow> None
        | Inr (a, b) \<Rightarrow> Some (take (nat (b - a)) (drop (nat (8 + int n + a)) raw)))))"

lemma tensor_bytes_shard:
  assumes "headers_read loads model_dir s headers"
    and "tensor_bytes headers (\<lambda>shard. file_or_empty s (in_dir model_dir shard)) parts part = Some x"
  shows "shard_tensor loads (\<lambda>shard. s (in_dir model_dir shard)) parts part = Some x"
proof -
  obtain name shard base h meta a b where look: "map_of parts part = Some (name, shard)" "map_of headers shard = Some (base, h)"
    "json_index h name = Inr meta" "data_span meta = Inr (a, b)"
    and x: "x = take (nat (b - a)) (drop (nat (int base + a)) (file_or_empty s (in_dir model_dir shard)))"
    using assms(2)
    by (auto simp: tensor_bytes_def rbind_eq_Inr rmap_eq_Inr of_option_eq_Inr split: sum.splits)
  obtain raw where raw: "s (in_dir model_dir shard) = Some raw" "read_st_header loads raw = Inr (base, h)"
    using assms(1) look(2) unfolding headers_read_def by blast
  have "base = 8 + from_le (take 8 raw)"
    "rbind (ascii_decode (take (from_le (take 8 raw)) (drop 8 raw))) loads = Inr h"
    using raw(2) by (auto simp: read_st_header_def Let_def rbind_eq_Inr split: if_splits)
  then show ?thesis using look raw(1) x by (simp add: shard_tensor_def file_or_empty_def Let_def)
qed

lemma sorted_entries_ids: "map fst (sorted_entries es) = sorted_list_of_set (fst ` set es)"
  by (simp add: sorted_entries_def comp_def)

lemma packed_store_ids:
  "packed_store wp headers sb es base out new \<Longrightarrow> map rec_id new = sorted_list_of_set (fst ` set es)"
  unfolding packed_store_def sorted_entries_ids [symmetric]
  by (auto simp: list_all2_conv_all_nth case_prod_unfold intro!: nth_equalityI)

lemma pack_run_ids:
  assumes "pack_run dtype wp loads model_dir out_dir wanted appending wm s n s'"
  shows "\<exists>h recs. load_existing dtype (s' (in_dir out_dir ''experts.idx'')) = Inr (Some h, recs)
    \<and> length recs = n \<and> fst ` set (collect_entries wanted wm) \<subseteq> rec_id ` set recs"
proof -
  from assms obtain recs headers dims out new raw where
    s': "s' = s(in_dir out_dir ''experts.bin'' \<mapsto> out, in_dir out_dir ''experts.idx'' \<mapsto> raw)"
    and ps: "packed_store wp headers (\<lambda>shard. file_or_empty s (in_dir model_dir shard))
             (filter (\<lambda>(k, v). k \<notin> rec_id ` set recs) (collect_entries wanted wm))
             (if appending then file_or_empty s (in_dir out_dir ''experts.bin'') else []) out new"
    and ld: "load_existing dtype (Some raw) = Inr (Some (packed_header dtype dims (recs @ new) (length out)), recs @ new)"
    and n: "n = length recs + length new"
    unfolding pack_run_def by blast
  have "rec_id ` set new = set (map rec_id new)" by simp
  also have "\<dots> = fst ` set (filter (\<lambda>(k, v). k \<notin> rec_id ` set recs) (collect_entries wanted wm))"
    unfolding packed_store_ids [OF ps] by simp
  finally have "rec_id ` set new = \<dots>" .
  then have "fst ` set (collect_entries wanted wm) \<subseteq> rec_id ` set (recs @ new)" by force
  then show ?thesis using s' ld n by (intro exI conjI) auto
qed

lemma pack_bf16_again:
  assumes "pack_bf16_main loads model_dir out_dir wanted appending s = (Inr (Some n), s')"
  shows "pack_bf16_main loads model_dir out_dir wanted True s' = (Inr None, s')"
proof -
  let ?ip = "in_dir model_dir ''model.safetensors.index.json''"
  obtain idx wm where idx: "read_json loads ?ip s = (Inr idx, s)" "weight_map_of idx = Inr wm"
    and ok: "entries_complete (collect_entries wanted wm)" "collect_entries wanted wm \<noteq> []"
    and run: "pack_run DTYPE_BF16 bf16_part loads model_dir out_dir wanted appending wm s n s'"
    using pack_bf16_run [OF assms] by blast
  have "s' ?ip = s ?ip"
    using run in_dir_distinct(2,3) by (auto simp: pack_run_def)
  then have idx': "read_json loads ?ip s' = (Inr idx, s')"
    using idx(1) by (auto simp: read_json_def io_bind_def read_text_app split: sum.splits)
  obtain h recs where ld: "load_existing DTYPE_BF16 (s' (in_dir out_dir ''experts.idx'')) = Inr (Some h, recs)"
    and sub: "fst ` set (collect_entries wanted wm) \<subseteq> rec_id ` set recs"
    using pack_run_ids [OF run] by blast
  have "filter (\<lambda>(k, v). k \<notin> rec_id ` set recs) (collect_entries wanted wm) = []"
    using sub by (force simp: filter_empty_conv)
  then show ?thesis
    using ok unfolding pack_bf16_main_def Let_def
    by (simp add: io_bind_lift_app io_bind_Inr [where m = "read_json loads _", OF idx'] idx(2) ld)
qed

section \<open>A concrete model\<close>

text \<open>One expert whose three matrices are six, four and two bytes of one shard.\<close>

definition ex_tname :: "string \<Rightarrow> string" where
  "ex_tname part = ''language_model.model.layers.1.mlp.experts.0.'' @ part @ ''.weight''"

definition ex_meta_json :: "int \<Rightarrow> int \<Rightarrow> json" where
  "ex_meta_json a b = JObj [(''dtype'', JStr ''BF16''), (''shape'', JList [JInt 1, JInt ((b - a) div 2)]),
     (''data_offsets'', JList [JInt a, JInt b])]"

definition ex_loads :: "string \<Rightarrow> json res" where
  "ex_loads t =
     (if t = ''I'' then Inr (JObj [(''weight_map'', JObj (map (\<lambda>p. (ex_tname p, JStr ''a'')) PART_ORDER))])
      else if t = ''H'' then Inr (JObj [(ex_tname ''gate_proj'', ex_meta_json 0 6), (ex_tname ''up_proj'', ex_meta_json 6 10),
             (ex_tname ''down_proj'', ex_meta_json 10 12)])
      else Inl (ValueError ''json''))"

definition ex_model :: fs where
  "ex_model = [''m/model.safetensors.index.json'' \<mapsto> ascii_encode ''I'',
     ''m/a'' \<mapsto> le_bytes 8 1 @ ascii_encode ''H'' @ [1, 2, 3, 4, 5, 6, 7, 8, 9, 10, 11, 12]]"

lemma ex_entries:
  "collect_entries None (map (\<lambda>p. (ex_tname p, ''a'')) PART_ORDER)
     = [((1, 0), map (\<lambda>p. (p, (ex_tname p, ''a''))) PART_ORDER)]"
  by code_simp

definition ex_shard_header :: json where
  "ex_shard_header = JObj [(ex_tname ''gate_proj'', ex_meta_json 0 6), (ex_tname ''up_proj'', ex_meta_json 6 10),
     (ex_tname ''down_proj'', ex_meta_json 10 12)]"

definition ex_shard :: bytes where
  "ex_shard = le_bytes 8 1 @ ascii_encode ''H'' @ [1, 2, 3, 4, 5, 6, 7, 8, 9, 10, 11, 12]"

lemma ex_matrix:
  assumes "(p, a, b) \<in> {(''gate_proj'', 0, 6), (''up_proj'', 6, 10), (''down_proj'', 10, 12)}"
  shows "matrix_of bf16_part [(''a'', 9, ex_shard_header)] (\<lambda>shard. file_or_empty ex_model (in_dir ''m'' shard))
      (map (\<lambda>p. (p, (ex_tname p, ''a''))) PART_ORDER) p out
    = (out @ take (nat (b - a)) (drop (nat (9 + a)) ex_shard), nat (b - a), None)"
proof -
  have f: "file_or_empty ex_model (in_dir ''m'' ''a'') = ex_shard"
    by (simp add: file_or_empty_def ex_model_def in_dir_def ex_shard_def)
  have len: "length ex_shard = 21" by (simp add: ex_shard_def ascii_encode_def)
  have "copy_blocks BF16_CHUNK ex_shard (nat (9 + a)) (nat (b - a)) out
      = (out @ take (nat (b - a)) (drop (nat (9 + a)) ex_shard), None)"
    using assms by (intro copy_blocks_enough) (auto simp: BF16_CHUNK_def len)
  moreover have "json_index ex_shard_header (ex_tname p) = Inr (ex_meta_json a b)"
    using assms by (auto simp: ex_shard_header_def ex_tname_def)
  moreover have "map_of (map (\<lambda>p. (p, (ex_tname p, ''a''))) PART_ORDER) p = Some (ex_tname p, ''a'')"
    using assms by (auto simp: PART_ORDER_def)
  moreover have "bf16_span 9 (ex_meta_json a b) = Inr (nat (9 + a), b - a)"
    using assms by (auto simp: bf16_span_def ex_meta_json_def check_bf16_def data_span_def seek_int_def seek_error_def)
  ultimately show ?thesis
    using assms by (auto simp: matrix_of_def f bf16_part_def)
qed

lemma ex_pack_expert:
  assumes "\<forall>out. w0 out = (out @ c0, length c0, None)" "\<forall>out. w1 out = (out @ c1, length c1, None)"
    "\<forall>out. w2 out = (out @ c2, length c2, None)"
  shows "pack_expert key [w0, w1, w2] [] = (let c = c0 @ c1 @ c2 in (pad_to ALIGN c,
     Some \<lparr> r_layer = fst key, r_expert = snd key, r_offset = 0, r_read = align_up (length c) ALIGN,
       r_payload = length c, r_gate_off = 0, r_gate_len = length c0, r_up_off = length c0, r_up_len = length c1,
       r_down_off = length c0 + length c1, r_down_len = length c2 \<rparr>, None))"
proof -
  have "pad_to ALIGN ([] :: bytes) = []" "align_up 0 ALIGN = 0"
    by (simp_all add: pad_to_aligned align_up_def ALIGN_def)
  then show ?thesis using assms by (simp add: pack_expert_def Let_def)
qed

lemma ex_pack_runs: "\<exists>s'. pack_bf16_main ex_loads ''m'' ''o'' None False ex_model = (Inr (Some 1), s')"
proof -
  let ?es = "[((1, 0), map (\<lambda>p. (p, (ex_tname p, ''a''))) PART_ORDER)] :: (expert_id \<times> expert_parts) list"
  have t: "ascii_decode (ascii_encode ''I'') = Inr ''I''" "ascii_decode (ascii_encode ''H'') = Inr ''H''"
    by (rule ascii_roundtrip, code_simp)+
  have idx: "read_json ex_loads ''m/model.safetensors.index.json'' ex_model
      = (Inr (JObj [(''weight_map'', JObj (map (\<lambda>p. (ex_tname p, JStr ''a'')) PART_ORDER))]), ex_model)"
    by (simp add: read_json_def io_bind_def read_text_app ex_model_def t ex_loads_def)
  have wm: "weight_map_of (JObj [(''weight_map'', JObj (map (\<lambda>p. (ex_tname p, JStr ''a'')) PART_ORDER))])
      = Inr (map (\<lambda>p. (ex_tname p, ''a'')) PART_ORDER)"
    by (simp add: weight_map_of_def json_items_def PART_ORDER_def json_str_def)
  have sh: "shards_of ?es = [''a'']" by (simp add: shards_of_def PART_ORDER_def)
  have "read_st_header ex_loads ex_shard = Inr (9, ex_shard_header)"
    using from_le_le_bytes [of 1 8] t(2) 
    by (simp add: read_st_header_def ex_shard_def ex_loads_def ex_shard_header_def ascii_encode_def)
  then have hd: "read_headers ex_loads ''m'' [''a''] ex_model = (Inr [(''a'', 9, ex_shard_header)], ex_model)"
    by (simp add: io_bind_def in_dir_def ex_model_def ex_shard_def)
  have dims: "bf16_dims ex_loads ''m'' ?es ex_model = (Inr (2, 1), ex_model)"
    by (simp add: bf16_dims_def read_json_def io_bind_def read_text_app ex_model_def in_dir_def fallback_dims_def)
  let ?sb = "\<lambda>shard. file_or_empty ex_model (in_dir ''m'' shard)"
  define c where "c = (\<lambda>a b. take (nat (b - a)) (drop (nat (9 + a)) ex_shard))"
  define r where "r = \<lparr> r_layer = 1, r_expert = 0, r_offset = 0, r_read = 4096, r_payload = 12,
     r_gate_off = 0, r_gate_len = 6, r_up_off = 6, r_up_len = 4, r_down_off = 10, r_down_len = 2 \<rparr>"
  have len: "length ex_shard = 21" by (simp add: ex_shard_def ascii_encode_def)
  have lc: "length (c 0 6) = 6" "length (c 6 10) = 4" "length (c 10 12) = 2" by (simp_all add: c_def len)
  have mats: "map (matrix_of bf16_part [(''a'', 9, ex_shard_header)] ?sb (map (\<lambda>p. (p, (ex_tname p, ''a''))) PART_ORDER)) PART_ORDER
      = [\<lambda>out. (out @ c 0 6, 6, None), \<lambda>out. (out @ c 6 10, 4, None), \<lambda>out. (out @ c 10 12, 2, None)]"
    using ex_matrix [of "''gate_proj''" 0 6] ex_matrix [of "''up_proj''" 6 10] ex_matrix [of "''down_proj''" 10 12]
    by (simp add: PART_ORDER_def c_def fun_eq_iff)
  have pe: "pack_expert (1, 0) [\<lambda>out. (out @ c 0 6, 6, None), \<lambda>out. (out @ c 6 10, 4, None), \<lambda>out. (out @ c 10 12, 2, None)] []
      = (pad_to ALIGN (c 0 6 @ c 6 10 @ c 10 12), Some r, None)"
    using lc by (subst ex_pack_expert [of _ "c 0 6" _ "c 6 10" _ "c 10 12"]) (simp_all add: r_def Let_def align_up_def ALIGN_def)
  have "sorted_entries ?es = ?es" by (simp add: sorted_entries_def)
  moreover obtain raw where "pack_index DTYPE_BF16 (2, 1) [r] 4096 = (raw, None)"
  proof -
    let ?h = "packed_header DTYPE_BF16 (2, 1) [r] 4096"
    have "fields_fit hdr_widths (hdr_values ?h)" "rec_fits r"
      by (simp_all add: packed_header_def fields_fit_def hdr_widths_def hdr_values_def rec_fits_def rec_widths_def
          rec_values_def r_def VERSION_def ALIGN_def DTYPE_BF16_def HDR_SIZE_def)
    then obtain hb where "HDR_pack ?h = Inr hb" using pack_fields_fit by (fastforce simp: HDR_pack_def)
    then show ?thesis
      using write_index_ok [of ?h hb "[r]"] \<open>rec_fits r\<close> that by (auto simp: pack_index_def packed_header_def)
  qed
  ultimately have "write_experts DTYPE_BF16 bf16_part ''m'' ''o'' False (2, 1) [] [(''a'', 9, ex_shard_header)] ?es ex_model
      = (Inr 1, ex_model(''o/experts.bin'' \<mapsto> pad_to ALIGN (c 0 6 @ c 6 10 @ c 10 12), ''o/experts.idx'' \<mapsto> raw))"
    using mats pe lc by (simp add: write_experts_def Let_def file_or_empty_def io_bind_def write_out_def in_dir_def align_up_def ALIGN_def)
  then show ?thesis
    using idx wm sh hd dims ex_entries unfolding pack_bf16_main_def
    by (simp add: io_bind_def in_dir_def entries_complete_def PART_ORDER_def dims_match_def image_image Let_def
        del: read_headers.simps)
qed

lemma ex_weight_map:
  assumes "read_json ex_loads (in_dir ''m'' ''model.safetensors.index.json'') ex_model = (Inr idx, s)" "weight_map_of idx = Inr wm"
  shows "wm = map (\<lambda>p. (ex_tname p, ''a'')) PART_ORDER"
proof -
  have "ascii_decode (ascii_encode ''I'') = Inr ''I''" by (rule ascii_roundtrip) code_simp
  then have "idx = JObj [(''weight_map'', JObj (map (\<lambda>p. (ex_tname p, JStr ''a'')) PART_ORDER))]"
    using assms(1) by (simp add: read_json_def io_bind_def read_text_app ex_model_def ex_loads_def in_dir_def)
  then show ?thesis using assms(2) by (simp add: weight_map_of_def json_items_def PART_ORDER_def json_str_def)
qed

lemma ex_shard_tensors:
  "shard_tensor ex_loads (\<lambda>shard. ex_model (in_dir ''m'' shard)) (map (\<lambda>p. (p, (ex_tname p, ''a''))) PART_ORDER) ''gate_proj''
     = Some [1, 2, 3, 4, 5, 6]"
  "shard_tensor ex_loads (\<lambda>shard. ex_model (in_dir ''m'' shard)) (map (\<lambda>p. (p, (ex_tname p, ''a''))) PART_ORDER) ''up_proj''
     = Some [7, 8, 9, 10]"
  "shard_tensor ex_loads (\<lambda>shard. ex_model (in_dir ''m'' shard)) (map (\<lambda>p. (p, (ex_tname p, ''a''))) PART_ORDER) ''down_proj''
     = Some [11, 12]"
proof -
  have t: "ascii_decode (ascii_encode ''H'') = Inr ''H''" by (rule ascii_roundtrip) code_simp
  have n: "from_le (le_bytes 8 1) = 1" by (simp add: from_le_le_bytes)
  have f: "ex_model (in_dir ''m'' ''a'') = Some (le_bytes 8 1 @ ascii_encode ''H'' @ [1, 2, 3, 4, 5, 6, 7, 8, 9, 10, 11, 12])"
    by (simp add: ex_model_def in_dir_def)
  have l: "length (ascii_encode ''H'') = 1" by (simp add: ascii_encode_def)
  show "shard_tensor ex_loads (\<lambda>shard. ex_model (in_dir ''m'' shard)) (map (\<lambda>p. (p, (ex_tname p, ''a''))) PART_ORDER) ''gate_proj''
     = Some [1, 2, 3, 4, 5, 6]"
    "shard_tensor ex_loads (\<lambda>shard. ex_model (in_dir ''m'' shard)) (map (\<lambda>p. (p, (ex_tname p, ''a''))) PART_ORDER) ''up_proj''
     = Some [7, 8, 9, 10]"
    "shard_tensor ex_loads (\<lambda>shard. ex_model (in_dir ''m'' shard)) (map (\<lambda>p. (p, (ex_tname p, ''a''))) PART_ORDER) ''down_proj''
     = Some [11, 12]"
    by (simp_all add: shard_tensor_def f n [unfolded One_nat_def] l t ex_loads_def PART_ORDER_def ex_tname_def ex_meta_json_def data_span_def Let_def)
qed

section \<open>Properties\<close>

text \<open>C4: the BF16 packer is append-safe and copies exactly. After a run that packed something, the data file is
  what was there (when appending) followed by the new experts; the index reads back as the old records
  followed by one record per expert not yet in the store, in id order; every new record lies behind the old
  data at a multiple of the alignment, does not overlap the next one, and holds, for each of its three tensors, the bytes
  that the shard file itself holds under the tensor's name. No other file changes.\<close>

theorem bf16_packer_exact:
  assumes "pack_bf16_main loads model_dir out_dir wanted appending s = (Inr (Some n), s')"
  shows "\<exists>idx wm recs h out ext new raw.
     read_json loads (in_dir model_dir ''model.safetensors.index.json'') s = (Inr idx, s) \<and> weight_map_of idx = Inr wm
   \<and> (if appending then \<exists>old. load_existing DTYPE_BF16 (s (in_dir out_dir ''experts.idx'')) = Inr (old, recs) else recs = [])
   \<and> s' = s(in_dir out_dir ''experts.bin'' \<mapsto> out, in_dir out_dir ''experts.idx'' \<mapsto> raw)
   \<and> out = (if appending then file_or_empty s (in_dir out_dir ''experts.bin'') else []) @ ext
   \<and> load_existing DTYPE_BF16 (Some raw) = Inr (Some h, recs @ new) \<and> h_data_bytes h = length out
   \<and> n = length recs + length new
   \<and> list_all2 (\<lambda>(k, parts) r. rec_id r = k
        \<and> shard_tensor loads (\<lambda>shard. s (in_dir model_dir shard)) parts ''gate_proj''
            = Some (take (r_gate_len r) (drop (r_offset r + r_gate_off r) out))
        \<and> shard_tensor loads (\<lambda>shard. s (in_dir model_dir shard)) parts ''up_proj''
            = Some (take (r_up_len r) (drop (r_offset r + r_up_off r) out))
        \<and> shard_tensor loads (\<lambda>shard. s (in_dir model_dir shard)) parts ''down_proj''
            = Some (take (r_down_len r) (drop (r_offset r + r_down_off r) out))
        \<and> length out - length ext \<le> r_offset r \<and> ALIGN dvd r_offset r \<and> ALIGN dvd r_read r)
      (sorted_entries (filter (\<lambda>(k, v). k \<notin> rec_id ` set recs) (collect_entries wanted wm))) new
   \<and> sorted_wrt (\<lambda>a b. r_offset a + r_read a \<le> r_offset b) new"
proof -
  obtain idx wm where i: "read_json loads (in_dir model_dir ''model.safetensors.index.json'') s = (Inr idx, s)"
      "weight_map_of idx = Inr wm"
    and run: "pack_run DTYPE_BF16 bf16_part loads model_dir out_dir wanted appending wm s n s'"
    using pack_bf16_run [OF assms] by blast
  let ?base = "if appending then file_or_empty s (in_dir out_dir ''experts.bin'') else []"
  let ?sb = "\<lambda>shard. file_or_empty s (in_dir model_dir shard)" and ?sf = "\<lambda>shard. s (in_dir model_dir shard)"
  from run obtain old recs headers dims out new raw where
    r: "if appending then load_existing DTYPE_BF16 (s (in_dir out_dir ''experts.idx'')) = Inr (old, recs) else recs = []"
      "s' = s(in_dir out_dir ''experts.bin'' \<mapsto> out, in_dir out_dir ''experts.idx'' \<mapsto> raw)"
      "packed_store bf16_part headers ?sb (filter (\<lambda>(k, v). k \<notin> rec_id ` set recs) (collect_entries wanted wm)) ?base out new"
      "load_existing DTYPE_BF16 (Some raw) = Inr (Some (packed_header DTYPE_BF16 dims (recs @ new) (length out)), recs @ new)"
      "headers_read loads model_dir s headers" "n = length recs + length new"
    unfolding pack_run_def by blast
  obtain ext where ext: "out = ?base @ ext" using r(3) by (auto simp: packed_store_def)
  have ent: "list_all2 (\<lambda>(k, parts) r. rec_id r = k \<and> holds out r (map (matrix_of bf16_part headers ?sb parts) PART_ORDER)
      \<and> length ?base \<le> r_offset r)
      (sorted_entries (filter (\<lambda>(k, v). k \<notin> rec_id ` set recs) (collect_entries wanted wm))) new"
    and srt: "sorted_wrt (\<lambda>a b. r_offset a + r_read a \<le> r_offset b) new"
    using r(3) by (simp_all add: packed_store_def)
  note shard = tensor_bytes_shard [OF r(5)]
  from ent have "list_all2 (\<lambda>(k, parts) r. rec_id r = k
        \<and> shard_tensor loads ?sf parts ''gate_proj'' = Some (take (r_gate_len r) (drop (r_offset r + r_gate_off r) out))
        \<and> shard_tensor loads ?sf parts ''up_proj'' = Some (take (r_up_len r) (drop (r_offset r + r_up_off r) out))
        \<and> shard_tensor loads ?sf parts ''down_proj'' = Some (take (r_down_len r) (drop (r_offset r + r_down_off r) out))
        \<and> length out - length ext \<le> r_offset r \<and> ALIGN dvd r_offset r \<and> ALIGN dvd r_read r)
      (sorted_entries (filter (\<lambda>(k, v). k \<notin> rec_id ` set recs) (collect_entries wanted wm))) new"
    by (rule list_all2_mono) (use holds_bf16 holds_aligned shard ext in \<open>auto split: prod.splits\<close>)
  moreover have "h_data_bytes (packed_header DTYPE_BF16 dims (recs @ new) (length out)) = length out"
    by (simp add: packed_header_def)
  moreover have "if appending then \<exists>old. load_existing DTYPE_BF16 (s (in_dir out_dir ''experts.idx'')) = Inr (old, recs) else recs = []"
    using r(1) by (auto split: if_splits)
  ultimately show ?thesis using i r(2,4,6) ext srt by blast
qed

theorem bf16_packer_exact_witness:
  "\<exists>s' out r raw h. pack_bf16_main ex_loads ''m'' ''o'' None False ex_model = (Inr (Some 1), s')
     \<and> s' (in_dir ''o'' ''experts.bin'') = Some out \<and> s' (in_dir ''o'' ''experts.idx'') = Some raw
     \<and> load_existing DTYPE_BF16 (Some raw) = Inr (Some h, [r])
     \<and> take (r_gate_len r) (drop (r_offset r + r_gate_off r) out) = [1, 2, 3, 4, 5, 6]
     \<and> take (r_up_len r) (drop (r_offset r + r_up_off r) out) = [7, 8, 9, 10]
     \<and> take (r_down_len r) (drop (r_offset r + r_down_off r) out) = [11, 12]"
proof -
  obtain s' where run: "pack_bf16_main ex_loads ''m'' ''o'' None False ex_model = (Inr (Some 1), s')"
    using ex_pack_runs by blast
  from bf16_packer_exact [OF run] obtain idx wm recs h out new raw where
    w: "read_json ex_loads (in_dir ''m'' ''model.safetensors.index.json'') ex_model = (Inr idx, ex_model)" "weight_map_of idx = Inr wm"
    "recs = []" "s' = ex_model(in_dir ''o'' ''experts.bin'' \<mapsto> out, in_dir ''o'' ''experts.idx'' \<mapsto> raw)"
    "load_existing DTYPE_BF16 (Some raw) = Inr (Some h, recs @ new)" "1 = length recs + length new"
    and all: "list_all2 (\<lambda>(k, parts) r. rec_id r = k
        \<and> shard_tensor ex_loads (\<lambda>shard. ex_model (in_dir ''m'' shard)) parts ''gate_proj''
            = Some (take (r_gate_len r) (drop (r_offset r + r_gate_off r) out))
        \<and> shard_tensor ex_loads (\<lambda>shard. ex_model (in_dir ''m'' shard)) parts ''up_proj''
            = Some (take (r_up_len r) (drop (r_offset r + r_up_off r) out))
        \<and> shard_tensor ex_loads (\<lambda>shard. ex_model (in_dir ''m'' shard)) parts ''down_proj''
            = Some (take (r_down_len r) (drop (r_offset r + r_down_off r) out)))
      (sorted_entries (filter (\<lambda>(k, v). k \<notin> rec_id ` set recs) (collect_entries None wm))) new"
    by (auto simp: list_all2_conv_all_nth case_prod_beta)
  have wm: "wm = map (\<lambda>p. (ex_tname p, ''a'')) PART_ORDER" using w(1,2) ex_weight_map by simp
  obtain r where new: "new = [r]" using w(3,6) by (cases new) auto
  have parts: "sorted_entries (filter (\<lambda>(k, v). k \<notin> rec_id ` set recs) (collect_entries None wm))
      = [((1, 0), map (\<lambda>p. (p, (ex_tname p, ''a''))) PART_ORDER)]"
    unfolding wm w(3) ex_entries by (simp add: sorted_entries_def)
  show ?thesis using run w new all [unfolded parts new] ex_shard_tensors in_dir_distinct(1) by auto
qed

text \<open>Packing is idempotent. A second run, appending, right after a successful one finds every expert
  already packed, writes nothing and reports that there is nothing to do.\<close>

theorem bf16_packer_idempotent:
  assumes "pack_bf16_main loads model_dir out_dir wanted appending s = (Inr (Some n), s')"
  shows "pack_bf16_main loads model_dir out_dir wanted True s' = (Inr None, s')"
  by (rule pack_bf16_again [OF assms])

theorem bf16_packer_idempotent_witness:
  "\<exists>s'. pack_bf16_main ex_loads ''m'' ''o'' None False ex_model = (Inr (Some 1), s')
     \<and> pack_bf16_main ex_loads ''m'' ''o'' None True s' = (Inr None, s')"
proof -
  obtain s' where run: "pack_bf16_main ex_loads ''m'' ''o'' None False ex_model = (Inr (Some 1), s')"
    using ex_pack_runs by blast
  show ?thesis using run bf16_packer_idempotent [OF run] by blast
qed

end
