(* ===== verification/TrunkStore.thy ===== *)
theory TrunkStore
  imports PackExperts
begin

text \<open>
  The non-routed tensors: \<^verbatim>\<open>tools/pack_trunk.py\<close> (\<^verbatim>\<open>trunk.bin\<close>/\<^verbatim>\<open>trunk.idx\<close>, with \<^verbatim>\<open>--append\<close>) and
  \<^verbatim>\<open>tools/pack_vision.py\<close> (\<^verbatim>\<open>vision.bin\<close>/\<^verbatim>\<open>vision.idx\<close>), which write the same format. Reading a tensor out of
  a safetensors shard and converting it to BF16 is the third-party part: \<open>open_tensor\<close> maps the shard's
  bytes and a name to the tensor's BF16 bytes and its shape.
\<close>

section \<open>Format\<close>

text \<open>\<^verbatim>\<open>HDR=struct.Struct('<8s4I2Q')\<close>, \<^verbatim>\<open>REC=struct.Struct('<8I3Q')\<close>.\<close>

record thdr =
  th_magic :: bytes
  th_version :: nat
  th_align :: nat
  th_records :: nat
  th_reserved :: nat
  th_offset :: nat
  th_data_bytes :: nat

record trec =
  tr_layer :: int
  tr_kind :: nat
  tr_dtype :: nat
  tr_ndim :: nat
  tr_dim0 :: nat
  tr_dim1 :: nat
  tr_dim2 :: nat
  tr_dim3 :: nat
  tr_at :: nat
  tr_read :: nat
  tr_payload :: nat

definition TMAGIC :: bytes where "TMAGIC = ascii_encode ''KVLTRNK1''"
definition GLOBAL :: int where "GLOBAL = 0xffffffff"
definition DT_BF16 :: nat where "DT_BF16 = 1"
definition THDR_SIZE :: nat where "THDR_SIZE = 40"
definition TREC_SIZE :: nat where "TREC_SIZE = 56"

definition thdr_widths :: "nat list" where "thdr_widths = [4, 4, 4, 4, 8, 8]"
definition trec_widths :: "nat list" where "trec_widths = [4, 4, 4, 4, 4, 4, 4, 4, 8, 8, 8]"

definition thdr_values :: "thdr \<Rightarrow> nat list" where
  "thdr_values h = [th_version h, th_align h, th_records h, th_reserved h, th_offset h, th_data_bytes h]"

definition trec_values :: "trec \<Rightarrow> nat list" where
  "trec_values r = [nat (tr_layer r), tr_kind r, tr_dtype r, tr_ndim r, tr_dim0 r, tr_dim1 r, tr_dim2 r, tr_dim3 r,
                    tr_at r, tr_read r, tr_payload r]"

definition THDR_pack :: "thdr \<Rightarrow> bytes res" where
  "THDR_pack h = rmap (\<lambda>bs. take 8 (th_magic h @ replicate 8 0) @ bs) (pack_fields thdr_widths (thdr_values h))"

definition THDR_unpack :: "bytes \<Rightarrow> thdr" where
  "THDR_unpack bs = (let v = unpack_fields thdr_widths (drop 8 bs) in
     \<lparr> th_magic = take 8 bs, th_version = v ! 0, th_align = v ! 1, th_records = v ! 2, th_reserved = v ! 3,
       th_offset = v ! 4, th_data_bytes = v ! 5 \<rparr>)"

text \<open>A negative layer number does not fit an unsigned field.\<close>

definition TREC_pack :: "trec \<Rightarrow> bytes res" where
  "TREC_pack r = (if tr_layer r < 0 then Inl (StructError ''argument out of range'')
                  else pack_fields trec_widths (trec_values r))"

definition TREC_unpack :: "bytes \<Rightarrow> trec" where
  "TREC_unpack bs = (let v = unpack_fields trec_widths bs in
     \<lparr> tr_layer = int (v ! 0), tr_kind = v ! 1, tr_dtype = v ! 2, tr_ndim = v ! 3, tr_dim0 = v ! 4, tr_dim1 = v ! 5,
       tr_dim2 = v ! 6, tr_dim3 = v ! 7, tr_at = v ! 8, tr_read = v ! 9, tr_payload = v ! 10 \<rparr>)"

definition trec_fits :: "trec \<Rightarrow> bool" where
  "trec_fits r = (0 \<le> tr_layer r \<and> fields_fit trec_widths (trec_values r))"

definition trunk_load_existing :: "bytes option \<Rightarrow> trec list res" where
  "trunk_load_existing idx = (case idx of
     None \<Rightarrow> Inr []
   | Some raw \<Rightarrow>
       if length raw < THDR_SIZE then Inl (SystemExit ''bad existing trunk.idx'')
       else let h = THDR_unpack (take THDR_SIZE raw) in
         if th_magic h \<noteq> TMAGIC \<or> th_version h \<noteq> VERSION \<or> th_align h \<noteq> ALIGN \<or> th_offset h \<noteq> THDR_SIZE
         then Inl (SystemExit ''incompatible existing trunk.idx'')
         else unpack_table TREC_unpack TREC_SIZE raw (th_offset h) (th_records h))"

text \<open>\<^verbatim>\<open>blob=bytearray(HDR.pack(..)); for r in records: blob.extend(REC.pack(*r))\<close>: written only when complete.\<close>

definition trunk_header :: "trec list \<Rightarrow> nat \<Rightarrow> thdr" where
  "trunk_header recs data_bytes =
     \<lparr> th_magic = TMAGIC, th_version = VERSION, th_align = ALIGN, th_records = length recs, th_reserved = 0,
       th_offset = THDR_SIZE, th_data_bytes = data_bytes \<rparr>"

definition trunk_index :: "trec list \<Rightarrow> nat \<Rightarrow> bytes res" where
  "trunk_index recs data_bytes =
     rbind (THDR_pack (trunk_header recs data_bytes)) (\<lambda>hb.
       case write_all TREC_pack hb recs of (out, None) \<Rightarrow> Inr out | (out, Some e) \<Rightarrow> Inl e)"

section \<open>Writing tensors\<close>

type_synonym spec = "int \<times> nat \<times> string"
type_synonym tensor_data = "bytes \<times> nat list"

text \<open>One tensor: pad to the boundary, write the data, pad to a whole read.\<close>

definition put_tensor :: "int \<Rightarrow> nat \<Rightarrow> tensor_data \<Rightarrow> bytes \<Rightarrow> bytes \<times> trec" where
  "put_tensor layer kind td out =
     (case td of (data, shape) \<Rightarrow>
       let p = align_up (length out) ALIGN;
           payload = length data; readb = align_up payload ALIGN;
           dims = take 4 (take 4 shape @ [0, 0, 0, 0])
       in (pad_to ALIGN out @ data @ replicate (readb - payload) 0,
           \<lparr> tr_layer = layer, tr_kind = kind, tr_dtype = DT_BF16, tr_ndim = length shape,
             tr_dim0 = dims ! 0, tr_dim1 = dims ! 1, tr_dim2 = dims ! 2, tr_dim3 = dims ! 3,
             tr_at = p, tr_read = readb, tr_payload = payload \<rparr>))"

fun put_tensors ::
  "(string \<Rightarrow> tensor_data res) \<Rightarrow> (int \<times> nat) set \<Rightarrow> spec list \<Rightarrow> bytes \<Rightarrow> trec list \<Rightarrow> bytes \<times> trec list \<times> exn option" where
  "put_tensors get existing [] out recs = (out, recs, None)"
| "put_tensors get existing ((layer, kind, name) # specs) out recs =
     (if (layer, kind) \<in> existing then put_tensors get existing specs out recs
      else case get name of
          Inl e \<Rightarrow> (out, recs, Some e)
        | Inr td \<Rightarrow> (case put_tensor layer kind td out of
              (out', r) \<Rightarrow> put_tensors get existing specs out' (recs @ [r])))"

text \<open>\<^verbatim>\<open>get(name)\<close>: the shard of the weight map must be there.\<close>

definition get_tensor ::
  "(bytes \<Rightarrow> string \<Rightarrow> tensor_data res) \<Rightarrow> (string \<times> string) list \<Rightarrow> fs \<Rightarrow> string \<Rightarrow> string \<Rightarrow> tensor_data res" where
  "get_tensor open_tensor wm s model_dir name =
     rbind (of_option (KeyError name) (map_of wm name)) (\<lambda>shard.
     rbind (of_option (FileNotFoundError name) (s (in_dir model_dir shard))) (\<lambda>bs. open_tensor bs name))"

definition rec_key :: "trec \<Rightarrow> int \<times> nat" where
  "rec_key r = (tr_layer r, tr_kind r)"

definition write_tensors ::
  "(string \<Rightarrow> tensor_data res) \<Rightarrow> string \<Rightarrow> string \<Rightarrow> bytes \<Rightarrow> trec list \<Rightarrow> spec list \<Rightarrow> nat io" where
  "write_tensors get binp idxp base old specs =
     (case put_tensors get (rec_key ` set old) specs base old of (out, recs, err) \<Rightarrow>
        io_bind (write_out binp (out, err)) (\<lambda>_.
        io_bind (io_lift (trunk_index recs (length out))) (\<lambda>blob.
        io_bind (write_bytes idxp blob) (\<lambda>_. io_return (length recs)))))"

section \<open>The trunk packer\<close>

definition layer_prefix :: "int \<Rightarrow> string" where
  "layer_prefix layer = ''language_model.model.layers.'' @ show_int layer"

definition KINDS :: "(string \<times> nat) list" where
  "KINDS = [(''embed'', 1), (''final_norm'', 2), (''lm_head'', 3),
     (''input_norm'', 10), (''post_norm'', 11), (''q'', 12), (''kva'', 13), (''kvan'', 14), (''kvb'', 15), (''o'', 16),
     (''dense_gate'', 20), (''dense_up'', 21), (''dense_down'', 22),
     (''router'', 30), (''router_bias'', 31), (''shared_gate'', 32), (''shared_up'', 33), (''shared_down'', 34)]"

definition tensor_spec :: "int \<Rightarrow> bool \<Rightarrow> (string \<times> string) list" where
  "tensor_spec layer dense = (let p = layer_prefix layer in
     [(''input_norm'', p @ ''.input_layernorm.weight''),
      (''post_norm'', p @ ''.post_attention_layernorm.weight''),
      (''q'', p @ ''.self_attn.q_proj.weight''),
      (''kva'', p @ ''.self_attn.kv_a_proj_with_mqa.weight''),
      (''kvan'', p @ ''.self_attn.kv_a_layernorm.weight''),
      (''kvb'', p @ ''.self_attn.kv_b_proj.weight''),
      (''o'', p @ ''.self_attn.o_proj.weight'')] @
     (if dense then
       [(''dense_gate'', p @ ''.mlp.gate_proj.weight''), (''dense_up'', p @ ''.mlp.up_proj.weight''),
        (''dense_down'', p @ ''.mlp.down_proj.weight'')]
      else
       [(''router'', p @ ''.mlp.gate.weight''), (''router_bias'', p @ ''.mlp.gate.e_score_correction_bias''),
        (''shared_gate'', p @ ''.mlp.shared_experts.gate_proj.weight''),
        (''shared_up'', p @ ''.mlp.shared_experts.up_proj.weight''),
        (''shared_down'', p @ ''.mlp.shared_experts.down_proj.weight'')]))"

definition global_names :: "(string \<times> string) list" where
  "global_names = [(''embed'', ''language_model.model.embed_tokens.weight''),
     (''final_norm'', ''language_model.model.norm.weight''), (''lm_head'', ''language_model.lm_head.weight'')]"

definition cfg_int :: "json \<Rightarrow> string \<Rightarrow> int res" where
  "cfg_int cfg k = rbind (json_index cfg k) json_int"

definition py_mod :: "int \<Rightarrow> int \<Rightarrow> int res" where
  "py_mod a b = (if b = 0 then Inl ZeroDivisionError else Inr (a mod b))"

text \<open>\<^verbatim>\<open>is_moe=(int(cfg['n_routed_experts'])>0 and L>=first_dense and L%freq==0)\<close>\<close>

definition is_moe_layer :: "json \<Rightarrow> int \<Rightarrow> int \<Rightarrow> int \<Rightarrow> bool res" where
  "is_moe_layer cfg first_dense freq layer =
     rbind (cfg_int cfg ''n_routed_experts'') (\<lambda>n.
       if n > 0 \<and> layer \<ge> first_dense then rmap (\<lambda>m. m = 0) (py_mod layer freq) else Inr False)"

definition key_spec :: "int \<Rightarrow> string \<times> string \<Rightarrow> spec" where
  "key_spec layer kn = (layer, the (map_of KINDS (fst kn)), snd kn)"

definition layer_specs :: "json \<Rightarrow> int \<Rightarrow> int \<Rightarrow> int \<Rightarrow> spec list res" where
  "layer_specs cfg first_dense freq layer =
     rmap (\<lambda>moe. map (key_spec layer) (tensor_spec layer (\<not> moe))) (is_moe_layer cfg first_dense freq layer)"

definition trunk_specs :: "json \<Rightarrow> int \<Rightarrow> int \<Rightarrow> string list \<Rightarrow> int list \<Rightarrow> spec list res" where
  "trunk_specs cfg first_dense freq globals layers =
     rmap (\<lambda>ls. map (\<lambda>g. key_spec GLOBAL (g, the (map_of global_names g))) globals @ concat ls)
       (mapR (layer_specs cfg first_dense freq) layers)"

text \<open>\<^verbatim>\<open>[int(x) for x in args.layers.split(',') if x.strip()]\<close>\<close>

definition parse_layers :: "string \<Rightarrow> int list res" where
  "parse_layers arg = mapR int_res (filter (\<lambda>x. py_strip x \<noteq> []) (split_on CHR '','' arg))"

definition pack_trunk_main ::
  "(bytes \<Rightarrow> string \<Rightarrow> tensor_data res) \<Rightarrow> (string \<Rightarrow> json res) \<Rightarrow> string \<Rightarrow> string \<Rightarrow> string \<Rightarrow> bool \<Rightarrow> string list
     \<Rightarrow> bool \<Rightarrow> nat io" where
  "pack_trunk_main open_tensor loads model_dir out_dir layers_arg include_globals globals appending =
     io_bind (io_lift (parse_layers layers_arg)) (\<lambda>layers.
     io_bind (read_json loads (in_dir model_dir ''config.json'')) (\<lambda>doc.
     io_bind (io_lift (json_index doc ''text_config'')) (\<lambda>cfg.
     io_bind (read_json loads (in_dir model_dir ''model.safetensors.index.json'')) (\<lambda>idx.
     io_bind (io_lift (weight_map_of idx)) (\<lambda>wm.
     io_bind (io_lift (cfg_int cfg ''first_k_dense_replace'')) (\<lambda>first_dense.
     io_bind (io_lift (cfg_int cfg ''moe_layer_freq'')) (\<lambda>freq. (\<lambda>s.
       let binp = in_dir out_dir ''trunk.bin''; idxp = in_dir out_dir ''trunk.idx'' in
       io_bind (io_lift (if appending then trunk_load_existing (s idxp) else Inr [])) (\<lambda>old.
       io_bind (io_lift (trunk_specs cfg first_dense freq
           (if include_globals then map fst global_names else globals) layers)) (\<lambda>specs.
         write_tensors (get_tensor open_tensor wm s model_dir) binp idxp
           (if appending then file_or_empty s binp else []) old specs)) s))))))))"

section \<open>The vision packer\<close>

definition VISION_KINDS :: "(string \<times> nat) list" where
  "VISION_KINDS = [(''patch_w'', 100), (''patch_b'', 101), (''pos'', 102), (''final_w'', 103), (''final_b'', 104),
     (''norm0_w'', 110), (''norm0_b'', 111), (''wqkv_w'', 112), (''wqkv_b'', 113), (''wo_w'', 114), (''wo_b'', 115),
     (''norm1_w'', 116), (''norm1_b'', 117), (''mlp0_w'', 118), (''mlp0_b'', 119), (''mlp1_w'', 120), (''mlp1_b'', 121),
     (''proj_norm_w'', 130), (''proj_norm_b'', 131), (''proj_l1_w'', 132), (''proj_l1_b'', 133),
     (''proj_l2_w'', 134), (''proj_l2_b'', 135)]"

definition vision_globals :: "(string \<times> string) list" where
  "vision_globals =
     [(''patch_w'', ''vision_tower.patch_embed.proj.weight''), (''patch_b'', ''vision_tower.patch_embed.proj.bias''),
      (''pos'', ''vision_tower.patch_embed.pos_emb.weight''),
      (''final_w'', ''vision_tower.encoder.final_layernorm.weight''), (''final_b'', ''vision_tower.encoder.final_layernorm.bias''),
      (''proj_norm_w'', ''multi_modal_projector.pre_norm.weight''), (''proj_norm_b'', ''multi_modal_projector.pre_norm.bias''),
      (''proj_l1_w'', ''multi_modal_projector.linear_1.weight''), (''proj_l1_b'', ''multi_modal_projector.linear_1.bias''),
      (''proj_l2_w'', ''multi_modal_projector.linear_2.weight''), (''proj_l2_b'', ''multi_modal_projector.linear_2.bias'')]"

definition vision_suffixes :: "(string \<times> string) list" where
  "vision_suffixes =
     [(''norm0_w'', ''norm0.weight''), (''norm0_b'', ''norm0.bias''), (''wqkv_w'', ''wqkv.weight''), (''wqkv_b'', ''wqkv.bias''),
      (''wo_w'', ''wo.weight''), (''wo_b'', ''wo.bias''), (''norm1_w'', ''norm1.weight''), (''norm1_b'', ''norm1.bias''),
      (''mlp0_w'', ''mlp.fc0.weight''), (''mlp0_b'', ''mlp.fc0.bias''), (''mlp1_w'', ''mlp.fc1.weight''), (''mlp1_b'', ''mlp.fc1.bias'')]"

definition vision_specs :: "nat \<Rightarrow> spec list" where
  "vision_specs n_layers =
     map (\<lambda>(k, n). (GLOBAL, the (map_of VISION_KINDS k), n)) vision_globals @
     concat (map (\<lambda>l. map (\<lambda>(k, suffix). (int l, the (map_of VISION_KINDS k),
                 ''vision_tower.encoder.blocks.'' @ show_nat l @ ''.'' @ suffix)) vision_suffixes) [0..<n_layers])"

definition pack_vision_main ::
  "(bytes \<Rightarrow> string \<Rightarrow> tensor_data res) \<Rightarrow> (string \<Rightarrow> json res) \<Rightarrow> string \<Rightarrow> string \<Rightarrow> nat io" where
  "pack_vision_main open_tensor loads model_dir out_dir =
     io_bind (read_json loads (in_dir model_dir ''config.json'')) (\<lambda>cfg.
     io_bind (io_lift (json_index cfg ''vision_config'')) (\<lambda>vcfg.
     io_bind (io_lift (cfg_int vcfg ''num_hidden_layers'')) (\<lambda>n_layers.
     io_bind (read_json loads (in_dir model_dir ''model.safetensors.index.json'')) (\<lambda>idx.
     io_bind (io_lift (weight_map_of idx)) (\<lambda>wm. (\<lambda>s.
       write_tensors (get_tensor open_tensor wm s model_dir) (in_dir out_dir ''vision.bin'') (in_dir out_dir ''vision.idx'')
         [] [] (vision_specs (nat n_layers)) s))))))"

section \<open>The format round-trips\<close>

lemma THDR_unpack_pack:
  assumes "THDR_pack h = Inr bs" "length (th_magic h) = 8"
  shows "length bs = THDR_SIZE \<and> THDR_unpack bs = h"
proof -
  from assms obtain b where b: "pack_fields thdr_widths (thdr_values h) = Inr b" "bs = th_magic h @ b"
    by (auto simp: THDR_pack_def rmap_eq_Inr)
  have v: "unpack_fields thdr_widths b = thdr_values h"
    using unpack_pack_fields [OF b(1), of "[]"] by simp
  have "length b = 32" using pack_fields_length [OF b(1)] by (simp add: thdr_widths_def)
  then show ?thesis
    using assms(2) by (simp add: THDR_unpack_def b(2) v thdr_values_def THDR_SIZE_def)
qed

interpretation trec_codec: codec TREC_pack TREC_unpack TREC_SIZE trec_fits
proof
  fix r show "trec_fits r \<Longrightarrow> \<exists>bs. TREC_pack r = Inr bs"
    by (simp add: trec_fits_def TREC_pack_def pack_fields_fit)
next
  fix r bs assume p: "TREC_pack r = Inr bs"
  then have f: "0 \<le> tr_layer r" "pack_fields trec_widths (trec_values r) = Inr bs"
    by (auto simp: TREC_pack_def split: if_splits)
  show "length bs = TREC_SIZE"
    using pack_fields_length [OF f(2)] by (simp add: TREC_SIZE_def trec_widths_def)
  have "unpack_fields trec_widths bs = trec_values r" using unpack_pack_fields [OF f(2), of "[]"] by simp
  then show "TREC_unpack bs = r" using f(1) by (simp add: TREC_unpack_def trec_values_def)
qed

lemma write_all_TREC_fits: "write_all TREC_pack out rs = (b, None) \<Longrightarrow> list_all trec_fits rs"
  by (induction rs arbitrary: out)
    (auto simp: TREC_pack_def trec_fits_def dest: pack_fields_Inr_fit split: sum.splits if_splits)

lemma trunk_index_reads:
  assumes "trunk_index recs n = Inr raw"
  shows "trunk_load_existing (Some raw) = Inr recs \<and> THDR_unpack (take THDR_SIZE raw) = trunk_header recs n \<and>
    length raw = THDR_SIZE + TREC_SIZE * length recs"
proof -
  obtain hb where hb: "THDR_pack (trunk_header recs n) = Inr hb" "write_all TREC_pack hb recs = (raw, None)"
  proof -
    from assms obtain hb where h: "THDR_pack (trunk_header recs n) = Inr hb"
      "(case write_all TREC_pack hb recs of (out, None) \<Rightarrow> Inr out | (out, Some e) \<Rightarrow> Inl e) = Inr raw"
      by (auto simp: trunk_index_def rbind_eq_Inr)
    obtain o' e' where "write_all TREC_pack hb recs = (o', e')" by (metis surj_pair)
    with h that show ?thesis by (cases e') auto
  qed
  have u: "length hb = THDR_SIZE" "THDR_unpack hb = trunk_header recs n"
    using THDR_unpack_pack [OF hb(1)] by (simp_all add: trunk_header_def TMAGIC_def ascii_encode_def)
  have t: "length raw = THDR_SIZE + TREC_SIZE * length recs" "take THDR_SIZE raw = hb"
    "unpack_table TREC_unpack TREC_SIZE raw THDR_SIZE (length recs) = Inr recs"
    using trec_codec.table_roundtrip [OF write_all_TREC_fits [OF hb(2)] hb(2)] u(1) by simp_all
  then have "trunk_load_existing (Some raw) = Inr recs"
    by (simp add: trunk_load_existing_def u(2)) (simp add: trunk_header_def)
  then show ?thesis by (simp add: t u(2))
qed

section \<open>What a run writes\<close>

text \<open>\<open>tholds out r td\<close>: the record describes the tensor and its aligned place holds the tensor's bytes.\<close>

definition tholds :: "bytes \<Rightarrow> trec \<Rightarrow> tensor_data \<Rightarrow> bool" where
  "tholds out r td =
     (tr_payload r = length (fst td) \<and> tr_ndim r = length (snd td) \<and> tr_dtype r = DT_BF16
      \<and> ALIGN dvd tr_at r \<and> tr_read r = align_up (tr_payload r) ALIGN \<and> tr_at r + tr_read r \<le> length out
      \<and> take (tr_payload r) (drop (tr_at r) out) = fst td
      \<and> [tr_dim0 r, tr_dim1 r, tr_dim2 r, tr_dim3 r] = take 4 (snd td @ [0, 0, 0, 0]))"

lemma tholds_extend: "tholds out r td \<Longrightarrow> tholds (out @ ext) r td"
  using align_up_ge [of ALIGN "tr_payload r"] by (auto simp: tholds_def)

lemma put_tensor_holds:
  assumes "put_tensor layer kind td out = (out', r)"
  shows "rec_key r = (layer, kind) \<and> tholds out' r td \<and> length out \<le> tr_at r \<and> (\<exists>ext. out' = out @ ext)
    \<and> tr_at r + tr_read r = length out'"
proof -
  obtain data shape where td: "td = (data, shape)" by (cases td)
  define p where "p = pad_to ALIGN out"
  define dims where "dims = take 4 (take 4 shape @ [0, 0, 0, 0])"
  have out': "out' = p @ data @ replicate (align_up (length data) ALIGN - length data) 0"
    and r: "r = \<lparr> tr_layer = layer, tr_kind = kind, tr_dtype = DT_BF16, tr_ndim = length shape,
             tr_dim0 = dims ! 0, tr_dim1 = dims ! 1, tr_dim2 = dims ! 2, tr_dim3 = dims ! 3,
             tr_at = length p, tr_read = align_up (length data) ALIGN, tr_payload = length data \<rparr>"
    using assms by (auto simp: put_tensor_def td Let_def p_def dims_def)
  have ge: "length data \<le> align_up (length data) ALIGN" by (simp add: align_up_ge)
  have dims': "dims = take 4 (shape @ [0, 0, 0, 0])" by (simp add: dims_def take_append min_def)
  have "length dims = 4" by (simp add: dims')
  then have "[dims ! 0, dims ! 1, dims ! 2, dims ! 3] = dims"
    by (intro nth_equalityI) (auto simp: less_Suc_eq numeral_eq_Suc)
  moreover have "length out \<le> length p" by (simp add: p_def align_up_ge)
  moreover have "ALIGN dvd length p" by (simp add: p_def)
  moreover have "\<exists>ext. out' = out @ ext" by (simp add: out' p_def pad_to_def)
  ultimately show ?thesis using ge by (simp add: rec_key_def tholds_def r td out' dims')
qed

lemma put_tensors_holds:
  assumes "put_tensors get existing specs out recs = (out', recs', None)"
  shows "\<exists>new ext. recs' = recs @ new \<and> out' = out @ ext
    \<and> list_all2 (\<lambda>(layer, kind, name) r. rec_key r = (layer, kind) \<and> (\<exists>td. get name = Inr td \<and> tholds out' r td)
         \<and> length out \<le> tr_at r) (filter (\<lambda>(layer, kind, name). (layer, kind) \<notin> existing) specs) new
    \<and> sorted_wrt (\<lambda>a b. tr_at a + tr_read a \<le> tr_at b) new"
  using assms
proof (induction get existing specs out recs rule: put_tensors.induct)
  case (1 get existing out recs)
  then show ?case by simp
next
  case (2 get existing layer kind name specs out recs)
  show ?case
  proof (cases "(layer, kind) \<in> existing")
    case True
    then show ?thesis using 2 by simp
  next
    case False
    obtain td o1 r where g: "get name = Inr td" "put_tensor layer kind td out = (o1, r)"
      and rest: "put_tensors get existing specs o1 (recs @ [r]) = (out', recs', None)"
      using 2(3) False by (auto split: sum.splits prod.splits)
    note h = put_tensor_holds [OF g(2)]
    from 2(2) [OF False g(1) g(2) [symmetric] rest] obtain new ext where
      ih: "recs' = (recs @ [r]) @ new" "out' = o1 @ ext"
      "list_all2 (\<lambda>(layer, kind, name) r. rec_key r = (layer, kind) \<and> (\<exists>td. get name = Inr td \<and> tholds out' r td)
         \<and> length o1 \<le> tr_at r) (filter (\<lambda>(layer, kind, name). (layer, kind) \<notin> existing) specs) new"
      "sorted_wrt (\<lambda>a b. tr_at a + tr_read a \<le> tr_at b) new" by auto
    obtain e0 where e0: "o1 = out @ e0" using h by blast
    have "\<forall>b \<in> set new. tr_at r + tr_read r \<le> tr_at b"
    proof
      fix b assume "b \<in> set new"
      then obtain i where i: "i < length new" "new ! i = b" by (auto simp: in_set_conv_nth)
      then have "length o1 \<le> tr_at b"
        using list_all2_nthD2 [OF ih(3) i(1)] by (auto split: prod.splits)
      then show "tr_at r + tr_read r \<le> tr_at b" using h by simp
    qed
    moreover have "tholds out' r td" unfolding ih(2) using h tholds_extend by blast
    moreover have "list_all2 (\<lambda>(layer, kind, name) r. rec_key r = (layer, kind) \<and> (\<exists>td. get name = Inr td \<and> tholds out' r td)
         \<and> length out \<le> tr_at r) (filter (\<lambda>(layer, kind, name). (layer, kind) \<notin> existing) specs) new"
      using ih(3) by (rule list_all2_mono) (auto simp: e0)
    ultimately show ?thesis
      using False g(1) h ih(1,2,4) e0
      by (intro exI [of _ "r # new"] exI [of _ "e0 @ ext"]) (auto simp del: split_paired_Ex)
  qed
qed

lemma write_tensors_result:
  assumes "write_tensors get binp idxp base old specs s = (Inr n, s')"
  shows "\<exists>out new blob. s' = s(binp \<mapsto> out, idxp \<mapsto> blob) \<and> trunk_index (old @ new) (length out) = Inr blob
    \<and> n = length (old @ new) \<and> (\<exists>ext. out = base @ ext)
    \<and> list_all2 (\<lambda>(layer, kind, name) r. rec_key r = (layer, kind) \<and> (\<exists>td. get name = Inr td \<and> tholds out r td)
         \<and> length base \<le> tr_at r) (filter (\<lambda>(layer, kind, name). (layer, kind) \<notin> rec_key ` set old) specs) new
    \<and> sorted_wrt (\<lambda>a b. tr_at a + tr_read a \<le> tr_at b) new"
proof -
  obtain out recs err where p: "put_tensors get (rec_key ` set old) specs base old = (out, recs, err)"
    by (metis prod_cases3)
  have err: "err = None" using assms by (cases err) (auto simp: write_tensors_def p io_bind_def write_out_def)
  obtain blob where b: "trunk_index recs (length out) = Inr blob" "s' = s(binp \<mapsto> out, idxp \<mapsto> blob)" "n = length recs"
    using assms by (auto simp: write_tensors_def p err io_bind_def write_out_def io_lift_def write_bytes_def split: sum.splits)
  show ?thesis using put_tensors_holds [OF p [unfolded err]] b by blast
qed

section \<open>Runs of the trunk packer\<close>

lemma trunk_paths:
  "in_dir d ''trunk.bin'' \<noteq> in_dir e ''trunk.idx''" "in_dir d ''config.json'' \<noteq> in_dir e ''trunk.idx''"
  "in_dir d ''config.json'' \<noteq> in_dir e ''trunk.bin''" "in_dir d ''model.safetensors.index.json'' \<noteq> in_dir e ''trunk.idx''"
  "in_dir d ''model.safetensors.index.json'' \<noteq> in_dir e ''trunk.bin''"
  by (rule in_dir_neq; simp)+

text \<open>What a successful run read, and what it wrote.\<close>

lemma pack_trunk_InrD:
  assumes "pack_trunk_main open_tensor loads md od la ig gs app s = (Inr n, s')"
  obtains layers doc cfg idx wm first_dense freq old specs where
    "parse_layers la = Inr layers" "read_json loads (in_dir md ''config.json'') s = (Inr doc, s)"
    "json_index doc ''text_config'' = Inr cfg"
    "read_json loads (in_dir md ''model.safetensors.index.json'') s = (Inr idx, s)" "weight_map_of idx = Inr wm"
    "cfg_int cfg ''first_k_dense_replace'' = Inr first_dense" "cfg_int cfg ''moe_layer_freq'' = Inr freq"
    "(if app then trunk_load_existing (s (in_dir od ''trunk.idx'')) else Inr []) = Inr old"
    "trunk_specs cfg first_dense freq (if ig then map fst global_names else gs) layers = Inr specs"
    "write_tensors (get_tensor open_tensor wm s md) (in_dir od ''trunk.bin'') (in_dir od ''trunk.idx'')
       (if app then file_or_empty s (in_dir od ''trunk.bin'') else []) old specs s = (Inr n, s')"
proof -
  have rj: "io_bind (read_json loads p) f s = (Inr y, t) \<longleftrightarrow> (\<exists>x. read_json loads p s = (Inr x, s) \<and> f x s = (Inr y, t))"
    for p y t and f :: "json \<Rightarrow> nat io"
    by (auto simp: io_bind_eq_Inr dest: read_json_state)
  show ?thesis
    using assms that unfolding pack_trunk_main_def Let_def io_bind_lift_iff rj by blast
qed

text \<open>What a run asks for: the weight map and the tensors, in order, from the arguments and the two JSON files.\<close>

definition trunk_inputs ::
  "(string \<Rightarrow> json res) \<Rightarrow> string \<Rightarrow> string \<Rightarrow> bool \<Rightarrow> string list \<Rightarrow> fs \<Rightarrow> ((string \<times> string) list \<times> spec list) res" where
  "trunk_inputs loads model_dir layers_arg include_globals globals s =
     rbind (parse_layers layers_arg) (\<lambda>layers.
     rbind (fst (read_json loads (in_dir model_dir ''config.json'') s)) (\<lambda>doc.
     rbind (json_index doc ''text_config'') (\<lambda>cfg.
     rbind (fst (read_json loads (in_dir model_dir ''model.safetensors.index.json'') s)) (\<lambda>idx.
     rbind (weight_map_of idx) (\<lambda>wm.
     rbind (cfg_int cfg ''first_k_dense_replace'') (\<lambda>first_dense.
     rbind (cfg_int cfg ''moe_layer_freq'') (\<lambda>freq.
     rmap (Pair wm) (trunk_specs cfg first_dense freq (if include_globals then map fst global_names else globals) layers))))))))"

lemma pack_trunk_run:
  assumes "parse_layers la = Inr layers" "read_json loads (in_dir md ''config.json'') s = (Inr doc, s)"
    "json_index doc ''text_config'' = Inr cfg"
    "read_json loads (in_dir md ''model.safetensors.index.json'') s = (Inr idx, s)" "weight_map_of idx = Inr wm"
    "cfg_int cfg ''first_k_dense_replace'' = Inr first_dense" "cfg_int cfg ''moe_layer_freq'' = Inr freq"
    "(if app then trunk_load_existing (s (in_dir od ''trunk.idx'')) else Inr []) = Inr old"
    "trunk_specs cfg first_dense freq (if ig then map fst global_names else gs) layers = Inr specs"
  shows "pack_trunk_main open_tensor loads md od la ig gs app s =
    write_tensors (get_tensor open_tensor wm s md) (in_dir od ''trunk.bin'') (in_dir od ''trunk.idx'')
       (if app then file_or_empty s (in_dir od ''trunk.bin'') else []) old specs s"
  using assms
  by (simp only: pack_trunk_main_def Let_def io_bind_lift_app sum.case
      io_bind_Inr [where m = "read_json loads (in_dir md ''config.json'')"]
      io_bind_Inr [where m = "read_json loads (in_dir md ''model.safetensors.index.json'')"])

lemma read_json_cong: "s p = t p \<Longrightarrow> read_json loads p s = (r, s) \<Longrightarrow> read_json loads p t = (r, t)"
  by (auto simp: read_json_def io_bind_def read_text_app io_lift_def split: sum.splits)

lemma list_all2_keys:
  assumes "list_all2 (\<lambda>(l, k, n) r. rec_key r = (l, k) \<and> Q l k n r) xs new"
  shows "rec_key ` set new = (\<lambda>(l, k, n). (l, k)) ` set xs"
  using assms by (induction xs new rule: list_all2_induct) auto

lemma put_tensors_none:
  "\<forall>(l, k, n) \<in> set specs. (l, k) \<in> existing \<Longrightarrow> put_tensors get existing specs out recs = (out, recs, None)"
  by (induction get existing specs out recs rule: put_tensors.induct) auto

lemma pack_trunk_again:
  assumes "pack_trunk_main open_tensor loads md od la ig gs app s = (Inr n, s')"
  shows "pack_trunk_main open_tensor loads md od la ig gs True s' = (Inr n, s')"
  using assms
proof (rule pack_trunk_InrD)
  fix layers doc cfg idx wm first_dense freq old specs
  let ?bin = "in_dir od ''trunk.bin''" and ?idx = "in_dir od ''trunk.idx''"
  assume a: "parse_layers la = Inr layers" "read_json loads (in_dir md ''config.json'') s = (Inr doc, s)"
    "json_index doc ''text_config'' = Inr cfg"
    "read_json loads (in_dir md ''model.safetensors.index.json'') s = (Inr idx, s)" "weight_map_of idx = Inr wm"
    "cfg_int cfg ''first_k_dense_replace'' = Inr first_dense" "cfg_int cfg ''moe_layer_freq'' = Inr freq"
    "(if app then trunk_load_existing (s ?idx) else Inr []) = Inr old"
    "trunk_specs cfg first_dense freq (if ig then map fst global_names else gs) layers = Inr specs"
    and w: "write_tensors (get_tensor open_tensor wm s md) ?bin ?idx
       (if app then file_or_empty s ?bin else []) old specs s = (Inr n, s')"
  obtain out new blob where r: "s' = s(?bin \<mapsto> out, ?idx \<mapsto> blob)" "trunk_index (old @ new) (length out) = Inr blob"
    "n = length (old @ new)"
    "list_all2 (\<lambda>(layer, kind, name) r. rec_key r = (layer, kind)
         \<and> (\<exists>td. get_tensor open_tensor wm s md name = Inr td \<and> tholds out r td)
         \<and> length (if app then file_or_empty s ?bin else []) \<le> tr_at r)
       (filter (\<lambda>(layer, kind, name). (layer, kind) \<notin> rec_key ` set old) specs) new"
    using write_tensors_result [OF w] by blast
  have same: "s (in_dir md ''config.json'') = s' (in_dir md ''config.json'')"
    "s (in_dir md ''model.safetensors.index.json'') = s' (in_dir md ''model.safetensors.index.json'')"
    using trunk_paths(2-5) by (simp_all add: r(1))
  have ld: "trunk_load_existing (s' ?idx) = Inr (old @ new)" using trunk_index_reads [OF r(2)] by (simp add: r(1))
  have base: "file_or_empty s' ?bin = out" using trunk_paths(1) by (simp add: r(1) file_or_empty_def)
  have "\<forall>(l, k, nm) \<in> set specs. (l, k) \<in> rec_key ` set (old @ new)"
    using list_all2_keys [OF r(4)] by force
  then have put: "put_tensors g (rec_key ` set (old @ new)) specs out (old @ new) = (out, old @ new, None)" for g
    by (rule put_tensors_none)
  have j: "read_json loads (in_dir md ''config.json'') s' = (Inr doc, s')"
    "read_json loads (in_dir md ''model.safetensors.index.json'') s' = (Inr idx, s')"
    by (rule read_json_cong [of s _ s'], rule same, rule a)+
  have "pack_trunk_main open_tensor loads md od la ig gs True s' =
      write_tensors (get_tensor open_tensor wm s' md) ?bin ?idx out (old @ new) specs s'"
    using pack_trunk_run [OF a(1) j(1) a(3) j(2) a(5-7), where app = True, OF _ a(9)] ld base by simp
  also have "\<dots> = (Inr n, s'(?bin \<mapsto> out, ?idx \<mapsto> blob))"
    by (simp add: write_tensors_def put [unfolded set_append] io_bind_def write_out_def io_lift_def r(2,3) write_bytes_def)
  also have "s'(?bin \<mapsto> out, ?idx \<mapsto> blob) = s'" using trunk_paths(1) by (auto simp: r(1))
  finally show ?thesis .
qed

section \<open>The vision store\<close>

lemma vision_paths: "in_dir d ''vision.bin'' \<noteq> in_dir e ''vision.idx''"
  by (rule in_dir_neq; simp)

lemma vision_keys_distinct: "distinct (map (\<lambda>(l, k, n). (l, k)) (vision_specs n))"
proof -
  define ks where "ks = map (\<lambda>(k, suffix). the (map_of VISION_KINDS k)) vision_suffixes"
  define gk where "gk = map (\<lambda>(k, nm). the (map_of VISION_KINDS k)) vision_globals"
  have d: "distinct ks" "distinct gk" "set ks \<inter> set gk = {}" by (simp_all add: ks_def gk_def) (code_simp)+
  have eq: "map (\<lambda>(l, k, n). (l, k)) (vision_specs n) = map (Pair GLOBAL) gk @ concat (map (\<lambda>l. map (Pair (int l)) ks) [0..<n])"
    by (simp add: vision_specs_def gk_def ks_def map_concat comp_def case_prod_unfold)
  have "distinct (concat (map (\<lambda>l. map (Pair (int l)) ks) ls))" if "distinct ls" for ls :: "nat list"
    using that d(1) by (induction ls) (auto simp: distinct_map inj_on_def)
  then show ?thesis
    unfolding eq using d by (auto simp: distinct_map inj_on_def)
qed

section \<open>A concrete model\<close>

definition ex_trunk_loads :: "string \<Rightarrow> json res" where
  "ex_trunk_loads t =
     (if t = ''C'' then Inr (JObj [(''text_config'', JObj [(''first_k_dense_replace'', JInt 1), (''moe_layer_freq'', JInt 1),
          (''n_routed_experts'', JInt 64)]), (''vision_config'', JObj [(''num_hidden_layers'', JInt 0)])])
      else Inr (JObj [(''weight_map'', JObj (map (\<lambda>(k, n). (n, JStr ''a'')) (global_names @ vision_globals)))]))"

definition ex_open :: "bytes \<Rightarrow> string \<Rightarrow> tensor_data res" where
  "ex_open bs name = Inr ([5, 6], [1])"

definition ex_trunk_fs :: fs where
  "ex_trunk_fs = [''m/config.json'' \<mapsto> ascii_encode ''C'', ''m/model.safetensors.index.json'' \<mapsto> ascii_encode ''I'', ''m/a'' \<mapsto> []]"

lemma ex_trunk_runs:
  "\<exists>s'. pack_trunk_main ex_open ex_trunk_loads ''m'' ''o'' [] False [''final_norm''] False ex_trunk_fs = (Inr 1, s')"
proof -
  let ?cfg = "JObj [(''first_k_dense_replace'', JInt 1), (''moe_layer_freq'', JInt 1), (''n_routed_experts'', JInt 64)]"
  let ?wm = "map (\<lambda>(k, n). (n, ''a'')) (global_names @ vision_globals)"
  have t: "ascii_decode (ascii_encode ''C'') = Inr ''C''" "ascii_decode (ascii_encode ''I'') = Inr ''I''"
    by (rule ascii_roundtrip, code_simp)+
  have c: "read_json ex_trunk_loads ''m/config.json'' ex_trunk_fs
      = (Inr (JObj [(''text_config'', ?cfg), (''vision_config'', JObj [(''num_hidden_layers'', JInt 0)])]), ex_trunk_fs)"
    by (simp add: read_json_def io_bind_def read_text_app ex_trunk_fs_def t ex_trunk_loads_def)
  have i: "read_json ex_trunk_loads ''m/model.safetensors.index.json'' ex_trunk_fs
      = (Inr (JObj [(''weight_map'', JObj (map (\<lambda>(k, n). (n, JStr ''a'')) (global_names @ vision_globals)))]), ex_trunk_fs)"
    by (simp add: read_json_def io_bind_def read_text_app ex_trunk_fs_def t ex_trunk_loads_def)
  have wm: "weight_map_of (JObj [(''weight_map'', JObj (map (\<lambda>(k, n). (n, JStr ''a'')) (global_names @ vision_globals)))])
      = Inr ?wm"
    by (simp add: weight_map_of_def json_items_def global_names_def vision_globals_def json_str_def)
  have pl: "parse_layers [] = Inr []" by code_simp
  let ?specs = "[(GLOBAL, 2, ''language_model.model.norm.weight'')] :: spec list"
  have sp: "trunk_specs ?cfg 1 1 [''final_norm''] [] = Inr ?specs"
    by (simp add: trunk_specs_def key_spec_def KINDS_def global_names_def)
  define get where "get = get_tensor ex_open ?wm ex_trunk_fs ''m''"
  have g: "get ''language_model.model.norm.weight'' = Inr ([5, 6], [1])"
    by (simp add: get_def get_tensor_def ex_open_def global_names_def vision_globals_def in_dir_def ex_trunk_fs_def)
  define r where "r = \<lparr> tr_layer = GLOBAL, tr_kind = 2, tr_dtype = 1, tr_ndim = 1, tr_dim0 = 1, tr_dim1 = 0, tr_dim2 = 0,
      tr_dim3 = 0, tr_at = 0, tr_read = 4096, tr_payload = 2 \<rparr>"
  have put: "put_tensors get {} ?specs [] [] = ([5, 6] @ replicate 4094 0, [r], None)"
    by (simp add: g put_tensor_def Let_def align_up_def ALIGN_def pad_to_def r_def DT_BF16_def)
  have "trec_fits r" by (simp add: trec_fits_def r_def GLOBAL_def fields_fit_def trec_widths_def trec_values_def)
  moreover have "fields_fit thdr_widths (thdr_values (trunk_header [r] 4096))"
    by (simp add: trunk_header_def fields_fit_def thdr_widths_def thdr_values_def VERSION_def ALIGN_def THDR_SIZE_def)
  then obtain hb where "THDR_pack (trunk_header [r] 4096) = Inr hb" using pack_fields_fit by (fastforce simp: THDR_pack_def)
  ultimately obtain blob where "trunk_index [r] 4096 = Inr blob"
    using trec_codec.write_all_ok [of "[r]" hb] by (fastforce simp: trunk_index_def)
  then have w: "\<exists>s'. write_tensors get (in_dir ''o'' ''trunk.bin'') (in_dir ''o'' ''trunk.idx'')
      [] [] ?specs ex_trunk_fs = (Inr 1, s')"
    using put by (simp add: write_tensors_def io_bind_def write_out_def io_lift_def write_bytes_def)
  show ?thesis
    using w [unfolded get_def] pack_trunk_run [of "[]" "[]" ex_trunk_loads "''m''" ex_trunk_fs _ ?cfg _ ?wm 1 1 False "''o''" "[]" False "[''final_norm'']" ?specs]
      pl c i wm sp by (simp add: in_dir_def cfg_int_def)
qed

section \<open>Properties\<close>

text \<open>C20: the trunk packer is append-safe and copies exactly. After a successful run the data file is what was
  there (when appending) followed by new data; the index reads back as the old records followed by one record
  per requested tensor that was missing, in order; each new record lies behind the old data, does not overlap
  the next, and holds the BF16 bytes and the shape of its tensor.\<close>

theorem trunk_packer_exact:
  assumes "pack_trunk_main open_tensor loads model_dir out_dir layers_arg include_globals globals appending s = (Inr n, s')"
  shows "\<exists>wm specs old out ext new blob. trunk_inputs loads model_dir layers_arg include_globals globals s = Inr (wm, specs)
   \<and> (if appending then trunk_load_existing (s (in_dir out_dir ''trunk.idx'')) else Inr []) = Inr old
   \<and> s' = s(in_dir out_dir ''trunk.bin'' \<mapsto> out, in_dir out_dir ''trunk.idx'' \<mapsto> blob)
   \<and> out = (if appending then file_or_empty s (in_dir out_dir ''trunk.bin'') else []) @ ext
   \<and> trunk_load_existing (Some blob) = Inr (old @ new) \<and> n = length (old @ new)
   \<and> list_all2 (\<lambda>(layer, kind, name) r. rec_key r = (layer, kind)
        \<and> (\<exists>td. get_tensor open_tensor wm s model_dir name = Inr td \<and> tholds out r td) \<and> length out - length ext \<le> tr_at r)
       (filter (\<lambda>(layer, kind, name). (layer, kind) \<notin> rec_key ` set old) specs) new
   \<and> sorted_wrt (\<lambda>a b. tr_at a + tr_read a \<le> tr_at b) new"
  using assms
proof (rule pack_trunk_InrD)
  fix layers doc cfg idx wm first_dense freq old specs
  assume i: "parse_layers layers_arg = Inr layers" "read_json loads (in_dir model_dir ''config.json'') s = (Inr doc, s)"
    "json_index doc ''text_config'' = Inr cfg"
    "read_json loads (in_dir model_dir ''model.safetensors.index.json'') s = (Inr idx, s)" "weight_map_of idx = Inr wm"
    "cfg_int cfg ''first_k_dense_replace'' = Inr first_dense" "cfg_int cfg ''moe_layer_freq'' = Inr freq"
    "trunk_specs cfg first_dense freq (if include_globals then map fst global_names else globals) layers = Inr specs"
  assume o: "(if appending then trunk_load_existing (s (in_dir out_dir ''trunk.idx'')) else Inr []) = Inr old"
    and w: "write_tensors (get_tensor open_tensor wm s model_dir) (in_dir out_dir ''trunk.bin'') (in_dir out_dir ''trunk.idx'')
       (if appending then file_or_empty s (in_dir out_dir ''trunk.bin'') else []) old specs s = (Inr n, s')"
  let ?base = "if appending then file_or_empty s (in_dir out_dir ''trunk.bin'') else []"
  from write_tensors_result [OF w] obtain out new blob ext where
    r: "s' = s(in_dir out_dir ''trunk.bin'' \<mapsto> out, in_dir out_dir ''trunk.idx'' \<mapsto> blob)"
      "trunk_index (old @ new) (length out) = Inr blob" "n = length (old @ new)" "out = ?base @ ext"
      "sorted_wrt (\<lambda>a b. tr_at a + tr_read a \<le> tr_at b) new"
    and l: "list_all2 (\<lambda>(layer, kind, name) r. rec_key r = (layer, kind)
        \<and> (\<exists>td. get_tensor open_tensor wm s model_dir name = Inr td \<and> tholds out r td) \<and> length ?base \<le> tr_at r)
       (filter (\<lambda>(layer, kind, name). (layer, kind) \<notin> rec_key ` set old) specs) new"
    by blast
  have "trunk_inputs loads model_dir layers_arg include_globals globals s = Inr (wm, specs)"
    by (simp only: trunk_inputs_def i rbind_Inr rmap_Inr fst_conv)
  moreover have "length out - length ext = length ?base" using r(4) by simp
  ultimately show ?thesis using o r(1,3,4,5) l trunk_index_reads [OF r(2)]
    by (intro exI [of _ wm] exI [of _ specs] exI [of _ old] exI [of _ out] exI [of _ ext] exI [of _ new] exI [of _ blob])
      (simp only: simp_thms)
qed

theorem trunk_packer_exact_witness:
  "\<exists>s' out recs. pack_trunk_main ex_open ex_trunk_loads ''m'' ''o'' [] False [''final_norm''] False ex_trunk_fs = (Inr 1, s')
     \<and> s' (in_dir ''o'' ''trunk.bin'') = Some out \<and> trunk_load_existing (s' (in_dir ''o'' ''trunk.idx'')) = Inr recs \<and> length recs = 1"
proof -
  obtain s' where run: "pack_trunk_main ex_open ex_trunk_loads ''m'' ''o'' [] False [''final_norm''] False ex_trunk_fs = (Inr 1, s')"
    using ex_trunk_runs by blast
  show ?thesis using run trunk_packer_exact [OF run] trunk_paths(1) by fastforce
qed

text \<open>Running the trunk packer again with the append flag right after a success changes no file and returns
  the same record count.\<close>

theorem trunk_packer_idempotent:
  assumes "pack_trunk_main open_tensor loads model_dir out_dir layers_arg include_globals globals appending s = (Inr n, s')"
  shows "pack_trunk_main open_tensor loads model_dir out_dir layers_arg include_globals globals True s' = (Inr n, s')"
  by (rule pack_trunk_again [OF assms])

theorem trunk_packer_idempotent_witness:
  "\<exists>s'. pack_trunk_main ex_open ex_trunk_loads ''m'' ''o'' [] False [''final_norm''] False ex_trunk_fs = (Inr 1, s')
     \<and> pack_trunk_main ex_open ex_trunk_loads ''m'' ''o'' [] False [''final_norm''] True s' = (Inr 1, s')"
proof -
  obtain s' where run: "pack_trunk_main ex_open ex_trunk_loads ''m'' ''o'' [] False [''final_norm''] False ex_trunk_fs = (Inr 1, s')"
    using ex_trunk_runs by blast
  show ?thesis using run trunk_packer_idempotent [OF run] by blast
qed

text \<open>C21: the vision packer's table gives every tensor of the vision tower its own (layer, kind) key, for any
  number of encoder blocks, so no record of a vision index can hide another.\<close>

theorem vision_keys_unique:
  "distinct (map (\<lambda>(layer, kind, name). (layer, kind)) (vision_specs n_layers)) \<and> length (vision_specs n_layers) = 11 + 12 * n_layers"
proof -
  have "length (concat (map (\<lambda>l. map (f l) vision_suffixes) ls)) = 12 * length ls" for f :: "nat \<Rightarrow> string \<times> string \<Rightarrow> spec" and ls
    by (induction ls) (simp_all add: vision_suffixes_def)
  then show ?thesis using vision_keys_distinct by (simp add: vision_specs_def vision_globals_def)
qed

end
