(* ===== verification/TextConverter.thy ===== *)
theory TextConverter
  imports TrunkStore
begin

text \<open>
  \<^verbatim>\<open>tools/pack_full_text.py\<close>: the converter that downloads checkpoint shards in name order, packs every layer as
  soon as all its shards are there and deletes the shards nothing needs any more. Downloading and running the
  packers as child processes are parameters (\<open>fetch\<close>, \<open>exec\<close>), with a trace of what was done in the state; that
  a packer leaves its index file behind is what \<open>TrunkStore\<close> and \<open>PackExperts\<close> prove.
\<close>

section \<open>Requirements\<close>

definition layer_dot :: "nat \<Rightarrow> string" where
  "layer_dot L = ''language_model.model.layers.'' @ show_nat L @ ''.''"

text \<open>With routed experts: every shard that holds a tensor of the layer.\<close>

definition full_req :: "(string \<times> string) list \<Rightarrow> nat \<Rightarrow> string set res" where
  "full_req wm L =
     (let shards = map snd (filter (\<lambda>(k, s). starts_with k (layer_dot L)) wm) in
      if shards = [] then Inl (SystemExit ''no tensors for layer'') else Inr (set shards))"

text \<open>Without: the shards of the tensors \<^verbatim>\<open>pack_trunk.py\<close> will ask for.\<close>

definition trunk_req :: "(string \<times> string) list \<Rightarrow> int \<Rightarrow> int \<Rightarrow> int \<Rightarrow> nat \<Rightarrow> string set res" where
  "trunk_req wm first_dense freq n_routed L =
     rbind (if n_routed > 0 \<and> int L \<ge> first_dense then rmap (\<lambda>m. m = 0) (py_mod (int L) freq) else Inr False) (\<lambda>moe.
       let names = map snd (tensor_spec (int L) (\<not> moe)) in
       if \<exists>n \<in> set names. map_of wm n = None then Inl (SystemExit ''missing trunk tensors for layer'')
       else Inr ((\<lambda>n. the (map_of wm n)) ` set names))"

datatype expert_format = Bf16 | Q8 | Q5 | NoExperts

definition layer_reqs :: "expert_format \<Rightarrow> json \<Rightarrow> (string \<times> string) list \<Rightarrow> nat list \<Rightarrow> string set list res" where
  "layer_reqs fmt cfg wm layers =
     (if fmt = NoExperts then
        rbind (cfg_int cfg ''first_k_dense_replace'') (\<lambda>first_dense. rbind (cfg_int cfg ''moe_layer_freq'') (\<lambda>freq.
        rbind (cfg_int cfg ''n_routed_experts'') (\<lambda>n_routed. mapR (trunk_req wm first_dense freq n_routed) layers)))
      else mapR (full_req wm) layers)"

definition global_reqs :: "(string \<times> string) list \<Rightarrow> (string \<times> string) list res" where
  "global_reqs wm = mapR (\<lambda>(g, n). rmap (Pair g) (of_option (KeyError n) (map_of wm n))) global_names"

section \<open>State\<close>

datatype command =
    PackGlobal string bool
  | PackLayer nat bool
  | PackLayerExperts expert_format nat bool

datatype event = Fetched string | Ran command | Deleted string

record conv =
  cv_loaded :: "string set"
  cv_layers :: "nat set"
  cv_globals :: "string set"
  cv_progress :: bool
  cv_trunk_idx :: bool
  cv_experts_idx :: bool
  cv_trace :: "event list"

record conv_env =
  e_fetch :: "string \<Rightarrow> unit res"
  e_exec :: "command \<Rightarrow> unit res"
  e_cfg :: json
  e_format :: expert_format
  e_keep :: bool
  e_req :: "(nat \<times> string set) list"
  e_greq :: "(string \<times> string) list"

type_synonym act = "conv \<Rightarrow> exn option \<times> conv"

definition skip :: act where "skip st = (None, st)"

definition then_do :: "act \<Rightarrow> act \<Rightarrow> act" where
  "then_do a b st = (case a st of (None, st') \<Rightarrow> b st' | (Some e, st') \<Rightarrow> (Some e, st'))"

fun for_each :: "('a \<Rightarrow> act) \<Rightarrow> 'a list \<Rightarrow> act" where
  "for_each f [] = skip"
| "for_each f (x # xs) = then_do (f x) (for_each f xs)"

definition modify :: "(conv \<Rightarrow> conv) \<Rightarrow> act" where "modify f st = (None, f st)"

definition log_event :: "event \<Rightarrow> conv \<Rightarrow> conv" where
  "log_event ev st = st\<lparr>cv_trace := cv_trace st @ [ev]\<rparr>"

section \<open>The steps\<close>

definition fetch_shard :: "conv_env \<Rightarrow> string \<Rightarrow> act" where
  "fetch_shard E shard st = (case e_fetch E shard of
     Inl e \<Rightarrow> (Some e, st)
   | Inr _ \<Rightarrow> (None, log_event (Fetched shard) (st\<lparr>cv_loaded := insert shard (cv_loaded st)\<rparr>)))"

text \<open>\<^verbatim>\<open>run(cmd)\<close>: \<^verbatim>\<open>check=True\<close> raises when the child fails.\<close>

definition run_command :: "conv_env \<Rightarrow> command \<Rightarrow> act" where
  "run_command E c st = (case e_exec E c of
     Inl e \<Rightarrow> (Some e, log_event (Ran c) st)
   | Inr _ \<Rightarrow> (None, (case c of
        PackLayerExperts fmt L app \<Rightarrow> log_event (Ran c) (st\<lparr>cv_experts_idx := True\<rparr>)
      | _ \<Rightarrow> log_event (Ran c) (st\<lparr>cv_trunk_idx := True\<rparr>))))"

definition pack_global :: "conv_env \<Rightarrow> string \<times> string \<Rightarrow> act" where
  "pack_global E gs st = (case gs of (g, shard) \<Rightarrow>
     if g \<notin> cv_globals st \<and> shard \<in> cv_loaded st
     then then_do (run_command E (PackGlobal g (cv_trunk_idx st)))
            (modify (\<lambda>st. st\<lparr>cv_globals := insert g (cv_globals st)\<rparr>)) st
     else skip st)"

definition pack_layer_experts :: "conv_env \<Rightarrow> nat \<Rightarrow> act" where
  "pack_layer_experts E L st =
     (if e_format E = NoExperts then skip st
      else case cfg_int (e_cfg E) ''first_k_dense_replace'' of
          Inl e \<Rightarrow> (Some e, st)
        | Inr first_dense \<Rightarrow>
            if int L \<ge> first_dense then run_command E (PackLayerExperts (e_format E) L (cv_experts_idx st)) st
            else skip st)"

definition pack_layer :: "conv_env \<Rightarrow> nat \<times> string set \<Rightarrow> act" where
  "pack_layer E lr st = (case lr of (L, req) \<Rightarrow>
     if L \<in> cv_layers st \<or> \<not> req \<subseteq> cv_loaded st then skip st
     else then_do (run_command E (PackLayer L (cv_trunk_idx st)))
            (then_do (pack_layer_experts E L)
              (modify (\<lambda>st. st\<lparr>cv_layers := insert L (cv_layers st), cv_progress := True\<rparr>))) st)"

definition layer_pass :: "conv_env \<Rightarrow> act" where
  "layer_pass E st = for_each (pack_layer E) (e_req E) (st\<lparr>cv_progress := False\<rparr>)"

text \<open>Only the layer set and the progress flag matter for the loop \<^verbatim>\<open>while progress\<close>.\<close>

lemma run_command_layers: "run_command E c st = (r, st') \<Longrightarrow> cv_layers st' = cv_layers st \<and> cv_progress st' = cv_progress st"
  by (auto simp: run_command_def log_event_def split: sum.splits command.splits)

lemma pack_layer_layers:
  assumes "pack_layer E lr st = (r, st')"
  shows "cv_layers st \<subseteq> cv_layers st' \<and> cv_layers st' \<subseteq> insert (fst lr) (cv_layers st)
    \<and> (cv_progress st' \<longrightarrow> cv_progress st \<or> fst lr \<notin> cv_layers st \<and> fst lr \<in> cv_layers st')"
proof -
  obtain L req where lr: "lr = (L, req)" by (cases lr)
  show ?thesis
  proof (cases "L \<in> cv_layers st \<or> \<not> req \<subseteq> cv_loaded st")
    case True
    then show ?thesis using assms by (auto simp: pack_layer_def lr skip_def)
  next
    case False
    obtain r1 s1 where 1: "run_command E (PackLayer L (cv_trunk_idx st)) st = (r1, s1)" by (metis surj_pair)
    obtain r2 s2 where 2: "pack_layer_experts E L s1 = (r2, s2)" by (metis surj_pair)
    have "cv_layers s2 = cv_layers s1 \<and> cv_progress s2 = cv_progress s1"
      using 2 run_command_layers by (auto simp: pack_layer_experts_def skip_def split: if_splits sum.splits)
    then show ?thesis
      using False assms 1 2 run_command_layers [OF 1]
      by (cases r1; cases r2) (auto simp: pack_layer_def lr then_do_def modify_def)
  qed
qed

lemma for_pack_layers:
  assumes "for_each (pack_layer E) xs st = (r, st')"
  shows "cv_layers st \<subseteq> cv_layers st' \<and> cv_layers st' \<subseteq> fst ` set xs \<union> cv_layers st
    \<and> (cv_progress st' \<longrightarrow> cv_progress st \<or> cv_layers st \<noteq> cv_layers st')"
  using assms
proof (induction xs arbitrary: st)
  case Nil
  then show ?case by (simp add: skip_def)
next
  case (Cons x xs)
  obtain r1 s1 where 1: "pack_layer E x st = (r1, s1)" by (metis surj_pair)
  note p = pack_layer_layers [OF 1]
  show ?case
  proof (cases r1)
    case (Some e)
    then show ?thesis using Cons.prems 1 p by (auto simp: then_do_def)
  next
    case None
    then have "for_each (pack_layer E) xs s1 = (r, st')" using Cons.prems 1 by (simp add: then_do_def)
    note ih = Cons.IH [OF this]
    show ?thesis
    proof (intro conjI impI)
      show "cv_layers st \<subseteq> cv_layers st'" using ih p by blast
      show "cv_layers st' \<subseteq> fst ` set (x # xs) \<union> cv_layers st" using ih p by (simp, blast)
      assume "cv_progress st'"
      then show "cv_progress st \<or> cv_layers st \<noteq> cv_layers st'" using ih p by blast
    qed
  qed
qed

lemma layer_pass_layers:
  assumes "layer_pass E st = (r, st')"
  shows "cv_layers st \<subseteq> cv_layers st'" "cv_layers st' \<subseteq> fst ` set (e_req E) \<union> cv_layers st"
    "cv_progress st' \<Longrightarrow> cv_layers st \<noteq> cv_layers st'"
  using for_pack_layers [OF assms [unfolded layer_pass_def]] by auto

function pack_ready :: "conv_env \<Rightarrow> act" where
  "pack_ready E st =
     (case layer_pass E st of
        (Some e, st') \<Rightarrow> (Some e, st')
      | (None, st') \<Rightarrow> if cv_progress st' then pack_ready E st' else (None, st'))"
  by pat_completeness auto
termination
proof (relation "measure (\<lambda>(E, st). card (fst ` set (e_req E) - cv_layers st))", goal_cases)
  case (2 E st r st')
  then have l: "layer_pass E st = (None, st')" "cv_progress st'" by auto
  have "fst ` set (e_req E) - cv_layers st' \<subset> fst ` set (e_req E) - cv_layers st"
    using layer_pass_layers [OF l(1)] l(2) by blast
  then show ?case by (simp add: psubset_card_mono)
qed simp

declare pack_ready.simps [simp del]

definition still_needed :: "conv_env \<Rightarrow> conv \<Rightarrow> string set" where
  "still_needed E st = (\<Union>(L, req) \<in> {lr \<in> set (e_req E). fst lr \<notin> cv_layers st}. req)
     \<union> snd ` {gs \<in> set (e_greq E). fst gs \<notin> cv_globals st}"

definition drop_shard :: "string \<Rightarrow> conv \<Rightarrow> conv" where
  "drop_shard s st = log_event (Deleted s) (st\<lparr>cv_loaded := cv_loaded st - {s}\<rparr>)"

definition prune_shards :: "conv_env \<Rightarrow> act" where
  "prune_shards E st =
     (if e_keep E then skip st
      else (None, fold drop_shard (filter (\<lambda>s. s \<notin> still_needed E st) (sorted_list_of_set (cv_loaded st))) st))"

definition process_shard :: "conv_env \<Rightarrow> string \<Rightarrow> act" where
  "process_shard E shard = then_do (fetch_shard E shard)
     (then_do (for_each (pack_global E) (e_greq E)) (then_do (pack_ready E) (prune_shards E)))"

definition all_shards :: "conv_env \<Rightarrow> string list" where
  "all_shards E = sorted_list_of_set (\<Union> (snd ` set (e_req E)) \<union> snd ` set (e_greq E))"

definition conv_start :: "bool \<Rightarrow> bool \<Rightarrow> conv" where
  "conv_start trunk_idx experts_idx = \<lparr> cv_loaded = {}, cv_layers = {}, cv_globals = {}, cv_progress = False,
     cv_trunk_idx = trunk_idx, cv_experts_idx = experts_idx, cv_trace = [] \<rparr>"

definition check_complete :: "conv_env \<Rightarrow> act" where
  "check_complete E st =
     (if fst ` set (e_req E) - cv_layers st \<noteq> {} \<or> fst ` set global_names - cv_globals st \<noteq> {}
      then (Some (SystemExit ''incomplete conversion''), st) else (None, st))"

definition convert :: "conv_env \<Rightarrow> act" where
  "convert E = then_do (for_each (process_shard E) (all_shards E)) (check_complete E)"

text \<open>The set-up: the layers and the requirements from the configuration and the weight map.\<close>

definition max_layer :: "int \<Rightarrow> int option \<Rightarrow> int" where
  "max_layer n_layers arg = (case arg of None \<Rightarrow> n_layers - 1 | Some m \<Rightarrow> min m (n_layers - 1))"

definition conv_setup ::
  "(string \<Rightarrow> unit res) \<Rightarrow> (command \<Rightarrow> unit res) \<Rightarrow> json \<Rightarrow> (string \<times> string) list \<Rightarrow> expert_format \<Rightarrow> bool
     \<Rightarrow> int option \<Rightarrow> conv_env res" where
  "conv_setup fetch exec cfg wm fmt keep arg =
     rbind (cfg_int cfg ''num_hidden_layers'') (\<lambda>n_layers.
       let layers = [0..<nat (max_layer n_layers arg + 1)] in
       rbind (layer_reqs fmt cfg wm layers) (\<lambda>reqs. rbind (global_reqs wm) (\<lambda>greq.
         Inr \<lparr> e_fetch = fetch, e_exec = exec, e_cfg = cfg, e_format = fmt, e_keep = keep,
               e_req = zip layers reqs, e_greq = greq \<rparr>)))"

section \<open>Actions\<close>

lemma then_do_cases:
  "then_do a b st = (r, st') \<longleftrightarrow>
     (\<exists>s1. a st = (None, s1) \<and> b s1 = (r, st')) \<or> (\<exists>e. a st = (Some e, st') \<and> r = Some e)"
  by (cases "a st" rule: prod.exhaust; cases "fst (a st)") (auto simp: then_do_def)

text \<open>
  \<open>keeps I W a\<close>: from a state with \<open>I\<close> the action ends in a state with \<open>I\<close>, or raises in one with \<open>W\<close>.
\<close>

definition keeps :: "(conv \<Rightarrow> bool) \<Rightarrow> (conv \<Rightarrow> bool) \<Rightarrow> act \<Rightarrow> bool" where
  "keeps I W a = (\<forall>st r st'. a st = (r, st') \<longrightarrow> I st \<longrightarrow> (case r of None \<Rightarrow> I st' | Some e \<Rightarrow> W st'))"

lemma keeps_skip: "keeps I W skip"
  by (auto simp: keeps_def skip_def)


lemma keepsD: "keeps I W a \<Longrightarrow> a st = (r, st') \<Longrightarrow> I st \<Longrightarrow> (case r of None \<Rightarrow> I st' | Some e \<Rightarrow> W st')"
  by (auto simp: keeps_def)

lemma keeps_then_do:
  assumes "keeps I W a" "keeps I W b"
  shows "keeps I W (then_do a b)"
  unfolding keeps_def
proof (intro allI impI)
  fix st r st' assume t: "then_do a b st = (r, st')" "I st"
  obtain r1 s1 where 1: "a st = (r1, s1)" by (metis surj_pair)
  note k = keepsD [OF assms(1) 1 t(2)]
  show "case r of None \<Rightarrow> I st' | Some e \<Rightarrow> W st'"
  proof (cases r1)
    case None
    then have "b s1 = (r, st')" "I s1" using t(1) 1 k by (simp_all add: then_do_def)
    then show ?thesis by (rule keepsD [OF assms(2)])
  next
    case (Some e)
    then show ?thesis using t(1) 1 k by (auto simp: then_do_def)
  qed
qed

lemma keeps_for_each: "(\<And>x. x \<in> set xs \<Longrightarrow> keeps I W (f x)) \<Longrightarrow> keeps I W (for_each f xs)"
  by (induction xs) (auto simp: keeps_skip keeps_then_do)

definition total :: "act \<Rightarrow> bool" where "total a = (\<forall>st. fst (a st) = None)"

lemma total_skip [intro]: "total skip" by (simp add: total_def skip_def)

lemma total_then_do [intro]: "total a \<Longrightarrow> total b \<Longrightarrow> total (then_do a b)"
  unfolding total_def then_do_def by (simp add: split_beta)

lemma total_for_each [intro]: "(\<And>x. total (f x)) \<Longrightarrow> total (for_each f xs)"
  by (induction xs) auto

lemma totalD: "total a \<Longrightarrow> \<exists>st'. a st = (None, st')"
  unfolding total_def by (metis prod.collapse)

section \<open>The trace\<close>

definition replay :: "string set \<Rightarrow> event \<Rightarrow> string set" where
  "replay S ev = (case ev of Fetched s \<Rightarrow> insert s S | Deleted s \<Rightarrow> S - {s} | Ran c \<Rightarrow> S)"

definition on_disk :: "event list \<Rightarrow> string set" where "on_disk t = foldl replay {} t"

definition needs :: "conv_env \<Rightarrow> command \<Rightarrow> string set" where
  "needs E c = (case c of
     PackGlobal g app \<Rightarrow> {s. (g, s) \<in> set (e_greq E)}
   | PackLayer L app \<Rightarrow> \<Union> {req. (L, req) \<in> set (e_req E)}
   | PackLayerExperts fmt L app \<Rightarrow> \<Union> {req. (L, req) \<in> set (e_req E)})"

definition grounded :: "conv_env \<Rightarrow> event list \<Rightarrow> bool" where
  "grounded E t = (\<forall>p c q. t = p @ Ran c # q \<longrightarrow> needs E c \<subseteq> on_disk p)"

fun packed_layers :: "event list \<Rightarrow> nat list" where
  "packed_layers [] = []"
| "packed_layers (Ran (PackLayer L app) # t) = L # packed_layers t"
| "packed_layers (_ # t) = packed_layers t"

definition wf_env :: "conv_env \<Rightarrow> bool" where
  "wf_env E = (distinct (map fst (e_req E)) \<and> distinct (map fst (e_greq E))
     \<and> (\<forall>lr \<in> set (e_req E). finite (snd lr)))"

lemma on_disk_snoc [simp]: "on_disk (t @ [ev]) = replay (on_disk t) ev"
  by (simp add: on_disk_def)

lemma grounded_snoc: "grounded E (t @ [ev]) \<longleftrightarrow> grounded E t \<and> (\<forall>c. ev = Ran c \<longrightarrow> needs E c \<subseteq> on_disk t)"
proof
  assume g: "grounded E (t @ [ev])"
  have "grounded E t" unfolding grounded_def
  proof (intro allI impI)
    fix p c q assume "t = p @ Ran c # q"
    then have "t @ [ev] = p @ Ran c # (q @ [ev])" by simp
    then show "needs E c \<subseteq> on_disk p" using g unfolding grounded_def by blast
  qed
  then show "grounded E t \<and> (\<forall>c. ev = Ran c \<longrightarrow> needs E c \<subseteq> on_disk t)" using g unfolding grounded_def by blast
next
  assume g: "grounded E t \<and> (\<forall>c. ev = Ran c \<longrightarrow> needs E c \<subseteq> on_disk t)"
  show "grounded E (t @ [ev])" unfolding grounded_def
  proof (intro allI impI)
    fix p c q assume e: "t @ [ev] = p @ Ran c # q"
    show "needs E c \<subseteq> on_disk p"
    proof (cases q rule: rev_cases)
      case Nil
      then show ?thesis using e g by simp
    next
      case (snoc q' x)
      then have "t = p @ Ran c # q'" using e by simp
      then show ?thesis using g unfolding grounded_def by blast
    qed
  qed
qed

lemma packed_layers_append [simp]: "packed_layers (t @ u) = packed_layers t @ packed_layers u"
  by (induction t rule: packed_layers.induct) auto

text \<open>\<open>sound\<close> always holds; between two steps no layer is half done.\<close>

definition sound :: "conv_env \<Rightarrow> conv \<Rightarrow> bool" where
  "sound E st = (cv_loaded st = on_disk (cv_trace st) \<and> grounded E (cv_trace st) \<and> distinct (packed_layers (cv_trace st)))"

definition settled :: "conv_env \<Rightarrow> conv \<Rightarrow> bool" where
  "settled E st = (sound E st \<and> set (packed_layers (cv_trace st)) = cv_layers st
     \<and> cv_layers st \<subseteq> fst ` set (e_req E))"

lemma sound_log_run:
  "needs E c \<subseteq> cv_loaded st \<Longrightarrow> \<forall>L app. c = PackLayer L app \<longrightarrow> L \<notin> set (packed_layers (cv_trace st)) \<Longrightarrow>
     sound E st \<Longrightarrow> sound E (log_event (Ran c) st)"
  by (cases c) (auto simp: sound_def log_event_def grounded_snoc replay_def)

lemma sound_update [simp]:
  "sound E (st\<lparr>cv_experts_idx := b\<rparr>) = sound E st" "sound E (st\<lparr>cv_trunk_idx := b\<rparr>) = sound E st"
  "sound E (st\<lparr>cv_globals := G\<rparr>) = sound E st" "sound E (st\<lparr>cv_layers := Ls\<rparr>) = sound E st"
  "sound E (st\<lparr>cv_progress := p\<rparr>) = sound E st"
  by (simp_all add: sound_def)

lemma run_command_trace:
  assumes "run_command E c st = (r, st')"
  shows "cv_trace st' = cv_trace st @ [Ran c] \<and> cv_loaded st' = cv_loaded st \<and> cv_layers st' = cv_layers st
    \<and> cv_globals st' = cv_globals st"
  using assms by (auto simp: run_command_def log_event_def split: sum.splits command.splits)

lemma run_command_sound:
  assumes "run_command E c st = (r, st')" "sound E st" "needs E c \<subseteq> cv_loaded st"
    and "\<forall>L app. c = PackLayer L app \<longrightarrow> L \<notin> set (packed_layers (cv_trace st))"
  shows "sound E st'"
  using sound_log_run [OF assms(3,4,2)] run_command_trace [OF assms(1)]
  by (simp add: sound_def log_event_def)

lemma keeps_pack_global:
  assumes "wf_env E" "gs \<in> set (e_greq E)"
  shows "keeps (settled E) (sound E) (pack_global E gs)"
proof -
  obtain g s where gs: "gs = (g, s)" by (cases gs)
  have needs: "needs E (PackGlobal g a) = {s}" for a
    using assms unfolding wf_env_def needs_def gs by (auto dest: eq_key_imp_eq_value)
  show ?thesis
    unfolding keeps_def
  proof (intro allI impI)
    fix st r st' assume a: "pack_global E gs st = (r, st')" "settled E st"
    show "case r of None \<Rightarrow> settled E st' | Some e \<Rightarrow> sound E st'"
    proof (cases "g \<notin> cv_globals st \<and> s \<in> cv_loaded st")
      case False
      then show ?thesis using a by (auto simp: pack_global_def gs skip_def)
    next
      case True
      obtain r1 s1 where 1: "run_command E (PackGlobal g (cv_trunk_idx st)) st = (r1, s1)" by (metis surj_pair)
      have "sound E s1" using run_command_sound [OF 1] a(2) True by (simp add: needs settled_def)
      moreover have "packed_layers (cv_trace s1) = packed_layers (cv_trace st)" "cv_layers s1 = cv_layers st"
        using run_command_trace [OF 1] by simp_all
      ultimately show ?thesis
        using a True 1 by (cases r1) (auto simp: pack_global_def gs then_do_def modify_def settled_def)
    qed
  qed
qed

lemma keeps_pack_layer:
  assumes "wf_env E" "lr \<in> set (e_req E)"
  shows "keeps (settled E) (sound E) (pack_layer E lr)"
proof -
  obtain L req where lr: "lr = (L, req)" by (cases lr)
  have L: "L \<in> fst ` set (e_req E)" using assms(2) lr by force
  have "{q. (L, q) \<in> set (e_req E)} = {req}"
    using assms unfolding wf_env_def lr by (auto dest: eq_key_imp_eq_value)
  then have needs: "needs E (PackLayer L a) = req" "needs E (PackLayerExperts fmt L a) = req" for a fmt
    by (simp_all add: needs_def)
  show ?thesis
    unfolding keeps_def
  proof (intro allI impI)
    fix st r st' assume a: "pack_layer E lr st = (r, st')" "settled E st"
    show "case r of None \<Rightarrow> settled E st' | Some e \<Rightarrow> sound E st'"
    proof (cases "L \<in> cv_layers st \<or> \<not> req \<subseteq> cv_loaded st")
      case True
      then show ?thesis using a by (auto simp: pack_layer_def lr skip_def)
    next
      case False
      obtain r1 s1 where 1: "run_command E (PackLayer L (cv_trunk_idx st)) st = (r1, s1)" by (metis surj_pair)
      obtain r2 s2 where 2: "pack_layer_experts E L s1 = (r2, s2)" by (metis surj_pair)
      have s1: "sound E s1" using run_command_sound [OF 1] a(2) False by (simp add: needs settled_def)
      note t1 = run_command_trace [OF 1]
      have p1: "packed_layers (cv_trace s1) = packed_layers (cv_trace st) @ [L]"
        using t1 by simp
      have "sound E s2 \<and> packed_layers (cv_trace s2) = packed_layers (cv_trace s1) \<and> cv_layers s2 = cv_layers s1"
        using 2 s1 run_command_sound [of E "PackLayerExperts (e_format E) L (cv_experts_idx s1)" s1 r2 s2]
          run_command_trace [of E "PackLayerExperts (e_format E) L (cv_experts_idx s1)" s1 r2 s2] t1 False needs(2)
        by (auto simp: pack_layer_experts_def skip_def split: if_splits sum.splits)
      then show ?thesis
        using a False 1 2 s1 p1 t1
        by (cases r1; cases r2) (auto simp: pack_layer_def lr then_do_def modify_def settled_def intro: L dest: subsetD)
    qed
  qed
qed

lemma keeps_layer_pass: "wf_env E \<Longrightarrow> keeps (settled E) (sound E) (layer_pass E)"
  using keeps_for_each [of "e_req E" "settled E" "sound E" "pack_layer E"] keeps_pack_layer
  by (auto simp: keeps_def layer_pass_def settled_def)

lemma pack_ready_invariant:
  assumes "pack_ready E st = (r, st')" "keeps I W (layer_pass E)" "I st"
  shows "case r of None \<Rightarrow> I st' | Some e \<Rightarrow> W st'"
  using assms
proof (induction E st rule: pack_ready.induct)
  case (1 E st)
  obtain r1 s1 where l: "layer_pass E st = (r1, s1)" by (metis surj_pair)
  note k = keepsD [OF 1(3) l 1(4)]
  show ?case
  proof (cases "r1 = None \<and> cv_progress s1")
    case True
    then have "pack_ready E s1 = (r, st')" using 1(2) l by (subst (asm) pack_ready.simps) simp
    then show ?thesis using 1(1) [OF l [symmetric]] True k 1(3) by simp
  next
    case False
    then have "(r, st') = (r1, s1)" using 1(2) l by (subst (asm) pack_ready.simps) (auto split: option.splits)
    then have "r = r1" "st' = s1" by simp_all
    then show ?thesis using k by (auto split: option.splits)
  qed
qed

lemma keeps_pack_ready: "wf_env E \<Longrightarrow> keeps (settled E) (sound E) (pack_ready E)"
  using pack_ready_invariant [OF _ keeps_layer_pass] by (auto simp: keeps_def)

lemma keeps_fetch: "keeps (settled E) (sound E) (fetch_shard E shard)"
  by (auto simp: keeps_def fetch_shard_def log_event_def settled_def sound_def grounded_snoc replay_def split: sum.splits)

lemma settled_drop_shard: "settled E st \<Longrightarrow> settled E (drop_shard s st)"
  by (auto simp: drop_shard_def log_event_def settled_def sound_def grounded_snoc replay_def)

lemma keeps_prune: "keeps (settled E) (sound E) (prune_shards E)"
proof -
  have "settled E st \<Longrightarrow> settled E (fold drop_shard xs st)" for xs st
    by (induction xs arbitrary: st) (auto simp: settled_drop_shard)
  then show ?thesis by (auto simp: keeps_def prune_shards_def skip_def)
qed

lemma keeps_convert:
  assumes "wf_env E"
  shows "keeps (settled E) (sound E) (convert E)"
proof -
  have "keeps (settled E) (sound E) (process_shard E shard)" for shard
    unfolding process_shard_def
    using keeps_fetch keeps_pack_global [OF assms] keeps_pack_ready [OF assms] keeps_prune
    by (intro keeps_then_do keeps_for_each)
  moreover have "keeps (settled E) (sound E) (check_complete E)"
    by (auto simp: keeps_def check_complete_def settled_def)
  ultimately show ?thesis
    unfolding convert_def by (intro keeps_then_do keeps_for_each)
qed

lemma settled_start: "settled E (conv_start a b)"
  by (simp add: settled_def sound_def conv_start_def on_disk_def grounded_def)

lemma convert_settled:
  assumes "wf_env E" "convert E (conv_start a b) = (r, st)"
  shows "sound E st" "r = None \<Longrightarrow> settled E st"
  using keepsD [OF keeps_convert [OF assms(1)] assms(2) settled_start] by (auto simp: settled_def split: option.splits)

section \<open>Completeness\<close>

text \<open>\<open>backed E F st\<close>: of the shards \<open>F\<close> seen so far, those something still needs are loaded, and everything
  that is ready is done.\<close>

definition backed :: "conv_env \<Rightarrow> string set \<Rightarrow> conv \<Rightarrow> bool" where
  "backed E F st =
     (finite (cv_loaded st) \<and>
      (\<forall>(L, req) \<in> set (e_req E). L \<notin> cv_layers st \<longrightarrow> req \<inter> F \<subseteq> cv_loaded st) \<and>
      (\<forall>(g, s) \<in> set (e_greq E). g \<notin> cv_globals st \<longrightarrow> s \<in> F \<longrightarrow> s \<in> cv_loaded st))"

definition layers_ready :: "conv_env \<Rightarrow> conv \<Rightarrow> bool" where
  "layers_ready E st = (\<forall>(L, req) \<in> set (e_req E). L \<in> cv_layers st \<or> \<not> req \<subseteq> cv_loaded st)"

definition tidy :: "conv_env \<Rightarrow> conv \<Rightarrow> bool" where
  "tidy E st = (e_keep E \<or> cv_loaded st \<subseteq> still_needed E st)"

definition globals_ready :: "conv_env \<Rightarrow> conv \<Rightarrow> bool" where
  "globals_ready E st = (\<forall>(g, s) \<in> set (e_greq E). g \<in> cv_globals st \<or> s \<notin> cv_loaded st)"

lemma ready_mono:
  assumes "cv_layers s = cv_layers t" "cv_globals s = cv_globals t" "cv_loaded s \<subseteq> cv_loaded t"
  shows "layers_ready E t \<Longrightarrow> layers_ready E s" "globals_ready E t \<Longrightarrow> globals_ready E s"
  using assms unfolding layers_ready_def globals_ready_def by (simp_all add: split_beta) (meson subset_trans, meson subsetD)

definition willing :: "conv_env \<Rightarrow> bool" where
  "willing E = ((\<forall>s. \<exists>u. e_fetch E s = Inr u) \<and> (\<forall>c. \<exists>u. e_exec E c = Inr u)
     \<and> (e_format E = NoExperts \<or> (\<exists>n. cfg_int (e_cfg E) ''first_k_dense_replace'' = Inr n)))"

lemma run_total: "willing E \<Longrightarrow> fst (run_command E c st) = None"
proof -
  assume "willing E"
  then obtain u where "e_exec E c = Inr u" unfolding willing_def by blast
  then show ?thesis by (simp add: run_command_def)
qed

lemma total_pack_layer: "willing E \<Longrightarrow> total (pack_layer E lr)"
proof -
  assume w: "willing E"
  have e: "fst (pack_layer_experts E L st) = None" for L st
    using w run_total [OF w] unfolding willing_def by (auto simp: pack_layer_experts_def skip_def)
  have t: "total (then_do (run_command E c) (then_do (pack_layer_experts E L) (modify f)))" for c L f
    using run_total [OF w] e by (intro total_then_do) (simp_all add: total_def modify_def)
  show ?thesis
    unfolding total_def pack_layer_def split_beta
    using t [unfolded total_def] by (simp add: skip_def)
qed

lemma total_pack_global: "willing E \<Longrightarrow> total (pack_global E gs)"
proof -
  assume w: "willing E"
  have t: "total (then_do (run_command E c) (modify f))" for c f
    using run_total [OF w] by (intro total_then_do) (simp_all add: total_def modify_def)
  show ?thesis
    unfolding total_def pack_global_def split_beta
    using t [unfolded total_def] by (simp add: skip_def)
qed

lemma total_layer_pass: "willing E \<Longrightarrow> total (layer_pass E)"
  using total_for_each [where f = "pack_layer E", OF total_pack_layer] by (simp add: total_def layer_pass_def)

lemma pack_layer_step:
  assumes "pack_layer E (L, req) st = (None, st')"
  shows "cv_loaded st' = cv_loaded st \<and> cv_globals st' = cv_globals st \<and>
    (if L \<in> cv_layers st \<or> \<not> req \<subseteq> cv_loaded st then st' = st
     else cv_layers st' = insert L (cv_layers st) \<and> cv_progress st')"
proof (cases "L \<in> cv_layers st \<or> \<not> req \<subseteq> cv_loaded st")
  case True
  then show ?thesis using assms by (auto simp: pack_layer_def skip_def)
next
  case False
  obtain s1 s2 where 1: "run_command E (PackLayer L (cv_trunk_idx st)) st = (None, s1)"
    and 2: "pack_layer_experts E L s1 = (None, s2)"
    and 3: "st' = s2\<lparr>cv_layers := insert L (cv_layers s2), cv_progress := True\<rparr>"
    using assms False by (auto simp: pack_layer_def then_do_cases modify_def)
  have "cv_loaded s2 = cv_loaded s1 \<and> cv_globals s2 = cv_globals s1 \<and> cv_layers s2 = cv_layers s1"
    using 2 run_command_trace [of E "PackLayerExperts (e_format E) L (cv_experts_idx s1)" s1 None s2]
    by (auto simp: pack_layer_experts_def skip_def split: if_splits sum.splits)
  then show ?thesis using run_command_trace [OF 1] 3 False by simp
qed

lemma for_layers_step:
  assumes "for_each (pack_layer E) xs st = (None, st')"
  shows "cv_loaded st' = cv_loaded st \<and> cv_globals st' = cv_globals st \<and> cv_layers st \<subseteq> cv_layers st' \<and>
    (cv_progress st \<longrightarrow> cv_progress st') \<and>
    (\<not> cv_progress st' \<longrightarrow> cv_layers st' = cv_layers st \<and> (\<forall>(L, req) \<in> set xs. L \<in> cv_layers st \<or> \<not> req \<subseteq> cv_loaded st))"
  using assms
proof (induction xs arbitrary: st)
  case Nil
  then show ?case by (simp add: skip_def)
next
  case (Cons x xs)
  obtain L req where x: "x = (L, req)" by (cases x)
  obtain s1 where 1: "pack_layer E x st = (None, s1)" "for_each (pack_layer E) xs s1 = (None, st')"
    using Cons.prems by (auto simp: then_do_cases)
  show ?case
    using pack_layer_step [OF 1(1) [unfolded x]] Cons.IH [OF 1(2)] by (auto simp: x split: if_splits)
qed

lemma pack_ready_step:
  assumes "willing E"
  shows "\<exists>st'. pack_ready E st = (None, st') \<and> cv_loaded st' = cv_loaded st \<and> cv_globals st' = cv_globals st
    \<and> cv_layers st \<subseteq> cv_layers st' \<and> layers_ready E st'"
  using assms
proof (induction E st rule: pack_ready.induct)
  case (1 E st)
  obtain s1 where l: "layer_pass E st = (None, s1)" using totalD [OF total_layer_pass [OF 1(2)]] by blast
  note s = for_layers_step [OF l [unfolded layer_pass_def]]
  show ?case
  proof (cases "cv_progress s1")
    case True
    then have eq: "pack_ready E st = pack_ready E s1" using l by (subst pack_ready.simps) simp
    obtain st' where "pack_ready E s1 = (None, st') \<and> cv_loaded st' = cv_loaded s1 \<and> cv_globals st' = cv_globals s1
        \<and> cv_layers s1 \<subseteq> cv_layers st' \<and> layers_ready E st'"
      using 1(1) [OF l [symmetric] refl True 1(2)] by blast
    then show ?thesis using s by (intro exI [of _ st']) (simp add: eq, blast)
  next
    case False
    then have "pack_ready E st = (None, s1)" using l by (subst pack_ready.simps) simp
    then show ?thesis using s False by (auto simp: layers_ready_def)
  qed
qed

lemma for_globals_step:
  assumes "for_each (pack_global E) gs st = (None, st')"
  shows "cv_loaded st' = cv_loaded st \<and> cv_layers st' = cv_layers st \<and> cv_globals st \<subseteq> cv_globals st' \<and>
    (\<forall>(g, s) \<in> set gs. g \<in> cv_globals st' \<or> s \<notin> cv_loaded st)"
  using assms
proof (induction gs arbitrary: st)
  case Nil
  then show ?case by (simp add: skip_def)
next
  case (Cons x xs)
  obtain g s where x: "x = (g, s)" by (cases x)
  obtain s1 where 1: "pack_global E x st = (None, s1)" "for_each (pack_global E) xs s1 = (None, st')"
    using Cons.prems by (auto simp: then_do_cases)
  have "cv_loaded s1 = cv_loaded st \<and> cv_layers s1 = cv_layers st \<and> cv_globals st \<subseteq> cv_globals s1
      \<and> (g \<in> cv_globals s1 \<or> s \<notin> cv_loaded st)"
    using 1(1) run_command_trace
    by (auto simp: x pack_global_def then_do_cases modify_def skip_def split: if_splits)
  then show ?case using Cons.IH [OF 1(2)] by (auto simp: x)
qed

lemma prune_step:
  assumes "prune_shards E st = (r, st')" "finite (cv_loaded st)"
  shows "r = None \<and> cv_layers st' = cv_layers st \<and> cv_globals st' = cv_globals st \<and> cv_loaded st' \<subseteq> cv_loaded st
    \<and> cv_loaded st \<inter> still_needed E st \<subseteq> cv_loaded st' \<and> (e_keep E \<or> cv_loaded st' \<subseteq> still_needed E st)"
proof -
  have f: "cv_layers (fold drop_shard xs s) = cv_layers s \<and> cv_globals (fold drop_shard xs s) = cv_globals s
      \<and> cv_loaded (fold drop_shard xs s) = cv_loaded s - set xs" for xs s
    by (induction xs arbitrary: s) (auto simp: drop_shard_def log_event_def)
  show ?thesis using assms f by (auto simp: prune_shards_def skip_def split: if_splits)
qed

lemma still_neededI:
  "(L, req) \<in> set (e_req E) \<Longrightarrow> L \<notin> cv_layers st \<Longrightarrow> req \<subseteq> still_needed E st"
  "(g, s) \<in> set (e_greq E) \<Longrightarrow> g \<notin> cv_globals st \<Longrightarrow> s \<in> still_needed E st"
  unfolding still_needed_def by (force, force)

lemma process_shard_step:
  assumes w: "willing E" and b: "backed E F st"
  shows "\<exists>st'. process_shard E shard st = (None, st') \<and> backed E (insert shard F) st' \<and> layers_ready E st' \<and> globals_ready E st' \<and> tidy E st'"
proof -
  obtain u where "e_fetch E shard = Inr u" using w unfolding willing_def by blast
  define s1 where "s1 = log_event (Fetched shard) (st\<lparr>cv_loaded := insert shard (cv_loaded st)\<rparr>)"
  have 1: "fetch_shard E shard st = (None, s1)" using \<open>e_fetch E shard = Inr u\<close> by (simp add: fetch_shard_def s1_def)
  have s1: "cv_loaded s1 = insert shard (cv_loaded st)" "cv_layers s1 = cv_layers st" "cv_globals s1 = cv_globals st"
    by (simp_all add: s1_def log_event_def)
  obtain s2 where 2: "for_each (pack_global E) (e_greq E) s1 = (None, s2)"
    using totalD [OF total_for_each [where f = "pack_global E", OF total_pack_global [OF w]]] by blast
  note g = for_globals_step [OF 2]
  obtain s3 where 3: "pack_ready E s2 = (None, s3)" "cv_loaded s3 = cv_loaded s2" "cv_globals s3 = cv_globals s2"
    "cv_layers s2 \<subseteq> cv_layers s3" "layers_ready E s3" using pack_ready_step [OF w] by blast
  have fin: "finite (cv_loaded s3)" using b s1 g 3 by (simp add: backed_def)
  obtain r4 s4 where 4: "prune_shards E s3 = (r4, s4)" by (metis surj_pair)
  note p = prune_step [OF 4 fin]
  have run: "process_shard E shard st = (None, s4)"
    using 1 2 3(1) 4 p by (simp add: process_shard_def then_do_def)
  have gr: "globals_ready E s3" using g 3(2,3) by (auto simp: globals_ready_def)
  have b3: "backed E (insert shard F) s3"
    unfolding backed_def
  proof (intro conjI ballI fin)
    fix lr assume lr: "lr \<in> set (e_req E)"
    have "fst lr \<notin> cv_layers st \<longrightarrow> snd lr \<inter> F \<subseteq> cv_loaded st" using b lr by (auto simp: backed_def split_beta)
    then show "case lr of (L, req) \<Rightarrow> L \<notin> cv_layers s3 \<longrightarrow> req \<inter> insert shard F \<subseteq> cv_loaded s3"
      unfolding split_beta 3(2) using 3(4) g s1 by blast
  next
    fix gs assume gs: "gs \<in> set (e_greq E)"
    have "fst gs \<notin> cv_globals st \<longrightarrow> snd gs \<in> F \<longrightarrow> snd gs \<in> cv_loaded st" using b gs by (auto simp: backed_def split_beta)
    then show "case gs of (g, s) \<Rightarrow> g \<notin> cv_globals s3 \<longrightarrow> s \<in> insert shard F \<longrightarrow> s \<in> cv_loaded s3"
      unfolding split_beta 3(2,3) using g s1 by blast
  qed
  have "backed E (insert shard F) s4"
    unfolding backed_def
  proof (intro conjI ballI)
    show "finite (cv_loaded s4)" using p fin finite_subset by blast
    fix lr assume lr: "lr \<in> set (e_req E)"
    show "case lr of (L, req) \<Rightarrow> L \<notin> cv_layers s4 \<longrightarrow> req \<inter> insert shard F \<subseteq> cv_loaded s4"
    proof (cases lr)
      case (Pair L req)
      have "L \<notin> cv_layers s3 \<Longrightarrow> req \<subseteq> still_needed E s3" using lr unfolding Pair by (rule still_neededI(1))
      moreover have "L \<notin> cv_layers s3 \<Longrightarrow> req \<inter> insert shard F \<subseteq> cv_loaded s3"
        using b3 lr by (auto simp: backed_def Pair)
      moreover have "cv_loaded s3 \<inter> still_needed E s3 \<subseteq> cv_loaded s4" "cv_layers s4 = cv_layers s3" using p by simp_all
      ultimately show ?thesis unfolding Pair by blast
    qed
  next
    fix gs assume gs: "gs \<in> set (e_greq E)"
    show "case gs of (g, s) \<Rightarrow> g \<notin> cv_globals s4 \<longrightarrow> s \<in> insert shard F \<longrightarrow> s \<in> cv_loaded s4"
    proof (cases gs)
      case (Pair g s)
      have "g \<notin> cv_globals s3 \<Longrightarrow> s \<in> still_needed E s3" using gs unfolding Pair by (rule still_neededI(2))
      moreover have "g \<notin> cv_globals s3 \<Longrightarrow> s \<in> insert shard F \<Longrightarrow> s \<in> cv_loaded s3"
        using b3 gs by (auto simp: backed_def Pair)
      moreover have "cv_loaded s3 \<inter> still_needed E s3 \<subseteq> cv_loaded s4" "cv_globals s4 = cv_globals s3" using p by simp_all
      ultimately show ?thesis unfolding Pair by blast
    qed
  qed
  moreover have "layers_ready E s4" "globals_ready E s4"
    using ready_mono [of s4 s3 E] 3(5) gr p by simp_all
  moreover have "tidy E s4"
  proof -
    have "cv_layers s4 = cv_layers s3" "cv_globals s4 = cv_globals s3" using p by simp_all
    then have "still_needed E s4 = still_needed E s3" by (simp add: still_needed_def)
    then show ?thesis unfolding tidy_def using p by argo
  qed
  ultimately show ?thesis using run by blast
qed

lemma convert_completes:
  assumes w: "willing E" and wf: "wf_env E" and gn: "fst ` set (e_greq E) = fst ` set global_names"
  shows "\<exists>st. convert E (conv_start a b) = (None, st) \<and> distinct (packed_layers (cv_trace st))
    \<and> set (packed_layers (cv_trace st)) = fst ` set (e_req E) \<and> cv_layers st = fst ` set (e_req E)
    \<and> fst ` set global_names \<subseteq> cv_globals st \<and> (e_keep E \<or> on_disk (cv_trace st) = {})"
proof -
  have loop: "backed E F st \<Longrightarrow> layers_ready E st \<and> globals_ready E st \<and> tidy E st \<or> xs \<noteq> [] \<Longrightarrow>
      \<exists>st'. for_each (process_shard E) xs st = (None, st') \<and> backed E (F \<union> set xs) st' \<and> layers_ready E st' \<and> globals_ready E st' \<and> tidy E st'"
    for F st xs
  proof (induction xs arbitrary: F st)
    case Nil
    then show ?case by (simp add: skip_def)
  next
    case (Cons x xs)
    obtain s1 where 1: "process_shard E x st = (None, s1)" "backed E (insert x F) s1" "layers_ready E s1" "globals_ready E s1" "tidy E s1"
      using process_shard_step [OF w Cons.prems(1)] by blast
    then show ?case using Cons.IH [of "insert x F" s1] by (simp add: then_do_def)
  qed
  let ?all = "\<Union> (snd ` set (e_req E)) \<union> snd ` set (e_greq E)"
  have fin: "finite ?all" using wf by (auto simp: wf_env_def)
  have "''embed'' \<in> fst ` set (e_greq E)" unfolding gn by (simp add: global_names_def)
  then have "?all \<noteq> {}" by auto
  then have ne: "all_shards E \<noteq> []" using fin by (simp add: all_shards_def)
  have set: "set (all_shards E) = ?all" using fin by (simp add: all_shards_def)
  have "backed E {} (conv_start a b)" by (auto simp: backed_def conv_start_def)
  from loop [OF this disjI2 [OF ne]] obtain st where st: "for_each (process_shard E) (all_shards E) (conv_start a b) = (None, st)"
    "backed E ?all st" "layers_ready E st" "globals_ready E st" "tidy E st"
    unfolding set Un_empty_left by blast
  have layers: "fst ` set (e_req E) \<subseteq> cv_layers st"
  proof
    fix L assume "L \<in> fst ` set (e_req E)"
    then obtain req where lr: "(L, req) \<in> set (e_req E)" by auto
    then have "req \<subseteq> ?all" by force
    then have i: "req \<inter> ?all = req" by (rule Int_absorb2)
    have "L \<notin> cv_layers st \<longrightarrow> req \<inter> ?all \<subseteq> cv_loaded st" using st(2) lr unfolding backed_def by fast
    then have "L \<notin> cv_layers st \<longrightarrow> req \<subseteq> cv_loaded st" unfolding i .
    moreover have "L \<in> cv_layers st \<or> \<not> req \<subseteq> cv_loaded st" using st(3) lr unfolding layers_ready_def by fast
    ultimately show "L \<in> cv_layers st" by argo
  qed
  have globals: "fst ` set (e_greq E) \<subseteq> cv_globals st"
  proof
    fix g assume "g \<in> fst ` set (e_greq E)"
    then obtain s where gs: "(g, s) \<in> set (e_greq E)" by auto
    then have "s \<in> ?all" by force
    moreover have "g \<notin> cv_globals st \<Longrightarrow> s \<in> ?all \<longrightarrow> s \<in> cv_loaded st" using st(2) gs unfolding backed_def by fast
    moreover have "g \<in> cv_globals st \<or> s \<notin> cv_loaded st" using st(4) gs unfolding globals_ready_def by fast
    ultimately show "g \<in> cv_globals st" by argo
  qed
  have run: "convert E (conv_start a b) = (None, st)"
    using st(1) layers globals by (simp add: convert_def then_do_def check_complete_def gn)
  note f = convert_settled(2) [OF wf run refl, unfolded settled_def sound_def]
  have all: "cv_layers st = fst ` set (e_req E)" using f layers by blast
  have "still_needed E st = {}" using layers globals unfolding still_needed_def by force
  then have "e_keep E \<or> on_disk (cv_trace st) = {}" using st(5) f by (simp add: tidy_def)
  then show ?thesis using run f all globals unfolding gn by (intro exI [of _ st] conjI) simp_all
qed

section \<open>The set-up\<close>

lemma layer_reqs_finite:
  assumes "layer_reqs fmt cfg wm layers = Inr reqs"
  shows "length reqs = length layers" "\<forall>r \<in> set reqs. finite r"
proof -
  obtain f where f: "mapR f layers = Inr reqs" "\<And>L r. f L = Inr r \<Longrightarrow> finite r"
  proof (cases "fmt = NoExperts")
    case True
    then obtain a b c where "mapR (trunk_req wm a b c) layers = Inr reqs"
      using assms by (auto simp: layer_reqs_def rbind_eq_Inr)
    moreover have "trunk_req wm a b c L = Inr r \<Longrightarrow> finite r" for L r
      by (auto simp: trunk_req_def rbind_eq_Inr Let_def split: if_splits)
    ultimately show ?thesis using that by blast
  next
    case False
    then have "mapR (full_req wm) layers = Inr reqs" using assms by (simp add: layer_reqs_def)
    moreover have "full_req wm L = Inr r \<Longrightarrow> finite r" for L r
      by (auto simp: full_req_def Let_def split: if_splits)
    ultimately show ?thesis using that by blast
  qed
  show "length reqs = length layers" using mapR_length [OF f(1)] .
  show "\<forall>r \<in> set reqs. finite r" using f(1)
    by (induction layers arbitrary: reqs) (auto simp: rbind_eq_Inr dest: f(2))
qed

lemma conv_setup_env:
  assumes "conv_setup fetch exec cfg wm fmt keep arg = Inr E"
  shows "wf_env E" "fst ` set (e_greq E) = fst ` set global_names" "e_fetch E = fetch" "e_exec E = exec" "e_cfg E = cfg"
    "e_keep E = keep" "\<exists>n. cfg_int cfg ''num_hidden_layers'' = Inr n \<and> fst ` set (e_req E) = {L. int L \<le> max_layer n arg}"
proof -
  obtain n reqs greq where e: "cfg_int cfg ''num_hidden_layers'' = Inr n"
    "layer_reqs fmt cfg wm [0..<nat (max_layer n arg + 1)] = Inr reqs" "global_reqs wm = Inr greq"
    "E = \<lparr> e_fetch = fetch, e_exec = exec, e_cfg = cfg, e_format = fmt, e_keep = keep,
               e_req = zip [0..<nat (max_layer n arg + 1)] reqs, e_greq = greq \<rparr>"
    using assms by (auto simp: conv_setup_def rbind_eq_Inr Let_def)
  note l = layer_reqs_finite [OF e(2)]
  have "map fst greq = map fst global_names"
    using e(3) unfolding global_reqs_def global_names_def
    by (auto simp: rbind_eq_Inr rmap_eq_Inr)
  then have g: "map fst (e_greq E) = map fst global_names" using e(4) by simp
  have r: "map fst (e_req E) = [0..<nat (max_layer n arg + 1)]" using e(4) l(1) by simp
  have "distinct (map fst global_names)" by (simp add: global_names_def)
  then show "wf_env E" unfolding wf_env_def g r using l(2) e(4) by (auto dest: set_zip_rightD)
  show "fst ` set (e_greq E) = fst ` set global_names" using arg_cong [OF g, of set] by simp
  show "\<exists>n. cfg_int cfg ''num_hidden_layers'' = Inr n \<and> fst ` set (e_req E) = {L. int L \<le> max_layer n arg}"
    using e(1) arg_cong [OF r, of set] by auto
  show "e_fetch E = fetch" "e_exec E = exec" "e_cfg E = cfg" "e_keep E = keep" by (simp_all add: e(4))
qed

definition ex_wm :: "(string \<times> string) list" where
  "ex_wm = [(''language_model.model.layers.0.x'', ''a''), (''language_model.model.embed_tokens.weight'', ''a''),
     (''language_model.model.norm.weight'', ''b''), (''language_model.lm_head.weight'', ''b'')]"

definition ok_call :: "'a \<Rightarrow> unit res" where "ok_call x = Inr ()"

definition ex_cfg :: json where
  "ex_cfg = JObj [(''num_hidden_layers'', JInt 1), (''first_k_dense_replace'', JInt 1)]"

lemma ex_conv_setup: "\<exists>E. conv_setup ok_call ok_call ex_cfg ex_wm Bf16 False None = Inr E"
proof -
  have l: "layer_reqs Bf16 ex_cfg ex_wm [0] = Inr [{''a''}]"
    by code_simp
  have g: "global_reqs ex_wm = Inr [(''embed'', ''a''), (''final_norm'', ''b''), (''lm_head'', ''b'')]"
    by code_simp
  have n: "cfg_int ex_cfg ''num_hidden_layers'' = Inr 1" by (simp add: cfg_int_def ex_cfg_def)
  have "[0..<nat (max_layer 1 None + 1)] = [0]" by (simp add: max_layer_def)
  then show ?thesis unfolding conv_setup_def n Let_def rbind_Inr by (simp add: l g)
qed

section \<open>Properties\<close>

text \<open>C12: every conversion, also one that fails half way, packs only what it has: each packer command in the trace
  ran while all shards that hold the tensors of its layer or global were downloaded and not yet deleted, and no
  layer is ever packed twice.\<close>

theorem conversion_trace_sound:
  assumes "conv_setup fetch exec cfg wm fmt keep arg = Inr E"
    and "convert E (conv_start trunk_idx experts_idx) = (r, st)"
  shows "(\<forall>before c after. cv_trace st = before @ Ran c # after \<longrightarrow> needs E c \<subseteq> on_disk before)
    \<and> distinct (packed_layers (cv_trace st))"
  using convert_settled(1) [OF conv_setup_env(1) [OF assms(1)] assms(2)] by (simp add: sound_def grounded_def)

theorem conversion_trace_sound_witness:
  "\<exists>E r st. conv_setup ok_call ok_call ex_cfg ex_wm Bf16 False None = Inr E \<and> convert E (conv_start False False) = (r, st)
     \<and> (\<forall>before c after. cv_trace st = before @ Ran c # after \<longrightarrow> needs E c \<subseteq> on_disk before)"
proof -
  obtain E where e: "conv_setup ok_call ok_call ex_cfg ex_wm Bf16 False None = Inr E" using ex_conv_setup by blast
  obtain r st where c: "convert E (conv_start False False) = (r, st)" by (metis surj_pair)
  show ?thesis using e c conversion_trace_sound [OF e c] by blast
qed

text \<open>C13: when the downloads and the packers succeed, the conversion finishes and packs exactly the requested
  layers, each once, and every model global; unless the shards are to be kept, none is left on disk.\<close>

theorem conversion_completes:
  assumes "conv_setup fetch exec cfg wm fmt keep arg = Inr E"
    and "\<And>s. is_ok (fetch s)" "\<And>c. is_ok (exec c)" "is_ok (cfg_int cfg ''first_k_dense_replace'')"
  shows "\<exists>st n. convert E (conv_start trunk_idx experts_idx) = (None, st) \<and> cfg_int cfg ''num_hidden_layers'' = Inr n
    \<and> distinct (packed_layers (cv_trace st)) \<and> set (packed_layers (cv_trace st)) = {L. int L \<le> max_layer n arg}
    \<and> fst ` set global_names \<subseteq> cv_globals st \<and> (keep \<or> on_disk (cv_trace st) = {})"
proof -
  note e = conv_setup_env [OF assms(1)]
  have "willing E" unfolding willing_def e(3-5) using assms(2-4) by (simp add: is_ok_iff)
  from convert_completes [OF this e(1,2), unfolded e(6)] e(7) show ?thesis by metis
qed

theorem conversion_completes_witness:
  "\<exists>E st. conv_setup ok_call ok_call ex_cfg ex_wm Bf16 False None = Inr E \<and> convert E (conv_start False False) = (None, st)
     \<and> set (packed_layers (cv_trace st)) = {0} \<and> on_disk (cv_trace st) = {}"
proof -
  obtain E where e: "conv_setup ok_call ok_call ex_cfg ex_wm Bf16 False None = Inr E" using ex_conv_setup by blast
  have n: "cfg_int ex_cfg ''num_hidden_layers'' = Inr 1" "is_ok (cfg_int ex_cfg ''first_k_dense_replace'')"
    by (simp_all add: cfg_int_def ex_cfg_def)
  have "{L. int L \<le> max_layer 1 None} = {0}" by (auto simp: max_layer_def)
  moreover have ok: "is_ok (ok_call x)" for x :: 'a by (simp add: ok_call_def)
  moreover obtain st k where st: "convert E (conv_start False False) = (None, st)" "cfg_int ex_cfg ''num_hidden_layers'' = Inr k"
      "set (packed_layers (cv_trace st)) = {L. int L \<le> max_layer k None}" "False \<or> on_disk (cv_trace st) = {}"
    using conversion_completes [OF e ok ok n(2), of False False] by blast
  moreover have "k = 1" using st(2) n(1) by simp
  ultimately show ?thesis using e by (intro exI [of _ E] exI [of _ st]) simp
qed

end
