(* ===== verification/ApiDialogue.thy ===== *)
theory ApiDialogue
  imports Json "HOL-Library.Sublist"
begin

text \<open>
  The text layer of \<^verbatim>\<open>tools/kvl_api.py\<close>: flattening of message content, the prompt template and the JSON
  writer \<^verbatim>\<open>json.dumps(v, ensure_ascii=False, separators=(",", ":"))\<close>. The one thing left open is \<open>repr\<close>, the
  text Python gives to floats and containers; it is an argument of the definitions.
\<close>

section \<open>Python's text of a JSON value\<close>

definition py_str :: "(json \<Rightarrow> string) \<Rightarrow> json \<Rightarrow> string" where
  "py_str repr v = (case v of
     JNull \<Rightarrow> ''None'' | JBool b \<Rightarrow> (if b then ''True'' else ''False'') | JInt n \<Rightarrow> show_int n | JStr s \<Rightarrow> s
   | _ \<Rightarrow> repr v)"

definition hex_digit :: "nat \<Rightarrow> char" where
  "hex_digit d = (if d < 10 then digit_char d else char_of (87 + d))"

definition json_escape :: "char \<Rightarrow> string" where
  "json_escape c =
     (if c = CHR 0x22 then [CHR 0x5C, CHR 0x22]
      else if c = CHR 0x5C then [CHR 0x5C, CHR 0x5C]
      else if c = LF then CHR 0x5C # ''n''
      else if c = CR then CHR 0x5C # ''r''
      else if cp c = 9 then CHR 0x5C # ''t''
      else if cp c = 12 then CHR 0x5C # ''f''
      else if cp c = 8 then CHR 0x5C # ''b''
      else if cp c < 32 then CHR 0x5C # ''u00'' @ [hex_digit (cp c div 16), hex_digit (cp c mod 16)]
      else [c])"

definition json_quote :: "string \<Rightarrow> string" where
  "json_quote s = CHR 0x22 # concat (map json_escape s) @ [CHR 0x22]"

fun dumps :: "(json \<Rightarrow> string) \<Rightarrow> json \<Rightarrow> string" where
  "dumps repr JNull = ''null''"
| "dumps repr (JBool b) = (if b then ''true'' else ''false'')"
| "dumps repr (JInt n) = show_int n"
| "dumps repr (JFloat x) = (case x of NaN \<Rightarrow> ''NaN'' | PosInf \<Rightarrow> ''Infinity'' | NegInf \<Rightarrow> ''-Infinity'' | _ \<Rightarrow> repr (JFloat x))"
| "dumps repr (JStr s) = json_quote s"
| "dumps repr (JList vs) = ''['' @ join '','' (map (dumps repr) vs) @ '']''"
| "dumps repr (JObj kvs) = CHR 0x7B # join '','' (map (\<lambda>(k, v). json_quote k @ '':'' @ dumps repr v) kvs) @ [CHR 0x7D]"

section \<open>Message content\<close>

definition kv_get :: "(string \<times> json) list \<Rightarrow> string \<Rightarrow> json \<Rightarrow> json" where
  "kv_get kvs k d = (case map_of kvs k of None \<Rightarrow> d | Some x \<Rightarrow> x)"

definition json_size :: "json \<Rightarrow> nat" where "json_size v = size v"

lemma mapR_cong [fundef_cong]:
  "xs = ys \<Longrightarrow> (\<And>x. x \<in> set ys \<Longrightarrow> f x = g x) \<Longrightarrow> mapR f xs = mapR g ys"
  by (induction xs arbitrary: ys) auto

lemma map_of_size: "map_of kvs k = Some v \<Longrightarrow> size v < size (JObj kvs)"
proof (induction kvs)
  case (Cons kv kvs)
  then show ?case by (cases kv) (auto split: if_splits)
qed simp

lemma list_mem_size: "b \<in> set vs \<Longrightarrow> size b < size (JList vs)"
  by (induction vs) auto

function flatten_text :: "(json \<Rightarrow> string) \<Rightarrow> json \<Rightarrow> string res" where
  "flatten_text repr content = (case content of
     JNull \<Rightarrow> Inr []
   | JStr s \<Rightarrow> Inr s
   | JList blocks \<Rightarrow>
       rmap (\<lambda>parts. join [LF] (filter (\<lambda>p. p \<noteq> []) parts)) (mapR (\<lambda>block. case block of
           JStr s \<Rightarrow> Inr s
         | JObj kvs \<Rightarrow>
             (let kind = kv_get kvs ''type'' (JStr ''text'') in
              if kind = JStr ''text'' \<or> kind = JStr ''input_text'' \<or> kind = JStr ''output_text''
              then Inr (py_str repr (kv_get kvs ''text'' (JStr [])))
              else if kind = JStr ''tool_result''
              then rbind (case map_of kvs ''content'' of None \<Rightarrow> Inr [] | Some c \<Rightarrow> flatten_text repr c) (\<lambda>body.
                     Inr (py_strip (''[tool_result '' @ py_str repr (kv_get kvs ''tool_use_id'' (JStr [])) @ '']''
                       @ [LF] @ body)))
              else if kind = JStr ''tool_use''
              then Inr (''[tool_use '' @ py_str repr (kv_get kvs ''name'' (JStr ''tool'')) @ ''] ''
                       @ dumps repr (kv_get kvs ''input'' (JObj [])))
              else if kind = JStr ''image'' \<or> kind = JStr ''image_url'' \<or> kind = JStr ''input_image''
              then Inl (ValueError ''image content is not enabled in this API revision; use text for the first smoke test'')
              else Inl (ValueError (''unsupported content block type: '' @ py_str repr kind)))
         | _ \<Rightarrow> Inl (ValueError ''content block must be an object'')) blocks)
   | _ \<Rightarrow> Inl (ValueError ''message content must be a string or a list of content blocks''))"
  by pat_completeness auto
termination
proof (relation "measure (\<lambda>(repr, v). json_size v)", goal_cases)
  case (2 repr content blocks block kvs kind c)
  then have "size c < size block" "size block < size content" using map_of_size list_mem_size by fastforce+
  then show ?case by (simp add: json_size_def)
qed simp

declare flatten_text.simps [simp del]

section \<open>The dialogue\<close>

definition DEFAULT_SYSTEM :: string where "DEFAULT_SYSTEM = ''You are a helpful assistant''"

definition flatten_system :: "(json \<Rightarrow> string) \<Rightarrow> json \<Rightarrow> string res" where
  "flatten_system repr sys = (if sys = JNull then Inr DEFAULT_SYSTEM
     else rmap (\<lambda>text. if text = [] then DEFAULT_SYSTEM else text) (flatten_text repr sys))"

definition tool_names :: "(json \<Rightarrow> string) \<Rightarrow> json list \<Rightarrow> string list" where
  "tool_names repr tools = List.map_filter (\<lambda>tool. case tool of
     JObj kvs \<Rightarrow> (case map_of kvs ''name'' of
         None \<Rightarrow> None | Some n \<Rightarrow> if json_truthy n then Some (py_str repr n) else None)
   | _ \<Rightarrow> None) tools"

definition tool_note :: "(json \<Rightarrow> string) \<Rightarrow> json \<Rightarrow> string" where
  "tool_note repr tools =
     (if \<not> json_truthy tools then []
      else case tools of
        JList ts \<Rightarrow>
          let names = tool_names repr ts;
              suffix = (if names = [] then []
                        else '' Tools supplied by the client: '' @ join '', '' (take 32 names) @ ''.'')
          in [LF, LF] @ ''Local adapter note: native Anthropic/OpenAI tool calls are not implemented yet. ''
             @ ''Do not claim that you executed tools; answer in plain text only.'' @ suffix
      | _ \<Rightarrow> [LF, LF] @ ''Local adapter note: native tool use is unavailable; answer in plain text.'')"

text \<open>One message: a part of the system text, a turn, or nothing (an empty system message).\<close>

datatype dialogue_part = SystemPart string | Turn string string | Nothing

definition read_message :: "(json \<Rightarrow> string) \<Rightarrow> json \<Rightarrow> dialogue_part res" where
  "read_message repr msg = (case msg of
     JObj kvs \<Rightarrow>
       (let role = py_str repr (kv_get kvs ''role'' (JStr [])) in
        rbind (flatten_text repr (kv_get kvs ''content'' (JStr []))) (\<lambda>content.
          if role = ''system'' \<or> role = ''developer''
          then Inr (if content = [] then Nothing else SystemPart content)
          else if role \<noteq> ''user'' \<and> role \<noteq> ''assistant'' then Inl (ValueError (''unsupported message role: '' @ role))
          else Inr (Turn role content)))
   | _ \<Rightarrow> Inl (ValueError ''each message must be an object''))"

definition system_texts :: "dialogue_part list \<Rightarrow> string list" where
  "system_texts ps = List.map_filter (\<lambda>p. case p of SystemPart s \<Rightarrow> Some s | _ \<Rightarrow> None) ps"

definition turns_of :: "dialogue_part list \<Rightarrow> (string \<times> string) list" where
  "turns_of ps = List.map_filter (\<lambda>p. case p of Turn r c \<Rightarrow> Some (r, c) | _ \<Rightarrow> None) ps"

definition im_end :: string where "im_end = ''<|im_end|>''"
definition system_open :: string where "system_open = ''<|im_system|>system<|im_middle|>''"
definition user_open :: string where "user_open = ''<|im_user|>user<|im_middle|>''"
definition assistant_open :: string where "assistant_open = ''<|im_assistant|>assistant<|im_middle|>''"

definition turn_text :: "string \<times> string \<Rightarrow> string" where
  "turn_text rc = (case rc of (role, content) \<Rightarrow>
     (if role = ''user'' then user_open else assistant_open) @ content @ im_end)"

definition format_dialogue :: "(json \<Rightarrow> string) \<Rightarrow> json \<Rightarrow> json \<Rightarrow> json \<Rightarrow> string res" where
  "format_dialogue repr messages sys tools = (case messages of
     JList msgs \<Rightarrow>
       if msgs = [] then Inl (ValueError ''messages must be a non-empty array'')
       else rbind (flatten_system repr sys) (\<lambda>sys_text. rbind (mapR (read_message repr) msgs) (\<lambda>parts.
         let turns = turns_of parts in
         if turns = [] then Inl (ValueError ''messages contain no user/assistant turn'')
         else if fst (last turns) \<noteq> ''user''
         then Inl (ValueError ''this API revision requires the last conversational role to be user'')
         else Inr (system_open
             @ join [LF, LF] (filter (\<lambda>p. p \<noteq> []) (sys_text # system_texts parts)) @ tool_note repr tools @ im_end
             @ concat (map turn_text turns) @ assistant_open)))
   | _ \<Rightarrow> Inl (ValueError ''messages must be a non-empty array''))"

section \<open>Lemmas\<close>

lemma set_join: "set (join sep xs) \<subseteq> set sep \<union> \<Union> (set ` set xs)"
  by (induction sep xs rule: join.induct) auto

lemma join_piece: "x \<in> set xs \<Longrightarrow> sublist x (join sep xs)"
proof (induction sep xs rule: join.induct)
  case (3 sep x1 y xs)
  then show ?case by (auto intro: sublist_appendI sublist_order.order_trans simp: sublist_append)
qed auto

lemma cp_hex_digit: "d < 16 \<Longrightarrow> 48 \<le> cp (hex_digit d)"
  by (simp add: hex_digit_def)

definition printable :: "string \<Rightarrow> bool" where
  "printable s = (\<forall>c \<in> set s. 32 \<le> cp c)"

lemma printable_simps [simp]:
  "printable []" "printable (c # s) \<longleftrightarrow> 32 \<le> cp c \<and> printable s" "printable (s @ t) \<longleftrightarrow> printable s \<and> printable t"
  "printable (concat ss) \<longleftrightarrow> (\<forall>s \<in> set ss. printable s)"
  by (auto simp: printable_def)

lemma printable_join: "printable sep \<Longrightarrow> (\<And>x. x \<in> set xs \<Longrightarrow> printable x) \<Longrightarrow> printable (join sep xs)"
  using set_join [of sep xs] unfolding printable_def by blast

lemma printable_show_nat: "printable (show_nat n)"
  using show_nat_digits [of n] by (auto simp: printable_def list_all_iff is_digit_def)

lemma printable_escape: "printable (json_escape c)"
proof (cases "cp c < 32")
  case True
  then have "48 \<le> cp (hex_digit (cp c div 16))" "48 \<le> cp (hex_digit (cp c mod 16))" by (auto intro!: cp_hex_digit)
  then show ?thesis by (auto simp: json_escape_def cp_def)
next
  case False
  then show ?thesis by (auto simp: json_escape_def cp_def)
qed

lemma printable_quote: "printable (json_quote s)"
  by (simp add: json_quote_def printable_escape cp_def)

lemma dumps_printable_lemma:
  assumes "\<And>v. printable (repr v)"
  shows "printable (dumps repr v)"
  using assms
proof (induction repr v rule: dumps.induct)
  case (3 repr n)
  then show ?case by (simp add: show_int_def printable_show_nat cp_def)
next
  case (4 repr x)
  then show ?case by (cases x) (simp_all add: cp_def)
next
  case (6 repr vs)
  then show ?case by (auto intro!: printable_join simp: cp_def)
next
  case (7 repr kvs)
  then show ?case by (auto intro!: printable_join simp: printable_quote cp_def)
qed (auto simp: printable_quote cp_def)

lemma mapR_append: "mapR f (xs @ ys) = rbind (mapR f xs) (\<lambda>as. rmap (\<lambda>bs. as @ bs) (mapR f ys))"
proof (induction xs)
  case Nil
  then show ?case by (cases "mapR f ys") simp_all
next
  case (Cons x xs)
  then show ?case by (cases "f x"; cases "mapR f xs"; cases "mapR f ys") simp_all
qed

definition message :: "string \<Rightarrow> string \<Rightarrow> json" where
  "message role text = JObj [(''role'', JStr role), (''content'', JStr text)]"

lemma flatten_text_simps [simp]:
  "flatten_text repr (JStr s) = Inr s" "flatten_text repr JNull = Inr []"
  by (simp_all add: flatten_text.simps)

lemma read_message_turn:
  "role = ''user'' \<or> role = ''assistant'' \<Longrightarrow> read_message repr (message role text) = Inr (Turn role text)"
  by (auto simp: read_message_def message_def kv_get_def py_str_def)

lemma parts_append [simp]:
  "system_texts (ps @ qs) = system_texts ps @ system_texts qs" "turns_of (ps @ qs) = turns_of ps @ turns_of qs"
  "system_texts (Turn r c # ps) = system_texts ps" "turns_of (Turn r c # ps) = (r, c) # turns_of ps"
  "system_texts [] = []" "turns_of [] = []"
  by (simp_all add: system_texts_def turns_of_def List.map_filter_def)

section \<open>Properties\<close>

text \<open>Flattening never drops content silently. If a content list is accepted then every block is a string or
  an object of a known kind, and the text of every text block is a contiguous part of the result.\<close>

theorem content_never_dropped:
  assumes "flatten_text repr (JList blocks) = Inr t" "b \<in> set blocks"
  shows "(\<exists>s. b = JStr s \<and> sublist s t) \<or>
    (\<exists>kvs kind. b = JObj kvs \<and> kv_get kvs ''type'' (JStr ''text'') = JStr kind
      \<and> kind \<in> {''text'', ''input_text'', ''output_text'', ''tool_result'', ''tool_use''}
      \<and> (kind \<in> {''text'', ''input_text'', ''output_text''} \<longrightarrow> sublist (py_str repr (kv_get kvs ''text'' (JStr []))) t))"
proof -
  obtain parts f where t: "t = join [LF] (filter (\<lambda>p. p \<noteq> []) parts)" and p: "mapR f blocks = Inr parts"
    and f: "f = (\<lambda>block. case block of
           JStr s \<Rightarrow> Inr s
         | JObj kvs \<Rightarrow>
             (let kind = kv_get kvs ''type'' (JStr ''text'') in
              if kind = JStr ''text'' \<or> kind = JStr ''input_text'' \<or> kind = JStr ''output_text''
              then Inr (py_str repr (kv_get kvs ''text'' (JStr [])))
              else if kind = JStr ''tool_result''
              then rbind (case map_of kvs ''content'' of None \<Rightarrow> Inr [] | Some c \<Rightarrow> flatten_text repr c) (\<lambda>body.
                     Inr (py_strip (''[tool_result '' @ py_str repr (kv_get kvs ''tool_use_id'' (JStr [])) @ '']''
                       @ [LF] @ body)))
              else if kind = JStr ''tool_use''
              then Inr (''[tool_use '' @ py_str repr (kv_get kvs ''name'' (JStr ''tool'')) @ ''] ''
                       @ dumps repr (kv_get kvs ''input'' (JObj [])))
              else if kind = JStr ''image'' \<or> kind = JStr ''image_url'' \<or> kind = JStr ''input_image''
              then Inl (ValueError ''image content is not enabled in this API revision; use text for the first smoke test'')
              else Inl (ValueError (''unsupported content block type: '' @ py_str repr kind)))
         | _ \<Rightarrow> Inl (ValueError ''content block must be an object''))"
    using assms(1) by (subst (asm) flatten_text.simps) (auto simp: rmap_eq_Inr)
  obtain y where y: "f b = Inr y" "y \<in> set parts" using mapR_mem [OF p assms(2)] by blast
  have sub: "sublist y t"
    using y(2) join_piece [of y "filter (\<lambda>p. p \<noteq> []) parts" "[LF]"] by (cases "y = []") (simp_all add: t)
  show ?thesis
  proof (cases b)
    case (JStr s)
    then show ?thesis using y(1) sub by (simp add: f)
  next
    case (JObj kvs)
    then show ?thesis using y(1) sub by (auto simp: f Let_def split: if_splits)
  qed (use y(1) in \<open>simp_all add: f\<close>)
qed

theorem content_never_dropped_witness:
  "\<exists>t. flatten_text (\<lambda>v. []) (JList [JStr ''a'', JStr ''b'']) = Inr t \<and> sublist ''a'' t"
proof -
  have "flatten_text (\<lambda>v. []) (JList [JStr ''a'', JStr ''b'']) = Inr (''a'' @ [LF] @ ''b'')"
    by (subst flatten_text.simps) simp
  from content_never_dropped [OF this, of "JStr ''a''"] this show ?thesis by simp
qed

text \<open>A conversation grows at its end: sending the history of an accepted request again with the reply and a new
  user message gives exactly the old prompt, the reply, and the new turn. Nothing of the history is rewritten.\<close>

theorem dialogue_extends_prompt:
  assumes "format_dialogue repr (JList history) sys tools = Inr prompt"
  shows "format_dialogue repr (JList (history @ [message ''assistant'' reply, message ''user'' question])) sys tools
    = Inr (prompt @ reply @ im_end @ user_open @ question @ im_end @ assistant_open)"
proof -
  obtain sys_text parts where h: "history \<noteq> []" "flatten_system repr sys = Inr sys_text"
    "mapR (read_message repr) history = Inr parts" "turns_of parts \<noteq> []"
    and prompt: "prompt = system_open @ join [LF, LF] (filter (\<lambda>p. p \<noteq> []) (sys_text # system_texts parts))
      @ tool_note repr tools @ im_end @ concat (map turn_text (turns_of parts)) @ assistant_open"
    using assms by (auto simp: format_dialogue_def rbind_eq_Inr Let_def simp del: filter.simps split: if_splits)
  have "mapR (read_message repr) (history @ [message ''assistant'' reply, message ''user'' question])
      = Inr (parts @ [Turn ''assistant'' reply, Turn ''user'' question])"
    by (simp add: mapR_append h read_message_turn)
  then show ?thesis using h(1,2)
    by (simp add: format_dialogue_def prompt turn_text_def Let_def del: filter.simps)
qed

theorem dialogue_extends_prompt_witness:
  "\<exists>prompt. format_dialogue (\<lambda>v. []) (JList [message ''user'' ''hi'']) JNull JNull = Inr prompt
     \<and> format_dialogue (\<lambda>v. []) (JList ([message ''user'' ''hi''] @ [message ''assistant'' ''yes'', message ''user'' ''and?''])) JNull JNull
       = Inr (prompt @ ''yes'' @ im_end @ user_open @ ''and?'' @ im_end @ assistant_open)"
proof -
  have "\<exists>prompt. format_dialogue (\<lambda>v. []) (JList [message ''user'' ''hi'']) JNull JNull = Inr prompt"
    by (simp add: format_dialogue_def flatten_system_def read_message_turn Let_def)
  then show ?thesis using dialogue_extends_prompt by blast
qed

text \<open>Message text is not escaped: a single user message that contains the control tokens gives the same prompt
  as a conversation of three messages, so a client cannot be told from the assistant turn it forges.\<close>

theorem dialogue_turns_forgeable:
  "format_dialogue repr (JList [message ''user'' (a @ im_end @ assistant_open @ b @ im_end @ user_open @ c)]) sys tools
   = format_dialogue repr (JList [message ''user'' a, message ''assistant'' b, message ''user'' c]) sys tools"
  by (simp add: format_dialogue_def read_message_turn Let_def turn_text_def)

end
