(* ===== verification/ApiServer.thy ===== *)
theory ApiServer
  imports ApiDialogue MemoryPlan FileIO
begin

text \<open>
  The HTTP adapter \<^verbatim>\<open>tools/kvl_api.py\<close> behind the dialogue text: request parsing, the RAM preflight and the
  serialized run of the C generator. A step is a function on the \<open>world\<close>: the files, the lock, the
  child processes, what was written to the client's socket and how much more the client will take. The
  tokenizer, the UTF-8 decoder, the JSON parser, the generator process, fresh names, the clock and the
  failures of the temporary file are the fields of \<open>env\<close>. The model's strings have 256 characters; so that the
  text of a client can hold a lone surrogate, as JSON allows, \<open>surrogate\<close> says which non-ASCII characters stand for one. The \<^verbatim>\<open>Server\<close> and \<^verbatim>\<open>Date\<close> lines that \<^verbatim>\<open>http.server\<close> adds to every response head are left out.
\<close>

section \<open>World and handlers\<close>

datatype header_line = StatusLine nat | Header string string

datatype wire = Heads "header_line list" | Body bytes

datatype proc_event = Spawned "string list" string | Waited int | Terminated | Killed

record world =
  w_files :: fs
  w_locked :: bool
  w_procs :: "proc_event list"
  w_out :: "wire list"
  w_hdrs :: "header_line list"
  w_left :: "nat option"
  w_close :: bool

type_synonym 'a handler = "world \<Rightarrow> 'a res \<times> world"

definition hret :: "'a \<Rightarrow> 'a handler" where "hret x w = (Inr x, w)"
definition hraise :: "exn \<Rightarrow> 'a handler" where "hraise e w = (Inl e, w)"
definition hlift :: "'a res \<Rightarrow> 'a handler" where "hlift r w = (r, w)"
definition hmod :: "(world \<Rightarrow> world) \<Rightarrow> unit handler" where "hmod f w = (Inr (), f w)"

definition hbind :: "'a handler \<Rightarrow> ('a \<Rightarrow> 'b handler) \<Rightarrow> 'b handler" where
  "hbind m f w = (case m w of (Inl e, w') \<Rightarrow> (Inl e, w') | (Inr x, w') \<Rightarrow> f x w')"

definition hthen :: "unit handler \<Rightarrow> 'b handler \<Rightarrow> 'b handler" where
  "hthen m n = hbind m (\<lambda>_. n)"

text \<open>\<^verbatim>\<open>try: m except ... as e: h(e)\<close>, and \<^verbatim>\<open>try: m finally: f\<close>, where an error of the clean-up replaces the result.\<close>

definition hcatch :: "'a handler \<Rightarrow> (exn \<Rightarrow> 'a handler) \<Rightarrow> 'a handler" where
  "hcatch m h w = (case m w of (Inl e, w') \<Rightarrow> h e w' | (Inr x, w') \<Rightarrow> (Inr x, w'))"

definition hfinally :: "'a handler \<Rightarrow> unit handler \<Rightarrow> 'a handler" where
  "hfinally m f w = (case m w of (r, w') \<Rightarrow> (case f w' of (Inl e, w'') \<Rightarrow> (Inl e, w'') | (Inr u, w'') \<Rightarrow> (r, w'')))"

section \<open>Environment\<close>

record run =
  run_lines :: "string list"
  run_rc :: int
  run_gone :: bool
  run_obeys :: bool

record 'd env =
  sv_model_id :: string
  sv_api_key :: "string option"
  rt_dir :: string
  rt_binary :: string
  rt_cache_mib :: int
  rt_trunk :: trunk_request
  rt_ram_mib :: int
  py_repr :: "json \<Rightarrow> string"
  py_loads :: "bytes \<Rightarrow> json res"
  tok_encode :: "string \<Rightarrow> int list"
  tok_bytes :: "int \<Rightarrow> bytes option"
  tok_decode :: "int \<Rightarrow> string res"
  dec_start :: 'd
  dec_step :: "'d \<Rightarrow> bytes \<Rightarrow> string \<times> 'd"
  dec_end :: "'d \<Rightarrow> string"
  gen_run :: "string list \<Rightarrow> string \<Rightarrow> bytes \<Rightarrow> run res"
  tmp_path :: string
  tmp_fault :: "bytes \<Rightarrow> (bytes option \<times> exn) option"
  unlink_denied :: bool
  surrogate :: "char \<Rightarrow> bool"
  fresh_id :: string
  clock :: int

record request =
  rq_path :: string
  rq_headers :: "(string \<times> string) list"
  rq_body :: bytes

definition EOS_ID :: int where "EOS_ID = 163585"
definition IM_END_ID :: int where "IM_END_ID = 163586"
definition STOP_IDS :: "int set" where "STOP_IDS = {EOS_ID, IM_END_ID}"
definition MAX_REQUEST_BYTES :: int where "MAX_REQUEST_BYTES = 16 * 1024 * 1024"

section \<open>The runtime\<close>

definition required_files :: "string list" where
  "required_files = [''trunk.bin'', ''trunk.idx'', ''experts.bin'', ''experts.idx'', ''tiktoken.model'', ''tokenizer_config.json'']"

definition runtime_init :: "'d env \<Rightarrow> fs \<Rightarrow> unit res" where
  "runtime_init E s =
     (if rt_cache_mib E \<le> 0 \<or> rt_ram_mib E \<le> 0 then Inl (ValueError ''cache_mib and ram_mib must be positive'')
      else rbind (parse_trunk_cache_request (rt_trunk E)) (\<lambda>_.
        let missing = filter (\<lambda>name. s (in_dir (rt_dir E) name) = None) required_files in
        if missing \<noteq> [] then Inl (FileNotFoundError (''missing runtime files: '' @ join '', '' missing))
        else if s (rt_binary E) = None then Inl (FileNotFoundError (''generator binary not found: '' @ rt_binary E))
        else Inr ()))"

definition prepare :: "'d env \<Rightarrow> json \<Rightarrow> json \<Rightarrow> json \<Rightarrow> int list res" where
  "prepare E messages sys tools = rmap (tok_encode E) (format_dialogue (py_repr E) messages sys tools)"

definition input_tokens :: "int list \<Rightarrow> int" where "input_tokens ids = int (length ids)"

text \<open>\<^verbatim>\<open>f"{x:.1f}"\<close>.\<close>

definition fixed1 :: "pyfloat \<Rightarrow> string" where
  "fixed1 x = (case x of
     Fin r \<Rightarrow> (let n = round_half_even (10 * \<bar>r\<bar>) in
       (if r < 0 then ''-'' else []) @ show_int (n div 10) @ ''.'' @ show_int (n mod 10))
   | PosInf \<Rightarrow> ''inf'' | NegInf \<Rightarrow> ''-inf'' | NaN \<Rightarrow> ''nan'')"

definition plan_rejected :: "int \<Rightarrow> int \<Rightarrow> exn" where
  "plan_rejected n ram_mib = (case int_truediv n MIB of
     Inl e \<Rightarrow> e
   | Inr mib \<Rightarrow> ValueError (''RAM plan rejected: '' @ fixed1 mib @ '' MiB > '' @ show_int ram_mib
       @ '' MiB; reduce context/max_tokens/cache or raise --ram-mib''))"

definition runtime_plan :: "'d env \<Rightarrow> int \<Rightarrow> int \<Rightarrow> (int \<times> plan) res" where
  "runtime_plan E prompt_tokens max_tokens =
     (if max_tokens \<le> 0 then Inl (ValueError ''max_tokens must be positive'')
      else rbind (resolve_trunk_cache_mib prompt_tokens max_tokens (rt_cache_mib E) (rt_ram_mib E) (rt_trunk E)) (\<lambda>trunk.
        rbind (planned_text_breakdown prompt_tokens max_tokens (rt_cache_mib E) trunk) (\<lambda>p.
          if total p > rt_ram_mib E * MIB then Inl (plan_rejected (total p) (rt_ram_mib E)) else Inr (trunk, p))))"

definition preflight :: "'d env \<Rightarrow> int list \<Rightarrow> int \<Rightarrow> pyfloat \<Rightarrow> unit res" where
  "preflight E ids max_tokens temperature =
     (if flt temperature (Fin 0) then Inl (ValueError ''temperature must be >= 0'')
      else rmap (\<lambda>_. ()) (runtime_plan E (input_tokens ids) max_tokens))"

text \<open>The temporary file of prompt ids and the command line.\<close>

definition ids_text :: "int list \<Rightarrow> string" where
  "ids_text ids = join [LF] (map show_int ids) @ [LF]"

definition gen_command :: "'d env \<Rightarrow> int \<Rightarrow> pyfloat \<Rightarrow> int \<Rightarrow> string list" where
  "gen_command E max_tokens temperature seed =
     [rt_binary E, in_dir (rt_dir E) ''trunk.bin'', in_dir (rt_dir E) ''trunk.idx'', in_dir (rt_dir E) ''experts.bin'',
      in_dir (rt_dir E) ''experts.idx'', tmp_path E, show_int (rt_cache_mib E * MIB), show_int max_tokens,
      py_str (py_repr E) (JFloat temperature), show_int seed]"

record 'd gstate =
  g_dec :: 'd
  g_parts :: "string list"
  g_tokens :: nat
  g_eos :: bool

definition line_token :: "string \<Rightarrow> int res" where
  "line_token line = (case py_split line of
     _ # t # _ \<Rightarrow> int_res t | _ \<Rightarrow> Inl (IndexError ''list index out of range''))"

definition token_text :: "'d env \<Rightarrow> int \<Rightarrow> 'd \<Rightarrow> (string \<times> 'd) res" where
  "token_text E token d = (case tok_bytes E token of
     Some bs \<Rightarrow> Inr (dec_step E d bs)
   | None \<Rightarrow> rmap (\<lambda>s. (s, d)) (tok_decode E token))"

fun read_tokens :: "'d env \<Rightarrow> (string \<Rightarrow> unit handler) \<Rightarrow> string list \<Rightarrow> 'd gstate \<Rightarrow> 'd gstate handler" where
  "read_tokens E on_delta [] g = hret g"
| "read_tokens E on_delta (raw # rest) g =
     (let line = py_strip raw in
      if \<not> starts_with line ''TOKEN '' then read_tokens E on_delta rest g
      else hbind (hlift (line_token line)) (\<lambda>token.
        let g = g\<lparr>g_tokens := g_tokens g + 1\<rparr> in
        if token \<in> STOP_IDS then hret (g\<lparr>g_eos := True\<rparr>)
        else hbind (hlift (token_text E token (g_dec g))) (\<lambda>(delta, d).
          let g = g\<lparr>g_dec := d\<rparr> in
          if delta = [] then read_tokens E on_delta rest g
          else hthen (on_delta delta) (read_tokens E on_delta rest (g\<lparr>g_parts := g_parts g @ [delta]\<rparr>)))))"

record gen_result =
  gr_text :: string
  gr_tokens :: nat
  gr_eos :: bool

definition log_proc :: "proc_event \<Rightarrow> unit handler" where
  "log_proc ev = hmod (\<lambda>w. w\<lparr>w_procs := w_procs w @ [ev]\<rparr>)"

text \<open>\<^verbatim>\<open>except BaseException\<close>: stop a child that is still running. After \<^verbatim>\<open>wait\<close> returned, \<^verbatim>\<open>poll()\<close> has a value.\<close>

definition reap :: "run \<Rightarrow> unit handler" where
  "reap r = (if run_gone r then hret ()
             else hthen (log_proc Terminated) (if run_obeys r then hret () else log_proc Killed))"

definition child_session :: "'d env \<Rightarrow> (string \<Rightarrow> unit handler) \<Rightarrow> run \<Rightarrow> gen_result handler" where
  "child_session E on_delta r =
     hbind (hcatch (read_tokens E on_delta (run_lines r) \<lparr>g_dec = dec_start E, g_parts = [], g_tokens = 0, g_eos = False\<rparr>)
              (\<lambda>e. hthen (reap r) (hraise e))) (\<lambda>g.
     hthen (log_proc (Waited (run_rc r)))
       (if run_rc r \<noteq> 0 then hraise (RuntimeError (''C generator exited with code '' @ show_int (run_rc r)))
        else let tail = dec_end E (g_dec g) in
          if tail = [] then hret \<lparr>gr_text = concat (g_parts g), gr_tokens = g_tokens g, gr_eos = g_eos g\<rparr>
          else hthen (on_delta tail)
                 (hret \<lparr>gr_text = concat (g_parts g @ [tail]), gr_tokens = g_tokens g, gr_eos = g_eos g\<rparr>)))"

definition spawn_child :: "'d env \<Rightarrow> string list \<Rightarrow> string \<Rightarrow> run handler" where
  "spawn_child E cmd trunk_env w =
     (case gen_run E cmd trunk_env (case w_files w (tmp_path E) of None \<Rightarrow> [] | Some bs \<Rightarrow> bs) of
        Inl e \<Rightarrow> (Inl e, w)
      | Inr r \<Rightarrow> (Inr r, w\<lparr>w_procs := w_procs w @ [Spawned cmd trunk_env]\<rparr>))"

definition set_locked :: "bool \<Rightarrow> world \<Rightarrow> world" where "set_locked b w = w\<lparr>w_locked := b\<rparr>"

text \<open>The temporary file of prompt ids. Creating or filling it may fail before the \<^verbatim>\<open>try\<close>, leaving what was written so
  far; an \<^verbatim>\<open>OSError\<close> of its removal in the \<^verbatim>\<open>finally\<close> is ignored.\<close>

definition make_ids :: "'d env \<Rightarrow> int list \<Rightarrow> unit handler" where
  "make_ids E ids w =
     (let bs = ascii_encode (ids_text ids) in case tmp_fault E bs of
        None \<Rightarrow> (Inr (), w\<lparr>w_files := (w_files w)(tmp_path E \<mapsto> bs)\<rparr>)
      | Some (left, e) \<Rightarrow> (Inl e, w\<lparr>w_files := (w_files w)(tmp_path E := left)\<rparr>))"

definition unlink :: "'d env \<Rightarrow> string \<Rightarrow> unit handler" where
  "unlink E path w =
     (if unlink_denied E then (Inl (OSError ''Permission denied''), w)
      else case w_files w path of
        None \<Rightarrow> (Inl (FileNotFoundError ''No such file or directory''), w)
      | Some _ \<Rightarrow> (Inr (), w\<lparr>w_files := (w_files w)(path := None)\<rparr>))"

definition is_os_error :: "exn \<Rightarrow> bool" where
  "is_os_error e = (case e of OSError m \<Rightarrow> True | FileNotFoundError m \<Rightarrow> True | BrokenPipeError \<Rightarrow> True | _ \<Rightarrow> False)"

definition remove_ids :: "'d env \<Rightarrow> unit handler" where
  "remove_ids E = hcatch (unlink E (tmp_path E)) (\<lambda>e. if is_os_error e then hret () else hraise e)"

definition generate :: "'d env \<Rightarrow> int list \<Rightarrow> int \<Rightarrow> pyfloat \<Rightarrow> int \<Rightarrow> (string \<Rightarrow> unit handler) \<Rightarrow> gen_result handler" where
  "generate E ids max_tokens temperature seed on_delta =
     (if flt temperature (Fin 0) then hraise (ValueError ''temperature must be >= 0'')
      else hbind (hlift (runtime_plan E (input_tokens ids) max_tokens)) (\<lambda>(trunk, p).
        hthen (hmod (set_locked True))
          (hfinally
            (hthen (make_ids E ids)
              (hfinally
                (hbind (spawn_child E (gen_command E max_tokens temperature seed) (show_int trunk)) (child_session E on_delta))
                (remove_ids E)))
            (hmod (set_locked False)))))"

definition silent :: "string \<Rightarrow> unit handler" where "silent delta = hret ()"

section \<open>Handler lemmas\<close>

named_theorems handler_simps

lemma hret_app [simp, handler_simps]: "hret x w = (Inr x, w)" by (simp add: hret_def)
lemma hraise_app [simp, handler_simps]: "hraise e w = (Inl e, w)" by (simp add: hraise_def)
lemma hlift_app [simp, handler_simps]: "hlift r w = (r, w)" by (simp add: hlift_def)
lemma hmod_app [simp, handler_simps]: "hmod f w = (Inr (), f w)" by (simp add: hmod_def)

lemma hbind_Inr [handler_simps]: "m w = (Inr x, w') \<Longrightarrow> hbind m f w = f x w'"
  by (simp add: hbind_def)

lemma hbind_Inl [handler_simps]: "m w = (Inl e, w') \<Longrightarrow> hbind m f w = (Inl e, w')"
  by (simp add: hbind_def)

lemma hthen_Inr [handler_simps]: "m w = (Inr x, w') \<Longrightarrow> hthen m n w = n w'"
  by (simp add: hthen_def hbind_def)

lemma hthen_Inl [handler_simps]: "m w = (Inl e, w') \<Longrightarrow> hthen m n w = (Inl e, w')"
  by (simp add: hthen_def hbind_def)

lemma hthen_mod [simp]: "hthen (hmod f) n w = n (f w)"
  by (simp add: hthen_def hbind_def)

lemma hbind_lift [simp]: "hbind (hlift r) f w = (case r of Inl e \<Rightarrow> (Inl e, w) | Inr x \<Rightarrow> f x w)"
  by (simp add: hbind_def split: sum.splits)

definition unlinked :: "'d env \<Rightarrow> world \<Rightarrow> world" where
  "unlinked E w = (if unlink_denied E then w else w\<lparr>w_files := (w_files w)(tmp_path E := None)\<rparr>)"

lemma remove_ids_app: "remove_ids E w = (Inr (), unlinked E w)"
proof (cases "w_files w (tmp_path E)")
  case None
  then have "(w_files w)(tmp_path E := None) = w_files w" by (rule fun_upd_idem)
  then show ?thesis using None by (simp add: remove_ids_def hcatch_def unlink_def is_os_error_def unlinked_def)
qed (simp add: remove_ids_def hcatch_def unlink_def is_os_error_def unlinked_def)

lemma unlinked_simps [simp]:
  "w_left (unlinked E w) = w_left w" "w_out (unlinked E w) = w_out w" "w_hdrs (unlinked E w) = w_hdrs w"
  "w_close (unlinked E w) = w_close w" "w_procs (unlinked E w) = w_procs w" "w_locked (unlinked E w) = w_locked w"
  by (simp_all add: unlinked_def)

lemma set_locked_simps [simp]:
  "w_left (set_locked b w) = w_left w" "w_out (set_locked b w) = w_out w" "w_hdrs (set_locked b w) = w_hdrs w"
  "w_close (set_locked b w) = w_close w" "w_procs (set_locked b w) = w_procs w" "w_files (set_locked b w) = w_files w"
  "w_locked (set_locked b w) = b"
  by (simp_all add: set_locked_def)

text \<open>What a handler leaves alone: \<open>inert P m\<close> says that \<open>m\<close> relates the worlds before and after by \<open>P\<close>.\<close>

definition inert :: "(world \<Rightarrow> world \<Rightarrow> bool) \<Rightarrow> 'a handler \<Rightarrow> bool" where
  "inert P m = (\<forall>w. P w (snd (m w)))"

locale frame =
  fixes P :: "world \<Rightarrow> world \<Rightarrow> bool"
  assumes frame_refl: "P w w"
    and frame_trans: "P w v \<Longrightarrow> P v u \<Longrightarrow> P w u"
begin

lemma inert_ret: "inert P (hret x)" "inert P (hraise e)" "inert P (hlift r)"
  by (simp_all add: inert_def frame_refl)

lemma inert_bind: "inert P m \<Longrightarrow> (\<And>x. inert P (f x)) \<Longrightarrow> inert P (hbind m f)"
  unfolding inert_def hbind_def by (auto split: prod.splits sum.splits intro: frame_trans) (metis frame_trans snd_conv)+

lemma inert_then: "inert P m \<Longrightarrow> inert P n \<Longrightarrow> inert P (hthen m n)"
  unfolding hthen_def by (rule inert_bind)

lemma inert_catch: "inert P m \<Longrightarrow> (\<And>e. inert P (h e)) \<Longrightarrow> inert P (hcatch m h)"
  unfolding inert_def hcatch_def by (auto split: prod.splits sum.splits) (metis frame_trans snd_conv)+

lemma inert_read_tokens:
  assumes "\<And>d. inert P (on_delta d)"
  shows "inert P (read_tokens E on_delta ls g)"
proof (induction ls arbitrary: g)
  case Nil
  then show ?case unfolding read_tokens.simps by (rule inert_ret)
next
  case (Cons l ls)
  then show ?case
    unfolding read_tokens.simps Let_def by (auto split: prod.splits intro!: inert_bind inert_ret inert_then assms)
qed

end

section \<open>The decoded stream\<close>

text \<open>The specification of the read loop: the deltas it delivers and the state it ends with, without a client.\<close>

fun decode_run :: "'d env \<Rightarrow> string list \<Rightarrow> 'd gstate \<Rightarrow> string list \<times> 'd gstate res" where
  "decode_run E [] g = ([], Inr g)"
| "decode_run E (raw # rest) g =
     (if \<not> starts_with (py_strip raw) ''TOKEN '' then decode_run E rest g
      else case line_token (py_strip raw) of Inl e \<Rightarrow> ([], Inl e) | Inr token \<Rightarrow>
        if token \<in> STOP_IDS then ([], Inr (g\<lparr>g_tokens := g_tokens g + 1, g_eos := True\<rparr>))
        else case token_text E token (g_dec g) of Inl e \<Rightarrow> ([], Inl e) | Inr (delta, d) \<Rightarrow>
          if delta = [] then decode_run E rest (g\<lparr>g_tokens := g_tokens g + 1, g_dec := d\<rparr>)
          else case decode_run E rest (g\<lparr>g_tokens := g_tokens g + 1, g_dec := d, g_parts := g_parts g @ [delta]\<rparr>) of
            (ds, r) \<Rightarrow> (delta # ds, r))"

definition emit :: "wire list \<Rightarrow> world \<Rightarrow> world" where "emit xs w = w\<lparr>w_out := w_out w @ xs\<rparr>"

lemma emit_simps [simp]:
  "emit [] w = w" "emit ys (emit xs w) = emit (xs @ ys) w"
  "w_left (emit xs w) = w_left w" "w_files (emit xs w) = w_files w" "w_procs (emit xs w) = w_procs w"
  "w_locked (emit xs w) = w_locked w" "w_hdrs (emit xs w) = w_hdrs w" "w_out (emit xs w) = w_out w @ xs"
  "w_close (emit xs w) = w_close w"
  by (simp_all add: emit_def)

text \<open>A callback that writes \<open>f delta\<close> to a client that is still there.\<close>

definition delivers :: "(string \<Rightarrow> wire list) \<Rightarrow> (string \<Rightarrow> unit handler) \<Rightarrow> bool" where
  "delivers f on_delta = (\<forall>d w. w_left w = None \<longrightarrow> on_delta d w = (Inr (), emit (f d) w))"

lemma read_tokens_spec:
  assumes "delivers f on_delta" "w_left w = None"
  shows "read_tokens E on_delta ls g w
    = (snd (decode_run E ls g), emit (concat (map f (fst (decode_run E ls g)))) w)"
  using assms(2)
proof (induction ls arbitrary: g w)
  case Nil
  then show ?case by simp
next
  case (Cons l ls)
  have d: "on_delta x v = (Inr (), emit (f x) v)" if "w_left v = None" for x v
    using assms(1) that by (simp add: delivers_def)
  show ?case
    using Cons by (auto simp: Let_def hthen_def hbind_def d split: sum.splits prod.splits)
qed

lemma decode_run_parts: "decode_run E ls g = (ds, Inr g') \<Longrightarrow> g_parts g' = g_parts g @ ds"
  by (induction E ls g arbitrary: ds rule: decode_run.induct) (auto split: if_splits sum.splits prod.splits)

lemma delivers_silent: "delivers (\<lambda>_. []) silent"
  by (simp add: delivers_def silent_def)

section \<open>One run of the generator\<close>

definition logged :: "proc_event list \<Rightarrow> world \<Rightarrow> world" where "logged evs w = w\<lparr>w_procs := w_procs w @ evs\<rparr>"

lemma logged_simps [simp]:
  "logged [] w = w" "logged ys (logged xs w) = logged (xs @ ys) w" "logged xs (emit os w) = emit os (logged xs w)"
  "w_left (logged xs w) = w_left w" "w_out (logged xs w) = w_out w" "w_files (logged xs w) = w_files w"
  "w_procs (logged xs w) = w_procs w @ xs" "w_hdrs (logged xs w) = w_hdrs w" "w_locked (logged xs w) = w_locked w"
  "w_close (logged xs w) = w_close w"
  by (simp_all add: logged_def emit_def)

lemma log_proc_app [simp]: "log_proc ev w = (Inr (), logged [ev] w)"
  by (simp add: log_proc_def logged_def)

definition reap_events :: "run \<Rightarrow> proc_event list" where
  "reap_events r = (if run_gone r then [] else if run_obeys r then [Terminated] else [Terminated, Killed])"

lemma reap_app: "reap r w = (Inr (), logged (reap_events r) w)"
  by (simp add: reap_def reap_events_def hthen_def hbind_def)

text \<open>What a child session does for a client that stays: the deltas it delivers, its answer, its process events.\<close>

definition child_result :: "'d env \<Rightarrow> run \<Rightarrow> string list \<times> gen_result res \<times> proc_event list" where
  "child_result E r =
     (case decode_run E (run_lines r) \<lparr>g_dec = dec_start E, g_parts = [], g_tokens = 0, g_eos = False\<rparr> of
        (ds, Inl e) \<Rightarrow> (ds, Inl e, reap_events r)
      | (ds, Inr g) \<Rightarrow>
          if run_rc r \<noteq> 0 then (ds, Inl (RuntimeError (''C generator exited with code '' @ show_int (run_rc r))), [Waited (run_rc r)])
          else let ds = ds @ (if dec_end E (g_dec g) = [] then [] else [dec_end E (g_dec g)]) in
            (ds, Inr \<lparr>gr_text = concat ds, gr_tokens = g_tokens g, gr_eos = g_eos g\<rparr>, [Waited (run_rc r)]))"

lemma child_session_spec:
  assumes d: "delivers f on_delta" and w: "w_left w = None" and c: "child_result E r = (ds, res, evs)"
  shows "child_session E on_delta r w = (res, emit (concat (map f ds)) (logged evs w))"
proof -
  let ?g = "\<lparr>g_dec = dec_start E, g_parts = [], g_tokens = 0, g_eos = False\<rparr>"
  obtain ds1 r1 where run: "decode_run E (run_lines r) ?g = (ds1, r1)" by (metis surj_pair)
  note rt = read_tokens_spec [OF d w, of E "run_lines r" ?g, unfolded run fst_conv snd_conv]
  have tail: "on_delta x v = (Inr (), emit (f x) v)" if "w_left v = None" for x v
    using d that by (simp add: delivers_def)
  show ?thesis
  proof (cases r1)
    case (Inl e)
    then show ?thesis
      using c run rt by (auto simp: child_session_def child_result_def hcatch_def hbind_def hthen_def reap_app)
  next
    case (Inr g)
    have "g_parts g = ds1" using decode_run_parts run Inr by fastforce
    then show ?thesis
      using c run rt Inr w
      by (auto simp: child_session_def child_result_def hcatch_def hbind_def hthen_def Let_def tail split: if_splits)
  qed
qed

lemma child_result_text: "child_result E r = (ds, Inr g, evs) \<Longrightarrow> concat ds = gr_text g"
  by (auto simp: child_result_def Let_def split: prod.splits sum.splits if_splits)

text \<open>The deltas and the answer of a request depend on the environment alone, not on the world it runs in.\<close>

definition gen_outcome :: "'d env \<Rightarrow> int list \<Rightarrow> int \<Rightarrow> pyfloat \<Rightarrow> int \<Rightarrow> string list \<times> gen_result res" where
  "gen_outcome E ids max_tokens temperature seed =
     (if flt temperature (Fin 0) then ([], Inl (ValueError ''temperature must be >= 0''))
      else case runtime_plan E (input_tokens ids) max_tokens of
        Inl e \<Rightarrow> ([], Inl e)
      | Inr (trunk, p) \<Rightarrow>
          (case tmp_fault E (ascii_encode (ids_text ids)) of
             Some (left, e) \<Rightarrow> ([], Inl e)
           | None \<Rightarrow>
          (case gen_run E (gen_command E max_tokens temperature seed) (show_int trunk) (ascii_encode (ids_text ids)) of
             Inl e \<Rightarrow> ([], Inl e)
           | Inr r \<Rightarrow> (case child_result E r of (ds, res, evs) \<Rightarrow> (ds, res)))))"

lemma generate_cases:
  obtains (early) e where "\<And>on_delta. generate E ids max_tokens temperature seed on_delta w = (Inl e, w)"
      "e = ValueError ''temperature must be >= 0'' \<or> runtime_plan E (input_tokens ids) max_tokens = Inl e"
      "gen_outcome E ids max_tokens temperature seed = ([], Inl e)"
  | (fault) trunk p left e where "runtime_plan E (input_tokens ids) max_tokens = Inr (trunk, p)"
      "tmp_fault E (ascii_encode (ids_text ids)) = Some (left, e)"
      "\<And>on_delta. generate E ids max_tokens temperature seed on_delta w
        = (Inl e, w\<lparr>w_files := (w_files w)(tmp_path E := left), w_locked := False\<rparr>)"
      "gen_outcome E ids max_tokens temperature seed = ([], Inl e)"
  | (spawn) trunk p e where "runtime_plan E (input_tokens ids) max_tokens = Inr (trunk, p)"
      "tmp_fault E (ascii_encode (ids_text ids)) = None"
      "\<And>on_delta. generate E ids max_tokens temperature seed on_delta w
        = (Inl e, set_locked False (unlinked E (w\<lparr>w_files := (w_files w)(tmp_path E \<mapsto> ascii_encode (ids_text ids))\<rparr>)))"
      "gen_run E (gen_command E max_tokens temperature seed) (show_int trunk) (ascii_encode (ids_text ids)) = Inl e"
      "gen_outcome E ids max_tokens temperature seed = ([], Inl e)"
  | (run) trunk p r w1 where "runtime_plan E (input_tokens ids) max_tokens = Inr (trunk, p)"
      "tmp_fault E (ascii_encode (ids_text ids)) = None"
      "w_procs w1 = w_procs w @ [Spawned (gen_command E max_tokens temperature seed) (show_int trunk)]"
      "w_left w1 = w_left w" "w_out w1 = w_out w" "w_hdrs w1 = w_hdrs w" "w_close w1 = w_close w"
      "w_files w1 = (w_files w)(tmp_path E \<mapsto> ascii_encode (ids_text ids))"
      "gen_run E (gen_command E max_tokens temperature seed) (show_int trunk) (ascii_encode (ids_text ids)) = Inr r"
      "\<And>on_delta. generate E ids max_tokens temperature seed on_delta w
        = (case child_session E on_delta r w1 of (res, v) \<Rightarrow> (res, set_locked False (unlinked E v)))"
      "gen_outcome E ids max_tokens temperature seed = (fst (child_result E r), fst (snd (child_result E r)))"
proof -
  let ?cmd = "gen_command E max_tokens temperature seed"
  let ?bs = "ascii_encode (ids_text ids)"
  consider (e) e where "\<And>on_delta. generate E ids max_tokens temperature seed on_delta w = (Inl e, w)"
      "e = ValueError ''temperature must be >= 0'' \<or> runtime_plan E (input_tokens ids) max_tokens = Inl e"
      "gen_outcome E ids max_tokens temperature seed = ([], Inl e)"
    | (r) trunk p where "\<not> flt temperature (Fin 0)" "runtime_plan E (input_tokens ids) max_tokens = Inr (trunk, p)"
    by (cases "flt temperature (Fin 0)"; cases "runtime_plan E (input_tokens ids) max_tokens")
      (auto simp: generate_def gen_outcome_def)
  then show thesis
  proof cases
    case (r trunk p)
    note open_generate = generate_def gen_outcome_def hfinally_def hthen_def hbind_def make_ids_def Let_def
      spawn_child_def remove_ids_app split_beta
    consider (f) left e where "tmp_fault E ?bs = Some (left, e)"
      | (s) e where "tmp_fault E ?bs = None" "gen_run E ?cmd (show_int trunk) ?bs = Inl e"
      | (c) x where "tmp_fault E ?bs = None" "gen_run E ?cmd (show_int trunk) ?bs = Inr x"
      by (cases "tmp_fault E ?bs"; cases "gen_run E ?cmd (show_int trunk) ?bs") auto
    then show thesis
    proof cases
      case (f left e)
      then show thesis using r
        by (intro fault [of trunk p left e]) (simp_all add: open_generate set_locked_def)
    next
      case (s e)
      then show thesis using r
        by (intro spawn [of trunk p e]) (simp_all add: open_generate set_locked_def unlinked_def)
    next
      case (c x)
      let ?w1 = "w\<lparr>w_locked := True, w_files := (w_files w)(tmp_path E \<mapsto> ?bs),
        w_procs := w_procs w @ [Spawned ?cmd (show_int trunk)]\<rparr>"
      show thesis
        by (rule run [of trunk p ?w1 x]) (use r c in \<open>simp_all add: open_generate set_locked_def [of True]\<close>)
    qed
  qed (rule early)
qed

text \<open>The same for the whole of \<open>generate\<close>, whatever the callback does with the deltas.\<close>

lemma generate_spec:
  assumes d: "delivers f on_delta" and "w_left w = None" and o: "gen_outcome E ids max_tokens temperature seed = (ds, res)"
  shows "\<exists>w'. generate E ids max_tokens temperature seed on_delta w = (res, emit (concat (map f ds)) w')
    \<and> w_left w' = None \<and> w_out w' = w_out w \<and> w_hdrs w' = w_hdrs w \<and> w_close w' = w_close w"
proof (cases rule: generate_cases [of E ids max_tokens temperature seed w])
  case (early e)
  show ?thesis by (rule exI [of _ w]) (use o early in \<open>simp add: assms(2)\<close>)
next
  case (fault trunk p left e)
  show ?thesis
    by (rule exI [of _ "w\<lparr>w_files := (w_files w)(tmp_path E := left), w_locked := False\<rparr>"])
      (use o fault in \<open>simp add: assms(2)\<close>)
next
  case (spawn trunk p e)
  show ?thesis
    by (rule exI [of _ "set_locked False (unlinked E (w\<lparr>w_files := (w_files w)(tmp_path E \<mapsto> ascii_encode (ids_text ids))\<rparr>))"])
      (use o spawn in \<open>simp add: assms(2)\<close>)
next
  case (run trunk p r w1)
  then obtain evs where c: "child_result E r = (ds, res, evs)" using o by (cases "child_result E r") auto
  define finish where "finish v = set_locked False (unlinked E v)" for v :: world
  have fin: "finish (emit xs v) = emit xs (finish v)" "w_left (finish v) = w_left v" "w_out (finish v) = w_out v"
    "w_hdrs (finish v) = w_hdrs v" "w_close (finish v) = w_close v" for xs v
    by (simp_all add: finish_def emit_def set_locked_def unlinked_def)
  have "generate E ids max_tokens temperature seed on_delta w
      = (res, emit (concat (map f ds)) (finish (logged evs w1)))"
    using child_session_spec [OF d _ c, of w1] run(4) assms(2) by (simp add: run(10) fin flip: finish_def)
  then show ?thesis
    by (intro exI [of _ "finish (logged evs w1)"]) (simp add: fin run(4-7) assms(2))
qed

lemma gen_outcome_text: "gen_outcome E ids max_tokens temperature seed = (ds, Inr g) \<Longrightarrow> concat ds = gr_text g"
  using child_result_text by (fastforce simp: gen_outcome_def split: if_splits sum.splits prod.splits option.splits)

lemma generate_silent:
  assumes "w_left w = None"
  obtains w' where "generate E ids max_tokens temperature seed silent w = (snd (gen_outcome E ids max_tokens temperature seed), w')"
    "w_left w' = None" "w_out w' = w_out w" "w_hdrs w' = w_hdrs w" "w_close w' = w_close w"
proof -
  obtain ds res where o: "gen_outcome E ids max_tokens temperature seed = (ds, res)" by (metis surj_pair)
  have "concat (map (\<lambda>_. [] :: wire list) ds) = []" by (induction ds) simp_all
  with generate_spec [OF delivers_silent assms o] that o show thesis by auto
qed

section \<open>What a run leaves behind\<close>

text \<open>A callback that only talks to the client: it may fail, but touches neither files, lock nor processes.\<close>

definition socket_step :: "world \<Rightarrow> world \<Rightarrow> bool" where
  "socket_step w v = (w_files v = w_files w \<and> w_locked v = w_locked w \<and> w_procs v = w_procs w)"

interpretation socket: frame socket_step
  by unfold_locales (auto simp: socket_step_def)

definition socket_only :: "(string \<Rightarrow> unit handler) \<Rightarrow> bool" where
  "socket_only on_delta = (\<forall>d. inert socket_step (on_delta d))"

text \<open>How a child ends: waited for, and with a reply only when it exited with 0; or, when an exception came while its
  output was read, stopped unless it had already gone.\<close>

definition child_ends :: "run \<Rightarrow> 'a res \<Rightarrow> proc_event list \<Rightarrow> bool" where
  "child_ends r res tail =
     (tail = [Waited (run_rc r)] \<and> (is_ok res \<longrightarrow> run_rc r = 0)
      \<or> \<not> is_ok res \<and> tail = (if run_gone r then [] else if run_obeys r then [Terminated] else [Terminated, Killed]))"

lemma child_session_frame:
  assumes "socket_only on_delta" "child_session E on_delta r w = (res, w')"
  shows "w_files w' = w_files w \<and> w_locked w' = w_locked w \<and> (\<exists>tail. w_procs w' = w_procs w @ tail \<and> child_ends r res tail)"
proof -
  let ?g = "\<lparr>g_dec = dec_start E, g_parts = [], g_tokens = 0, g_eos = False\<rparr>"
  have i: "socket_step v v'" if "on_delta d v = (x, v')" for d v x v'
    using assms(1) that unfolding socket_only_def inert_def by (metis snd_conv)
  obtain r1 w1 where run: "read_tokens E on_delta (run_lines r) ?g w = (r1, w1)" by (metis surj_pair)
  have s1: "socket_step w w1"
    using socket.inert_read_tokens [of on_delta E "run_lines r" ?g] assms(1) run
    unfolding socket_only_def inert_def by (metis snd_conv)
  show ?thesis
  proof (cases r1)
    case (Inl e)
    then have "w' = logged (reap_events r) w1" "res = Inl e"
      using assms(2) run by (simp_all add: child_session_def hcatch_def hbind_def hthen_def reap_app)
    then show ?thesis using s1 by (simp add: socket_step_def child_ends_def reap_events_def)
  next
    case (Inr g)
    then have "socket_step (logged [Waited (run_rc r)] w1) w' \<and> (is_ok res \<longrightarrow> run_rc r = 0)"
      using assms(2) run i [of "dec_end E (g_dec g)" "logged [Waited (run_rc r)] w1"]
      by (auto simp: child_session_def hcatch_def hbind_def hthen_def Let_def socket_step_def
          split: if_splits prod.splits sum.splits)
    then show ?thesis using s1 by (auto simp: socket_step_def child_ends_def)
  qed
qed

section \<open>Properties\<close>

text \<open>C14: what a generation leaves behind, whatever happens during it: the client goes away, the child cannot be started or
  fails, a line cannot be read. The lock is released and no file but the temporary one is touched; that one
  is gone unless the system refused to remove it or failed while it was being written, before the code guards it. A child runs only
  when the RAM plan of the request fits the budget; it is the process that the command started on the written ids, and it was waited
  for, with exit code 0 when a reply is returned, or it was terminated, and killed when it did not obey, unless it had already
  gone. Without a child there is no reply.\<close>

theorem generation_leaves_nothing_behind:
  assumes "generate E ids max_tokens temperature seed on_delta w = (res, w')"
    and "socket_only on_delta" "w_files w (tmp_path E) = None" "\<not> w_locked w"
  shows "\<not> w_locked w' \<and> (\<forall>path. path \<noteq> tmp_path E \<longrightarrow> w_files w' path = w_files w path)
    \<and> (w_files w' (tmp_path E) \<noteq> None \<longrightarrow> unlink_denied E \<or> tmp_fault E (ascii_encode (ids_text ids)) \<noteq> None)
    \<and> (\<exists>evs. w_procs w' = w_procs w @ evs \<and> (evs = [] \<and> \<not> is_ok res \<or>
        (\<exists>trunk p r tail. evs = Spawned (gen_command E max_tokens temperature seed) (show_int trunk) # tail
          \<and> gen_run E (gen_command E max_tokens temperature seed) (show_int trunk) (ascii_encode (ids_text ids)) = Inr r
          \<and> child_ends r res tail
          \<and> runtime_plan E (input_tokens ids) max_tokens = Inr (trunk, p) \<and> total p \<le> rt_ram_mib E * MIB)))"
proof (cases rule: generate_cases [of E ids max_tokens temperature seed w])
  case (early e)
  then show ?thesis using assms by auto
next
  case (fault trunk p left e)
  then show ?thesis using assms by auto
next
  case (spawn trunk p e)
  then have "w' = set_locked False (unlinked E (w\<lparr>w_files := (w_files w)(tmp_path E \<mapsto> ascii_encode (ids_text ids))\<rparr>))"
    "res = Inl e" using assms(1) by simp_all
  then show ?thesis by (simp add: unlinked_def)
next
  case (run trunk p r w1)
  obtain res1 v where v: "child_session E on_delta r w1 = (res1, v)" by (metis surj_pair)
  have "w' = set_locked False (unlinked E v)" "res = res1" using assms(1) run(10) v by simp_all
  moreover have "total p \<le> rt_ram_mib E * MIB"
    using run(1) by (auto simp: runtime_plan_def rbind_eq_Inr split: if_splits)
  moreover obtain tail where "w_files v = w_files w1" "w_procs v = w_procs w1 @ tail" "child_ends r res1 tail"
    using child_session_frame [OF assms(2) v] by blast
  ultimately show ?thesis using run(1,2,3,8,9) assms(3) by (auto simp: unlinked_def)
qed

lemma socket_only_silent: "socket_only silent"
  using socket.inert_ret by (simp add: socket_only_def inert_def silent_def socket_step_def)

definition token_out :: "nat \<Rightarrow> string" where "token_out n = ''TOKEN '' @ show_nat n"

text \<open>A small environment: one prompt token, a child that says one word and stops.\<close>

definition ex_run :: run where
  "ex_run = \<lparr> run_lines = [token_out 5, token_out 163586], run_rc = 0, run_gone = False, run_obeys = True \<rparr>"

definition ex_env :: "unit env" where
  "ex_env = \<lparr> sv_model_id = ''kimi'', sv_api_key = Some ''key'', rt_dir = ''m'', rt_binary = ''g'', rt_cache_mib = 512,
     rt_trunk = ReqInt 0, rt_ram_mib = 4096, py_repr = (\<lambda>v. ''0.2''),
     py_loads = (\<lambda>b. Inr (JObj [(''messages'', JList [message ''user'' ''hi'']), (''stream'', JBool (b \<noteq> []))])),
     tok_encode = (\<lambda>s. [1]), tok_bytes = (\<lambda>t. Some [104, 105]), tok_decode = (\<lambda>t. Inr []), dec_start = (),
     dec_step = (\<lambda>d bs. (map (\<lambda>b. char_of (unat b)) bs, ())), dec_end = (\<lambda>d. []),
     gen_run = (\<lambda>cmd env ids. Inr ex_run),
     tmp_path = ''t'', tmp_fault = (\<lambda>bs. None), unlink_denied = False, surrogate = (\<lambda>c. c = CHR 0xFF), fresh_id = ''id'', clock = 0 \<rparr>"

definition ex_world :: world where
  "ex_world = \<lparr> w_files = Map.empty, w_locked = False, w_procs = [], w_out = [], w_hdrs = [], w_left = None, w_close = False \<rparr>"

lemma token_line [simp]:
  "py_strip (token_out n) = token_out n" "starts_with (token_out n) ''TOKEN ''" "line_token (token_out n) = Inr (int n)"
proof -
  have "\<not> is_space (last (show_nat n))"
    using nonspace_show_nat [of n] last_in_set [of "show_nat n"] by (auto simp: list_all_iff)
  then show "py_strip (token_out n) = token_out n"
    unfolding token_out_def by (intro py_strip_id) (simp add: is_space_def cp_def)
  show "starts_with (token_out n) ''TOKEN ''" by (simp add: token_out_def starts_with_def)
  have "py_split (''TOKEN'' @ CHR '' '' # show_nat n) = ''TOKEN'' # py_split (show_nat n)"
    by (rule py_split_word) (simp_all add: is_space_def cp_def)
  also have "py_split (show_nat n) = [show_nat n]" by (rule py_split_single) (simp_all add: nonspace_show_nat)
  finally show "line_token (token_out n) = Inr (int n)" by (simp add: token_out_def line_token_def int_res_def)
qed

lemma ex_child: "\<exists>ds g evs. child_result ex_env ex_run = (ds, Inr g, evs)"
  by (simp add: child_result_def ex_run_def ex_env_def token_text_def Let_def STOP_IDS_def EOS_ID_def IM_END_ID_def)

lemma ex_session: "\<exists>g w'. child_session ex_env silent ex_run ex_world = (Inr g, w')"
  using ex_child child_session_spec [OF delivers_silent, of ex_world ex_env ex_run] by (fastforce simp: ex_world_def)

lemma ex_plan: "\<exists>p. runtime_plan ex_env (input_tokens [1]) 32 = Inr (0, p)"
  by (simp add: runtime_plan_def ex_env_def resolve_trunk_cache_mib_def parse_trunk_cache_request_def
      planned_text_breakdown_def plan_constants input_tokens_def)

lemma ex_generates: "\<exists>g w'. generate ex_env [1] 32 (Fin 0) 1 silent ex_world = (Inr g, w')"
proof -
  obtain ds g evs where c: "child_result ex_env ex_run = (ds, Inr g, evs)" using ex_child by blast
  obtain p where p: "runtime_plan ex_env (input_tokens [1]) 32 = Inr (0, p)" using ex_plan by blast
  have "gen_run ex_env cmd tr ids = Inr ex_run" "tmp_fault ex_env bs = None" for cmd tr ids bs by (simp_all add: ex_env_def)
  then have o: "gen_outcome ex_env [1] 32 (Fin 0) 1 = (ds, Inr g)"
    unfolding gen_outcome_def p by (simp add: c)
  show ?thesis
    by (rule generate_silent [of ex_world ex_env "[1]" 32 "Fin 0" 1]) (auto simp: o ex_world_def)
qed

theorem generation_leaves_nothing_behind_witness:
  "\<exists>g w' trunk. generate ex_env [1] 32 (Fin 0) 1 silent ex_world = (Inr g, w') \<and> w_files w' = Map.empty \<and> \<not> w_locked w'
     \<and> w_procs w' = [Spawned (gen_command ex_env 32 (Fin 0) 1) trunk, Waited 0]"
proof -
  obtain g w' where g: "generate ex_env [1] 32 (Fin 0) 1 silent ex_world = (Inr g, w')" using ex_generates by blast
  have w: "w_files ex_world (tmp_path ex_env) = None" "\<not> w_locked ex_world" by (simp_all add: ex_world_def)
  note t = generation_leaves_nothing_behind [OF g socket_only_silent w]
  have "w_files w' path = None" for path
    using t by (cases "path = tmp_path ex_env") (auto simp: ex_world_def ex_env_def)
  then show ?thesis using t g by (fastforce simp: ex_world_def child_ends_def)
qed

text \<open>The ids on the \<^verbatim>\<open>TOKEN\<close> lines.\<close>

definition token_lines :: "string list \<Rightarrow> string list" where
  "token_lines ls = filter (\<lambda>l. starts_with l ''TOKEN '') (map py_strip ls)"

lemma decode_run_tokens:
  assumes "mapR line_token (token_lines ls) = Inr ids" "decode_run E ls g = (ds, Inr g')"
  shows "g_tokens g' = g_tokens g + length (takeWhile (\<lambda>t. t \<notin> STOP_IDS) ids) + (if \<exists>t \<in> set ids. t \<in> STOP_IDS then 1 else 0)
    \<and> (g_eos g' \<longleftrightarrow> g_eos g \<or> (\<exists>t \<in> set ids. t \<in> STOP_IDS))"
  using assms
proof (induction E ls g arbitrary: ids ds rule: decode_run.induct)
  case (1 E g)
  then show ?case by (simp add: token_lines_def)
next
  case (2 E raw rest g)
  show ?case
  proof (cases "starts_with (py_strip raw) ''TOKEN ''")
    case False
    then show ?thesis using 2 by (simp add: token_lines_def)
  next
    case True
    then obtain t ids' where t: "line_token (py_strip raw) = Inr t" "mapR line_token (token_lines rest) = Inr ids'" "ids = t # ids'"
      using 2(4) by (auto simp: token_lines_def rbind_eq_Inr)
    show ?thesis
    proof (cases "t \<in> STOP_IDS")
      case True
      then show ?thesis using 2(5) t \<open>starts_with _ _\<close> by auto
    next
      case False
      then obtain delta d where x: "token_text E t (g_dec g) = Inr (delta, d)"
        using 2(5) t \<open>starts_with _ _\<close> by (auto split: sum.splits)
      show ?thesis
        using 2(2) [OF _ t(1) False x refl _ t(2)] 2(3) [OF _ t(1) False x refl _ t(2)] 2(5)
          \<open>starts_with _ _\<close> t False x
        by (auto split: if_splits prod.splits)
    qed
  qed
qed

text \<open>C18: the usage numbers and the stop reason of a reply come from the child's output alone: the tokens are counted
  up to and including the first stop id, and the reply counts as finished exactly when a stop id was printed.\<close>

theorem generation_counts_tokens:
  assumes "child_session E on_delta r w = (Inr g, w')" "delivers f on_delta" "w_left w = None"
    and "mapR line_token (token_lines (run_lines r)) = Inr ids"
  shows "gr_tokens g = length (takeWhile (\<lambda>t. t \<notin> STOP_IDS) ids) + (if \<exists>t \<in> set ids. t \<in> STOP_IDS then 1 else 0)
    \<and> (gr_eos g \<longleftrightarrow> (\<exists>t \<in> set ids. t \<in> STOP_IDS)) \<and> run_rc r = 0"
proof -
  obtain ds res evs where c: "child_result E r = (ds, res, evs)" by (metis prod_cases3)
  then have "child_result E r = (ds, Inr g, evs)" using child_session_spec [OF assms(2,3) c] assms(1) by simp
  then show ?thesis
    using decode_run_tokens [OF assms(4)]
    by (fastforce simp: child_result_def Let_def split: prod.splits sum.splits if_splits)
qed

theorem generation_counts_tokens_witness:
  "\<exists>g w'. child_session ex_env silent ex_run ex_world = (Inr g, w') \<and> gr_tokens g = 2 \<and> gr_eos g"
proof -
  obtain g w' where g: "child_session ex_env silent ex_run ex_world = (Inr g, w')" using ex_session by blast
  have w: "w_left ex_world = None" by (simp add: ex_world_def)
  have "mapR line_token (token_lines (run_lines ex_run)) = Inr [5, 163586]"
    by (simp add: ex_run_def token_lines_def)
  from generation_counts_tokens [OF g delivers_silent w this] g show ?thesis by (simp add: STOP_IDS_def EOS_ID_def IM_END_ID_def)
qed

end
