(* ===== verification/ApiHttp.thy ===== *)
theory ApiHttp
  imports ApiServer
begin

text \<open>
  The request handlers of \<^verbatim>\<open>tools/kvl_api.py\<close>: authentication, body parsing, routing, the two answer formats and the
  two event streams, on the \<open>world\<close> of \<open>ApiServer\<close>.
\<close>

section \<open>Writing a response\<close>

definition utf8_char :: "char \<Rightarrow> bytes" where
  "utf8_char c = (if cp c < 128 then [word_of_nat (cp c)] else [word_of_nat (192 + cp c div 64), word_of_nat (128 + cp c mod 64)])"

definition utf8 :: "string \<Rightarrow> bytes" where
  "utf8 s = concat (map utf8_char s)"

text \<open>Encoding fails on a lone surrogate.\<close>

definition encodable :: "'d env \<Rightarrow> string \<Rightarrow> bool" where
  "encodable E s = list_all (\<lambda>c. cp c < 128 \<or> \<not> surrogate E c) s"

definition encode_utf8 :: "'d env \<Rightarrow> string \<Rightarrow> bytes res" where
  "encode_utf8 E s = (if encodable E s then Inr (utf8 s) else Inl (UnicodeError ''surrogates not allowed''))"

text \<open>A write to the socket: the client takes \<open>w_left\<close> more of them, or any number.\<close>

definition wfile_write :: "wire \<Rightarrow> unit handler" where
  "wfile_write x w = (case w_left w of
     None \<Rightarrow> (Inr (), emit [x] w)
   | Some 0 \<Rightarrow> (Inl BrokenPipeError, w)
   | Some (Suc n) \<Rightarrow> (Inr (), emit [x] (w\<lparr>w_left := Some n\<rparr>)))"

definition send_response :: "nat \<Rightarrow> unit handler" where
  "send_response status = hmod (\<lambda>w. w\<lparr>w_hdrs := w_hdrs w @ [StatusLine status]\<rparr>)"

definition send_header :: "string \<Rightarrow> string \<Rightarrow> unit handler" where
  "send_header k v = hmod (\<lambda>w. w\<lparr>w_hdrs := w_hdrs w @ [Header k v],
     w_close := w_close w \<or> py_lower k = ''connection'' \<and> py_lower v = ''close''\<rparr>)"

definition end_headers :: "unit handler" where
  "end_headers w = hthen (wfile_write (Heads (w_hdrs w))) (hmod (\<lambda>w. w\<lparr>w_hdrs := []\<rparr>)) w"

definition send_cors :: "unit handler" where
  "send_cors =
     hthen (send_header ''Access-Control-Allow-Origin'' ''*'')
     (hthen (send_header ''Access-Control-Allow-Headers'' ''authorization, content-type, x-api-key, anthropic-version, anthropic-beta'')
       (send_header ''Access-Control-Allow-Methods'' ''GET, POST, OPTIONS''))"

definition send_json :: "'d env \<Rightarrow> nat \<Rightarrow> json \<Rightarrow> unit handler" where
  "send_json E status payload =
     hbind (hlift (encode_utf8 E (dumps (py_repr E) payload))) (\<lambda>body.
      hthen (send_response status)
      (hthen (send_header ''Content-Type'' ''application/json; charset=utf-8'')
      (hthen (send_header ''Content-Length'' (show_nat (length body)))
      (hthen send_cors (hthen end_headers (wfile_write (Body body)))))))"

section \<open>Requests\<close>

definition header :: "request \<Rightarrow> string \<Rightarrow> string option" where
  "header rq k = map_of (map (\<lambda>(k, v). (py_lower k, v)) (rq_headers rq)) k"

definition error_json :: "string \<Rightarrow> string \<Rightarrow> json" where
  "error_json kind msg = JObj [(''type'', JStr ''error''), (''error'', JObj [(''type'', JStr kind), (''message'', JStr msg)])]"

definition not_found_json :: json where
  "not_found_json = JObj [(''error'', JObj [(''message'', JStr ''not found''), (''type'', JStr ''not_found'')])]"

definition key_accepted :: "'d env \<Rightarrow> request \<Rightarrow> bool" where
  "key_accepted E rq = (case sv_api_key E of
     None \<Rightarrow> True
   | Some expected \<Rightarrow> expected = [] \<or> header rq ''x-api-key'' = Some expected
       \<or> header rq ''authorization'' = Some (''Bearer '' @ expected))"

definition authorized :: "'d env \<Rightarrow> request \<Rightarrow> bool handler" where
  "authorized E rq =
     (if key_accepted E rq then hret True
      else hthen (send_json E 401 (error_json ''authentication_error'' ''invalid local API key'')) (hret False))"

definition read_json_body :: "'d env \<Rightarrow> request \<Rightarrow> (string \<times> json) list res" where
  "read_json_body E rq = (case header rq ''content-length'' of
     None \<Rightarrow> Inl (ValueError ''missing Content-Length'')
   | Some raw_len \<Rightarrow> rbind (int_res raw_len) (\<lambda>len.
       if len < 0 \<or> len > MAX_REQUEST_BYTES then Inl (ValueError (''request body too large (limit '' @ show_int MAX_REQUEST_BYTES @ '' bytes)''))
       else rbind (py_loads E (take (nat len) (rq_body rq))) (\<lambda>data. case data of
           JObj kvs \<Rightarrow> Inr kvs | _ \<Rightarrow> Inl (ValueError ''JSON body must be an object''))))"

definition validate_model :: "'d env \<Rightarrow> (string \<times> json) list \<Rightarrow> unit res" where
  "validate_model E body =
     (let requested = kv_get body ''model'' (JStr (sv_model_id E)) in
      if requested \<noteq> JStr (sv_model_id E)
      then Inl (ValueError (''unknown model '' @ [CHR 0x27] @ py_str (py_repr E) requested @ [CHR 0x27]
        @ ''; configured model is '' @ [CHR 0x27] @ sv_model_id E @ [CHR 0x27]))
      else Inr ())"

definition url_path :: "request \<Rightarrow> string" where
  "url_path rq = takeWhile (\<lambda>c. c \<noteq> CHR ''?'') (rq_path rq)"

definition do_OPTIONS :: "unit handler" where
  "do_OPTIONS = hthen (send_response 204) (hthen send_cors (hthen (send_header ''Content-Length'' ''0'') end_headers))"

definition health_json :: "'d env \<Rightarrow> bool \<Rightarrow> json" where
  "health_json E busy = JObj [(''status'', JStr ''ok''), (''model'', JStr (sv_model_id E)),
     (''backend'', JStr ''serialized-process-v1''), (''busy'', JBool busy)]"

definition models_json :: "'d env \<Rightarrow> json" where
  "models_json E = JObj [(''object'', JStr ''list''), (''data'', JList [JObj [(''id'', JStr (sv_model_id E)),
     (''object'', JStr ''model''), (''created'', JInt 0), (''owned_by'', JStr ''local-kimi'')]])]"

definition do_GET :: "'d env \<Rightarrow> request \<Rightarrow> unit handler" where
  "do_GET E rq = hbind (authorized E rq) (\<lambda>ok w.
     if \<not> ok then (Inr (), w)
     else if url_path rq = ''/healthz'' then send_json E 200 (health_json E (w_locked w)) w
     else if url_path rq = ''/v1/models'' then send_json E 200 (models_json E) w
     else send_json E 404 not_found_json w)"

section \<open>Answers\<close>

definition anthropic_stop_reason :: "gen_result \<Rightarrow> string" where
  "anthropic_stop_reason g = (if gr_eos g then ''end_turn'' else ''max_tokens'')"

definition openai_finish_reason :: "gen_result \<Rightarrow> string" where
  "openai_finish_reason g = (if gr_eos g then ''stop'' else ''length'')"

definition message_id :: "'d env \<Rightarrow> string \<Rightarrow> string" where
  "message_id E p = p @ ''_'' @ take 24 (fresh_id E)"

definition anthropic_response :: "'d env \<Rightarrow> int list \<Rightarrow> gen_result \<Rightarrow> json" where
  "anthropic_response E ids g = JObj [
     (''id'', JStr (message_id E ''msg'')), (''type'', JStr ''message''), (''role'', JStr ''assistant''),
     (''model'', JStr (sv_model_id E)),
     (''content'', JList [JObj [(''type'', JStr ''text''), (''text'', JStr (gr_text g))]]),
     (''stop_reason'', JStr (anthropic_stop_reason g)), (''stop_sequence'', JNull),
     (''usage'', JObj [(''input_tokens'', JInt (input_tokens ids)), (''output_tokens'', JInt (int (gr_tokens g)))])]"

definition openai_response :: "'d env \<Rightarrow> int list \<Rightarrow> gen_result \<Rightarrow> json" where
  "openai_response E ids g = JObj [
     (''id'', JStr (message_id E ''chatcmpl'')), (''object'', JStr ''chat.completion''), (''created'', JInt (clock E)),
     (''model'', JStr (sv_model_id E)),
     (''choices'', JList [JObj [(''index'', JInt 0),
        (''message'', JObj [(''role'', JStr ''assistant''), (''content'', JStr (gr_text g))]),
        (''finish_reason'', JStr (openai_finish_reason g))]]),
     (''usage'', JObj [(''prompt_tokens'', JInt (input_tokens ids)), (''completion_tokens'', JInt (int (gr_tokens g))),
        (''total_tokens'', JInt (input_tokens ids + int (gr_tokens g)))])]"

section \<open>Streams\<close>

text \<open>The text of a stream is the server's own: its ids, numbers, and the decoder's output, in which undecodable bytes were
  replaced. It never quotes the client, and is taken to encode.\<close>

definition stream_head :: "unit handler" where
  "stream_head =
     hthen (send_response 200)
     (hthen (send_header ''Content-Type'' ''text/event-stream; charset=utf-8'')
     (hthen (send_header ''Cache-Control'' ''no-cache'')
     (hthen (send_header ''Connection'' ''close'')
     (hthen send_cors (hthen end_headers (hmod (\<lambda>w. w\<lparr>w_close := True\<rparr>)))))))"

definition event_text :: "'d env \<Rightarrow> string \<Rightarrow> json \<Rightarrow> string" where
  "event_text E event data = ''event: '' @ event @ [LF] @ ''data: '' @ dumps (py_repr E) data @ [LF, LF]"

definition send_event :: "'d env \<Rightarrow> string \<times> json \<Rightarrow> unit handler" where
  "send_event E ed = wfile_write (Body (utf8 (event_text E (fst ed) (snd ed))))"

fun send_all :: "('a \<Rightarrow> unit handler) \<Rightarrow> 'a list \<Rightarrow> unit handler" where
  "send_all f [] = hret ()"
| "send_all f (x # xs) = hthen (f x) (send_all f xs)"

definition start_events :: "'d env \<Rightarrow> int list \<Rightarrow> (string \<times> json) list" where
  "start_events E ids = [
     (''message_start'', JObj [(''type'', JStr ''message_start''), (''message'', JObj [
        (''id'', JStr (message_id E ''msg'')), (''type'', JStr ''message''), (''role'', JStr ''assistant''),
        (''model'', JStr (sv_model_id E)), (''content'', JList []), (''stop_reason'', JNull), (''stop_sequence'', JNull),
        (''usage'', JObj [(''input_tokens'', JInt (input_tokens ids)), (''output_tokens'', JInt 0)])])]),
     (''content_block_start'', JObj [(''type'', JStr ''content_block_start''), (''index'', JInt 0),
        (''content_block'', JObj [(''type'', JStr ''text''), (''text'', JStr [])])])]"

definition delta_event :: "string \<Rightarrow> string \<times> json" where
  "delta_event delta = (''content_block_delta'', JObj [(''type'', JStr ''content_block_delta''), (''index'', JInt 0),
     (''delta'', JObj [(''type'', JStr ''text_delta''), (''text'', JStr delta)])])"

definition end_events :: "gen_result \<Rightarrow> (string \<times> json) list" where
  "end_events g = [
     (''content_block_stop'', JObj [(''type'', JStr ''content_block_stop''), (''index'', JInt 0)]),
     (''message_delta'', JObj [(''type'', JStr ''message_delta''),
        (''delta'', JObj [(''stop_reason'', JStr (anthropic_stop_reason g)), (''stop_sequence'', JNull)]),
        (''usage'', JObj [(''output_tokens'', JInt (int (gr_tokens g)))])]),
     (''message_stop'', JObj [(''type'', JStr ''message_stop'')])]"

definition anthropic_stream :: "'d env \<Rightarrow> int list \<Rightarrow> int \<Rightarrow> pyfloat \<Rightarrow> int \<Rightarrow> unit handler" where
  "anthropic_stream E ids max_tokens temperature seed =
     hthen stream_head
     (hthen (send_all (send_event E) (start_events E ids))
       (hbind (generate E ids max_tokens temperature seed (\<lambda>delta. send_event E (delta_event delta))) (\<lambda>g.
         send_all (send_event E) (end_events g))))"

definition chunk_json :: "'d env \<Rightarrow> json \<Rightarrow> json \<Rightarrow> json" where
  "chunk_json E delta finish_reason = JObj [
     (''id'', JStr (message_id E ''chatcmpl'')), (''object'', JStr ''chat.completion.chunk''), (''created'', JInt (clock E)),
     (''model'', JStr (sv_model_id E)),
     (''choices'', JList [JObj [(''index'', JInt 0), (''delta'', delta), (''finish_reason'', finish_reason)]])]"

definition send_chunk :: "'d env \<Rightarrow> json \<Rightarrow> json \<Rightarrow> unit handler" where
  "send_chunk E delta finish_reason =
     wfile_write (Body (utf8 (''data: '' @ dumps (py_repr E) (chunk_json E delta finish_reason) @ [LF, LF])))"

definition openai_stream :: "'d env \<Rightarrow> int list \<Rightarrow> int \<Rightarrow> pyfloat \<Rightarrow> int \<Rightarrow> unit handler" where
  "openai_stream E ids max_tokens temperature seed =
     hthen stream_head
     (hthen (send_chunk E (JObj [(''role'', JStr ''assistant''), (''content'', JStr [])]) JNull)
       (hbind (generate E ids max_tokens temperature seed
           (\<lambda>delta. send_chunk E (JObj [(''content'', JStr delta)]) JNull)) (\<lambda>g.
         hthen (send_chunk E (JObj []) (JStr (openai_finish_reason g)))
           (wfile_write (Body (utf8 (''data: [DONE]'' @ [LF, LF])))))))"

section \<open>The POST routes\<close>

definition anthropic_count :: "'d env \<Rightarrow> (string \<times> json) list \<Rightarrow> unit handler" where
  "anthropic_count E body =
     hbind (hlift (validate_model E body)) (\<lambda>_.
     hbind (hlift (prepare E (kv_get body ''messages'' JNull) (kv_get body ''system'' JNull) (kv_get body ''tools'' JNull))) (\<lambda>ids.
       send_json E 200 (JObj [(''input_tokens'', JInt (input_tokens ids))])))"

definition default_temperature :: pyfloat where "default_temperature = fl (2 / 10)"

definition answer ::
  "'d env \<Rightarrow> (string \<times> json) list \<Rightarrow> json \<Rightarrow> json \<Rightarrow> (int list \<Rightarrow> int \<Rightarrow> pyfloat \<Rightarrow> int \<Rightarrow> unit handler)
     \<Rightarrow> (int list \<Rightarrow> gen_result \<Rightarrow> json) \<Rightarrow> unit handler" where
  "answer E body sys max_tokens_arg stream response =
     hbind (hlift (validate_model E body)) (\<lambda>_.
     hbind (hlift (prepare E (kv_get body ''messages'' JNull) sys (kv_get body ''tools'' JNull))) (\<lambda>ids.
     hbind (hlift (json_int max_tokens_arg)) (\<lambda>max_tokens.
     hbind (hlift (json_float (kv_get body ''temperature'' (JFloat default_temperature)))) (\<lambda>temperature.
     hbind (hlift (json_int (kv_get body ''seed'' (JInt 1)))) (\<lambda>seed.
       if json_truthy (kv_get body ''stream'' (JBool False))
       then hbind (hlift (preflight E ids max_tokens temperature)) (\<lambda>_. stream ids max_tokens temperature seed)
       else hbind (generate E ids max_tokens temperature seed silent) (\<lambda>g. send_json E 200 (response ids g)))))))"

definition anthropic_messages :: "'d env \<Rightarrow> (string \<times> json) list \<Rightarrow> unit handler" where
  "anthropic_messages E body =
     answer E body (kv_get body ''system'' JNull) (kv_get body ''max_tokens'' (JInt 128)) (anthropic_stream E) (anthropic_response E)"

definition openai_chat :: "'d env \<Rightarrow> (string \<times> json) list \<Rightarrow> unit handler" where
  "openai_chat E body =
     answer E body JNull (kv_get body ''max_tokens'' (kv_get body ''max_completion_tokens'' (JInt 128)))
       (openai_stream E) (openai_response E)"

definition exn_message :: "exn \<Rightarrow> string" where
  "exn_message e = (case e of
     ValueError m \<Rightarrow> m | KeyError m \<Rightarrow> m | TypeError m \<Rightarrow> m | IndexError m \<Rightarrow> m | OSError m \<Rightarrow> m
   | FileNotFoundError m \<Rightarrow> m | StructError m \<Rightarrow> m | RuntimeError m \<Rightarrow> m | AssertionError m \<Rightarrow> m
   | AttributeError m \<Rightarrow> m | OverflowError m \<Rightarrow> m | JSONDecodeError m \<Rightarrow> m | UnicodeError m \<Rightarrow> m
   | SystemExit m \<Rightarrow> m | ZeroDivisionError \<Rightarrow> ''division by zero'' | BrokenPipeError \<Rightarrow> ''Broken pipe'')"

definition safe_error :: "'d env \<Rightarrow> nat \<Rightarrow> string \<Rightarrow> string \<Rightarrow> unit handler" where
  "safe_error E status kind msg =
     hcatch (send_json E status (error_json kind msg)) (\<lambda>e. if e = BrokenPipeError then hret () else hraise e)"

text \<open>The \<^verbatim>\<open>except\<close> clauses of \<^verbatim>\<open>do_POST\<close>, in order; \<^verbatim>\<open>JSONDecodeError\<close> and \<^verbatim>\<open>UnicodeDecodeError\<close> are \<^verbatim>\<open>ValueError\<close>s.\<close>

definition post_error :: "'d env \<Rightarrow> exn \<Rightarrow> unit handler" where
  "post_error E e = (case e of
     BrokenPipeError \<Rightarrow> hret ()
   | ValueError m \<Rightarrow> safe_error E 400 ''invalid_request_error'' (exn_message e)
   | JSONDecodeError m \<Rightarrow> safe_error E 400 ''invalid_request_error'' (exn_message e)
   | UnicodeError m \<Rightarrow> safe_error E 400 ''invalid_request_error'' (exn_message e)
   | SystemExit m \<Rightarrow> hraise e
   | _ \<Rightarrow> safe_error E 500 ''backend_error'' (exn_message e))"

definition post_route :: "'d env \<Rightarrow> request \<Rightarrow> unit handler" where
  "post_route E rq =
     hbind (hlift (read_json_body E rq)) (\<lambda>body.
       if url_path rq = ''/v1/messages'' then anthropic_messages E body
       else if url_path rq = ''/v1/messages/count_tokens'' then anthropic_count E body
       else if url_path rq = ''/v1/chat/completions'' then openai_chat E body
       else send_json E 404 not_found_json)"

definition do_POST :: "'d env \<Rightarrow> request \<Rightarrow> unit handler" where
  "do_POST E rq = hbind (authorized E rq) (\<lambda>ok. if \<not> ok then hret () else hcatch (post_route E rq) (post_error E))"

section \<open>Writing to a client that stays\<close>

definition healthy :: "world \<Rightarrow> bool" where "healthy w = (w_left w = None \<and> w_hdrs w = [])"

lemma wfile_write_healthy: "w_left w = None \<Longrightarrow> wfile_write x w = (Inr (), emit [x] w)"
  by (simp add: wfile_write_def)

definition json_body :: "'d env \<Rightarrow> json \<Rightarrow> bytes" where "json_body E payload = utf8 (dumps (py_repr E) payload)"

definition cors_lines :: "header_line list" where
  "cors_lines = [Header ''Access-Control-Allow-Origin'' ''*'',
     Header ''Access-Control-Allow-Headers'' ''authorization, content-type, x-api-key, anthropic-version, anthropic-beta'',
     Header ''Access-Control-Allow-Methods'' ''GET, POST, OPTIONS'']"

definition json_head :: "bytes \<Rightarrow> header_line list" where
  "json_head body = Header ''Content-Type'' ''application/json; charset=utf-8''
     # Header ''Content-Length'' (show_nat (length body)) # cors_lines"

lemma not_connection:
  "py_lower ''Content-Type'' \<noteq> ''connection''" "py_lower ''Content-Length'' \<noteq> ''connection''"
  "py_lower ''Access-Control-Allow-Origin'' \<noteq> ''connection''" "py_lower ''Access-Control-Allow-Headers'' \<noteq> ''connection''"
  "py_lower ''Access-Control-Allow-Methods'' \<noteq> ''connection''" "py_lower ''Cache-Control'' \<noteq> ''connection''"
  by code_simp+

lemma send_header_other:
  "py_lower k \<noteq> ''connection'' \<Longrightarrow> send_header k v = hmod (\<lambda>w. w\<lparr>w_hdrs := w_hdrs w @ [Header k v]\<rparr>)"
  by (rule ext) (simp add: send_header_def)

lemma send_cors_app: "hthen send_cors n w = n (w\<lparr>w_hdrs := w_hdrs w @ cors_lines\<rparr>)"
  by (simp add: send_cors_def send_header_other not_connection hthen_def hbind_def cors_lines_def)

lemma end_headers_healthy: "w_left w = None \<Longrightarrow> end_headers w = (Inr (), emit [Heads (w_hdrs w)] (w\<lparr>w_hdrs := []\<rparr>))"
  by (simp add: end_headers_def hthen_def hbind_def wfile_write_healthy emit_def)

lemma send_json_healthy:
  assumes "healthy w" "encodable E (dumps (py_repr E) payload)"
  shows "send_json E status payload w
    = (Inr (), emit [Heads (StatusLine status # json_head (json_body E payload)), Body (json_body E payload)] w)"
proof -
  let ?b = "json_body E payload"
  let ?w = "w\<lparr>w_hdrs := StatusLine status # json_head ?b\<rparr>"
  have "send_json E status payload w = hthen end_headers (wfile_write (Body ?b)) ?w"
    using assms
    by (simp add: send_json_def encode_utf8_def send_response_def send_header_other not_connection send_cors_app healthy_def
        json_head_def flip: json_body_def)
  also have "\<dots> = (Inr (), emit [Heads (StatusLine status # json_head ?b), Body ?b] (w\<lparr>w_hdrs := []\<rparr>))"
    using assms by (simp add: hthen_def hbind_def end_headers_healthy wfile_write_healthy healthy_def)
  also have "w\<lparr>w_hdrs := []\<rparr> = w" using assms by (simp add: healthy_def)
  finally show ?thesis .
qed

lemma send_json_surrogate:
  "\<not> encodable E (dumps (py_repr E) payload) \<Longrightarrow> send_json E status payload w = (Inl (UnicodeError ''surrogates not allowed''), w)"
  by (simp add: send_json_def encode_utf8_def)

text \<open>Which texts encode.\<close>

lemma ascii_char [simp]: "cp (Char a b c d e f g False) < 128"
  by (cases a; cases b; cases c; cases d; cases e; cases f; cases g) (simp_all add: cp_def)

lemma encodable_simps [simp]:
  "encodable E []" "encodable E (c # s) \<longleftrightarrow> (cp c < 128 \<or> \<not> surrogate E c) \<and> encodable E s"
  "encodable E (s @ t) \<longleftrightarrow> encodable E s \<and> encodable E t"
  by (simp_all add: encodable_def)

lemma encodable_digits: "list_all is_digit s \<Longrightarrow> encodable E s"
  by (induction s) (auto simp: is_digit_def)

lemma encodable_show [simp]: "encodable E (show_nat n)" "encodable E (show_int i)"
proof -
  show n: "encodable E (show_nat n)" for n by (rule encodable_digits) (rule show_nat_digits)
  show "encodable E (show_int i)" by (simp add: show_int_def n)
qed

lemma ascii_hex_digit: "d < 16 \<Longrightarrow> cp (hex_digit d) < 128"
  by (auto simp: hex_digit_def digit_char_def cp_def)

lemma encodable_escape: "encodable E (json_escape c) \<longleftrightarrow> encodable E [c]"
proof (cases "cp c < 32")
  case True
  then have "cp (hex_digit (cp c div 16)) < 128" "cp (hex_digit (cp c mod 16)) < 128"
    by (auto intro!: ascii_hex_digit)
  then show ?thesis using True by (auto simp: json_escape_def)
next
  case False
  then show ?thesis by (auto simp: json_escape_def)
qed

lemma encodable_quote [simp]: "encodable E (json_quote s) \<longleftrightarrow> encodable E s"
proof -
  have "encodable E (concat (map json_escape s)) \<longleftrightarrow> encodable E s"
    by (induction s) (simp_all add: encodable_escape)
  then show ?thesis by (simp add: json_quote_def)
qed

lemma encodable_answers [simp]:
  "encodable E (dumps repr (error_json kind msg)) \<longleftrightarrow> encodable E kind \<and> encodable E msg"
  "encodable E (dumps repr not_found_json)"
  "encodable E (dumps repr (health_json E busy)) \<longleftrightarrow> encodable E (sv_model_id E)"
  "encodable E (dumps repr (models_json E)) \<longleftrightarrow> encodable E (sv_model_id E)"
  by (simp_all add: error_json_def not_found_json_def health_json_def models_json_def)

lemma healthy_emit [simp]: "healthy (emit xs w) = healthy w"
  by (simp add: healthy_def)

definition stream_lines :: "header_line list" where
  "stream_lines = [StatusLine 200, Header ''Content-Type'' ''text/event-stream; charset=utf-8'', Header ''Cache-Control'' ''no-cache'',
     Header ''Connection'' ''close''] @ cors_lines"

lemma stream_head_healthy:
  assumes "healthy w"
  shows "stream_head w = (Inr (), emit [Heads stream_lines] (w\<lparr>w_close := True\<rparr>))"
proof -
  have c: "py_lower ''Connection'' = ''connection''" "py_lower ''close'' = ''close''" by code_simp+
  have "stream_head w = hthen end_headers (hmod (\<lambda>w. w\<lparr>w_close := True\<rparr>)) (w\<lparr>w_close := True, w_hdrs := stream_lines\<rparr>)"
    using assms
    by (simp add: stream_head_def send_response_def send_header_other not_connection send_cors_app healthy_def
        stream_lines_def send_header_def [of "''Connection''"] c)
  also have "\<dots> = (Inr (), emit [Heads stream_lines] (w\<lparr>w_hdrs := [], w_close := True\<rparr>))"
    using assms by (simp add: hthen_def hbind_def end_headers_healthy healthy_def emit_def)
  also have "w\<lparr>w_hdrs := [], w_close := True\<rparr> = w\<lparr>w_close := True\<rparr>" using assms by (simp add: healthy_def)
  finally show ?thesis .
qed

section \<open>Which exceptions the routes raise\<close>

text \<open>An exception that a handler can turn into an error answer.\<close>

definition ordinary :: "'d env \<Rightarrow> exn \<Rightarrow> bool" where
  "ordinary E e = (e \<noteq> BrokenPipeError \<and> (\<forall>m. e \<noteq> SystemExit m) \<and> encodable E (exn_message e))"

definition tame :: "'d env \<Rightarrow> 'a res \<Rightarrow> bool" where
  "tame E r = (\<forall>e. r = Inl e \<longrightarrow> ordinary E e)"

named_theorems tame_intros

lemma tame_Inr [tame_intros, simp]: "tame E (Inr x)" by (simp add: tame_def)

lemma tame_Inl [simp]: "tame E (Inl e) = ordinary E e" by (simp add: tame_def)

lemma ordinary_simps [simp]:
  "ordinary E (ValueError m) \<longleftrightarrow> encodable E m" "ordinary E (KeyError m) \<longleftrightarrow> encodable E m"
  "ordinary E (TypeError m) \<longleftrightarrow> encodable E m" "ordinary E (IndexError m) \<longleftrightarrow> encodable E m"
  "ordinary E (RuntimeError m) \<longleftrightarrow> encodable E m" "ordinary E (OverflowError m) \<longleftrightarrow> encodable E m"
  "ordinary E (AttributeError m) \<longleftrightarrow> encodable E m" "ordinary E (FileNotFoundError m) \<longleftrightarrow> encodable E m"
  "ordinary E (JSONDecodeError m) \<longleftrightarrow> encodable E m" "ordinary E (UnicodeError m) \<longleftrightarrow> encodable E m"
  "ordinary E (OSError m) \<longleftrightarrow> encodable E m" "ordinary E ZeroDivisionError"
  by (simp_all add: ordinary_def exn_message_def)

lemma tame_rbind [tame_intros]: "tame E m \<Longrightarrow> (\<And>x. m = Inr x \<Longrightarrow> tame E (f x)) \<Longrightarrow> tame E (rbind m f)"
  by (cases m) simp_all

lemma tame_rmap [tame_intros]: "tame E m \<Longrightarrow> tame E (rmap f m)"
  by (cases m) simp_all

lemma tame_int_res [tame_intros]: "tame E (int_res s)"
  by (cases "py_int s") (simp_all add: int_res_def)

lemma tame_json_int [tame_intros]: "tame E (json_int v)"
  by (auto simp: json_int_def float_to_int_def split: json.splits pyfloat.splits intro!: tame_intros)

lemma tame_json_float: "tame E (json_float v)"
  by (auto simp: json_float_def float_of_int_def float_res_def of_option_def split: json.splits pyfloat.splits option.splits)

lemma tame_parse_request: "tame E (parse_trunk_cache_request q)"
  by (auto simp: parse_trunk_cache_request_def Let_def split: trunk_request.splits option.splits)

lemma tame_breakdown: "tame E (planned_text_breakdown a b c d)"
  by (simp add: planned_text_breakdown_def Let_def)

lemma tame_resolve: "tame E (resolve_trunk_cache_mib a b c d q)"
  unfolding resolve_trunk_cache_mib_def Let_def
  by (simp, intro impI tame_rbind tame_parse_request) (auto split: option.splits intro!: tame_rbind tame_breakdown)

lemma encodable_fixed1: "encodable E (fixed1 x)"
  by (simp add: fixed1_def Let_def split: pyfloat.splits)

lemma ordinary_rejected: "ordinary E (plan_rejected n ram)"
  by (auto simp: plan_rejected_def int_truediv_def encodable_fixed1 split: pyfloat.splits sum.splits if_splits)

lemma tame_plan: "tame E (runtime_plan F n m)"
  unfolding runtime_plan_def by (simp, intro impI tame_rbind tame_resolve tame_breakdown) (simp add: ordinary_rejected)

lemma tame_preflight: "tame E (preflight F ids m t)"
  unfolding preflight_def by (auto intro!: tame_rmap tame_plan)

text \<open>The dialogue is refused by a \<^verbatim>\<open>ValueError\<close>, whose message may quote the client.\<close>

definition value_errors :: "'a res \<Rightarrow> bool" where
  "value_errors r = (\<forall>e. r = Inl e \<longrightarrow> (\<exists>m. e = ValueError m))"

lemma value_errors_simps [simp]: "value_errors (Inr x)" "value_errors (Inl e) \<longleftrightarrow> (\<exists>m. e = ValueError m)"
  by (simp_all add: value_errors_def)

lemma value_errors_rbind: "value_errors m \<Longrightarrow> (\<And>x. value_errors (f x)) \<Longrightarrow> value_errors (rbind m f)"
  by (cases m) simp_all

lemma value_errors_rmap: "value_errors m \<Longrightarrow> value_errors (rmap f m)"
  by (cases m) simp_all

lemma value_errors_mapR: "(\<And>x. x \<in> set xs \<Longrightarrow> value_errors (f x)) \<Longrightarrow> value_errors (mapR f xs)"
  by (induction xs) (auto intro!: value_errors_rbind)

lemmas value_errors_intros = value_errors_rbind value_errors_rmap value_errors_mapR

lemma value_errors_flatten: "value_errors (flatten_text repr v)"
proof (induction repr v rule: flatten_text.induct)
  case (1 repr v)
  show ?case
    by (subst flatten_text.simps) (auto split: json.splits option.splits simp: Let_def intro!: value_errors_intros 1)
qed

lemma value_errors_prepare: "value_errors (prepare E messages sys tools)"
  unfolding prepare_def format_dialogue_def flatten_system_def read_message_def
  by (auto split: json.splits simp: Let_def intro!: value_errors_intros value_errors_flatten)

lemma value_errors_model: "value_errors (validate_model E body)"
  by (simp add: validate_model_def Let_def)

lemma value_errors_tame: "value_errors r \<Longrightarrow> (\<And>m. r = Inl (ValueError m) \<Longrightarrow> encodable E m) \<Longrightarrow> tame E r"
  by (cases r) auto

text \<open>The environment's own code does not raise what the client's connection or the interpreter's exit raises, and its messages
  and the configured model name encode.\<close>

definition tame_env :: "'d env \<Rightarrow> bool" where
  "tame_env E = ((\<forall>b. tame E (py_loads E b)) \<and> (\<forall>t. tame E (tok_decode E t)) \<and> (\<forall>c t i. tame E (gen_run E c t i))
     \<and> (\<forall>b left e. tmp_fault E b = Some (left, e) \<longrightarrow> ordinary E e) \<and> encodable E (sv_model_id E))"

lemma tame_read_json: "tame_env E \<Longrightarrow> tame E (read_json_body E rq)"
  unfolding read_json_body_def tame_env_def by (auto split: option.splits json.splits intro!: tame_intros)

lemma tame_decode_run:
  assumes "tame_env E"
  shows "tame E (snd (decode_run E ls g))"
  using assms
proof (induction E ls g rule: decode_run.induct)
  case (2 E raw rest g)
  have "tame E (line_token l)" for l
    by (auto simp: line_token_def split: list.splits intro!: tame_intros)
  moreover have "tame E (token_text E t d)" for t d
    using 2(4) unfolding token_text_def tame_env_def by (cases "tok_bytes E t") (auto intro!: tame_rmap)
  ultimately show ?case using 2 by (auto simp: tame_def split: sum.splits prod.splits)
qed simp

lemma tame_generate:
  assumes "tame_env E" "generate E ids max_tokens temperature seed silent w = (Inl e, w')" "w_left w = None"
  shows "ordinary E e"
proof (cases rule: generate_cases [of E ids max_tokens temperature seed w])
  case (early e')
  then show ?thesis using assms(2) tame_plan [of E E "input_tokens ids" max_tokens] by (auto simp: tame_def)
next
  case (fault trunk p left e')
  then show ?thesis using assms(1,2) by (simp add: tame_env_def)
next
  case (spawn trunk p e')
  then show ?thesis using assms(1,2) by (simp add: tame_env_def tame_def)
next
  case (run trunk p r w1)
  obtain ds res evs where c: "child_result E r = (ds, res, evs)" by (metis prod_cases3)
  then have "res = Inl e"
    using child_session_spec [OF delivers_silent _ c, of w1] run(4,10) assms(2,3) by simp
  then show ?thesis
    using c tame_decode_run [OF assms(1), of "run_lines r" "\<lparr>g_dec = dec_start E, g_parts = [], g_tokens = 0, g_eos = False\<rparr>"]
    by (auto simp: child_result_def Let_def split: prod.splits sum.splits if_splits)
qed

section \<open>One answer per request\<close>

definition one_response :: "world \<Rightarrow> world \<Rightarrow> bool" where
  "one_response w w' = (healthy w' \<and> (\<exists>status body.
     w_out w' = w_out w @ [Heads (StatusLine status # json_head body), Body body]))"

definition nothing_said :: "world \<Rightarrow> world \<Rightarrow> bool" where
  "nothing_said w w' = (healthy w' \<and> w_out w' = w_out w)"

text \<open>The handler answers once, or raises an ordinary exception having said nothing.\<close>

definition answers :: "'d env \<Rightarrow> unit handler \<Rightarrow> bool" where
  "answers E m = (\<forall>w. healthy w \<longrightarrow> (case m w of
     (Inr u, w') \<Rightarrow> one_response w w' | (Inl e, w') \<Rightarrow> ordinary E e \<and> nothing_said w w'))"

lemma answers_json: "answers E (send_json E status payload)"
  by (cases "encodable E (dumps (py_repr E) payload)")
    (auto simp: answers_def send_json_healthy one_response_def send_json_surrogate nothing_said_def)

lemma answers_lift:
  assumes "tame E r" "\<And>x. r = Inr x \<Longrightarrow> answers E (f x)"
  shows "answers E (hbind (hlift r) f)"
  using assms by (cases r) (auto simp: answers_def nothing_said_def)

lemma answers_generate:
  assumes "tame_env E" "\<And>g. answers E (f g)"
  shows "answers E (hbind (generate E ids max_tokens temperature seed silent) f)"
  unfolding answers_def
proof (intro allI impI)
  fix w assume h: "healthy w"
  obtain res w1 where g: "generate E ids max_tokens temperature seed silent w = (res, w1)"
    and w1: "healthy w1" "w_out w1 = w_out w"
    using generate_silent [of w E ids max_tokens temperature seed] h unfolding healthy_def by metis
  show "case hbind (generate E ids max_tokens temperature seed silent) f w of
      (Inl e, w') \<Rightarrow> ordinary E e \<and> nothing_said w w' | (Inr u, w') \<Rightarrow> one_response w w'"
  proof (cases res)
    case (Inl e)
    then show ?thesis
      using g w1 h tame_generate [OF assms(1)] by (auto simp: hbind_def nothing_said_def healthy_def)
  next
    case (Inr x)
    obtain r2 w2 where 2: "f x w1 = (r2, w2)" by (metis surj_pair)
    have "one_response w1 w2 \<longleftrightarrow> one_response w w2" "nothing_said w1 w2 \<longleftrightarrow> nothing_said w w2"
      using w1 by (simp_all add: one_response_def nothing_said_def)
    moreover have "case f x w1 of (Inr u, w') \<Rightarrow> one_response w1 w' | (Inl e, w') \<Rightarrow> ordinary E e \<and> nothing_said w1 w'"
      using assms(2) [of x, unfolded answers_def, rule_format, OF w1(1)] .
    ultimately show ?thesis using Inr g 2 by (cases r2) (simp_all add: hbind_def)
  qed
qed

text \<open>The request asks for an event stream.\<close>

definition wants_stream :: "'d env \<Rightarrow> request \<Rightarrow> bool" where
  "wants_stream E rq = (\<exists>body. read_json_body E rq = Inr body \<and> json_truthy (kv_get body ''stream'' (JBool False)))"

text \<open>Reading a request: its body, the model it names and its dialogue. An error here may quote the client's text.\<close>

definition chat_routes :: "string set" where
  "chat_routes = {''/v1/messages'', ''/v1/messages/count_tokens'', ''/v1/chat/completions''}"

definition understood :: "'d env \<Rightarrow> request \<Rightarrow> unit res" where
  "understood E rq = rbind (read_json_body E rq) (\<lambda>body.
     if url_path rq \<notin> chat_routes then Inr ()
     else rbind (validate_model E body) (\<lambda>_. rmap (\<lambda>_. ()) (prepare E (kv_get body ''messages'' JNull)
       (if url_path rq = ''/v1/chat/completions'' then JNull else kv_get body ''system'' JNull) (kv_get body ''tools'' JNull))))"

definition unquotable :: "'d env \<Rightarrow> request \<Rightarrow> bool" where
  "unquotable E rq = (\<exists>m. understood E rq = Inl (ValueError m) \<and> \<not> encodable E m)"

lemma tame_understood:
  assumes "\<not> unquotable E rq" "read_json_body E rq = Inr body" "url_path rq \<in> chat_routes"
  shows "tame E (validate_model E body)"
    "validate_model E body = Inr u \<Longrightarrow> tame E (prepare E (kv_get body ''messages'' JNull)
       (if url_path rq = ''/v1/chat/completions'' then JNull else kv_get body ''system'' JNull) (kv_get body ''tools'' JNull))"
  using assms
  by (auto simp: unquotable_def understood_def intro!: value_errors_tame value_errors_model value_errors_prepare)

lemma answers_answer:
  assumes "tame_env E" "\<not> json_truthy (kv_get body ''stream'' (JBool False))" "tame E (validate_model E body)"
    "\<And>u. validate_model E body = Inr u \<Longrightarrow> tame E (prepare E (kv_get body ''messages'' JNull) sys (kv_get body ''tools'' JNull))"
  shows "answers E (answer E body sys max_tokens_arg stream response)"
  unfolding answer_def using assms
  by (auto intro!: answers_lift answers_generate answers_json tame_json_int tame_json_float)

lemma answers_post_route:
  assumes "tame_env E" "\<not> wants_stream E rq" "\<not> unquotable E rq"
  shows "answers E (post_route E rq)"
  unfolding post_route_def
proof (rule answers_lift)
  show "tame E (read_json_body E rq)" by (rule tame_read_json [OF assms(1)])
  fix body assume b: "read_json_body E rq = Inr body"
  then have n: "\<not> json_truthy (kv_get body ''stream'' (JBool False))" using assms(2) by (auto simp: wants_stream_def)
  note t = tame_understood [OF assms(3) b]
  have "answers E (anthropic_messages E body)" if "url_path rq = ''/v1/messages''"
    unfolding anthropic_messages_def using that t by (intro answers_answer assms(1) n) (auto simp: chat_routes_def)
  moreover have "answers E (anthropic_count E body)" if "url_path rq = ''/v1/messages/count_tokens''"
    unfolding anthropic_count_def using that t by (auto intro!: answers_lift answers_json simp: chat_routes_def)
  moreover have "answers E (openai_chat E body)" if "url_path rq = ''/v1/chat/completions''"
    unfolding openai_chat_def using that t by (intro answers_answer assms(1) n) (auto simp: chat_routes_def)
  ultimately show "answers E (if url_path rq = ''/v1/messages'' then anthropic_messages E body
       else if url_path rq = ''/v1/messages/count_tokens'' then anthropic_count E body
       else if url_path rq = ''/v1/chat/completions'' then openai_chat E body
       else send_json E 404 not_found_json)"
    by (simp add: answers_json)
qed

lemma safe_error_healthy:
  "healthy w \<Longrightarrow> encodable E kind \<Longrightarrow> encodable E msg \<Longrightarrow>
    safe_error E status kind msg w = send_json E status (error_json kind msg) w"
  by (simp add: safe_error_def hcatch_def send_json_healthy)

lemma post_error_answers:
  assumes "ordinary E e" "healthy w"
  shows "\<exists>status payload. post_error E e w = send_json E status payload w \<and> status \<in> {400, 500} \<and> encodable E (dumps (py_repr E) payload)"
proof -
  have "encodable E (exn_message e)" using assms(1) by (simp add: ordinary_def)
  then have "\<exists>status kind. post_error E e w = send_json E status (error_json kind (exn_message e)) w \<and> status \<in> {400, 500} \<and> encodable E kind"
    using assms
    by (cases e) (force simp: post_error_def safe_error_healthy ordinary_def)+
  then show ?thesis using \<open>encodable E (exn_message e)\<close> by fastforce
qed

text \<open>An error that quotes a surrogate of the client cannot be answered.\<close>

lemma unquotable_route:
  assumes "understood E rq = Inl (ValueError m)" "\<not> encodable E m" "tame_env E"
  shows "post_route E rq w = (Inl (ValueError m), w)"
proof -
  obtain body where b: "read_json_body E rq = Inr body"
    using assms tame_read_json [OF assms(3), of rq] by (cases "read_json_body E rq") (auto simp: understood_def)
  then show ?thesis
    using assms(1)
    by (auto simp: understood_def post_route_def chat_routes_def anthropic_messages_def openai_chat_def anthropic_count_def
        answer_def split: if_splits sum.splits)
qed

lemma unquotable_post:
  assumes "unquotable E rq" "key_accepted E rq" "tame_env E"
  shows "do_POST E rq w = (Inl (UnicodeError ''surrogates not allowed''), w)"
proof -
  obtain m where m: "understood E rq = Inl (ValueError m)" "\<not> encodable E m" using assms(1) by (auto simp: unquotable_def)
  then have "post_error E (ValueError m) w = (Inl (UnicodeError ''surrogates not allowed''), w)"
    by (simp add: post_error_def exn_message_def safe_error_def hcatch_def send_json_surrogate)
  then show ?thesis
    using assms(2) unquotable_route [OF m assms(3)] by (simp add: do_POST_def authorized_def hbind_def hcatch_def)
qed

section \<open>Reading an event stream\<close>

text \<open>A client of the event-stream format: lines are collected until an empty line dispatches the event.\<close>

fun sse_read :: "string \<Rightarrow> string list \<Rightarrow> string list \<Rightarrow> (string \<times> string) list" where
  "sse_read ev ds [] = []"
| "sse_read ev ds (l # ls) =
     (if l = [] then (if ds = [] then sse_read [] [] ls else (ev, join [LF] ds) # sse_read [] [] ls)
      else case strip_prefix ''event: '' l of Some x \<Rightarrow> sse_read x ds ls
        | None \<Rightarrow> (case strip_prefix ''data: '' l of Some x \<Rightarrow> sse_read ev (ds @ [x]) ls | None \<Rightarrow> sse_read ev ds ls))"

definition sse_events :: "string \<Rightarrow> (string \<times> string) list" where
  "sse_events text = sse_read [] [] (split_on LF text)"

lemma split_on_line: "sep \<notin> set l \<Longrightarrow> split_on sep (l @ sep # s) = l # split_on sep s"
  by (induction l) (auto split: list.splits)

lemma printable_no_LF: "printable s \<Longrightarrow> LF \<notin> set s"
  by (auto simp: printable_def)

lemma printable_literal [simp]: "printable ''event: ''" "printable ''data: ''" "printable ''data: [DONE]''"
  by (simp_all add: cp_def)

lemma sse_event_line:
  assumes "printable e" "printable d"
  shows "sse_read [] [] (split_on LF (''event: '' @ e @ [LF] @ ''data: '' @ d @ [LF, LF] @ rest))
    = (e, d) # sse_read [] [] (split_on LF rest)"
proof -
  have "LF \<notin> set (''event: '' @ e)" "LF \<notin> set (''data: '' @ d)"
    using assms printable_literal by (metis printable_no_LF printable_simps(3))+
  then have 1: "split_on LF ((''event: '' @ e) @ LF # ((''data: '' @ d) @ LF # ([] @ LF # rest)))
      = (''event: '' @ e) # (''data: '' @ d) # [] # split_on LF rest"
    by (simp only: split_on_line set_append list.set empty_iff not_False_eq_True)
  have "strip_prefix ''event: '' (''data: '' @ d) = None" by (simp add: strip_prefix_def)
  moreover have "strip_prefix ''event: '' (''event: '' @ e) = Some e" "strip_prefix ''data: '' (''data: '' @ d) = Some d"
    by (rule strip_prefix_append)+
  ultimately show ?thesis using 1 by simp
qed

text \<open>All frames of a list of events, read together.\<close>

definition frame_text :: "'d env \<Rightarrow> string \<times> json \<Rightarrow> string" where
  "frame_text E ed = event_text E (fst ed) (snd ed)"

lemma sse_read_frame:
  assumes "\<And>v. printable (py_repr E v)" "printable (fst ed)"
  shows "sse_read [] [] (split_on LF (frame_text E ed @ rest))
    = (fst ed, dumps (py_repr E) (snd ed)) # sse_read [] [] (split_on LF rest)"
  using sse_event_line [OF assms(2) dumps_printable_lemma [OF assms(1)]]
  unfolding frame_text_def event_text_def append_assoc .

lemma sse_events_frames:
  assumes "\<And>v. printable (py_repr E v)" "\<And>ed. ed \<in> set eds \<Longrightarrow> printable (fst ed)"
  shows "sse_events (concat (map (frame_text E) eds)) = map (\<lambda>(e, v). (e, dumps (py_repr E) v)) eds"
  using assms(2)
proof (induction eds)
  case Nil
  then show ?case by (simp add: sse_events_def)
next
  case (Cons ed eds)
  then show ?case by (simp add: sse_events_def sse_read_frame [OF assms(1)] split_beta)
qed

lemma send_all_healthy:
  assumes "w_left w = None"
  shows "send_all (send_event E) eds w = (Inr (), emit (map (\<lambda>ed. Body (utf8 (frame_text E ed))) eds) w)"
  using assms
  by (induction eds arbitrary: w) (simp_all add: hthen_def hbind_def send_event_def wfile_write_healthy frame_text_def)

lemma delivers_event: "delivers (\<lambda>d. [Body (utf8 (frame_text E (delta_event d)))]) (\<lambda>d. send_event E (delta_event d))"
  by (simp add: delivers_def send_event_def wfile_write_healthy frame_text_def)

lemma concat_singletons: "concat (map (\<lambda>d. [f d]) ds) = map f ds"
  by (induction ds) simp_all

lemma outcome_of_generate:
  assumes "generate E ids max_tokens temperature seed silent v = (Inr g, v')" "w_left v = None"
  obtains ds where "gen_outcome E ids max_tokens temperature seed = (ds, Inr g)"
  using generate_silent [OF assms(2), of E ids max_tokens temperature seed] assms(1)
  by (metis Pair_inject prod.collapse)

lemma anthropic_stream_run:
  assumes h: "healthy w" and o: "gen_outcome E ids max_tokens temperature seed = (ds, res)"
  shows "\<exists>w'. healthy w' \<and> (case res of
      Inl e \<Rightarrow> anthropic_stream E ids max_tokens temperature seed w = (Inl e, w')
        \<and> w_out w' = w_out w @ Heads stream_lines # map (\<lambda>ed. Body (utf8 (frame_text E ed))) (start_events E ids @ map delta_event ds)
    | Inr g \<Rightarrow> anthropic_stream E ids max_tokens temperature seed w = (Inr (), w')
        \<and> w_out w' = w_out w @ Heads stream_lines
            # map (\<lambda>ed. Body (utf8 (frame_text E ed))) (start_events E ids @ map delta_event ds @ end_events g))"
proof -
  let ?f = "\<lambda>ed. Body (utf8 (frame_text E ed))"
  let ?w1 = "emit [Heads stream_lines] (w\<lparr>w_close := True\<rparr>)"
  let ?w2 = "emit (map ?f (start_events E ids)) ?w1"
  have "w_left ?w2 = None" using h by (simp add: healthy_def)
  from generate_spec [OF delivers_event [of E] this o, unfolded concat_singletons] obtain w3 where
    g: "generate E ids max_tokens temperature seed (\<lambda>d. send_event E (delta_event d)) ?w2 = (res, emit (map (\<lambda>d. ?f (delta_event d)) ds) w3)"
    and w3: "w_left w3 = None" "w_out w3 = w_out ?w2" "w_hdrs w3 = w_hdrs ?w2"
    by (elim exE conjE)
  have h3: "healthy w3" using w3 h by (simp add: healthy_def)
  have s: "anthropic_stream E ids max_tokens temperature seed w
      = hbind (generate E ids max_tokens temperature seed (\<lambda>d. send_event E (delta_event d))) (\<lambda>g. send_all (send_event E) (end_events g)) ?w2"
    using h by (simp add: anthropic_stream_def hthen_def hbind_def [of stream_head] hbind_def [of "send_all f xs" for f xs]
        stream_head_healthy send_all_healthy healthy_def)
  show ?thesis
  proof (cases res)
    case (Inl e)
    then show ?thesis using s g w3 h3
      by (intro exI [of _ "emit (map (\<lambda>d. ?f (delta_event d)) ds) w3"]) (simp add: hbind_def comp_def)
  next
    case (Inr x)
    then show ?thesis using s g w3 h3
      by (intro exI [of _ "emit (map ?f (end_events x)) (emit (map (\<lambda>d. ?f (delta_event d)) ds) w3)"])
        (simp add: hbind_def comp_def send_all_healthy)
  qed
qed

lemma event_names_printable: "ed \<in> set (start_events E ids @ map delta_event ds @ end_events g) \<Longrightarrow> printable (fst ed)"
  by (auto simp: start_events_def delta_event_def end_events_def cp_def)

section \<open>Authentication\<close>

lemma inert_wfile_write: "inert socket_step (wfile_write x)"
  by (auto simp: inert_def wfile_write_def socket_step_def emit_def split: option.splits nat.splits)

lemma inert_hmod: "(\<And>w. socket_step w (f w)) \<Longrightarrow> inert socket_step (hmod f)"
  by (simp add: inert_def)

lemma inert_headers: "inert socket_step (send_response s)" "inert socket_step (send_header k v)" "inert socket_step end_headers"
proof -
  show "inert socket_step (send_response s)" "inert socket_step (send_header k v)"
    unfolding send_response_def send_header_def by (rule inert_hmod; simp add: socket_step_def)+
  have "inert socket_step (\<lambda>w. hthen (wfile_write (Heads (w_hdrs w))) (hmod (\<lambda>w. w\<lparr>w_hdrs := []\<rparr>)) w)"
  proof -
    have "inert socket_step (hthen (wfile_write x) (hmod (\<lambda>w. w\<lparr>w_hdrs := []\<rparr>)))" for x
      by (intro socket.inert_then inert_wfile_write inert_hmod) (simp add: socket_step_def)
    then show ?thesis by (simp add: inert_def)
  qed
  then show "inert socket_step end_headers" by (simp add: inert_def end_headers_def)
qed

lemma inert_send_json: "inert socket_step (send_json E status payload)"
  unfolding send_json_def send_cors_def by (intro socket.inert_bind socket.inert_ret socket.inert_then inert_headers inert_wfile_write)

section \<open>Properties\<close>

text \<open>C15: every request gets exactly one well-framed response, with one exception. For a client that stays connected, each GET
  and each POST that does not ask for a stream writes one response head and one body, whose Content-Length is the number
  of body bytes, whatever the route, the body or the outcome of the generation, and no exception leaves the handler. The exception
  is a POST that is refused with a message quoting a lone surrogate of the client, in the model it names, the role of a message or the
  type of a content block: encoding the error answer raises UnicodeEncodeError, and nothing is written.\<close>

theorem one_response_per_request:
  assumes "healthy w" "tame_env E" "\<not> wants_stream E rq"
  shows "(case do_POST E rq w of (res, w') \<Rightarrow>
        if key_accepted E rq \<and> (\<exists>m. understood E rq = Inl (ValueError m) \<and> \<not> encodable E m)
        then (\<exists>m. res = Inl (UnicodeError m)) \<and> nothing_said w w'
        else res = Inr () \<and> one_response w w')
    \<and> (case do_GET E rq w of (res, w') \<Rightarrow> res = Inr () \<and> one_response w w')"
proof
  have j: "fst (send_json E status payload w) = Inr () \<and> one_response w (snd (send_json E status payload w))"
    if "encodable E (dumps (py_repr E) payload)" for status payload
    using assms(1) that by (auto simp: send_json_healthy one_response_def)
  have id: "encodable E (sv_model_id E)" using assms(2) by (simp add: tame_env_def)
  show "case do_GET E rq w of (res, w') \<Rightarrow> res = Inr () \<and> one_response w w'"
    using j id by (auto simp: do_GET_def authorized_def hbind_def hthen_def split_beta split: sum.splits)
  show "case do_POST E rq w of (res, w') \<Rightarrow>
      if key_accepted E rq \<and> (\<exists>m. understood E rq = Inl (ValueError m) \<and> \<not> encodable E m)
      then (\<exists>m. res = Inl (UnicodeError m)) \<and> nothing_said w w' else res = Inr () \<and> one_response w w'"
  proof (cases "key_accepted E rq")
    case False
    then show ?thesis using j by (auto simp: do_POST_def authorized_def hbind_def hthen_def split_beta split: sum.splits)
  next
    case key: True
    show ?thesis
    proof (cases "unquotable E rq")
      case True
      then show ?thesis using key assms(1) unquotable_post [OF True key assms(2), of w] by (simp add: unquotable_def nothing_said_def)
    next
      case False
      obtain r1 w1 where p: "post_route E rq w = (r1, w1)" by (metis surj_pair)
      have a: "case (r1, w1) of (Inr u, w') \<Rightarrow> one_response w w' | (Inl e, w') \<Rightarrow> ordinary E e \<and> nothing_said w w'"
        using answers_post_route [OF assms(2,3) False, unfolded answers_def, rule_format, OF assms(1)] unfolding p .
      have post: "do_POST E rq w = hcatch (post_route E rq) (post_error E) w"
        using key by (simp add: do_POST_def authorized_def hbind_def)
      have "fst (do_POST E rq w) = Inr () \<and> one_response w (snd (do_POST E rq w))"
      proof (cases r1)
        case (Inr u)
        then show ?thesis using a p by (simp add: post hcatch_def)
      next
        case (Inl e)
        then have e: "ordinary E e" "healthy w1" "w_out w1 = w_out w" using a by (simp_all add: nothing_said_def)
        obtain status payload where "post_error E e w1 = send_json E status payload w1" "encodable E (dumps (py_repr E) payload)"
          using post_error_answers [OF e(1,2)] by blast
        then have "do_POST E rq w = send_json E status payload w1" "encodable E (dumps (py_repr E) payload)"
          using p Inl by (simp_all add: post hcatch_def)
        then show ?thesis using e by (auto simp: send_json_healthy one_response_def)
      qed
      then show ?thesis using False by (auto simp: unquotable_def split_beta)
    qed
  qed
qed

text \<open>A request for a model whose name is a lone surrogate, and one that is answered.\<close>

definition ex_request :: "string \<Rightarrow> request" where
  "ex_request path = \<lparr>rq_path = path, rq_headers = [(''X-Api-Key'', ''key''), (''Content-Length'', ''0'')], rq_body = []\<rparr>"

definition ex_surrogate_env :: "unit env" where
  "ex_surrogate_env = ex_env\<lparr>py_loads := \<lambda>b. Inr (JObj [(''model'', JStr [CHR 0xFF])])\<rparr>"

lemma ex_request_read:
  "read_json_body ex_surrogate_env (ex_request path) = Inr [(''model'', JStr [CHR 0xFF])]"
  "key_accepted ex_surrogate_env (ex_request path)"
proof -
  have h: "header (ex_request path) ''content-length'' = Some ''0''" "header (ex_request path) ''x-api-key'' = Some ''key''"
    unfolding ex_request_def header_def by code_simp+
  have "int_res ''0'' = Inr 0" by code_simp
  then show "read_json_body ex_surrogate_env (ex_request path) = Inr [(''model'', JStr [CHR 0xFF])]"
    by (simp add: read_json_body_def h ex_surrogate_env_def MAX_REQUEST_BYTES_def)
  show "key_accepted ex_surrogate_env (ex_request path)"
    by (simp add: key_accepted_def h ex_surrogate_env_def ex_env_def)
qed

theorem one_response_per_request_witness:
  "(case do_POST ex_surrogate_env (ex_request ''/nowhere'') ex_world of (res, w') \<Rightarrow> res = Inr () \<and> one_response ex_world w')
   \<and> (case do_POST ex_surrogate_env (ex_request ''/v1/messages'') ex_world of
       (res, w') \<Rightarrow> (\<exists>m. res = Inl (UnicodeError m)) \<and> nothing_said ex_world w')"
proof -
  have h: "healthy ex_world" by (simp add: ex_world_def healthy_def)
  have t: "tame_env ex_surrogate_env" by (simp add: tame_env_def ex_surrogate_env_def ex_env_def)
  have n: "\<not> wants_stream ex_surrogate_env (ex_request path)" for path
    by (simp add: wants_stream_def ex_request_read kv_get_def json_truthy_def)
  have r: "url_path (ex_request ''/nowhere'') = ''/nowhere''" "url_path (ex_request ''/v1/messages'') = ''/v1/messages''"
    by code_simp+
  have 1: "understood ex_surrogate_env (ex_request ''/nowhere'') = Inr ()"
    by (simp add: understood_def ex_request_read r chat_routes_def)
  have 2: "\<exists>m. understood ex_surrogate_env (ex_request ''/v1/messages'') = Inl (ValueError m) \<and> \<not> encodable ex_surrogate_env m"
    by (simp add: understood_def ex_request_read r chat_routes_def validate_model_def kv_get_def py_str_def)
      (simp add: ex_surrogate_env_def ex_env_def cp_def)
  show ?thesis
    using one_response_per_request [OF h t n, of "''/nowhere''"] one_response_per_request [OF h t n, of "''/v1/messages''"] 1 2
    by (simp add: ex_request_read split_beta)
qed

text \<open>C17: a request without the key runs nothing. Whatever it asks for, and also when its client disconnects, no file,
  no lock and no child process changes; a client that stays connected gets the 401 answer and nothing else.\<close>

theorem unauthorized_request_runs_nothing:
  assumes "\<not> key_accepted E rq" "m = do_POST E rq \<or> m = do_GET E rq" "m w = (res, w')"
  shows "socket_step w w' \<and> (healthy w \<longrightarrow> res = Inr () \<and> (\<exists>body. w_out w' = w_out w @ [Heads (StatusLine 401 # json_head body), Body body]))"
proof -
  let ?p = "error_json ''authentication_error'' ''invalid local API key''"
  have "m w = (case send_json E 401 ?p w of (Inl e, v) \<Rightarrow> (Inl e, v) | (Inr u, v) \<Rightarrow> (Inr (), v))"
    using assms(1,2) by (auto simp: do_POST_def do_GET_def authorized_def hbind_def hthen_def split: prod.splits sum.splits)
  then have "w' = snd (send_json E 401 ?p w)" "healthy w \<Longrightarrow> res = Inr ()"
    using assms(3) by (auto simp: send_json_healthy split: prod.splits sum.splits)
  then show ?thesis using inert_send_json [of E 401 ?p] by (auto simp: inert_def send_json_healthy)
qed

theorem unauthorized_request_runs_nothing_witness:
  "\<not> key_accepted ex_env \<lparr>rq_path = ''/v1/messages'', rq_headers = [], rq_body = []\<rparr> \<and>
   socket_step ex_world (snd (do_POST ex_env \<lparr>rq_path = ''/v1/messages'', rq_headers = [], rq_body = []\<rparr> ex_world))"
proof -
  let ?rq = "\<lparr>rq_path = ''/v1/messages'', rq_headers = [], rq_body = []\<rparr>"
  have k: "\<not> key_accepted ex_env ?rq" by (simp add: key_accepted_def ex_env_def header_def)
  obtain res w' where r: "do_POST ex_env ?rq ex_world = (res, w')" by (metis surj_pair)
  show ?thesis using k r unauthorized_request_runs_nothing [OF k disjI1 [OF refl] r] by simp
qed

text \<open>C16: an event stream carries the same reply as a plain answer. If the plain request would be answered with a
  text, then the stream sends its head and then frames that a client of the event-stream format reads as exactly
  the start events, one delta event per piece and the closing events, and the pieces concatenate to that text.\<close>

theorem anthropic_stream_carries_reply:
  assumes "generate E ids max_tokens temperature seed silent v = (Inr g, v')" "w_left v = None"
    and "healthy w" "\<And>x. printable (py_repr E x)"
  shows "\<exists>w' frames deltas. anthropic_stream E ids max_tokens temperature seed w = (Inr (), w')
    \<and> w_out w' = w_out w @ Heads stream_lines # map (\<lambda>frame. Body (utf8 frame)) frames
    \<and> sse_events (concat frames)
      = map (\<lambda>(name, data). (name, dumps (py_repr E) data)) (start_events E ids @ map delta_event deltas @ end_events g)
    \<and> concat deltas = gr_text g"
proof -
  obtain ds where o: "gen_outcome E ids max_tokens temperature seed = (ds, Inr g)"
    using outcome_of_generate [OF assms(1,2)] by blast
  let ?eds = "start_events E ids @ map delta_event ds @ end_events g"
  obtain w' where "anthropic_stream E ids max_tokens temperature seed w = (Inr (), w')"
    "w_out w' = w_out w @ Heads stream_lines # map (\<lambda>ed. Body (utf8 (frame_text E ed))) ?eds"
    using anthropic_stream_run [OF assms(3) o] by auto
  moreover have "sse_events (concat (map (frame_text E) ?eds)) = map (\<lambda>(e, v). (e, dumps (py_repr E) v)) ?eds"
    by (rule sse_events_frames [OF assms(4) event_names_printable])
  ultimately show ?thesis using gen_outcome_text o
    by (intro exI [of _ w'] exI [of _ "map (frame_text E) ?eds"] exI [of _ ds]) (simp add: comp_def)
qed

theorem anthropic_stream_carries_reply_witness:
  "\<exists>g v' w' frames. generate ex_env [1] 32 (Fin 0) 1 silent ex_world = (Inr g, v')
     \<and> anthropic_stream ex_env [1] 32 (Fin 0) 1 ex_world = (Inr (), w')
     \<and> w_out w' = Heads stream_lines # map (\<lambda>frame. Body (utf8 frame)) frames"
proof -
  obtain g v' where g: "generate ex_env [1] 32 (Fin 0) 1 silent ex_world = (Inr g, v')" using ex_generates by blast
  have w: "w_left ex_world = None" "healthy ex_world" by (simp_all add: ex_world_def healthy_def)
  have "printable (py_repr ex_env x)" for x by (simp add: ex_env_def cp_def)
  from anthropic_stream_carries_reply [OF g w this] g show ?thesis by (fastforce simp: ex_world_def)
qed

section \<open>Two defects\<close>

text \<open>C19: when the generation fails after the stream has begun, with an exception that is answered, the error answer is written into the same response: the
  client receives a second status line and header block after the event frames.\<close>

theorem stream_failure_writes_second_head:
  assumes "healthy w" "gen_outcome E ids max_tokens temperature seed = (ds, Inl e)" "ordinary E e"
  shows "\<exists>w' frames status body. hcatch (anthropic_stream E ids max_tokens temperature seed) (post_error E) w = (Inr (), w')
    \<and> w_out w' = w_out w @ Heads stream_lines # frames @ [Heads (StatusLine status # json_head body), Body body]
    \<and> status \<in> {400, 500}"
proof -
  obtain w1 frames where 1: "anthropic_stream E ids max_tokens temperature seed w = (Inl e, w1)" "healthy w1"
    "w_out w1 = w_out w @ Heads stream_lines # frames"
    using anthropic_stream_run [OF assms(1,2)] by auto
  obtain status payload where "post_error E e w1 = send_json E status payload w1" "status \<in> {400, 500}"
      "encodable E (dumps (py_repr E) payload)"
    using post_error_answers [OF assms(3) 1(2)] by blast
  then show ?thesis using 1 by (auto simp: hcatch_def send_json_healthy)
qed

theorem stream_failure_writes_second_head_witness:
  "\<exists>w' frames status body. hcatch (anthropic_stream (ex_env\<lparr>gen_run := \<lambda>c t i. Inl (FileNotFoundError [])\<rparr>) [1] 32 (Fin 0) 1)
      (post_error (ex_env\<lparr>gen_run := \<lambda>c t i. Inl (FileNotFoundError [])\<rparr>)) ex_world = (Inr (), w')
    \<and> w_out w' = Heads stream_lines # frames @ [Heads (StatusLine status # json_head body), Body body]"
proof -
  let ?E = "ex_env\<lparr>gen_run := \<lambda>c t i. Inl (FileNotFoundError [])\<rparr>"
  have "runtime_plan ?E = runtime_plan ex_env" by (intro ext) (simp add: runtime_plan_def cong: if_cong)
  then obtain p where "runtime_plan ?E (input_tokens [1]) 32 = Inr (0, p)" using ex_plan by auto
  moreover have "tmp_fault ?E bs = None" for bs by (simp add: ex_env_def)
  ultimately have o: "gen_outcome ?E [1] 32 (Fin 0) 1 = ([], Inl (FileNotFoundError []))" by (simp add: gen_outcome_def)
  have "healthy ex_world" by (simp add: ex_world_def healthy_def)
  from stream_failure_writes_second_head [OF this o] show ?thesis by (fastforce simp: ex_world_def)
qed

text \<open>A null \<^verbatim>\<open>max_tokens\<close>, a mistake of the client, is answered as a failure of the server.\<close>

theorem null_max_tokens_is_server_error:
  assumes "healthy w" "key_accepted E rq" "url_path rq = ''/v1/messages''" "read_json_body E rq = Inr body"
    and "validate_model E body = Inr ()"
    and "prepare E (kv_get body ''messages'' JNull) (kv_get body ''system'' JNull) (kv_get body ''tools'' JNull) = Inr ids"
    and "map_of body ''max_tokens'' = Some JNull"
  shows "\<exists>body. snd (do_POST E rq w) = emit [Heads (StatusLine 500 # json_head body), Body body] w"
  using assms
  by (simp add: do_POST_def authorized_def hbind_def hcatch_def post_route_def anthropic_messages_def answer_def
      kv_get_def json_int_def post_error_def exn_message_def safe_error_def send_json_healthy, blast)

section \<open>The second stream\<close>

definition chunk_text :: "'d env \<Rightarrow> json \<times> json \<Rightarrow> string" where
  "chunk_text E df = ''data: '' @ dumps (py_repr E) (chunk_json E (fst df) (snd df)) @ [LF, LF]"

definition delta_chunk :: "string \<Rightarrow> json \<times> json" where "delta_chunk d = (JObj [(''content'', JStr d)], JNull)"
definition start_chunk :: "json \<times> json" where
  "start_chunk = (JObj [(''role'', JStr ''assistant''), (''content'', JStr [])], JNull)"
definition end_chunk :: "gen_result \<Rightarrow> json \<times> json" where "end_chunk g = (JObj [], JStr (openai_finish_reason g))"

lemma send_chunk_healthy:
  "w_left w = None \<Longrightarrow> send_chunk E (fst df) (snd df) w = (Inr (), emit [Body (utf8 (chunk_text E df))] w)"
  by (simp add: send_chunk_def wfile_write_healthy chunk_text_def)

lemma delivers_chunk:
  "delivers (\<lambda>d. [Body (utf8 (chunk_text E (delta_chunk d)))]) (\<lambda>d. send_chunk E (JObj [(''content'', JStr d)]) JNull)"
  using send_chunk_healthy [of _ E "delta_chunk _"] by (simp add: delivers_def delta_chunk_def)

definition done_text :: string where "done_text = ''data: [DONE]'' @ [LF, LF]"

lemma openai_stream_run:
  assumes h: "healthy w" and o: "gen_outcome E ids max_tokens temperature seed = (ds, Inr g)"
  shows "\<exists>w'. openai_stream E ids max_tokens temperature seed w = (Inr (), w') \<and> w_out w' = w_out w @ Heads stream_lines
      # map (\<lambda>t. Body (utf8 t)) (map (chunk_text E) (start_chunk # map delta_chunk ds @ [end_chunk g]) @ [done_text])"
proof -
  let ?f = "\<lambda>df. Body (utf8 (chunk_text E df))"
  let ?w2 = "emit [?f start_chunk] (emit [Heads stream_lines] (w\<lparr>w_close := True\<rparr>))"
  have "w_left ?w2 = None" using h by (simp add: healthy_def)
  from generate_spec [OF delivers_chunk [of E] this o, unfolded concat_singletons] obtain w3 where
    g: "generate E ids max_tokens temperature seed (\<lambda>d. send_chunk E (JObj [(''content'', JStr d)]) JNull) ?w2
      = (Inr g, emit (map (\<lambda>d. ?f (delta_chunk d)) ds) w3)"
    and w3: "w_left w3 = None" "w_out w3 = w_out ?w2"
    by (elim exE conjE)
  have "openai_stream E ids max_tokens temperature seed w
      = hbind (generate E ids max_tokens temperature seed (\<lambda>d. send_chunk E (JObj [(''content'', JStr d)]) JNull)) (\<lambda>g.
          hthen (send_chunk E (JObj []) (JStr (openai_finish_reason g))) (wfile_write (Body (utf8 (''data: [DONE]'' @ [LF, LF]))))) ?w2"
    using h send_chunk_healthy [of _ E start_chunk]
    by (simp add: openai_stream_def hthen_def hbind_def [of stream_head] hbind_def [of "send_chunk E a b" for a b]
        stream_head_healthy healthy_def start_chunk_def)
  also have "\<dots> = (Inr (), emit (map (\<lambda>d. ?f (delta_chunk d)) ds @ [?f (end_chunk g), Body (utf8 done_text)]) w3)"
    using send_chunk_healthy [of _ E "end_chunk g"] w3(1)
    unfolding hbind_def [of "generate E ids max_tokens temperature seed f" for f] g prod.case sum.case
    by (simp add: hthen_def hbind_def wfile_write_healthy end_chunk_def done_text_def)
  finally show ?thesis using w3 by (simp add: comp_def)
qed

lemma sse_read_data:
  assumes "printable d"
  shows "sse_read [] [] (split_on LF (''data: '' @ d @ [LF, LF] @ rest)) = ([], d) # sse_read [] [] (split_on LF rest)"
proof -
  have "LF \<notin> set (''data: '' @ d)" using assms printable_literal by (metis printable_no_LF printable_simps(3))
  then have 1: "split_on LF ((''data: '' @ d) @ LF # ([] @ LF # rest)) = (''data: '' @ d) # [] # split_on LF rest"
    by (simp only: split_on_line set_append list.set empty_iff not_False_eq_True)
  have "strip_prefix ''event: '' (''data: '' @ d) = None" by (simp add: strip_prefix_def)
  moreover have "strip_prefix ''data: '' (''data: '' @ d) = Some d" by (rule strip_prefix_append)
  ultimately show ?thesis using 1 by simp
qed

lemma sse_events_chunks:
  assumes "\<And>v. printable (py_repr E v)"
  shows "sse_events (concat (map (chunk_text E) dfs @ [done_text]))
    = map (\<lambda>(d, f). ([], dumps (py_repr E) (chunk_json E d f))) dfs @ [([], ''[DONE]'')]"
proof (induction dfs)
  case Nil
  show ?case using sse_read_data [of "''[DONE]''" "[]"] by (simp add: sse_events_def done_text_def cp_def)
next
  case (Cons df dfs)
  have "sse_read [] [] (split_on LF (chunk_text E df @ rest))
      = ([], dumps (py_repr E) (chunk_json E (fst df) (snd df))) # sse_read [] [] (split_on LF rest)" for rest
    using sse_read_data [OF dumps_printable_lemma [OF assms]] unfolding chunk_text_def append_assoc .
  then show ?case using Cons by (simp add: sse_events_def split_beta)
qed

text \<open>The chat-completions stream carries the same reply as the plain answer: its frames read as the role chunk,
  one content chunk per piece, the chunk with the finish reason and the end marker, and the pieces concatenate to
  the text.\<close>

theorem openai_stream_carries_reply:
  assumes "generate E ids max_tokens temperature seed silent v = (Inr g, v')" "w_left v = None"
    and "healthy w" "\<And>x. printable (py_repr E x)"
  shows "\<exists>w' frames deltas. openai_stream E ids max_tokens temperature seed w = (Inr (), w')
    \<and> w_out w' = w_out w @ Heads stream_lines # map (\<lambda>frame. Body (utf8 frame)) frames
    \<and> sse_events (concat frames) = map (\<lambda>(delta, finish). ([], dumps (py_repr E) (chunk_json E delta finish)))
        (start_chunk # map delta_chunk deltas @ [end_chunk g]) @ [([], ''[DONE]'')]
    \<and> concat deltas = gr_text g"
proof -
  obtain ds where o: "gen_outcome E ids max_tokens temperature seed = (ds, Inr g)"
    using outcome_of_generate [OF assms(1,2)] by blast
  show ?thesis
    using openai_stream_run [OF assms(3) o] sse_events_chunks [OF assms(4)] gen_outcome_text [OF o] by blast
qed

theorem openai_stream_carries_reply_witness:
  "\<exists>g v' w' frames. generate ex_env [1] 32 (Fin 0) 1 silent ex_world = (Inr g, v')
     \<and> openai_stream ex_env [1] 32 (Fin 0) 1 ex_world = (Inr (), w')
     \<and> w_out w' = Heads stream_lines # map (\<lambda>frame. Body (utf8 frame)) frames"
proof -
  obtain g v' where g: "generate ex_env [1] 32 (Fin 0) 1 silent ex_world = (Inr g, v')" using ex_generates by blast
  have w: "w_left ex_world = None" "healthy ex_world" by (simp_all add: ex_world_def healthy_def)
  have "printable (py_repr ex_env x)" for x by (simp add: ex_env_def cp_def)
  from openai_stream_carries_reply [OF g w this] g show ?thesis by (fastforce simp: ex_world_def)
qed

end
