(* ===== verification/TraceText.thy ===== *)
theory TraceText
  imports FileIO Json "HOL-Library.Char_ord" "HOL-Library.List_Lexorder" "HOL-Library.Product_Lexorder"
begin

text \<open>
  What the route-trace tools share: the data lines of a text table (blank lines and comments
  dropped), the dictionaries with a default (\<^verbatim>\<open>collections.defaultdict\<close>) their loops tally into, and
  paths recorded relative to a root. Tuples and strings are ordered as Python orders them, by the
  lexicographic instances of the library.
\<close>

text \<open>How a guarded step answered.\<close>

lemma guard_iff: "(if b then Inl e else m) = Inr x \<longleftrightarrow> \<not> b \<and> m = Inr x"
  by simp

section \<open>Data lines\<close>

definition is_data_line :: "string \<Rightarrow> bool" where
  "is_data_line l = (l \<noteq> [] \<and> \<not> starts_with l ''#'')"

definition data_lines :: "string list \<Rightarrow> string list" where
  "data_lines ls = filter is_data_line (map py_strip ls)"

text \<open>\<^verbatim>\<open>open(path)\<close> and iterate: universal newlines.\<close>

definition table_of :: "string \<Rightarrow> string list" where
  "table_of t = data_lines (splitlines t)"

definition file_table_of :: "string \<Rightarrow> string list" where
  "file_table_of t = data_lines (file_lines t)"

section \<open>Dictionaries with a default\<close>

definition dict_get :: "'v \<Rightarrow> 'k \<Rightarrow> ('k \<times> 'v) list \<Rightarrow> 'v" where
  "dict_get d k kvs = (case map_of kvs k of None \<Rightarrow> d | Some v \<Rightarrow> v)"

definition dict_upd :: "'v \<Rightarrow> 'k \<Rightarrow> ('v \<Rightarrow> 'v) \<Rightarrow> ('k \<times> 'v) list \<Rightarrow> ('k \<times> 'v) list" where
  "dict_upd d k f kvs = dict_set k (f (dict_get d k kvs)) kvs"

text \<open>The tally of a list: every element updates the entry of its key.\<close>

definition tally :: "'v \<Rightarrow> ('a \<Rightarrow> 'k) \<Rightarrow> ('v \<Rightarrow> 'a \<Rightarrow> 'v) \<Rightarrow> ('k \<times> 'v) list \<Rightarrow> 'a list \<Rightarrow> ('k \<times> 'v) list" where
  "tally d key f kvs xs = foldl (\<lambda>acc x. dict_upd d (key x) (\<lambda>v. f v x) acc) kvs xs"

definition group_by :: "('a \<Rightarrow> 'k) \<Rightarrow> ('a \<Rightarrow> 'v) \<Rightarrow> 'a list \<Rightarrow> ('k \<times> 'v list) list" where
  "group_by key val xs = tally [] key (\<lambda>vs x. vs @ [val x]) [] xs"

lemma dict_get_Nil [simp]: "dict_get d k [] = d"
  by (simp add: dict_get_def)

lemma dict_get_set [simp]: "dict_get d k (dict_set k' v kvs) = (if k = k' then v else dict_get d k kvs)"
  by (simp add: dict_get_def)

lemma dict_get_upd [simp]:
  "dict_get d k (dict_upd d k' f kvs) = (if k = k' then f (dict_get d k kvs) else dict_get d k kvs)"
  by (simp add: dict_upd_def)

lemma keys_dict_upd [simp]: "fst ` set (dict_upd d k f kvs) = insert k (fst ` set kvs)"
  by (simp add: dict_upd_def)

lemma distinct_dict_upd: "distinct (map fst kvs) \<Longrightarrow> distinct (map fst (dict_upd d k f kvs))"
  by (simp add: dict_upd_def distinct_dict_set)

lemma dict_get_mem: "distinct (map fst kvs) \<Longrightarrow> (k, v) \<in> set kvs \<Longrightarrow> dict_get d k kvs = v"
  by (simp add: dict_get_def)

lemma tally_Nil [simp]: "tally d key f kvs [] = kvs"
  by (simp add: tally_def)

lemma tally_Cons [simp]:
  "tally d key f kvs (x # xs) = tally d key f (dict_upd d (key x) (\<lambda>v. f v x) kvs) xs"
  by (simp add: tally_def)

lemma tally_lookup: "dict_get d k (tally d key f kvs xs) = foldl f (dict_get d k kvs) (filter (\<lambda>x. key x = k) xs)"
  by (induction xs arbitrary: kvs) auto

lemma tally_keys: "fst ` set (tally d key f kvs xs) = fst ` set kvs \<union> key ` set xs"
  by (induction xs arbitrary: kvs) auto

lemma distinct_tally: "distinct (map fst kvs) \<Longrightarrow> distinct (map fst (tally d key f kvs xs))"
  by (induction xs arbitrary: kvs) (auto simp: distinct_dict_upd)

lemma tally_mem:
  assumes "(k, v) \<in> set (tally d key f [] xs)"
  shows "v = foldl f d (filter (\<lambda>x. key x = k) xs) \<and> k \<in> key ` set xs"
proof -
  have "dict_get d k (tally d key f [] xs) = v"
    using assms by (intro dict_get_mem distinct_tally) auto
  moreover have "k \<in> fst ` set (tally d key f [] xs)" using assms by force
  ultimately show ?thesis by (simp add: tally_lookup tally_keys)
qed

lemma foldl_collect: "foldl (\<lambda>vs x. vs @ [g x]) acc xs = acc @ map g xs"
  by (induction xs arbitrary: acc) auto

lemma group_by_mem:
  "(k, vs) \<in> set (group_by key val xs) \<Longrightarrow>
     vs = map val (filter (\<lambda>x. key x = k) xs) \<and> k \<in> key ` set xs \<and> vs \<noteq> []"
  unfolding group_by_def by (drule tally_mem) (auto simp: foldl_collect filter_empty_conv)

lemma distinct_group_by: "distinct (map fst (group_by key val xs))"
  by (simp add: group_by_def distinct_tally)

lemma group_by_keys: "fst ` set (group_by key val xs) = key ` set xs"
  by (simp add: group_by_def tally_keys)

lemma group_by_lookup: "dict_get [] k (group_by key val xs) = map val (filter (\<lambda>x. key x = k) xs)"
  by (simp add: group_by_def tally_lookup foldl_collect)

text \<open>An invariant of the entries is kept by a tally whose step keeps it.\<close>

lemma dict_upd_all:
  assumes "\<forall>(k, v) \<in> set kvs. P k v" "P k (f (dict_get d k kvs))"
  shows "\<forall>(k, v) \<in> set (dict_upd d k f kvs). P k v"
proof -
  have "\<forall>(k, v) \<in> set (dict_set k w kvs). P k v" if "P k w" for w
    using assms(1) that by (induction k w kvs rule: dict_set.induct) auto
  then show ?thesis using assms(2) by (simp add: dict_upd_def)
qed

lemma dict_get_all:
  "\<forall>(k, v) \<in> set kvs. P k v \<Longrightarrow> P k d \<Longrightarrow> P k (dict_get d k kvs)"
  by (auto simp: dict_get_def split: option.splits dest: map_of_SomeD)

section \<open>Sums over a sorted dictionary\<close>

lemma sum_list_sort_key: "sum_list (map f (sort_key g xs)) = sum_list (map (f :: _ \<Rightarrow> int) xs)"
  by (metis mset_map mset_sort sum_mset_sum_list)

lemma sum_dict_upd:
  "distinct (map fst kvs) \<Longrightarrow>
   sum_list (map (\<lambda>(k, v). m v) (dict_upd d k f kvs)) =
     sum_list (map (\<lambda>(k, v). m v) kvs) + (m (f (dict_get d k kvs)) :: int)
       - (if k \<in> fst ` set kvs then m (dict_get d k kvs) else 0)"
proof -
  have "sum_list (map (\<lambda>(k, v). m v) (dict_set k w kvs)) = sum_list (map (\<lambda>(k, v). m v) kvs) + m w
      - (if k \<in> fst ` set kvs then m (dict_get d k kvs) else 0)" if "distinct (map fst kvs)" for w
    using that
  proof (induction k w kvs rule: dict_set.induct)
    case (2 k v k' v' kvs)
    then show ?case by (cases "k' = k") (auto simp: dict_get_def image_iff)
  qed simp
  then show "distinct (map fst kvs) \<Longrightarrow> ?thesis" by (simp add: dict_upd_def)
qed

section \<open>Sorted keys without duplicates\<close>

definition sorted_set :: "'a::linorder list \<Rightarrow> 'a list" where
  "sorted_set xs = sort (remdups xs)"

lemma set_sorted_set [simp]: "set (sorted_set xs) = set xs"
  by (simp add: sorted_set_def)

lemma distinct_sorted_set [simp]: "distinct (sorted_set xs)"
  by (simp add: sorted_set_def)

lemma sorted_sorted_set [simp]: "sorted (sorted_set xs)"
  by (simp add: sorted_set_def)

lemma strict_sorted_keys:
  "distinct (map fst kvs) \<Longrightarrow> sorted_wrt (<) (map fst (sort_key fst kvs))"
  by (metis distinct_sort distinct_map set_sort sorted_sort_key strict_sorted_iff)

section \<open>Recorded paths\<close>

definition path_join :: "string \<Rightarrow> string \<Rightarrow> string" where
  "path_join dir p = (if p = [] then dir else if starts_with p ''/'' then p else in_dir dir p)"

text \<open>\<^verbatim>\<open>s.split(m, 1)[1]\<close> where \<open>m\<close> occurs in \<open>s\<close>.\<close>

fun after_first :: "string \<Rightarrow> string \<Rightarrow> string option" where
  "after_first m [] = (if m = [] then Some [] else None)"
| "after_first m (c # s) =
     (if take (length m) (c # s) = m then Some (drop (length m) (c # s)) else after_first m s)"

lemma after_first_Some_iff: "(\<exists>r. after_first m s = Some r) \<longleftrightarrow> infix_of m s"
  by (induction s) auto

end
