(* ===== verification/DynSkip.thy ===== *)
theory DynSkip
  imports TraceText
begin

text \<open>
  Projection of dynamic expert skips from captured route traces
  (\<^verbatim>\<open>tools/simulate_kimi_dynskip.py\<close>) and the prompt-token classifier of the token-aware profiler
  (\<^verbatim>\<open>tools/kimi_moe_token_profile.py\<close>). The classifiers are state machines over the chat template's
  marker tokens; the policy decides per token family and layer how many of the selected experts a
  token skips; \<open>simulate\<close> adds the projected skips up over the samples of a manifest.
\<close>

section \<open>Token families\<close>

datatype family = CONTROL | CONTENT | MEDIA

definition family_index :: "family \<Rightarrow> nat" where
  "family_index f = (case f of CONTROL \<Rightarrow> 0 | CONTENT \<Rightarrow> 1 | MEDIA \<Rightarrow> 2)"

definition FAMILY_NAME :: "family \<Rightarrow> string" where
  "FAMILY_NAME f = (case f of CONTROL \<Rightarrow> ''control'' | CONTENT \<Rightarrow> ''content'' | MEDIA \<Rightarrow> ''media'')"

lemma family_index_inject [simp]: "family_index f = family_index g \<longleftrightarrow> f = g"
  by (cases f; cases g) (simp_all add: family_index_def)

text \<open>The source numbers the families, and sorts by these numbers.\<close>

instantiation family :: linorder
begin

definition less_eq_family :: "family \<Rightarrow> family \<Rightarrow> bool" where
  "less_eq_family f g = (family_index f \<le> family_index g)"

definition less_family :: "family \<Rightarrow> family \<Rightarrow> bool" where
  "less_family f g = (family_index f < family_index g)"

instance
  by standard (auto simp: less_eq_family_def less_family_def)

end

definition IM_END :: int where "IM_END = 163586"
definition IM_USER :: int where "IM_USER = 163587"
definition IM_ASSISTANT :: int where "IM_ASSISTANT = 163588"
definition IM_SYSTEM :: int where "IM_SYSTEM = 163594"
definition IM_MIDDLE :: int where "IM_MIDDLE = 163601"
definition MEDIA_START :: int where "MEDIA_START = 163602"
definition MEDIA_END :: int where "MEDIA_END = 163604"
definition MEDIA_PAD :: int where "MEDIA_PAD = 163605"

lemmas marker_defs = IM_END_def IM_USER_def IM_ASSISTANT_def IM_SYSTEM_def IM_MIDDLE_def
  MEDIA_START_def MEDIA_END_def MEDIA_PAD_def

datatype pstate = OUTSIDE | SYSTEM | USER_HEADER | USER_BODY | MEDIA_STATE | ASSISTANT

definition classify_token :: "pstate \<Rightarrow> int \<Rightarrow> pstate \<times> family" where
  "classify_token st token =
     (if token = IM_SYSTEM then (SYSTEM, CONTROL)
      else if st = SYSTEM then (if token = IM_END then OUTSIDE else st, CONTROL)
      else if token = IM_USER then (USER_HEADER, CONTROL)
      else if st = USER_HEADER then (if token = IM_MIDDLE then USER_BODY else st, CONTROL)
      else if st = MEDIA_STATE then
        (if token = MEDIA_END then USER_BODY else st, if token = MEDIA_PAD then MEDIA else CONTROL)
      else if st = USER_BODY then
        (if token = IM_END then (OUTSIDE, CONTROL)
         else if token = MEDIA_START then (MEDIA_STATE, CONTROL)
         else if token = MEDIA_PAD then (st, MEDIA)
         else (st, CONTENT))
      else if token = IM_ASSISTANT then (ASSISTANT, CONTROL)
      else if st = ASSISTANT then (st, CONTROL)
      else if token = MEDIA_PAD then (st, MEDIA)
      else (st, CONTROL))"

fun classify_from :: "pstate \<Rightarrow> int list \<Rightarrow> family list" where
  "classify_from st [] = []"
| "classify_from st (t # ts) = (let (st', f) = classify_token st t in f # classify_from st' ts)"

definition classify_prompt :: "int list \<Rightarrow> family list res" where
  "classify_prompt ids = (if ids = [] then Inl (ValueError ''empty prompt ids'')
                          else Inr (classify_from OUTSIDE ids))"

section \<open>The profiler's classifier\<close>

datatype token_class = system | user_control | user_content | media_control | media_pad
  | assistant_transition | unclassified

definition TOKEN_FAMILY :: "token_class \<Rightarrow> string" where
  "TOKEN_FAMILY c = (case c of
     system \<Rightarrow> ''control'' | user_control \<Rightarrow> ''control'' | user_content \<Rightarrow> ''content''
   | media_control \<Rightarrow> ''control'' | media_pad \<Rightarrow> ''media'' | assistant_transition \<Rightarrow> ''control''
   | unclassified \<Rightarrow> ''unclassified'')"

definition token_class_step :: "pstate \<Rightarrow> int \<Rightarrow> pstate \<times> token_class" where
  "token_class_step st token =
     (if token = IM_SYSTEM then (SYSTEM, system)
      else if st = SYSTEM then (if token = IM_END then OUTSIDE else st, system)
      else if token = IM_USER then (USER_HEADER, user_control)
      else if st = USER_HEADER then (if token = IM_MIDDLE then USER_BODY else st, user_control)
      else if st = MEDIA_STATE then
        (if token = MEDIA_END then USER_BODY else st,
         if token = MEDIA_PAD then media_pad else media_control)
      else if st = USER_BODY then
        (if token = IM_END then (OUTSIDE, user_control)
         else if token = MEDIA_START then (MEDIA_STATE, media_control)
         else if token = MEDIA_PAD then (st, media_pad)
         else (st, user_content))
      else if token = IM_ASSISTANT then (ASSISTANT, assistant_transition)
      else if st = ASSISTANT then (st, assistant_transition)
      else (st, if token = MEDIA_PAD then media_pad else unclassified))"

fun token_classes_from :: "pstate \<Rightarrow> int list \<Rightarrow> token_class list" where
  "token_classes_from st [] = []"
| "token_classes_from st (t # ts) =
     (let (st', c) = token_class_step st t in c # token_classes_from st' ts)"

definition classify_prompt_tokens :: "int list \<Rightarrow> token_class list res" where
  "classify_prompt_tokens ids = (if ids = [] then Inl (ValueError ''prompt ids must not be empty'')
                                 else Inr (token_classes_from OUTSIDE ids))"

definition event_position :: "int \<Rightarrow> int \<Rightarrow> int \<Rightarrow> int res" where
  "event_position event layer prompt_tokens =
     (if prompt_tokens \<le> 0 then Inl (ValueError ''prompt_tokens must be positive'')
      else let zero = event - 1 in
        if zero div prompt_tokens + 1 \<noteq> layer then Inl (ValueError ''trace ordering mismatch'')
        else Inr (zero mod prompt_tokens))"

section \<open>The policy\<close>

type_synonym policy = "((family \<times> int) \<times> (pyfloat \<times> int)) list"

definition policy_family :: "string \<Rightarrow> family option" where
  "policy_family s = (if s = ''content'' then Some CONTENT else if s = ''media'' then Some MEDIA else None)"

definition policy_row :: "string \<Rightarrow> ((family \<times> int) \<times> (pyfloat \<times> int)) res" where
  "policy_row line = (let parts = py_split line in
     case (if length parts = 4 then policy_family (parts ! 0) else None) of
       None \<Rightarrow> Inl (ValueError ''expected 'content|media L threshold min_keep' '')
     | Some family \<Rightarrow>
         rbind (int_res (parts ! 1)) (\<lambda>layer.
         rbind (float_res (parts ! 2)) (\<lambda>threshold.
         rbind (int_res (parts ! 3)) (\<lambda>min_keep.
           if layer < 1 \<or> \<not> (fle (Fin 0) threshold \<and> fle threshold (Fin 1)) \<or> min_keep < 1
           then Inl (ValueError ''invalid policy values'')
           else Inr ((family, layer), (threshold, min_keep))))))"

definition load_policy_text :: "string \<Rightarrow> policy res" where
  "load_policy_text t =
     rbind (foldR (\<lambda>out line. rbind (policy_row line) (\<lambda>(k, v). Inr (dict_set k v out))) [] (table_of t))
       (\<lambda>out. if out = [] \<or> \<not> list_ex (\<lambda>(k, thr, mk). flt (Fin 0) thr) out
              then Inl (ValueError ''policy has no active threshold'')
              else Inr out)"

definition load_policy :: "string \<Rightarrow> policy io" where
  "load_policy path = io_bind (read_text path) (\<lambda>t. io_lift (load_policy_text t))"

text \<open>The loop that revives the heaviest dropped expert until \<open>target\<close> are kept.\<close>

definition best_dropped :: "pyfloat list \<Rightarrow> nat list \<Rightarrow> nat" where
  "best_dropped mass cands = first_min (\<lambda>i j. flt (mass ! j) (mass ! i)) (hd cands) (tl cands)"

lemma best_dropped_in: "cands \<noteq> [] \<Longrightarrow> best_dropped mass cands \<in> set cands"
  using first_min_in [of "\<lambda>i j. flt (mass ! j) (mass ! i)" "hd cands" "tl cands"]
  by (simp add: best_dropped_def)

definition dropped :: "bool list \<Rightarrow> nat list" where
  "dropped keep = filter (\<lambda>i. \<not> keep ! i) [0..<length keep]"

lemma length_dropped: "length (dropped keep) = count_list keep False"
proof -
  have "length (dropped keep) = card {i. i < length keep \<and> \<not> keep ! i}"
    by (simp add: dropped_def length_filter_conv_card flip: atLeast0LessThan)
       (metis (no_types, lifting) Collect_cong nth_upt plus_nat.add_0)
  also have "\<dots> = length (filter Not keep)" by (simp add: length_filter_conv_card)
  also have "\<dots> = count_list keep False" by (induction keep) auto
  finally show ?thesis .
qed

lemma count_update_True:
  "i < length keep \<Longrightarrow> \<not> keep ! i \<Longrightarrow>
     count_list (keep[i := True]) True = Suc (count_list keep True) \<and>
     Suc (count_list (keep[i := True]) False) = count_list keep False"
proof (induction keep arbitrary: i)
  case (Cons b keep)
  then show ?case by (cases i) auto
qed simp

function keep_at_least :: "pyfloat list \<Rightarrow> int \<Rightarrow> bool list \<Rightarrow> bool list" where
  "keep_at_least mass target keep =
     (if int (count_list keep True) < target then
        (let candidates = dropped keep in
           if candidates = [] then keep
           else keep_at_least mass target (keep[best_dropped mass candidates := True]))
      else keep)"
  by pat_completeness auto
termination
proof (relation "measure (\<lambda>(mass, target, keep). count_list keep False)")
  fix mass target keep cands
  assume c: "cands = dropped keep" "cands \<noteq> []"
  then have "best_dropped mass cands \<in> set (dropped keep)" using best_dropped_in by blast
  then have "best_dropped mass cands < length keep" "\<not> keep ! best_dropped mass cands"
    by (auto simp: dropped_def)
  from count_update_True [OF this]
  show "((mass, target, keep[best_dropped mass cands := True]), mass, target, keep)
    \<in> measure (\<lambda>(mass, target, keep). count_list keep False)" by simp
qed simp

declare keep_at_least.simps [simp del]

definition apply_policy :: "pyfloat list \<Rightarrow> pyfloat \<Rightarrow> int \<Rightarrow> int res" where
  "apply_policy weights threshold min_keep =
     (if fle threshold (Fin 0) then Inr 0
      else if weights = [] \<or> list_ex (\<lambda>x. flt x (Fin 0)) weights
        then Inl (ValueError ''invalid top-k weights'')
      else let total = fsum weights in
        if fle total (Fin 0) then Inr 0
        else rbind (mapR (\<lambda>x. fdiv x total) weights) (\<lambda>mass.
          let keep = map (\<lambda>x. fle threshold x) mass;
              target = min (max min_keep 1) (int (length weights))
          in Inr (int (length weights) - int (count_list (keep_at_least mass target keep) True))))"

section \<open>Traces and the projection\<close>

definition skip_trace_row :: "string \<Rightarrow> ((int \<times> int) \<times> pyfloat) res" where
  "skip_trace_row line = (let parts = py_split line in
     if length parts < 4 then Inl (ValueError ''malformed trace row'')
     else rbind (int_res (parts ! 0)) (\<lambda>event. rbind (int_res (parts ! 1)) (\<lambda>layer.
          rbind (float_res (parts ! 3)) (\<lambda>weight. Inr ((event, layer), weight)))))"

definition parse_trace_text :: "string \<Rightarrow> ((int \<times> int) \<times> pyfloat list) list res" where
  "parse_trace_text t =
     rbind (mapR skip_trace_row (table_of t)) (\<lambda>rows.
       let events = group_by fst snd rows in
       if events = [] then Inl (ValueError ''no trace events'') else Inr events)"

definition parse_trace :: "string \<Rightarrow> ((int \<times> int) \<times> pyfloat list) list io" where
  "parse_trace path = io_bind (read_text path) (\<lambda>t. io_lift (parse_trace_text t))"

definition resolve_artifact_path :: "string \<Rightarrow> json \<Rightarrow> string res" where
  "resolve_artifact_path base recorded = (let marker = ''/profile/'' in
     case recorded of
       JStr s \<Rightarrow> (case after_first marker s of
                    Some rest \<Rightarrow> Inr (path_join base rest)
                  | None \<Rightarrow> Inr (path_join base s))
     | _ \<Rightarrow> rbind (json_contains recorded marker) (\<lambda>b.
              if b then Inl (AttributeError ''object has no attribute 'split' '')
              else Inl (TypeError ''argument should be a str or an os.PathLike object'')))"

record slot =
  events :: int
  routed :: int
  skipped :: int

definition empty_slot :: slot where
  "empty_slot = \<lparr>events = 0, routed = 0, skipped = 0\<rparr>"

type_synonym stats = "((family \<times> int) \<times> slot) list"

definition add_event :: "slot \<Rightarrow> int \<Rightarrow> int \<Rightarrow> slot" where
  "add_event v n k = v\<lparr>events := events v + 1, routed := routed v + n, skipped := skipped v + k\<rparr>"

definition project_event ::
  "policy \<Rightarrow> family list \<Rightarrow> stats \<Rightarrow> (int \<times> int) \<times> pyfloat list \<Rightarrow> stats res" where
  "project_event policy families stats ev = (case ev of ((event, layer), weights) \<Rightarrow>
     let n = int (length families) in
     if (event - 1) div n + 1 \<noteq> layer then Inl (ValueError ''event says layer, expected'')
     else let pos = (event - 1) mod n;
              family = families ! nat pos;
              (threshold, min_keep) = dict_get (Fin 0, int (length weights)) (family, layer) policy
          in rbind (apply_policy weights threshold min_keep) (\<lambda>k.
               Inr (dict_upd empty_slot (family, layer)
                      (\<lambda>v. add_event v (int (length weights)) k) stats)))"

definition project_sample :: "string \<Rightarrow> policy \<Rightarrow> stats \<Rightarrow> json \<Rightarrow> stats io" where
  "project_sample artifact_root policy stats sample =
     io_bind (io_lift (rbind (json_index sample ''prompt_ids'') (resolve_artifact_path artifact_root))) (\<lambda>ids_path.
     io_bind (io_lift (rbind (json_index sample ''trace'') (resolve_artifact_path artifact_root))) (\<lambda>trace_path.
     io_bind (read_text ids_path) (\<lambda>t.
     io_bind (io_lift (rbind (mapR int_res (py_split t)) classify_prompt)) (\<lambda>families.
     io_bind (parse_trace trace_path) (\<lambda>evs.
       io_lift (foldR (project_event policy families) stats evs))))))"

fun project_samples :: "string \<Rightarrow> policy \<Rightarrow> stats \<Rightarrow> json list \<Rightarrow> stats io" where
  "project_samples artifact_root policy stats [] = io_return stats"
| "project_samples artifact_root policy stats (x # xs) =
     io_bind (project_sample artifact_root policy stats x) (\<lambda>stats'.
       project_samples artifact_root policy stats' xs)"

definition manifest_samples :: "json \<Rightarrow> json list res" where
  "manifest_samples manifest =
     rbind (json_get manifest ''text_samples'' (JList [])) (\<lambda>a.
     rbind (json_get manifest ''vl_samples'' (JList [])) (\<lambda>b.
       case (a, b) of
         (JList xs, JList ys) \<Rightarrow> Inr (xs @ ys)
       | (JStr s, JStr t) \<Rightarrow> Inr (map (\<lambda>c. JStr [c]) (s @ t))
       | _ \<Rightarrow> Inl (TypeError ''unsupported operand type(s) for +'')))"

record skip_row =
  row_family :: string
  row_layer :: int
  row_slot :: slot
  row_fraction :: pyfloat
  row_threshold :: pyfloat
  row_min_keep :: int

record skip_report =
  rep_samples :: nat
  rep_routed :: int
  rep_skipped :: int
  rep_fraction :: pyfloat
  rep_rows :: "skip_row list"

definition skip_fraction :: "int \<Rightarrow> int \<Rightarrow> pyfloat res" where
  "skip_fraction k n = (if n \<noteq> 0 then int_truediv k n else Inr (Fin 0))"

definition skip_row_of :: "policy \<Rightarrow> (family \<times> int) \<times> slot \<Rightarrow> skip_row res" where
  "skip_row_of policy kv = (case kv of ((family, layer), v) \<Rightarrow>
     let (threshold, min_keep) = dict_get (Fin 0, 0) (family, layer) policy in
     rbind (skip_fraction (skipped v) (routed v)) (\<lambda>q.
       Inr \<lparr>row_family = FAMILY_NAME family, row_layer = layer, row_slot = v, row_fraction = q,
            row_threshold = threshold, row_min_keep = min_keep\<rparr>))"

definition report_of :: "policy \<Rightarrow> nat \<Rightarrow> stats \<Rightarrow> skip_report res" where
  "report_of policy n stats =
     (let items = sort_key fst stats in
      rbind (mapR (skip_row_of policy) items) (\<lambda>rows.
      let total_routed = sum_list (map (\<lambda>(k, v). routed v) items);
          total_skipped = sum_list (map (\<lambda>(k, v). skipped v) items)
      in rbind (skip_fraction total_skipped total_routed) (\<lambda>q.
         Inr \<lparr>rep_samples = n, rep_routed = total_routed, rep_skipped = total_skipped,
              rep_fraction = q, rep_rows = rows\<rparr>)))"

definition simulate :: "json \<Rightarrow> string \<Rightarrow> string \<Rightarrow> skip_report io" where
  "simulate manifest artifact_root policy_path =
     io_bind (load_policy policy_path) (\<lambda>policy.
     io_bind (io_lift (manifest_samples manifest)) (\<lambda>samples.
     io_bind (project_samples artifact_root policy [] samples) (\<lambda>stats.
       io_lift (report_of policy (length samples) stats))))"

section \<open>The two classifiers agree\<close>

definition family_of_class :: "token_class \<Rightarrow> family" where
  "family_of_class c = (let s = TOKEN_FAMILY c in
     if s = ''content'' then CONTENT else if s = ''media'' then MEDIA else CONTROL)"

lemma class_step_family:
  "classify_token st t = (fst (token_class_step st t), family_of_class (snd (token_class_step st t)))"
  unfolding classify_token_def token_class_step_def
  by (simp add: family_of_class_def TOKEN_FAMILY_def Let_def)

lemma classes_family: "classify_from st ids = map family_of_class (token_classes_from st ids)"
  by (induction ids arbitrary: st) (simp_all add: class_step_family split_beta Let_def)

lemma length_classify_from [simp]: "length (classify_from st ids) = length ids"
  by (induction ids arbitrary: st) (simp_all add: split_beta Let_def)

lemma length_token_classes [simp]: "length (token_classes_from st ids) = length ids"
  by (induction ids arbitrary: st) (simp_all add: split_beta Let_def)

text \<open>The simulator and the token-aware profiler partition a prompt the same way: on every
  non-empty prompt both classifiers answer, one class per token, and the simulator's family is the
  profiler's TOKEN_FAMILY entry, with unclassified counted as control.
\<close>
theorem classifiers_agree:
  assumes "ids \<noteq> []"
  shows "\<exists>cs. classify_prompt_tokens ids = Inr cs \<and> length cs = length ids \<and>
    classify_prompt ids = Inr (map family_of_class cs)"
  using assms by (simp add: classify_prompt_tokens_def classify_prompt_def classes_family)

theorem classifiers_agree_witness:
  "\<exists>cs. classify_prompt_tokens [163587, 163601, 5, 163602, 163605, 163604, 7, 163586] = Inr cs \<and>
    length cs = length [163587, 163601, 5, 163602, 163605, 163604, 7, 163586 :: int] \<and>
    classify_prompt [163587, 163601, 5, 163602, 163605, 163604, 7, 163586] = Inr (map family_of_class cs)"
  by (rule classifiers_agree) simp

lemma classify_token_family:
  "(snd (classify_token st t) = MEDIA \<longrightarrow> t = MEDIA_PAD) \<and>
   (snd (classify_token st t) = CONTENT \<longrightarrow>
      st = USER_BODY \<and> t \<notin> {IM_SYSTEM, IM_USER, IM_END, MEDIA_START, MEDIA_PAD})"
  unfolding classify_token_def by (auto split: if_splits)

lemma classify_from_nth:
  "i < length ids \<Longrightarrow> \<exists>st. classify_from s ids ! i = snd (classify_token st (ids ! i))"
proof (induction ids arbitrary: s i)
  case (Cons t ts)
  then show ?case by (cases i) (auto simp: split_beta Let_def)
qed simp

text \<open>No policy can touch the chat template: a token is media only if it is the projected
  visual-token placeholder, and a role, boundary or media-wrapper start marker is never content.
\<close>
theorem template_tokens_are_control:
  assumes "classify_prompt ids = Inr fams" "i < length ids"
  shows "length fams = length ids \<and> (fams ! i = MEDIA \<longrightarrow> ids ! i = MEDIA_PAD) \<and>
    (ids ! i \<in> {IM_SYSTEM, IM_USER, IM_END, MEDIA_START} \<longrightarrow> fams ! i = CONTROL)"
proof -
  have f: "fams = classify_from OUTSIDE ids" using assms(1)
    by (auto simp: classify_prompt_def split: if_splits)
  obtain st where st: "fams ! i = snd (classify_token st (ids ! i))"
    using classify_from_nth [OF assms(2)] f by blast
  have d: "IM_SYSTEM \<noteq> MEDIA_PAD" "IM_USER \<noteq> MEDIA_PAD" "IM_END \<noteq> MEDIA_PAD" "MEDIA_START \<noteq> MEDIA_PAD"
    by (simp_all add: marker_defs)
  show ?thesis using classify_token_family [of st "ids ! i"] d st
    by (cases "fams ! i") (auto simp: f)
qed

theorem template_tokens_are_control_witness:
  "\<exists>fams. classify_prompt [163587, 163601, 5] = Inr fams \<and> fams ! 0 = CONTROL"
proof -
  have c: "classify_prompt [163587, 163601, 5] = Inr (classify_from OUTSIDE [163587, 163601, 5])"
    by (simp add: classify_prompt_def)
  from template_tokens_are_control [OF this, of 0] c show ?thesis by (simp add: IM_USER_def)
qed

section \<open>The policy keeps what it promises\<close>

lemma count_True_False: "count_list bs True + count_list bs False = length bs"
  by (induction bs) auto

text \<open>The reviving loop ends with the larger of what it had and its target, capped by the list.\<close>

lemma keep_at_least_count:
  "target \<le> int (length keep) \<Longrightarrow>
   int (count_list (keep_at_least mass target keep) True) = max (int (count_list keep True)) target \<and>
   length (keep_at_least mass target keep) = length keep"
proof (induction mass target keep rule: keep_at_least.induct)
  case (1 mass target keep)
  show ?case
  proof (cases "int (count_list keep True) < target")
    case False
    then show ?thesis by (subst (1 2) keep_at_least.simps) simp
  next
    case True
    let ?c = "dropped keep" and ?k = "keep[best_dropped mass (dropped keep) := True]"
    have "count_list keep False \<noteq> 0" using True "1.prems" count_True_False [of keep] by linarith
    then have ne: "?c \<noteq> []" using length_dropped [of keep] by auto
    then have "best_dropped mass ?c \<in> set ?c" by (rule best_dropped_in)
    then have b: "best_dropped mass ?c < length keep" "\<not> keep ! best_dropped mass ?c"
      by (auto simp: dropped_def)
    have cnt: "int (count_list ?k True) = int (count_list keep True) + 1"
      using count_update_True [OF b] by simp
    have "int (count_list (keep_at_least mass target ?k) True) = max (int (count_list ?k True)) target \<and>
        length (keep_at_least mass target ?k) = length ?k"
      using "1.IH" [OF True refl ne] "1.prems" by simp
    then show ?thesis using True ne cnt
      by (subst (1 2) keep_at_least.simps) (simp add: Let_def max_def)
  qed
qed

definition kept_by_mass :: "pyfloat list \<Rightarrow> pyfloat \<Rightarrow> int" where
  "kept_by_mass weights threshold =
     int (length (filter (\<lambda>x. case fdiv x (fsum weights) of Inr m \<Rightarrow> fle threshold m | Inl e \<Rightarrow> False) weights))"

lemma count_map_True: "count_list (map f xs) True = length (filter f xs)"
  by (induction xs) auto

lemma fdiv_total: "y \<noteq> Fin 0 \<Longrightarrow> \<exists>q. fdiv x y = Inr q"
  by (simp add: fdiv_def)

lemma apply_policy_count:
  assumes "apply_policy weights threshold min_keep = Inr k"
  shows "if fle threshold (Fin 0) \<or> fle (fsum weights) (Fin 0) then k = 0
    else weights \<noteq> [] \<and> list_all (\<lambda>x. \<not> flt x (Fin 0)) weights \<and>
      k = int (length weights) - max (kept_by_mass weights threshold) (min (max min_keep 1) (int (length weights)))"
proof (cases "fle threshold (Fin 0) \<or> fle (fsum weights) (Fin 0)")
  case True
  then show ?thesis using assms by (auto simp: apply_policy_def Let_def split: if_splits)
next
  case False
  let ?total = "fsum weights"
  have nz: "?total \<noteq> Fin 0" using False by auto
  define g where "g x = projr (fdiv x ?total)" for x
  have g: "fdiv x ?total = Inr (g x)" for x using fdiv_total [OF nz, of x] by (auto simp: g_def)
  then have m: "mapR (\<lambda>x. fdiv x ?total) weights = Inr (map g weights)"
    by (intro mapR_all_Inr) simp
  have w: "weights \<noteq> []" "list_all (\<lambda>x. \<not> flt x (Fin 0)) weights" and k: "k = int (length weights) - int (count_list
      (keep_at_least (map g weights) (min (max min_keep 1) (int (length weights)))
        (map (\<lambda>x. fle threshold x) (map g weights))) True)"
    using assms False by (auto simp: apply_policy_def Let_def m list_all_iff list_ex_iff split: if_splits)
  have "int (count_list (map (\<lambda>x. fle threshold x) (map g weights)) True) = kept_by_mass weights threshold"
    by (simp add: kept_by_mass_def g count_map_True del: map_map) (simp add: count_map_True o_def)
  then show ?thesis using w k False
    keep_at_least_count [of "min (max min_keep 1) (int (length weights))"
      "map (\<lambda>x. fle threshold x) (map g weights)" "map g weights"] by simp
qed

lemma apply_policy_bounds:
  assumes "apply_policy weights threshold min_keep = Inr k" "weights \<noteq> []"
  shows "0 \<le> k \<and> k \<le> int (length weights) - min (max min_keep 1) (int (length weights)) \<and>
    k < int (length weights)"
proof -
  have "kept_by_mass weights threshold \<le> int (length weights)"
    by (simp add: kept_by_mass_def)
  moreover have "0 < int (length weights)" using assms(2) by simp
  moreover have "k = 0 \<or> k = int (length weights) - max (kept_by_mass weights threshold) (min (max min_keep 1) (int (length weights)))"
    using apply_policy_count [OF assms(1)] by (meson)
  ultimately show ?thesis by linarith
qed

text \<open>C22: the dynamic-skip policy in closed form. Whenever apply_policy answers for a routed token, it skips nothing when the
  threshold is inactive or the weights have no positive sum; otherwise no weight is negative and it skips all experts beyond the larger
  of two counts: those whose normalised mass reaches the threshold, and the configured
  min_keep clamped to between one and all. So a routed token always keeps at least one expert and
  never fewer than min_keep asks for.
\<close>
theorem apply_policy_closed_form:
  assumes "apply_policy weights threshold min_keep = Inr k" "weights \<noteq> []"
  shows "k = (if fle threshold (Fin 0) \<or> fle (fsum weights) (Fin 0) then 0
      else int (length weights) - max (kept_by_mass weights threshold) (min (max min_keep 1) (int (length weights)))) \<and>
    (fle threshold (Fin 0) \<or> fle (fsum weights) (Fin 0) \<or> list_all (\<lambda>x. \<not> flt x (Fin 0)) weights) \<and>
    0 \<le> k \<and> k \<le> int (length weights) - min (max min_keep 1) (int (length weights)) \<and>
    k < int (length weights)"
  using apply_policy_count [OF assms(1)] apply_policy_bounds [OF assms] by (simp split: if_splits)

theorem apply_policy_closed_form_witness:
  "\<exists>k. apply_policy [Fin (1/2), Fin (1/4), Fin (1/4)] (Fin (3/8)) 1 = Inr k
     \<and> k = 3 - max (kept_by_mass [Fin (1/2), Fin (1/4), Fin (1/4)] (Fin (3/8))) 1 \<and> k = 2"
proof -
  have r: "apply_policy [Fin (1/2), Fin (1/4), Fin (1/4)] (Fin (3/8)) 1 = Inr 2" by code_simp
  have "\<not> fle (Fin (3/8)) (Fin 0)" "\<not> fle (fsum [Fin (1/2), Fin (1/4), Fin (1/4)]) (Fin 0)" by code_simp+
  then show ?thesis using apply_policy_closed_form [OF r] r by simp
qed

section \<open>The projection's accounting\<close>

definition slot_ok :: "slot \<Rightarrow> bool" where
  "slot_ok v = (0 \<le> events v \<and> 0 \<le> skipped v \<and> skipped v + events v \<le> routed v)"

definition stats_ok :: "stats \<Rightarrow> bool" where
  "stats_ok st = (distinct (map fst st) \<and> (\<forall>(k, v) \<in> set st. slot_ok v))"

lemma project_event_ok:
  assumes "project_event policy families st ((event, layer), weights) = Inr st'" "stats_ok st" "weights \<noteq> []"
  shows "stats_ok st'"
proof -
  let ?f = "families ! nat ((event - 1) mod int (length families))"
  obtain threshold min_keep where p:
    "dict_get (Fin 0, int (length weights)) (?f, layer) policy = (threshold, min_keep)" by fastforce
  obtain k where k: "apply_policy weights threshold min_keep = Inr k"
    and st': "st' = dict_upd empty_slot (?f, layer) (\<lambda>v. add_event v (int (length weights)) k) st"
    using assms(1) by (auto simp: project_event_def Let_def p split: if_splits elim: rbind_InrE)
  have b: "0 \<le> k" "k < int (length weights)"
    using apply_policy_bounds [OF k assms(3)] by simp_all
  have "slot_ok (dict_get empty_slot (?f, layer) st)"
    using dict_get_all [of st "\<lambda>k. slot_ok" "(?f, layer)" empty_slot] assms(2)
    by (simp add: stats_ok_def slot_ok_def empty_slot_def)
  then have "slot_ok (add_event (dict_get empty_slot (?f, layer) st) (int (length weights)) k)"
    using b by (simp add: slot_ok_def add_event_def)
  then show ?thesis
    using assms(2) dict_upd_all [of st "\<lambda>k. slot_ok"] by (simp add: st' stats_ok_def distinct_dict_upd)
qed

lemma parse_trace_events: "parse_trace_text t = Inr evs \<Longrightarrow> (k, ws) \<in> set evs \<Longrightarrow> ws \<noteq> []"
  by (auto simp: parse_trace_text_def Let_def split: if_splits elim!: rbind_InrE dest: group_by_mem)

lemma parse_trace_iff:
  "parse_trace p s = (Inr evs, s') \<longleftrightarrow> s' = s \<and> (\<exists>t. read_text p s = (Inr t, s) \<and> parse_trace_text t = Inr evs)"
  by (cases "s p"; cases "ascii_decode (the (s p))")
     (auto simp: parse_trace_def io_bind_def read_text_app)

lemma read_text_state: "read_text p s = (r, s') \<Longrightarrow> s' = s"
  by (simp add: read_text_app)

lemma project_sample_ok:
  assumes "project_sample r policy st x s = (Inr st', s')" "stats_ok st"
  shows "stats_ok st' \<and> s' = s"
proof -
  obtain families evs t where evs: "parse_trace_text t = Inr evs"
    and f: "foldR (project_event policy families) st evs = Inr st'" and s: "s' = s"
    using assms(1)
    by (auto simp: project_sample_def io_bind_eq_Inr parse_trace_iff dest!: read_text_state)
  have "stats_ok st'"
  proof (rule foldR_invariant [where P = stats_ok, OF f assms(2)])
    fix st ev st'
    assume "ev \<in> set evs" "stats_ok st" "project_event policy families st ev = Inr st'"
    then show "stats_ok st'"
      using parse_trace_events [OF evs] project_event_ok by (metis surj_pair)
  qed
  with s show ?thesis by simp
qed

lemma project_samples_ok:
  "project_samples r policy st xs s = (Inr st', s') \<Longrightarrow> stats_ok st \<Longrightarrow> stats_ok st' \<and> s' = s"
proof (induction xs arbitrary: st s)
  case (Cons x xs)
  then show ?case using project_sample_ok by (fastforce simp: io_bind_eq_Inr)
qed simp

lemma slot_fraction:
  assumes "skip_fraction k n = Inr q" "0 \<le> k" "k \<le> n"
  shows "\<exists>r. q = Fin r \<and> 0 \<le> r \<and> r \<le> 1"
  using assms int_truediv_fraction [of k n] by (auto simp: skip_fraction_def split: if_splits)

lemma skip_row_of_row:
  assumes "skip_row_of policy ((f, l), v) = Inr row"
  shows "row_family row = FAMILY_NAME f \<and> row_layer row = l \<and> row_slot row = v \<and>
    skip_fraction (skipped v) (routed v) = Inr (row_fraction row)"
  using assms by (auto simp: skip_row_of_def split: prod.splits elim!: rbind_InrE)

lemma FAMILY_NAME_inject: "FAMILY_NAME f = FAMILY_NAME g \<longleftrightarrow> f = g"
  by (cases f; cases g) (simp_all add: FAMILY_NAME_def)

lemma report_rows:
  assumes "mapR (skip_row_of policy) items = Inr rows"
  shows "map row_slot rows = map snd items \<and>
    map (\<lambda>r. (row_family r, row_layer r)) rows = map (\<lambda>(k, v). (FAMILY_NAME (fst k), snd k)) items \<and>
    (\<forall>r \<in> set rows. skip_fraction (skipped (row_slot r)) (routed (row_slot r)) = Inr (row_fraction r))"
  using assms
proof (induction items arbitrary: rows)
  case (Cons x items)
  obtain f l v where x: "x = ((f, l), v)" by (metis surj_pair)
  from Cons.prems obtain r rs where r: "skip_row_of policy x = Inr r"
    "mapR (skip_row_of policy) items = Inr rs" "rows = r # rs" by (auto simp: rbind_eq_Inr)
  then show ?case using Cons.IH [OF r(2)] skip_row_of_row [of policy f l v r] x by simp
qed simp

lemma report_of_ok:
  assumes "report_of policy n st = Inr rep" "stats_ok st"
  shows "rep_samples rep = n \<and>
    rep_routed rep = sum_list (map (\<lambda>r. routed (row_slot r)) (rep_rows rep)) \<and>
    rep_skipped rep = sum_list (map (\<lambda>r. skipped (row_slot r)) (rep_rows rep)) \<and>
    (\<forall>r \<in> set (rep_rows rep). slot_ok (row_slot r)) \<and>
    distinct (map (\<lambda>r. (row_family r, row_layer r)) (rep_rows rep)) \<and>
    (\<forall>r \<in> set (rep_rows rep). \<exists>q. row_fraction r = Fin q \<and> 0 \<le> q \<and> q \<le> 1) \<and>
    (\<exists>q. rep_fraction rep = Fin q \<and> 0 \<le> q \<and> q \<le> 1)"
proof -
  define items where "items = sort_key fst st"
  obtain rows q where rows: "mapR (skip_row_of policy) items = Inr rows"
    and q: "skip_fraction (sum_list (map (\<lambda>(k, v). skipped v) items)) (sum_list (map (\<lambda>(k, v). routed v) items)) = Inr q"
    and rep: "rep = \<lparr>rep_samples = n, rep_routed = sum_list (map (\<lambda>(k, v). routed v) items),
      rep_skipped = sum_list (map (\<lambda>(k, v). skipped v) items), rep_fraction = q, rep_rows = rows\<rparr>"
    using assms(1) by (auto simp: report_of_def Let_def items_def elim!: rbind_InrE)
  note R = report_rows [OF rows]
  have slots: "map (\<lambda>r. g (row_slot r)) rows = map (\<lambda>(k, v). g v) items" for g :: "slot \<Rightarrow> int"
  proof -
    have "map g (map row_slot rows) = map g (map snd items)" using R by simp
    then show ?thesis by (simp add: split_beta o_def)
  qed
  have ok: "\<forall>(k, v) \<in> set items. slot_ok v" using assms(2) by (simp add: items_def stats_ok_def)
  have rok: "\<forall>r \<in> set rows. slot_ok (row_slot r)"
  proof
    fix r assume "r \<in> set rows"
    then have "row_slot r \<in> set (map snd items)" using R by (metis image_eqI set_map)
    then show "slot_ok (row_slot r)" using ok by auto
  qed
  have dist: "distinct (map fst items)"
    using assms(2) by (simp add: items_def stats_ok_def distinct_map distinct_sort)
  have "distinct (map (\<lambda>(k, v). (FAMILY_NAME (fst k), snd k)) items)"
  proof -
    have "inj (\<lambda>k. (FAMILY_NAME (fst k), snd k))"
      by (auto simp: inj_def FAMILY_NAME_inject prod_eq_iff)
    then have "distinct (map (\<lambda>k. (FAMILY_NAME (fst k), snd k)) (map fst items))"
      using dist unfolding distinct_map [of "\<lambda>k. (FAMILY_NAME (fst k), snd k)"]
      by (metis inj_on_subset subset_UNIV)
    then show ?thesis by (simp add: case_prod_beta' o_def)
  qed
  then have d: "distinct (map (\<lambda>r. (row_family r, row_layer r)) rows)" using R by simp
  have fr: "\<exists>q. row_fraction r = Fin q \<and> 0 \<le> q \<and> q \<le> 1" if r: "r \<in> set rows" for r
    using R rok r by (intro slot_fraction) (auto simp: slot_ok_def)
  have le: "sum_list (map (\<lambda>(k, v). skipped v) items) \<le> sum_list (map (\<lambda>(k, v). routed v) items)"
    using ok by (intro sum_list_mono) (auto simp: slot_ok_def)
  have "0 \<le> sum_list (map (\<lambda>(k, v). skipped v) items)"
    using ok by (intro sum_list_nonneg) (auto simp: slot_ok_def)
  from slot_fraction [OF q this le] show ?thesis using d fr rok by (simp add: rep slots)
qed

text \<open>C23: the projection's accounting is sound. A run of simulate that answers changes no file; its
  totals are the sums of its rows; each (family, layer) has one row; in every row the skipped
  routes leave at least one routed expert per event, so no projected token loses all its experts;
  and every reported fraction is a number between 0 and 1.
\<close>
theorem simulate_accounting:
  assumes "simulate manifest artifact_root policy_path s = (Inr rep, s')"
  shows "s' = s \<and>
    rep_routed rep = sum_list (map (\<lambda>r. routed (row_slot r)) (rep_rows rep)) \<and>
    rep_skipped rep = sum_list (map (\<lambda>r. skipped (row_slot r)) (rep_rows rep)) \<and>
    distinct (map (\<lambda>r. (row_family r, row_layer r)) (rep_rows rep)) \<and>
    (\<forall>r \<in> set (rep_rows rep). 0 \<le> skipped (row_slot r) \<and>
       skipped (row_slot r) + events (row_slot r) \<le> routed (row_slot r) \<and>
       (\<exists>q. row_fraction r = Fin q \<and> 0 \<le> q \<and> q \<le> 1)) \<and>
    (\<exists>q. rep_fraction rep = Fin q \<and> 0 \<le> q \<and> q \<le> 1)"
proof -
  obtain policy samples st where p: "project_samples artifact_root policy [] samples s = (Inr st, s')"
    and rep: "report_of policy (length samples) st = Inr rep"
    using assms
    by (auto simp: simulate_def load_policy_def io_bind_eq_Inr dest!: read_text_state)
  have "stats_ok st \<and> s' = s" using project_samples_ok [OF p] by (simp add: stats_ok_def)
  then show ?thesis using report_of_ok [OF rep] by (simp add: slot_ok_def)
qed

definition skip_example :: fs where
  "skip_example = [''r/ids'' \<mapsto> ascii_encode ''163587 163601 5'',
     ''r/tr'' \<mapsto> ascii_encode ''3 1 7 1'', ''pol'' \<mapsto> ascii_encode ''content 1 1 1'']"

definition skip_manifest :: json where
  "skip_manifest = JObj [(''text_samples'',
     JList [JObj [(''prompt_ids'', JStr ''ids''), (''trace'', JStr ''tr'')]])]"

lemma skip_example_policy:
  "load_policy_text ''content 1 1 1'' = Inr [((CONTENT, 1), (Fin 1, 1))]"
  by code_simp

lemma skip_example_ids: "mapR int_res (py_split ''163587 163601 5'') = Inr [163587, 163601, 5]"
  by (simp add: int_res_def py_int_def py_strip_def py_split.simps is_space_def cp_def digit_val_def
      is_digit_def)

lemma skip_example_trace: "parse_trace_text ''3 1 7 1'' = Inr [((3, 1), [Fin 1])]"
  by code_simp

lemma skip_example_event: "apply_policy [Fin 1] (Fin 1) 1 = Inr 0"
  by code_simp

lemma skip_example_paths:
  "resolve_artifact_path ''r'' (JStr ''ids'') = Inr ''r/ids''" "resolve_artifact_path ''r'' (JStr ''tr'') = Inr ''r/tr''"
  by (simp_all add: resolve_artifact_path_def path_join_def starts_with_def in_dir_def)

lemma skip_example_files:
  "read_text ''r/ids'' skip_example = (Inr ''163587 163601 5'', skip_example)"
  "read_text ''r/tr'' skip_example = (Inr ''3 1 7 1'', skip_example)"
  "read_text ''pol'' skip_example = (Inr ''content 1 1 1'', skip_example)"
  by (simp_all add: read_text_app skip_example_def ascii_roundtrip is_ascii_def cp_def)

theorem simulate_accounting_witness:
  "\<exists>rep. simulate skip_manifest ''r'' ''pol'' skip_example = (Inr rep, skip_example) \<and>
     rep_routed rep = 1 \<and> rep_skipped rep = 0 \<and>
     (\<exists>q. rep_fraction rep = Fin q \<and> 0 \<le> q \<and> q \<le> 1)"
proof -
  let ?p = "[((CONTENT, 1), (Fin 1, 1))]"
  have c: "classify_prompt [163587, 163601, 5] = Inr [CONTROL, CONTROL, CONTENT]"
    by (simp add: classify_prompt_def classify_token_def marker_defs)
  have ev: "project_event ?p [CONTROL, CONTROL, CONTENT] [] ((3, 1), [Fin 1]) =
      Inr [((CONTENT, 1), \<lparr>events = 1, routed = 1, skipped = 0\<rparr>)]"
    by (simp add: project_event_def dict_get_def skip_example_event dict_upd_def empty_slot_def add_event_def)
  have smp: "project_sample ''r'' ?p [] (JObj [(''prompt_ids'', JStr ''ids''), (''trace'', JStr ''tr'')]) skip_example =
      (Inr [((CONTENT, 1), \<lparr>events = 1, routed = 1, skipped = 0\<rparr>)], skip_example)"
    by (simp add: project_sample_def skip_example_paths io_bind_lift_app io_bind_def skip_example_files
        skip_example_ids c parse_trace_def skip_example_trace ev)
  have "\<exists>rep. simulate skip_manifest ''r'' ''pol'' skip_example = (Inr rep, skip_example) \<and>
     rep_routed rep = 1 \<and> rep_skipped rep = 0"
    by (simp add: simulate_def load_policy_def io_bind_def skip_example_files skip_example_policy
        manifest_samples_def skip_manifest_def smp report_of_def skip_row_of_def skip_fraction_def
        dict_get_def int_truediv_def)
  then show ?thesis using simulate_accounting by blast
qed

end
