(* ===== verification/RouteCompare.thy ===== *)
theory RouteCompare
  imports TraceText
begin

text \<open>
  Event-by-event comparison of two route traces (\<^verbatim>\<open>tools/compare_kimi_moe_routes.py\<close>): reading a
  trace into its events, and the counters of ordered equality, set overlap, substitutions and
  common-weight changes, in total and per layer. The order in which Python iterates over a set of
  experts is the parameter \<open>iter\<close>: float addition makes the summed weight change depend on it.
\<close>

section \<open>Reading a route trace\<close>

definition compare_row :: "string \<Rightarrow> ((int \<times> int) \<times> (int \<times> pyfloat)) res" where
  "compare_row line = (let parts = py_split line in
     if length parts \<noteq> 6 then Inl (ValueError ''expected 6 columns'')
     else rbind (int_res (parts ! 0)) (\<lambda>event. rbind (int_res (parts ! 1)) (\<lambda>layer.
          rbind (int_res (parts ! 2)) (\<lambda>expert. rbind (float_res (parts ! 3)) (\<lambda>weight.
            if event \<le> 0 \<or> layer < 0 \<or> expert < 0 \<or> \<not> is_finite weight
            then Inl (ValueError ''invalid route row'')
            else Inr ((event, layer), (expert, weight)))))))"

type_synonym routes = "((int \<times> int) \<times> (int \<times> pyfloat) list) list"

definition read_routes_text :: "string \<Rightarrow> routes res" where
  "read_routes_text t =
     rbind (mapR compare_row (file_table_of t)) (\<lambda>rows.
       let evs = group_by fst snd rows in
       if evs = [] then Inl (ValueError ''no route events'') else Inr evs)"

definition read_routes :: "string \<Rightarrow> routes io" where
  "read_routes path = io_bind (read_text path) (\<lambda>t. io_lift (read_routes_text t))"

section \<open>The comparison\<close>

record route_acc =
  ra_events :: int
  ra_ordered_exact :: int
  ra_set_exact :: int
  ra_base :: int
  ra_common :: int
  ra_subst :: int
  ra_l1 :: pyfloat
  ra_max :: pyfloat

definition zero_acc :: route_acc where
  "zero_acc = \<lparr>ra_events = 0, ra_ordered_exact = 0, ra_set_exact = 0, ra_base = 0, ra_common = 0,
     ra_subst = 0, ra_l1 = Fin 0, ra_max = Fin 0\<rparr>"

record event_cmp =
  ec_ordered :: bool
  ec_set :: bool
  ec_base :: int
  ec_common :: int
  ec_subst :: int
  ec_l1 :: pyfloat
  ec_max :: pyfloat

definition weight_change :: "(int \<times> pyfloat) list \<Rightarrow> (int \<times> pyfloat) list \<Rightarrow> int \<Rightarrow> pyfloat" where
  "weight_change b v e = fabs (fsub (the (map_of b e)) (the (map_of v e)))"

definition common_experts :: "(int \<times> pyfloat) list \<Rightarrow> (int \<times> pyfloat) list \<Rightarrow> int list" where
  "common_experts b v = filter (\<lambda>e. e \<in> fst ` set v) (map fst b)"

definition compare_event ::
  "(int list \<Rightarrow> int list) \<Rightarrow> (int \<times> pyfloat) list \<Rightarrow> (int \<times> pyfloat) list \<Rightarrow> event_cmp res" where
  "compare_event iter b v =
     (let b_ids = map fst b; v_ids = map fst v in
      if \<not> distinct b_ids \<or> \<not> distinct v_ids then Inl (ValueError ''duplicate expert'')
      else let common = common_experts b v;
               changes = map (weight_change b v) (iter common)
           in Inr \<lparr>ec_ordered = (b_ids = v_ids), ec_set = (set b_ids = set v_ids),
                ec_base = int (length b_ids), ec_common = int (length common),
                ec_subst = int (length (filter (\<lambda>e. e \<notin> set common) b_ids)),
                ec_l1 = fsum changes,
                ec_max = (case changes of [] \<Rightarrow> Fin 0 | x # xs \<Rightarrow> foldl fmax2 x xs)\<rparr>)"

definition add_cmp :: "event_cmp \<Rightarrow> route_acc \<Rightarrow> route_acc" where
  "add_cmp c a = a\<lparr>ra_events := ra_events a + 1,
     ra_ordered_exact := ra_ordered_exact a + of_bool (ec_ordered c),
     ra_set_exact := ra_set_exact a + of_bool (ec_set c),
     ra_base := ra_base a + ec_base c,
     ra_common := ra_common a + ec_common c,
     ra_subst := ra_subst a + ec_subst c,
     ra_l1 := fadd (ra_l1 a) (ec_l1 c),
     ra_max := fmax2 (ra_max a) (ec_max c)\<rparr>"

record divergence =
  dv_event :: int
  dv_layer :: int
  dv_base :: "int list"
  dv_variant :: "int list"
  dv_common :: "int list"

type_synonym cmp_state = "route_acc \<times> (int \<times> route_acc) list \<times> divergence option"

definition compare_step ::
  "(int list \<Rightarrow> int list) \<Rightarrow> routes \<Rightarrow> routes \<Rightarrow> cmp_state \<Rightarrow> int \<times> int \<Rightarrow> cmp_state res" where
  "compare_step iter base variant st key = (case st of (totals, per_layer, first) \<Rightarrow>
     let b = dict_get [] key base; v = dict_get [] key variant in
     rbind (compare_event iter b v) (\<lambda>c.
       Inr (add_cmp c totals, dict_upd zero_acc (snd key) (add_cmp c) per_layer,
            if first = None \<and> \<not> ec_ordered c
            then Some \<lparr>dv_event = fst key, dv_layer = snd key, dv_base = map fst b,
                   dv_variant = map fst v, dv_common = sort (common_experts b v)\<rparr>
            else first)))"

record finished =
  fin_acc :: route_acc
  fin_ordered :: pyfloat
  fin_set :: pyfloat
  fin_retention :: pyfloat
  fin_mean_subst :: pyfloat
  fin_mean_l1 :: pyfloat

definition ratio :: "int \<Rightarrow> int \<Rightarrow> pyfloat res" where
  "ratio a b = (if b \<noteq> 0 then int_truediv a b else Inr (Fin 0))"

definition finish_acc :: "route_acc \<Rightarrow> finished res" where
  "finish_acc d =
     rbind (ratio (ra_ordered_exact d) (ra_events d)) (\<lambda>a.
     rbind (ratio (ra_set_exact d) (ra_events d)) (\<lambda>b.
     rbind (ratio (ra_common d) (ra_base d)) (\<lambda>c.
     rbind (ratio (ra_subst d) (ra_events d)) (\<lambda>e.
     rbind (if ra_events d \<noteq> 0 then rbind (float_of_int (ra_events d)) (fdiv (ra_l1 d)) else Inr (Fin 0)) (\<lambda>f.
       Inr \<lparr>fin_acc = d, fin_ordered = a, fin_set = b, fin_retention = c, fin_mean_subst = e,
            fin_mean_l1 = f\<rparr>)))))"

record route_report =
  rr_summary :: finished
  rr_first :: "divergence option"
  rr_layers :: "(string \<times> finished) list"

definition compare_routes :: "(int list \<Rightarrow> int list) \<Rightarrow> routes \<Rightarrow> routes \<Rightarrow> route_report res" where
  "compare_routes iter base variant =
     (if set (map fst base) \<noteq> set (map fst variant) then Inl (ValueError ''event keys differ'')
      else rbind (foldR (compare_step iter base variant) (zero_acc, [], None) (sort (map fst base)))
        (\<lambda>(totals, per_layer, first).
          rbind (finish_acc totals) (\<lambda>summary.
          rbind (mapR (\<lambda>(layer, a). rmap (\<lambda>x. (show_int layer, x)) (finish_acc a)) (sort_key fst per_layer)) (\<lambda>ls.
            Inr \<lparr>rr_summary = summary, rr_first = first, rr_layers = ls\<rparr>))))"

section \<open>Counters\<close>

definition acc_ok :: "route_acc \<Rightarrow> bool" where
  "acc_ok a = (0 \<le> ra_ordered_exact a \<and> ra_ordered_exact a \<le> ra_set_exact a \<and>
     ra_set_exact a \<le> ra_events a \<and> 0 \<le> ra_common a \<and> 0 \<le> ra_subst a \<and>
     ra_common a + ra_subst a = ra_base a)"

definition cmp_ok :: "event_cmp \<Rightarrow> bool" where
  "cmp_ok c = ((ec_ordered c \<longrightarrow> ec_set c) \<and> 0 \<le> ec_common c \<and> 0 \<le> ec_subst c \<and>
     ec_common c + ec_subst c = ec_base c)"

lemma compare_event_ok: "compare_event iter b v = Inr c \<Longrightarrow> cmp_ok c"
proof -
  assume "compare_event iter b v = Inr c"
  then have c: "ec_ordered c = (map fst b = map fst v)" "ec_set c = (set (map fst b) = set (map fst v))"
    "ec_base c = int (length b)" "ec_common c = int (length (common_experts b v))"
    "ec_subst c = int (length (filter (\<lambda>e. e \<notin> set (common_experts b v)) (map fst b)))"
    by (auto simp: compare_event_def Let_def split: if_splits simp del: set_map)
  have "filter (\<lambda>e. e \<notin> set (common_experts b v)) (map fst b) = filter (\<lambda>e. e \<notin> fst ` set v) (map fst b)"
    by (rule filter_cong) (auto simp: common_experts_def)
  then have "ec_common c + ec_subst c = ec_base c"
    using sum_length_filter_compl [of "\<lambda>e. e \<in> fst ` set v" "map fst b"]
    by (simp add: c common_experts_def)
  then show ?thesis using c(1-5) by (simp add: cmp_ok_def) (metis list.set_map)
qed

lemma add_cmp_ok: "cmp_ok c \<Longrightarrow> acc_ok a \<Longrightarrow> acc_ok (add_cmp c a)"
  by (auto simp: cmp_ok_def acc_ok_def add_cmp_def)

lemma zero_acc_ok [simp]: "acc_ok zero_acc"
  by (simp add: acc_ok_def zero_acc_def)

text \<open>The counters that are plain sums, of which the total is the sum over the layers.\<close>

definition additive :: "(route_acc \<Rightarrow> int) \<Rightarrow> bool" where
  "additive g = (g \<in> {ra_events, ra_ordered_exact, ra_set_exact, ra_base, ra_common, ra_subst})"

lemma additive_add: "additive g \<Longrightarrow> g (add_cmp c a) = g a + g (add_cmp c zero_acc)"
  by (auto simp: additive_def add_cmp_def zero_acc_def)

lemma additive_zero: "additive g \<Longrightarrow> g zero_acc = 0"
  by (auto simp: additive_def zero_acc_def)

definition cmp_inv :: "cmp_state \<Rightarrow> bool" where
  "cmp_inv st = (case st of (totals, per_layer, first) \<Rightarrow>
     acc_ok totals \<and> (\<forall>(l, a) \<in> set per_layer. acc_ok a) \<and> distinct (map fst per_layer) \<and>
     (\<forall>g. additive g \<longrightarrow> g totals = sum_list (map (\<lambda>(l, a). g a) per_layer)) \<and>
     (first = None \<longleftrightarrow> ra_ordered_exact totals = ra_events totals))"

lemma compare_step_inv:
  assumes "compare_step iter base variant st key = Inr st'" "cmp_inv st"
  shows "cmp_inv st'"
proof -
  obtain totals per_layer first where st: "st = (totals, per_layer, first)" by (metis surj_pair)
  obtain c where c: "compare_event iter (dict_get [] key base) (dict_get [] key variant) = Inr c"
    using assms(1) by (auto simp: compare_step_def st Let_def elim!: rbind_InrE)
  define f where "f = snd (snd st')"
  have st': "st' = (add_cmp c totals, dict_upd zero_acc (snd key) (add_cmp c) per_layer, f)"
    and f: "f = None \<longleftrightarrow> first = None \<and> ec_ordered c"
    using assms(1) by (auto simp: compare_step_def st Let_def c f_def split: if_splits)
  have ok: "cmp_ok c" using compare_event_ok [OF c] .
  have inv: "acc_ok totals" "\<forall>(l, a) \<in> set per_layer. acc_ok a" "distinct (map fst per_layer)"
    "\<And>g. additive g \<Longrightarrow> g totals = sum_list (map (\<lambda>(l, a). g a) per_layer)"
    "first = None \<longleftrightarrow> ra_ordered_exact totals = ra_events totals"
    using assms(2) by (auto simp: cmp_inv_def st)
  have "acc_ok (dict_get zero_acc (snd key) per_layer)"
    using dict_get_all [of per_layer "\<lambda>k. acc_ok" "snd key" zero_acc] inv(2) by simp
  then have a: "\<forall>(l, a) \<in> set (dict_upd zero_acc (snd key) (add_cmp c) per_layer). acc_ok a"
    using dict_upd_all [of per_layer "\<lambda>k. acc_ok" "snd key" "add_cmp c" zero_acc] inv(2) add_cmp_ok [OF ok] by simp
  have s: "g (add_cmp c totals) = sum_list (map (\<lambda>(l, a). g a) (dict_upd zero_acc (snd key) (add_cmp c) per_layer))"
    if g: "additive g" for g
    using sum_dict_upd [OF inv(3), of g zero_acc "snd key" "add_cmp c"] inv(4) [OF g]
      additive_add [OF g, of c totals] additive_add [OF g, of c "dict_get zero_acc (snd key) per_layer"]
      additive_zero [OF g]
    by (auto simp: dict_get_def split: option.splits dest: map_of_SomeD)
       (metis image_eqI fst_conv map_of_eq_None_iff option.distinct(1))
  have e: "(first = None \<and> ec_ordered c) \<longleftrightarrow> ra_ordered_exact (add_cmp c totals) = ra_events (add_cmp c totals)"
    using inv(1,5) by (auto simp: add_cmp_def acc_ok_def)
  show ?thesis using st' a s e f add_cmp_ok [OF ok inv(1)] distinct_dict_upd [OF inv(3)]
    by (auto simp: cmp_inv_def)
qed

section \<open>Reports\<close>

lemma ratio_fraction:
  assumes "ratio a b = Inr q" "0 \<le> a" "a \<le> b"
  shows "\<exists>r. q = Fin r \<and> 0 \<le> r \<and> r \<le> 1"
  using assms int_truediv_fraction [of a b] by (auto simp: ratio_def split: if_splits)

lemma finish_acc_ok:
  assumes "finish_acc d = Inr r"
  shows "fin_acc r = d \<and> ratio (ra_ordered_exact d) (ra_events d) = Inr (fin_ordered r) \<and>
    ratio (ra_set_exact d) (ra_events d) = Inr (fin_set r) \<and>
    ratio (ra_common d) (ra_base d) = Inr (fin_retention r)"
  using assms by (auto simp: finish_acc_def elim!: rbind_InrE)

lemma finished_fractions:
  assumes "finish_acc d = Inr r" "acc_ok d"
  shows "\<exists>a b c. fin_ordered r = Fin a \<and> fin_set r = Fin b \<and> fin_retention r = Fin c \<and>
    0 \<le> a \<and> a \<le> 1 \<and> 0 \<le> b \<and> b \<le> 1 \<and> 0 \<le> c \<and> c \<le> 1"
proof -
  note f = finish_acc_ok [OF assms(1)]
  have "0 \<le> ra_ordered_exact d" "ra_ordered_exact d \<le> ra_events d" "0 \<le> ra_set_exact d"
    "ra_set_exact d \<le> ra_events d" "0 \<le> ra_common d" "ra_common d \<le> ra_base d"
    using assms(2) by (auto simp: acc_ok_def)
  then show ?thesis using f ratio_fraction by metis
qed

lemma layer_rows:
  assumes "mapR (\<lambda>(layer, a). rmap (\<lambda>x. (show_int layer, x)) (finish_acc a)) items = Inr ls"
  shows "map (\<lambda>(l, r). fin_acc r) ls = map snd items \<and> map fst ls = map (show_int \<circ> fst) items \<and>
    (\<forall>x \<in> set ls. finish_acc (fin_acc (snd x)) = Inr (snd x))"
  using assms
proof (induction items arbitrary: ls)
  case (Cons x items)
  obtain l a where x: "x = (l, a)" by fastforce
  obtain r rs where r: "finish_acc a = Inr r" "ls = (show_int l, r) # rs"
    "mapR (\<lambda>(layer, a). rmap (\<lambda>x. (show_int layer, x)) (finish_acc a)) items = Inr rs"
    using Cons.prems by (auto simp: x rbind_eq_Inr rmap_eq_Inr)
  then show ?case using Cons.IH [OF r(3)] finish_acc_ok [OF r(1)] x by simp
qed simp

lemma show_int_inject [simp]: "show_int a = show_int b \<longleftrightarrow> a = b"
  by (metis py_int_show_int option.inject)

lemma compare_routes_run:
  assumes "compare_routes iter base variant = Inr rep"
  obtains totals per_layer where "cmp_inv (totals, per_layer, rr_first rep)"
    and "foldR (compare_step iter base variant) (zero_acc, [], None) (sort (map fst base)) = Inr (totals, per_layer, rr_first rep)"
    and "finish_acc totals = Inr (rr_summary rep)"
    and "mapR (\<lambda>(layer, a). rmap (\<lambda>x. (show_int layer, x)) (finish_acc a)) (sort_key fst per_layer) = Inr (rr_layers rep)"
proof -
  obtain totals per_layer first where run:
    "foldR (compare_step iter base variant) (zero_acc, [], None) (sort (map fst base)) = Inr (totals, per_layer, first)"
    and r: "rr_first rep = first" "finish_acc totals = Inr (rr_summary rep)"
      "mapR (\<lambda>(layer, a). rmap (\<lambda>x. (show_int layer, x)) (finish_acc a)) (sort_key fst per_layer) = Inr (rr_layers rep)"
    using assms by (auto simp: compare_routes_def split: if_splits elim!: rbind_InrE)
  have "cmp_inv (zero_acc, [], None)"
    by (simp add: cmp_inv_def additive_zero) (simp add: zero_acc_def)
  then have "cmp_inv (totals, per_layer, first)"
    using foldR_invariant [where P = cmp_inv, OF run] compare_step_inv by blast
  with run r that show ?thesis by blast
qed

text \<open>C24: the comparison's accounting is sound. In the summary and in every layer of a report, ordered
  equality implies set equality event by event, the common and the substituted experts add up to
  the selected ones, and the three reported fractions are numbers between 0 and 1; every counter of
  the summary is the sum of the layers' counters; each layer is reported once; and a first
  divergence is reported exactly when some event's ordered route differs.
\<close>
theorem route_compare_accounting:
  assumes "compare_routes iter base variant = Inr rep"
  shows "(\<forall>r \<in> insert (rr_summary rep) (snd ` set (rr_layers rep)). acc_ok (fin_acc r) \<and>
       (\<exists>a b c. fin_ordered r = Fin a \<and> fin_set r = Fin b \<and> fin_retention r = Fin c \<and>
          0 \<le> a \<and> a \<le> 1 \<and> 0 \<le> b \<and> b \<le> 1 \<and> 0 \<le> c \<and> c \<le> 1)) \<and>
    (\<forall>g. additive g \<longrightarrow> g (fin_acc (rr_summary rep)) = sum_list (map (\<lambda>(l, r). g (fin_acc r)) (rr_layers rep))) \<and>
    distinct (map fst (rr_layers rep)) \<and>
    (rr_first rep = None \<longleftrightarrow>
      ra_ordered_exact (fin_acc (rr_summary rep)) = ra_events (fin_acc (rr_summary rep)))"
proof -
  obtain totals per_layer where inv: "cmp_inv (totals, per_layer, rr_first rep)"
    and t: "finish_acc totals = Inr (rr_summary rep)"
    and l: "mapR (\<lambda>(layer, a). rmap (\<lambda>x. (show_int layer, x)) (finish_acc a)) (sort_key fst per_layer) = Inr (rr_layers rep)"
    using assms by (rule compare_routes_run)
  note L = layer_rows [OF l]
  have tot: "fin_acc (rr_summary rep) = totals" using finish_acc_ok [OF t] by simp
  have ok: "acc_ok totals" using inv by (simp add: cmp_inv_def)
  have lok: "acc_ok (fin_acc r)" "finish_acc (fin_acc r) = Inr r" if "r \<in> snd ` set (rr_layers rep)" for r
  proof -
    have "fin_acc r \<in> set (map (\<lambda>(l, r). fin_acc r) (rr_layers rep))" using that by force
    then have "fin_acc r \<in> snd ` set per_layer" using L by simp
    then show "acc_ok (fin_acc r)" using inv by (auto simp: cmp_inv_def)
    show "finish_acc (fin_acc r) = Inr r" using L that by auto
  qed
  have sums: "g totals = sum_list (map (\<lambda>(l, r). g (fin_acc r)) (rr_layers rep))" if g: "additive g" for g
  proof -
    have "g totals = sum_list (map (\<lambda>(l, a). g a) (sort_key fst per_layer))"
      using inv g by (simp add: cmp_inv_def sum_list_sort_key)
    also have "\<dots> = sum_list (map g (map (\<lambda>(l, r). fin_acc r) (rr_layers rep)))"
      using L by (simp add: case_prod_beta' o_def)
    finally show ?thesis by (simp add: case_prod_beta' o_def)
  qed
  have "distinct (map fst (sort_key fst per_layer))"
    using inv by (simp add: cmp_inv_def distinct_map distinct_sort)
  then have "distinct (map show_int (map fst (sort_key fst per_layer)))"
    unfolding distinct_map [of show_int] by (simp add: inj_on_def)
  then have d: "distinct (map fst (rr_layers rep))" using L by simp
  have fr: "acc_ok (fin_acc r) \<and> finish_acc (fin_acc r) = Inr r"
    if "r \<in> insert (rr_summary rep) (snd ` set (rr_layers rep))" for r
    using that lok ok t tot by auto
  show ?thesis
  proof (intro conjI ballI)
    fix r assume "r \<in> insert (rr_summary rep) (snd ` set (rr_layers rep))"
    note r = fr [OF this]
    show "acc_ok (fin_acc r)" using r by simp
    show "\<exists>a b c. fin_ordered r = Fin a \<and> fin_set r = Fin b \<and> fin_retention r = Fin c \<and>
          0 \<le> a \<and> a \<le> 1 \<and> 0 \<le> b \<and> b \<le> 1 \<and> 0 \<le> c \<and> c \<le> 1"
      using finished_fractions r by blast
  next
    show "\<forall>g. additive g \<longrightarrow> g (fin_acc (rr_summary rep)) = sum_list (map (\<lambda>(l, r). g (fin_acc r)) (rr_layers rep))"
      using sums tot by simp
    show "distinct (map fst (rr_layers rep))" by (rule d)
    show "rr_first rep = None \<longleftrightarrow>
      ra_ordered_exact (fin_acc (rr_summary rep)) = ra_events (fin_acc (rr_summary rep))"
      using inv tot by (simp add: cmp_inv_def)
  qed
qed

theorem route_compare_accounting_witness:
  "\<exists>rep. compare_routes id [((1, 1), [(3, Fin 1), (5, Fin 1)])] [((1, 1), [(5, Fin 1), (4, Fin 1)])] = Inr rep \<and>
     ra_subst (fin_acc (rr_summary rep)) = 1 \<and> ra_common (fin_acc (rr_summary rep)) = 1 \<and>
     (\<forall>g. additive g \<longrightarrow> g (fin_acc (rr_summary rep)) = sum_list (map (\<lambda>(l, r). g (fin_acc r)) (rr_layers rep)))"
proof -
  have "is_ok (compare_routes id [((1, 1), [(3, Fin 1), (5, Fin 1)])] [((1, 1), [(5, Fin 1), (4, Fin 1)])])"
    by code_simp
  then obtain rep where r: "compare_routes id [((1, 1), [(3, Fin 1), (5, Fin 1)])] [((1, 1), [(5, Fin 1), (4, Fin 1)])] = Inr rep"
    by (auto simp: is_ok_iff)
  have "rmap (\<lambda>rep. (ra_subst (fin_acc (rr_summary rep)), ra_common (fin_acc (rr_summary rep))))
      (compare_routes id [((1, 1), [(3, Fin 1), (5, Fin 1)])] [((1, 1), [(5, Fin 1), (4, Fin 1)])]) = Inr (1, 1)"
    by code_simp
  with r route_compare_accounting [OF r] show ?thesis by auto
qed

section \<open>A trace compared with itself\<close>

definition clean :: "int \<Rightarrow> route_acc \<Rightarrow> bool" where
  "clean n a = (ra_ordered_exact a = ra_events a \<and> ra_set_exact a = ra_events a \<and> ra_common a = ra_base a \<and>
     ra_subst a = 0 \<and> ra_l1 a = Fin 0 \<and> ra_max a = Fin 0 \<and> 0 \<le> ra_events a \<and> ra_events a \<le> n \<and>
     ra_events a \<le> ra_base a)"

definition event_wf :: "(int \<times> pyfloat) list \<Rightarrow> bool" where
  "event_wf b = (b \<noteq> [] \<and> distinct (map fst b) \<and> (\<forall>(e, w) \<in> set b. is_finite w))"

definition finished_clean :: "finished \<Rightarrow> bool" where
  "finished_clean r = (fin_ordered r = Fin 1 \<and> fin_set r = Fin 1 \<and> fin_retention r = Fin 1 \<and>
     fin_mean_subst r = Fin 0 \<and> fin_mean_l1 r = Fin 0 \<and> ra_subst (fin_acc r) = 0 \<and>
     ra_max (fin_acc r) = Fin 0)"

lemma foldl_fixpoint: "(\<And>x. x \<in> set xs \<Longrightarrow> f a x = a) \<Longrightarrow> foldl f a xs = a"
  by (induction xs) auto

lemma compare_event_self:
  assumes "event_wf b" "\<And>xs. set (iter xs) = set xs"
  shows "\<exists>c. compare_event iter b b = Inr c \<and> ec_ordered c \<and> ec_set c \<and> ec_base c = int (length b) \<and>
    ec_common c = int (length b) \<and> ec_subst c = 0 \<and> ec_l1 c = Fin 0 \<and> ec_max c = Fin 0"
proof -
  have com: "common_experts b b = map fst b" by (auto simp: common_experts_def filter_id_conv)
  have z: "weight_change b b e = Fin 0" if e: "e \<in> fst ` set b" for e
  proof -
    obtain w where w: "map_of b e = Some w" using e by (metis map_of_eq_None_iff not_Some_eq)
    then have "is_finite w" using assms(1) by (auto simp: event_wf_def dest: map_of_SomeD)
    then show ?thesis using w by (auto simp: weight_change_def fsub_def is_finite_iff)
  qed
  let ?ch = "map (weight_change b b) (iter (map fst b))"
  have ch: "x = Fin 0" if "x \<in> set ?ch" for x using that z assms(2) by auto
  have "fsum ?ch = Fin 0" unfolding fsum_def
  proof (rule foldl_fixpoint)
    fix x assume "x \<in> set ?ch"
    then have "x = Fin 0" by (rule ch)
    then show "fadd (Fin 0) x = Fin 0" by simp
  qed
  moreover have "(case ?ch of [] \<Rightarrow> Fin 0 | x # xs \<Rightarrow> foldl fmax2 x xs) = Fin 0"
  proof (cases ?ch)
    case (Cons x xs)
    then have "x = Fin 0" "\<And>y. y \<in> set xs \<Longrightarrow> y = Fin 0" using ch by auto
    then have "foldl fmax2 x xs = Fin 0" by (simp, intro foldl_fixpoint) (simp add: fmax2_def)
    with Cons show ?thesis by simp
  qed simp
  ultimately show ?thesis using assms(1)
    by (simp add: compare_event_def Let_def com event_wf_def filter_empty_conv)
qed

lemma clean_zero [simp]: "0 \<le> n \<Longrightarrow> clean n zero_acc"
  by (simp add: clean_def zero_acc_def)

lemma clean_mono: "clean n a \<Longrightarrow> n \<le> m \<Longrightarrow> clean m a"
  by (simp add: clean_def)

lemma clean_add:
  assumes "clean n a" "ec_ordered c" "ec_set c" "ec_base c = ec_common c" "1 \<le> ec_base c" "ec_subst c = 0"
    "ec_l1 c = Fin 0" "ec_max c = Fin 0"
  shows "clean (n + 1) (add_cmp c a) \<and> 1 \<le> ra_events (add_cmp c a)"
  using assms by (simp add: clean_def add_cmp_def fmax2_def)

definition clean_state :: "int \<Rightarrow> cmp_state \<Rightarrow> bool" where
  "clean_state n st = (case st of (totals, per_layer, first) \<Rightarrow>
     clean n totals \<and> ra_events totals = n \<and> first = None \<and>
     (\<forall>(l, a) \<in> set per_layer. clean n a \<and> 1 \<le> ra_events a))"

lemma compare_step_self:
  assumes "clean_state n st" "event_wf (dict_get [] key base)" "\<And>xs. set (iter xs) = set xs"
  shows "\<exists>st'. compare_step iter base base st key = Inr st' \<and> clean_state (n + 1) st'"
proof -
  obtain totals per_layer where st: "st = (totals, per_layer, None)" and t: "clean n totals" "ra_events totals = n"
    and l: "\<forall>(l, a) \<in> set per_layer. clean n a \<and> 1 \<le> ra_events a"
    using assms(1) by (cases st) (auto simp: clean_state_def)
  let ?b = "dict_get [] key base"
  obtain c where c: "compare_event iter ?b ?b = Inr c" "ec_ordered c" "ec_set c"
    "ec_base c = int (length ?b)" "ec_common c = int (length ?b)" "ec_subst c = 0" "ec_l1 c = Fin 0" "ec_max c = Fin 0"
    using compare_event_self [OF assms(2,3)] by blast
  have b: "1 \<le> ec_base c" "ec_base c = ec_common c" using assms(2) c by (auto simp: event_wf_def Suc_le_eq)
  have add: "clean (n + 1) (add_cmp c a) \<and> 1 \<le> ra_events (add_cmp c a)" if "clean n a" for a
    using clean_add [OF that] c b by simp
  have n: "0 \<le> n" using t by (auto simp: clean_def)
  have g: "clean n (dict_get zero_acc (snd key) per_layer)"
    using l n by (auto simp: dict_get_def split: option.splits dest: map_of_SomeD)
  have m: "\<forall>(l, a) \<in> set per_layer. clean (n + 1) a \<and> 1 \<le> ra_events a" using l clean_mono by fastforce
  have "\<forall>(l, a) \<in> set (dict_upd zero_acc (snd key) (add_cmp c) per_layer). clean (n + 1) a \<and> 1 \<le> ra_events a"
    using dict_upd_all [OF m, of "add_cmp c" zero_acc "snd key"] add [OF g] by simp
  moreover have "clean (n + 1) (add_cmp c totals)" using add [OF t(1)] by simp
  moreover have "ra_events (add_cmp c totals) = n + 1" using t(2) by (simp add: add_cmp_def)
  ultimately show ?thesis
    by (simp add: compare_step_def st Let_def c clean_state_def)
qed

lemma compare_fold_self:
  assumes "clean_state n st" "\<And>k. k \<in> set ks \<Longrightarrow> event_wf (dict_get [] k base)" "\<And>xs. set (iter xs) = set xs"
  shows "\<exists>st'. foldR (compare_step iter base base) st ks = Inr st' \<and> clean_state (n + int (length ks)) st'"
  using assms
proof (induction ks arbitrary: n st)
  case (Cons k ks)
  obtain st1 where s: "compare_step iter base base st k = Inr st1" "clean_state (n + 1) st1"
    using compare_step_self [OF Cons.prems(1) Cons.prems(2) [of k] Cons.prems(3)] by (meson list.set_intros(1))
  have "\<exists>st'. foldR (compare_step iter base base) st1 ks = Inr st' \<and> clean_state (n + 1 + int (length ks)) st'"
    using Cons.IH [OF s(2)] Cons.prems(2,3) by auto
  then show ?case using s(1) by (simp add: algebra_simps)
qed simp

lemma ratio_self: "0 < n \<Longrightarrow> ratio n n = Inr (Fin 1)"
  using fl_of_nat [of 1] by (simp add: ratio_def int_truediv_def)

lemma finish_clean:
  assumes "clean n a" "1 \<le> ra_events a" "n < 2 ^ 53"
  shows "\<exists>r. finish_acc a = Inr r \<and> finished_clean r \<and> ra_events (fin_acc r) = ra_events a"
proof -
  have e: "ra_events a = int (nat (ra_events a))" "nat (ra_events a) < 2 ^ 53"
    using assms by (auto simp: clean_def nat_less_iff)
  have "fl (of_int (ra_events a)) = Fin (of_int (ra_events a))"
    using fl_of_nat [OF e(2)] e(1) by (metis of_int_of_nat_eq)
  then have f: "float_of_int (ra_events a) = Inr (Fin (of_int (ra_events a)))"
    by (simp add: float_of_int_def)
  have z: "ratio 0 (ra_events a) = Inr (Fin 0)" by (simp add: ratio_def int_truediv_def)
  have "0 < ra_events a" "0 < ra_base a" using assms by (auto simp: clean_def)
  then show ?thesis using assms(1) f z ratio_self
    by (simp add: finish_acc_def clean_def finished_clean_def fdiv_def)
qed

lemma compare_row_finite: "compare_row l = Inr (k, (e, w)) \<Longrightarrow> is_finite w"
  by (auto simp: compare_row_def Let_def split: if_splits elim!: rbind_InrE)

lemma read_routes_finite:
  assumes "read_routes_text t = Inr x" "(k, b) \<in> set x"
  shows "b \<noteq> [] \<and> (\<forall>(e, w) \<in> set b. is_finite w)"
proof -
  obtain rows where rows: "mapR compare_row (file_table_of t) = Inr rows" and x: "x = group_by fst snd rows"
    using assms(1) by (auto simp: read_routes_text_def Let_def split: if_splits elim!: rbind_InrE)
  have "is_finite (snd (snd r))" if r: "r \<in> set rows" for r
  proof -
    obtain i where "i < length rows" "r = rows ! i" using r by (metis in_set_conv_nth)
    then have "compare_row (file_table_of t ! i) = Inr r" using mapR_nth [OF rows] mapR_length [OF rows] by simp
    then show ?thesis using compare_row_finite by (metis surj_pair snd_conv)
  qed
  then show ?thesis using group_by_mem [of k b fst snd rows] assms(2) x by auto
qed

text \<open>Comparing a trace with itself finds nothing: if no event selects an expert twice, the
  comparison of the trace read from a text with itself succeeds, whatever order sets are iterated
  in, with no first divergence, no substitution, weight changes of exactly zero and the three
  exactness fractions exactly one, in the summary and in every layer.
\<close>
theorem route_compare_reflexive:
  assumes "read_routes_text t = Inr x" "\<forall>(k, b) \<in> set x. distinct (map fst b)" "length x < 2 ^ 53"
    and "\<And>xs. set (iter xs) = set xs"
  shows "\<exists>rep. compare_routes iter x x = Inr rep \<and> rr_first rep = None \<and>
    ra_events (fin_acc (rr_summary rep)) = int (length x) \<and>
    (\<forall>r \<in> insert (rr_summary rep) (snd ` set (rr_layers rep)). finished_clean r)"
proof -
  have ne: "x \<noteq> []" and dx: "distinct (map fst x)" using assms(1)
    by (auto simp: read_routes_text_def Let_def distinct_group_by split: if_splits elim!: rbind_InrE)
  have wf: "event_wf (dict_get [] k x)" if k: "k \<in> set (sort (map fst x))" for k
  proof -
    obtain b where b: "(k, b) \<in> set x" using k by force
    then have "dict_get [] k x = b" using dx dict_get_mem by metis
    then show ?thesis using read_routes_finite [OF assms(1) b] assms(2) b by (auto simp: event_wf_def)
  qed
  have c0: "clean_state 0 (zero_acc, [], None)" by (simp add: clean_state_def) (simp add: zero_acc_def)
  have "\<exists>st. foldR (compare_step iter x x) (zero_acc, [], None) (sort (map fst x)) = Inr st \<and>
      clean_state (0 + int (length (sort (map fst x)))) st"
    by (rule compare_fold_self [OF c0 wf assms(4)])
  then obtain st where
    run: "foldR (compare_step iter x x) (zero_acc, [], None) (sort (map fst x)) = Inr st"
    and cl: "clean_state (int (length x)) st" by auto
  obtain totals per_layer where st: "st = (totals, per_layer, None)" and tot: "clean (int (length x)) totals"
    "ra_events totals = int (length x)"
    and lay: "\<And>l a. (l, a) \<in> set per_layer \<Longrightarrow> clean (int (length x)) a \<and> 1 \<le> ra_events a"
    using cl by (cases st) (auto simp: clean_state_def)
  have len: "1 \<le> int (length x)" "int (length x) < 2 ^ 53" using ne assms(3) by (auto simp: Suc_le_eq)
  obtain s where s: "finish_acc totals = Inr s" "finished_clean s" "ra_events (fin_acc s) = int (length x)"
    using finish_clean [OF tot(1)] tot(2) len by auto
  let ?f = "\<lambda>(layer, a). rmap (\<lambda>x. (show_int layer, x)) (finish_acc a)"
  have row: "\<exists>r. ?f (l, a) = Inr (show_int l, r) \<and> finished_clean r" if "(l, a) \<in> set per_layer" for l a
    using finish_clean [of "int (length x)" a] lay [OF that] len by auto
  then have "\<exists>ls. mapR ?f (sort_key fst per_layer) = Inr ls" by (intro mapR_total) fastforce
  then obtain ls where ls: "mapR ?f (sort_key fst per_layer) = Inr ls" by blast
  have "finished_clean r" if r: "r \<in> snd ` set ls" for r
  proof -
    obtain i where i: "i < length ls" "r = snd (ls ! i)" using r by (auto simp: in_set_conv_nth)
    then have "sort_key fst per_layer ! i \<in> set per_layer"
      using mapR_length [OF ls] by (metis length_sort nth_mem set_sort)
    then show ?thesis using row mapR_nth [OF ls, of i] mapR_length [OF ls] i
      by (metis Inr_inject snd_conv surj_pair)
  qed
  then show ?thesis using run s ls by (simp add: compare_routes_def st)
qed

theorem route_compare_reflexive_witness:
  "\<exists>x rep. read_routes_text ''1 1 3 1 0 0'' = Inr x \<and> compare_routes id x x = Inr rep \<and> rr_first rep = None"
proof -
  have r: "read_routes_text ''1 1 3 1 0 0'' = Inr [((1, 1), [(3, Fin 1)])]" by code_simp
  from route_compare_reflexive [OF this, of id] r show ?thesis by auto
qed

end
