(* ===== verification/MoeProfile.thy ===== *)
theory MoeProfile
  imports TraceText
begin

text \<open>
  The multi-signal MoE profile (\<^verbatim>\<open>tools/analyze_kimi_moe_profile.py\<close>): native trace rows, the metric
  accumulator and its percentiles, the modality of a vision-language event, and \<^verbatim>\<open>build_profile\<close>
  itself: the per-expert metrics in total and per domain and modality, the outlier candidates, the
  coactivation pairs, the sample vectors, the domain rankings and the round-robin order over them.
\<close>

section \<open>Trace rows\<close>

record trace_row =
  tr_event :: int
  tr_layer :: int
  tr_expert :: int
  tr_weight :: pyfloat
  tr_l2 :: pyfloat
  tr_saliency :: pyfloat
  tr_max :: "pyfloat option"

definition opt_list :: "'a option \<Rightarrow> 'a list" where
  "opt_list x = (case x of None \<Rightarrow> [] | Some y \<Rightarrow> [y])"

definition profile_row :: "string \<Rightarrow> (nat \<times> trace_row) res" where
  "profile_row line = (let parts = py_split line in
     if length parts \<notin> {6, 7} then Inl (ValueError ''expected six or seven columns'')
     else rbind (int_res (parts ! 0)) (\<lambda>event. rbind (int_res (parts ! 1)) (\<lambda>layer.
          rbind (int_res (parts ! 2)) (\<lambda>expert.
          rbind (float_res (parts ! 3)) (\<lambda>weight. rbind (float_res (parts ! 4)) (\<lambda>output_l2.
          rbind (float_res (parts ! 5)) (\<lambda>saliency.
          rbind (if length parts = 7 then rmap Some (float_res (parts ! 6)) else Inr None) (\<lambda>output_max_abs.
            let metrics = [weight, output_l2, saliency] @ opt_list output_max_abs in
            if event \<le> 0 \<or> layer \<le> 0 \<or> expert < 0
              then Inl (ValueError ''invalid event/layer/expert'')
            else if \<not> list_all is_finite metrics then Inl (ValueError ''non-finite metric'')
            else if flt output_l2 (Fin 0) \<or> flt saliency (Fin 0) \<or>
                list_ex (\<lambda>m. flt m (Fin 0)) (opt_list output_max_abs)
              then Inl (ValueError ''negative norm/saliency/max_abs'')
            else Inr (length parts, \<lparr>tr_event = event, tr_layer = layer, tr_expert = expert,
                   tr_weight = weight, tr_l2 = output_l2, tr_saliency = saliency,
                   tr_max = output_max_abs\<rparr>)))))))))"

definition read_trace_text :: "string \<Rightarrow> trace_row list res" where
  "read_trace_text t =
     rbind (mapR profile_row (table_of t)) (\<lambda>rows.
       if rows = [] then Inl (ValueError ''empty trace'')
       else if length (remdups (map fst rows)) \<noteq> 1 then Inl (ValueError ''mixed legacy/v2 row widths'')
       else Inr (map snd rows))"

definition read_trace :: "string \<Rightarrow> trace_row list io" where
  "read_trace path = io_bind (read_text path) (\<lambda>t. io_lift (read_trace_text t))"

definition prompt_id :: "string \<Rightarrow> int res" where
  "prompt_id line = (case py_int line of
       None \<Rightarrow> Inl (ValueError ''invalid token id'')
     | Some token \<Rightarrow> if token < 0 then Inl (ValueError ''negative token id'') else Inr token)"

definition read_prompt_ids_text :: "string \<Rightarrow> int list res" where
  "read_prompt_ids_text t =
     rbind (mapR prompt_id (filter (\<lambda>l. l \<noteq> []) (map py_strip (splitlines t)))) (\<lambda>ids.
       if ids = [] then Inl (ValueError ''empty prompt ids'') else Inr ids)"

definition read_prompt_ids :: "string \<Rightarrow> int list io" where
  "read_prompt_ids path = io_bind (read_text path) (\<lambda>t. io_lift (read_prompt_ids_text t))"

definition MEDIA_PAD_ID :: int where "MEDIA_PAD_ID = 163605"

definition vl_event_modality :: "trace_row \<Rightarrow> int list \<Rightarrow> string res" where
  "vl_event_modality row prompt_ids =
     (let n = int (length prompt_ids); zero = tr_event row - 1 in
      if zero div n + 1 \<noteq> tr_layer row then Inl (ValueError ''VL trace ordering mismatch'')
      else Inr (if prompt_ids ! nat (zero mod n) = MEDIA_PAD_ID then ''media'' else ''vl_text''))"

section \<open>Metrics\<close>

record metric_acc =
  m_selected :: int
  m_weight_sum :: pyfloat
  m_weight_max :: pyfloat
  m_saliency_sum :: pyfloat
  m_l2_sum :: pyfloat
  m_l2_sq_sum :: pyfloat
  m_max_values :: "pyfloat list"

definition empty_metric :: metric_acc where
  "empty_metric = \<lparr>m_selected = 0, m_weight_sum = Fin 0, m_weight_max = Fin 0, m_saliency_sum = Fin 0,
     m_l2_sum = Fin 0, m_l2_sq_sum = Fin 0, m_max_values = []\<rparr>"

definition metric_add :: "metric_acc \<Rightarrow> trace_row \<Rightarrow> metric_acc" where
  "metric_add a row = (let weight = fabs (tr_weight row) in
     \<lparr>m_selected = m_selected a + 1,
      m_weight_sum = fadd (m_weight_sum a) weight,
      m_weight_max = fmax2 (m_weight_max a) weight,
      m_saliency_sum = fadd (m_saliency_sum a) (tr_saliency row),
      m_l2_sum = fadd (m_l2_sum a) (tr_l2 row),
      m_l2_sq_sum = fadd (m_l2_sq_sum a) (fmul (tr_l2 row) (tr_l2 row)),
      m_max_values = m_max_values a @ opt_list (tr_max row)\<rparr>)"

text \<open>\<^verbatim>\<open>math.floor\<close> and \<^verbatim>\<open>math.ceil\<close> of a float.\<close>

definition float_floor :: "pyfloat \<Rightarrow> int res" where
  "float_floor x = (case x of Fin r \<Rightarrow> Inr \<lfloor>r\<rfloor> | _ \<Rightarrow> float_to_int x)"

definition float_ceil :: "pyfloat \<Rightarrow> int res" where
  "float_ceil x = (case x of Fin r \<Rightarrow> Inr \<lceil>r\<rceil> | _ \<Rightarrow> float_to_int x)"

definition at_index :: "'a list \<Rightarrow> int \<Rightarrow> 'a res" where
  "at_index xs i = (let j = (if i < 0 then i + int (length xs) else i) in
     if 0 \<le> j \<and> j < int (length xs) then Inr (xs ! nat j) else Inl (IndexError ''list index out of range''))"

definition percentile :: "pyfloat list \<Rightarrow> pyfloat \<Rightarrow> pyfloat res" where
  "percentile values q =
     (if values = [] \<or> \<not> (fle (Fin 0) q \<and> fle q (Fin 100))
      then Inl (ValueError ''percentile requires values and q in [0, 100]'')
      else let ordered = py_sort flt values in
        if length ordered = 1 then Inr (hd ordered)
        else rbind (float_of_int (int (length ordered) - 1)) (\<lambda>m.
             rbind (fdiv (fmul m q) (Fin 100)) (\<lambda>rank.
             rbind (float_floor rank) (\<lambda>lo. rbind (float_ceil rank) (\<lambda>hi.
               if lo = hi then at_index ordered lo
               else rbind (float_of_int lo) (\<lambda>flo. let fraction = fsub rank flo in
                    rbind (at_index ordered lo) (\<lambda>a. rbind (at_index ordered hi) (\<lambda>b.
                      Inr (fadd (fmul a (fsub (Fin 1) fraction)) (fmul b fraction))))))))))"

definition max_of :: "pyfloat list \<Rightarrow> pyfloat option" where
  "max_of xs = (case xs of [] \<Rightarrow> None | y # ys \<Rightarrow> Some (foldl fmax2 y ys))"

record metrics =
  x_selected :: int
  x_events :: int
  x_frequency :: pyfloat
  x_weight_mean :: pyfloat
  x_weight_max :: pyfloat
  x_reap :: pyfloat
  x_man :: pyfloat
  x_msan :: pyfloat
  x_saliency :: pyfloat
  x_observations :: int
  x_max_mean :: "pyfloat option"
  x_p95 :: "pyfloat option"
  x_p99 :: "pyfloat option"
  x_p99_5 :: "pyfloat option"
  x_max :: "pyfloat option"

definition float_per :: "pyfloat \<Rightarrow> int \<Rightarrow> pyfloat res" where
  "float_per x n = (if n \<noteq> 0 then rbind (float_of_int n) (fdiv x) else Inr (Fin 0))"

definition if_values :: "pyfloat list \<Rightarrow> pyfloat res \<Rightarrow> pyfloat option res" where
  "if_values values r = (if values = [] then Inr None else rmap Some r)"

definition metric_finish :: "metric_acc \<Rightarrow> int \<Rightarrow> metrics res" where
  "metric_finish a event_count =
     (let n = m_selected a; values = m_max_values a in
      rbind (if event_count \<noteq> 0 then int_truediv n event_count else Inr (Fin 0)) (\<lambda>freq.
      rbind (float_per (m_weight_sum a) n) (\<lambda>wmean.
      rbind (float_per (m_saliency_sum a) n) (\<lambda>reap.
      rbind (float_per (m_l2_sum a) n) (\<lambda>man.
      rbind (float_per (m_l2_sq_sum a) n) (\<lambda>msan.
      rbind (if_values values (rbind (float_of_int (int (length values))) (fdiv (fsum values)))) (\<lambda>mmean.
      rbind (if_values values (percentile values (Fin 95))) (\<lambda>p95.
      rbind (if_values values (percentile values (Fin 99))) (\<lambda>p99.
      rbind (if_values values (percentile values (Fin (199 / 2)))) (\<lambda>p99_5.
        Inr \<lparr>x_selected = n, x_events = event_count, x_frequency = freq, x_weight_mean = wmean,
             x_weight_max = (if n \<noteq> 0 then m_weight_max a else Fin 0), x_reap = reap, x_man = man,
             x_msan = msan, x_saliency = m_saliency_sum a, x_observations = int (length values),
             x_max_mean = mmean, x_p95 = p95, x_p99 = p99, x_p99_5 = p99_5,
             x_max = max_of values\<rparr>))))))))))"

section \<open>Observations\<close>

record obs =
  ob_source :: string
  ob_domain :: string
  ob_modality :: string
  ob_row :: trace_row

text \<open>\<^verbatim>\<open>f"sample-{i:05d}"\<close>\<close>

definition sample_id :: "nat \<Rightarrow> string" where
  "sample_id i = ''sample-'' @ replicate (5 - length (show_nat i)) (CHR ''0'') @ show_nat i"

record sources =
  so_obs :: "obs list"
  so_legacy :: int
  so_v2 :: int
  so_paths :: "(string \<times> string) list"
  so_index :: nat

definition no_sources :: sources where
  "no_sources = \<lparr>so_obs = [], so_legacy = 0, so_v2 = 0, so_paths = [], so_index = 0\<rparr>"

text \<open>The format of a trace is the format of its first row.\<close>

definition add_source :: "sources \<Rightarrow> string \<Rightarrow> string \<Rightarrow> trace_row list \<Rightarrow> (trace_row \<Rightarrow> string res) \<Rightarrow> sources res" where
  "add_source so domain path rows modality =
     (let sid = sample_id (so_index so); v2 = (tr_max (hd rows) \<noteq> None) in
      rbind (mapR (\<lambda>row. rmap (\<lambda>m. \<lparr>ob_source = sid, ob_domain = domain, ob_modality = m, ob_row = row\<rparr>)
                     (modality row)) rows) (\<lambda>os.
        Inr \<lparr>so_obs = so_obs so @ os, so_legacy = so_legacy so + of_bool (\<not> v2),
             so_v2 = so_v2 so + of_bool v2, so_paths = dict_set sid path (so_paths so),
             so_index = so_index so + 1\<rparr>))"

fun add_texts :: "sources \<Rightarrow> (string \<times> string) list \<Rightarrow> sources io" where
  "add_texts so [] = io_return so"
| "add_texts so ((domain, path) # xs) =
     io_bind (read_trace path) (\<lambda>rows.
     io_bind (io_lift (add_source so domain path rows (\<lambda>_. Inr ''text''))) (\<lambda>so'. add_texts so' xs))"

fun add_vls :: "sources \<Rightarrow> (string \<times> string \<times> string) list \<Rightarrow> sources io" where
  "add_vls so [] = io_return so"
| "add_vls so ((domain, trace_path, ids_path) # xs) =
     io_bind (read_trace trace_path) (\<lambda>rows.
     io_bind (read_prompt_ids ids_path) (\<lambda>ids.
     io_bind (io_lift (add_source so domain trace_path rows (\<lambda>row. vl_event_modality row ids))) (\<lambda>so'.
       add_vls so' xs)))"

section \<open>Tables over the observations\<close>

definition ob_layer :: "obs \<Rightarrow> int" where "ob_layer o' = tr_layer (ob_row o')"
definition ob_expert :: "obs \<Rightarrow> int" where "ob_expert o' = tr_expert (ob_row o')"
definition ob_event :: "obs \<Rightarrow> string \<times> int" where "ob_event o' = (ob_source o', tr_event (ob_row o'))"

lemmas ob_defs = ob_layer_def ob_expert_def ob_event_def

definition overall_acc :: "obs list \<Rightarrow> ((int \<times> int) \<times> metric_acc) list" where
  "overall_acc os = tally empty_metric (\<lambda>x. (ob_layer x, ob_expert x)) (\<lambda>a x. metric_add a (ob_row x)) [] os"

text \<open>Every observation counts once under its own modality and once under \<^verbatim>\<open>all\<close>.\<close>

definition with_all :: "obs list \<Rightarrow> (string \<times> obs) list" where
  "with_all os = concat (map (\<lambda>x. [(''all'', x), (ob_modality x, x)]) os)"

definition domain_acc :: "obs list \<Rightarrow> ((string \<times> string \<times> int \<times> int) \<times> metric_acc) list" where
  "domain_acc os = tally empty_metric (\<lambda>(m, x). (ob_domain x, m, ob_layer x, ob_expert x))
     (\<lambda>a (m, x). metric_add a (ob_row x)) [] (with_all os)"

definition overall_events :: "obs list \<Rightarrow> (int \<times> (string \<times> int) list) list" where
  "overall_events os = tally [] ob_layer (\<lambda>es x. List.insert (ob_event x) es) [] os"

definition domain_events :: "obs list \<Rightarrow> ((string \<times> string \<times> int) \<times> (string \<times> int) list) list" where
  "domain_events os = tally [] (\<lambda>(m, x). (ob_domain x, m, ob_layer x))
     (\<lambda>es (m, x). List.insert (ob_event x) es) [] (with_all os)"

type_synonym ekey = "string \<times> string \<times> string \<times> int \<times> int"

definition event_key :: "obs \<Rightarrow> ekey" where
  "event_key x = (ob_source x, ob_domain x, ob_modality x, ob_layer x, tr_event (ob_row x))"

definition event_rows :: "obs list \<Rightarrow> (ekey \<times> obs list) list" where
  "event_rows os = group_by event_key (\<lambda>x. x) os"

definition sample_vectors :: "obs list \<Rightarrow> ((string \<times> string) \<times> ((int \<times> int) \<times> pyfloat) list) list" where
  "sample_vectors os = tally [] (\<lambda>x. (ob_source x, ob_domain x))
     (\<lambda>d x. dict_upd (Fin 0) (ob_layer x, ob_expert x) (\<lambda>v. fadd v (fabs (tr_weight (ob_row x)))) d) [] os"

section \<open>Experts and outliers\<close>

record expert_row =
  er_layer :: int
  er_expert :: int
  er_aggregate :: metrics
  er_domains :: "(string \<times> (string \<times> metrics) list) list"
  er_tail_count :: int
  er_tail_frequency :: "pyfloat option"
  er_candidate :: bool

definition domain_metrics :: "obs list \<Rightarrow> string \<Rightarrow> string \<Rightarrow> int \<Rightarrow> int \<Rightarrow> metrics res" where
  "domain_metrics os domain modality layer expert =
     metric_finish (dict_get empty_metric (domain, modality, layer, expert) (domain_acc os))
       (int (length (dict_get [] (domain, modality, layer) (domain_events os))))"

text \<open>The outlier fields are filled in by the second pass.\<close>

definition expert_row_of :: "obs list \<Rightarrow> string list \<Rightarrow> string list \<Rightarrow> int \<Rightarrow> int \<Rightarrow> expert_row res" where
  "expert_row_of os domains modalities layer expert =
     rbind (metric_finish (dict_get empty_metric (layer, expert) (overall_acc os))
              (int (length (dict_get [] layer (overall_events os))))) (\<lambda>aggregate.
     rbind (mapR (\<lambda>domain. rmap (\<lambda>ms. (domain, ms))
              (mapR (\<lambda>m. rmap (\<lambda>x. (m, x)) (domain_metrics os domain m layer expert)) (''all'' # modalities)))
              domains) (\<lambda>by_domain.
       Inr \<lparr>er_layer = layer, er_expert = expert, er_aggregate = aggregate, er_domains = by_domain,
            er_tail_count = 0, er_tail_frequency = None, er_candidate = False\<rparr>))"

definition expert_rows :: "obs list \<Rightarrow> string list \<Rightarrow> string list \<Rightarrow> int list \<Rightarrow> int \<Rightarrow> expert_row list res" where
  "expert_rows os domains modalities layers n_experts =
     mapR (\<lambda>(layer, expert). expert_row_of os domains modalities layer expert)
       (List.product layers [0..n_experts - 1])"

definition flt_opt :: "pyfloat option \<Rightarrow> pyfloat option \<Rightarrow> bool" where
  "flt_opt x y = (case (x, y) of (Some a, Some b) \<Rightarrow> flt a b | _ \<Rightarrow> False)"

definition tenth :: pyfloat where "tenth = fl (1 / 10)"

definition mark_outlier ::
  "obs list \<Rightarrow> pyfloat option \<Rightarrow> pyfloat option \<Rightarrow> expert_row \<Rightarrow> expert_row res" where
  "mark_outlier os p99_5 global_max row =
     (let value = x_max (er_aggregate row);
          values = m_max_values (dict_get empty_metric (er_layer row, er_expert row) (overall_acc os));
          tail = int (length (filter (\<lambda>v. flt_opt p99_5 (Some v)) values))
      in rbind (if_values values (int_truediv tail (int (length values)))) (\<lambda>freq.
           Inr (row\<lparr>er_tail_count := tail, er_tail_frequency := freq,
             er_candidate := flt_opt p99_5 value \<and> flt_opt (map_option (fmul tenth) global_max) value\<rparr>)))"

section \<open>Coactivation\<close>

text \<open>\<^verbatim>\<open>itertools.combinations(xs, 2)\<close>\<close>

fun pairs_of :: "'a list \<Rightarrow> ('a \<times> 'a) list" where
  "pairs_of [] = []"
| "pairs_of (x # xs) = map (Pair x) xs @ pairs_of xs"

type_synonym pair_key = "string \<times> string \<times> int \<times> int \<times> int"

definition event_pairs :: "ekey \<times> obs list \<Rightarrow> pair_key list" where
  "event_pairs er = (case er of ((source, domain, modality, layer, event), rows) \<Rightarrow>
     map (\<lambda>(a, b). (domain, modality, layer, a, b)) (pairs_of (sorted_set (map ob_expert rows))))"

definition pair_counts :: "obs list \<Rightarrow> (pair_key \<times> int) list" where
  "pair_counts os = tally 0 (\<lambda>k. k) (\<lambda>n _. n + 1) [] (concat (map event_pairs (event_rows os)))"

record pair_row =
  pr_key :: pair_key
  pr_count :: int
  pr_events :: int
  pr_fraction :: pyfloat

type_synonym event_sets = "((string \<times> string \<times> int) \<times> (string \<times> int) list) list"

definition pair_row_of :: "event_sets \<Rightarrow> pair_key \<times> int \<Rightarrow> pair_row res" where
  "pair_row_of table kv = (case kv of ((domain, modality, layer, a, b), cnt) \<Rightarrow>
     let denom = int (length (dict_get [] (domain, modality, layer) table)) in
     rbind (if denom \<noteq> 0 then int_truediv cnt denom else Inr (Fin 0)) (\<lambda>q.
       Inr \<lparr>pr_key = (domain, modality, layer, a, b), pr_count = cnt, pr_events = denom, pr_fraction = q\<rparr>))"

record vector_row =
  vr_sample :: string
  vr_domain :: string
  vr_trace :: string
  vr_values :: "((int \<times> int) \<times> pyfloat) list"

definition vector_row_of :: "(string \<times> string) list \<Rightarrow> (string \<times> string) \<times> ((int \<times> int) \<times> pyfloat) list \<Rightarrow> vector_row res" where
  "vector_row_of paths kv = (case kv of ((sid, domain), values) \<Rightarrow>
     rbind (of_option (KeyError sid) (map_of paths sid)) (\<lambda>p.
       Inr \<lparr>vr_sample = sid, vr_domain = domain, vr_trace = p, vr_values = sort_key fst values\<rparr>))"

section \<open>Rankings and the round-robin order\<close>

definition domain_all :: "expert_row list \<Rightarrow> string \<Rightarrow> int \<Rightarrow> int \<Rightarrow> metrics res" where
  "domain_all rows domain layer expert =
     rbind (of_option (KeyError ''slot'') (map_of (map (\<lambda>r. ((er_layer r, er_expert r), r)) rows) (layer, expert))) (\<lambda>r.
     rbind (of_option (KeyError domain) (map_of (er_domains r) domain)) (\<lambda>ms.
       of_option (KeyError ''all'') (map_of ms ''all'')))"

type_synonym rank_key = "pyfloat \<times> pyfloat \<times> int \<times> int"

definition rank_key_of :: "metrics \<Rightarrow> int \<Rightarrow> rank_key" where
  "rank_key_of x expert = (fneg (x_man x), fneg (x_msan x), - x_selected x, expert)"

text \<open>Python compares tuples at their first position that is not equal.\<close>

fun rank_lt :: "rank_key \<Rightarrow> rank_key \<Rightarrow> bool" where
  "rank_lt (a, b, c) (a', b', c') =
     (if \<not> feq a a' then flt a a' else if \<not> feq b b' then flt b b' else c < c')"

definition domain_ranking :: "expert_row list \<Rightarrow> int \<Rightarrow> string \<Rightarrow> int \<Rightarrow> int list res" where
  "domain_ranking rows n_experts domain layer =
     rbind (mapR (\<lambda>e. rmap (\<lambda>x. rank_key_of x e) (domain_all rows domain layer e)) [0..n_experts - 1]) (\<lambda>keys.
       Inr (map (snd \<circ> snd \<circ> snd) (py_sort rank_lt keys)))"

text \<open>A domain's cursor is the part of its ranking not looked at yet.\<close>

fun take_next :: "int list \<Rightarrow> int list \<Rightarrow> int option \<times> int list" where
  "take_next chosen [] = (None, [])"
| "take_next chosen (e # r) = (if e \<in> set chosen then take_next chosen r else (Some e, r))"

fun robin_round :: "int list \<Rightarrow> int list list \<Rightarrow> int list \<times> int list list \<times> bool" where
  "robin_round chosen [] = (chosen, [], False)"
| "robin_round chosen (r # rs) =
     (let (e, r') = take_next chosen r;
          (chosen', rs', progress) = robin_round (chosen @ opt_list e) rs
      in (chosen', r' # rs', e \<noteq> None \<or> progress))"

lemma robin_round_length:
  "robin_round chosen rs = (chosen', rs', progress) \<Longrightarrow>
     (\<exists>new. chosen' = chosen @ new \<and> (new = [] \<longleftrightarrow> \<not> progress))"
proof (induction chosen rs arbitrary: chosen' rs' progress rule: robin_round.induct)
  case (2 chosen r rs)
  obtain e r' where e: "take_next chosen r = (e, r')" by fastforce
  obtain c' rs'' p where c: "robin_round (chosen @ opt_list e) rs = (c', rs'', p)" by (metis surj_pair)
  then obtain new where "c' = chosen @ opt_list e @ new" "new = [] \<longleftrightarrow> \<not> p"
    using "2.IH" [OF e [symmetric] refl c] by auto
  then show ?case using "2.prems" e c by (auto simp: opt_list_def split: option.splits)
qed simp

function round_robin :: "nat \<Rightarrow> int list \<Rightarrow> int list list \<Rightarrow> int list" where
  "round_robin n chosen rs =
     (if length chosen < n then
        (case robin_round chosen rs of (chosen', rs', progress) \<Rightarrow>
           if progress then round_robin n chosen' rs' else chosen')
      else chosen)"
  by pat_completeness auto
termination
proof (relation "measure (\<lambda>(n, chosen, rs). n - length chosen)")
  fix n chosen rs c rs' p and y :: "int list list \<times> bool"
  assume "length (chosen :: int list) < n" "(c, y) = robin_round chosen rs" "(rs', p) = y" "p"
  then have "robin_round chosen rs = (c, rs', p)" by simp
  from robin_round_length [OF this] \<open>p\<close> \<open>length chosen < n\<close>
  show "((n, c, rs'), n, chosen, rs) \<in> measure (\<lambda>(n, chosen, rs). n - length chosen)"
    by (auto simp: diff_less_mono2)
qed simp

declare round_robin.simps [simp del]

section \<open>The profile\<close>

record profile =
  pf_layers :: "int list"
  pf_domains :: "string list"
  pf_modalities :: "string list"
  pf_legacy :: int
  pf_v2 :: int
  pf_maxima :: "pyfloat list"
  pf_p99_5 :: "pyfloat option"
  pf_global_max :: "pyfloat option"
  pf_candidates :: "(int \<times> int \<times> pyfloat option) list"
  pf_rankings :: "(string \<times> (int \<times> int list) list) list"
  pf_round_robin :: "(int \<times> int list) list"
  pf_pairs :: "pair_row list"
  pf_vectors :: "vector_row list"
  pf_experts :: "expert_row list"

definition rank_layer :: "expert_row list \<Rightarrow> int \<Rightarrow> string list \<Rightarrow> int \<Rightarrow> (int \<times> int list list) res" where
  "rank_layer rows n_experts domains layer =
     rmap (Pair layer) (mapR (\<lambda>d. domain_ranking rows n_experts d layer) domains)"

definition profile_of :: "sources \<Rightarrow> int \<Rightarrow> profile res" where
  "profile_of so n_experts =
     (let os = so_obs so;
          domains = sorted_set (map ob_domain os);
          modalities = sorted_set (map ob_modality os);
          layers = sorted_set (map ob_layer os)
      in if list_ex (\<lambda>x. n_experts \<le> ob_expert x) os then Inl (ValueError ''expert >= n_experts'')
      else rbind (expert_rows os domains modalities layers n_experts) (\<lambda>rows.
        let maxima = concat (map (\<lambda>r. opt_list (x_max (er_aggregate r))) rows) in
        rbind (if_values maxima (percentile maxima (Fin (199 / 2)))) (\<lambda>p99_5.
        let global_max = max_of maxima in
        rbind (mapR (mark_outlier os p99_5 global_max) rows) (\<lambda>experts.
        rbind (mapR (pair_row_of (domain_events os)) (sort_key fst (pair_counts os))) (\<lambda>pairs.
        rbind (mapR (vector_row_of (so_paths so)) (sort_key fst (sample_vectors os))) (\<lambda>vectors.
        rbind (mapR (rank_layer experts n_experts domains) layers) (\<lambda>ranked.
          Inr \<lparr>pf_layers = layers, pf_domains = domains, pf_modalities = modalities,
               pf_legacy = so_legacy so, pf_v2 = so_v2 so, pf_maxima = maxima, pf_p99_5 = p99_5,
               pf_global_max = global_max,
               pf_candidates = map (\<lambda>r. (er_layer r, er_expert r, x_max (er_aggregate r))) (filter er_candidate experts),
               pf_rankings = map (\<lambda>i. (domains ! i, map (\<lambda>(l, rs). (l, rs ! i)) ranked)) [0..<length domains],
               pf_round_robin = map (\<lambda>(l, rs). (l, round_robin (nat n_experts) [] rs)) ranked,
               pf_pairs = pairs, pf_vectors = vectors, pf_experts = experts\<rparr>)))))))"

definition build_profile ::
  "(string \<times> string) list \<Rightarrow> (string \<times> string \<times> string) list \<Rightarrow> int \<Rightarrow> profile io" where
  "build_profile text_traces vl_inputs n_experts =
     (if n_experts \<le> 0 then io_raise (ValueError ''n_experts must be positive'')
      else if text_traces = [] \<and> vl_inputs = [] then io_raise (ValueError ''at least one trace is required'')
      else io_bind (add_texts no_sources text_traces) (\<lambda>so.
           io_bind (add_vls so vl_inputs) (\<lambda>so'. io_lift (profile_of so' n_experts))))"

section \<open>Every trace row is counted once\<close>

lemma filter_key_partition:
  assumes "distinct ks"
  shows "sum_list (map (\<lambda>k. int (length (filter (\<lambda>x. key x = k) xs))) ks) =
    int (length (filter (\<lambda>x. key x \<in> set ks) xs))"
  using assms
proof (induction ks)
  case (Cons k ks)
  have "length (filter (\<lambda>x. key x = k \<or> key x \<in> set ks) xs) =
      length (filter (\<lambda>x. key x = k) xs) + length (filter (\<lambda>x. key x \<in> set ks) xs)"
    using Cons.prems by (induction xs) auto
  then show ?case using Cons by simp
qed simp

lemma metric_add_fold:
  "m_selected (foldl (\<lambda>a x. metric_add a (g x)) a xs) = m_selected a + int (length xs)"
  by (induction xs arbitrary: a) (simp_all add: metric_add_def Let_def)

lemma pair_add_fold:
  "m_selected (foldl (\<lambda>a (m, x). metric_add a (ob_row x)) a ys) = m_selected a + int (length ys)"
  by (induction ys arbitrary: a) (auto simp: metric_add_def Let_def)

lemma metric_finish_fields:
  assumes "metric_finish a n = Inr x"
  shows "x_selected x = m_selected a \<and> x_events x = n \<and> x_max x = max_of (m_max_values a)"
  using assms by (auto simp: metric_finish_def Let_def elim!: rbind_InrE)

lemma overall_selected:
  "m_selected (dict_get empty_metric (l, e) (overall_acc os)) =
     int (length (filter (\<lambda>x. (ob_layer x, ob_expert x) = (l, e)) os))"
  by (simp add: overall_acc_def tally_lookup metric_add_fold) (simp add: empty_metric_def)

lemma filter_with_all:
  assumes "\<forall>x \<in> set os. ob_modality x \<noteq> ''all''"
  shows "filter (\<lambda>(m, x). m = ''all'' \<and> P x) (with_all os) = map (Pair ''all'') (filter P os)"
    and "m \<noteq> ''all'' \<Longrightarrow> filter (\<lambda>(m', x). m' = m \<and> P x) (with_all os) =
      map (Pair m) (filter (\<lambda>x. ob_modality x = m \<and> P x) os)"
  using assms by (induction os) (auto simp: with_all_def)

definition domain_count :: "obs list \<Rightarrow> string \<Rightarrow> string \<Rightarrow> int \<Rightarrow> int \<Rightarrow> int" where
  "domain_count os d m l e = int (length (filter (\<lambda>x. (m = ''all'' \<or> ob_modality x = m) \<and> ob_domain x = d \<and>
     ob_layer x = l \<and> ob_expert x = e) os))"

lemma domain_selected:
  assumes "\<forall>x \<in> set os. ob_modality x \<noteq> ''all''"
  shows "m_selected (dict_get empty_metric (d, m, l, e) (domain_acc os)) = domain_count os d m l e"
proof -
  let ?P = "\<lambda>x. ob_domain x = d \<and> ob_layer x = l \<and> ob_expert x = e"
  have f: "filter (\<lambda>y. (case y of (m, x) \<Rightarrow> (ob_domain x, m, ob_layer x, ob_expert x)) = (d, m, l, e)) (with_all os) =
      filter (\<lambda>(m', x). m' = m \<and> ?P x) (with_all os)"
    by (rule filter_cong) auto
  have "m_selected (dict_get empty_metric (d, m, l, e) (domain_acc os)) =
      int (length (filter (\<lambda>(m', x). m' = m \<and> ?P x) (with_all os)))"
    by (simp add: domain_acc_def tally_lookup f pair_add_fold) (simp add: empty_metric_def)
  then show ?thesis
    using filter_with_all(1) [OF assms, where P = ?P] filter_with_all(2) [OF assms, where P = ?P and m = m]
    by (cases "m = ''all''") (auto simp: domain_count_def)
qed

lemma expert_row_fields:
  assumes "expert_row_of os domains modalities l e = Inr r" "\<forall>x \<in> set os. ob_modality x \<noteq> ''all''"
  shows "er_layer r = l \<and> er_expert r = e \<and>
    x_selected (er_aggregate r) = int (length (filter (\<lambda>x. (ob_layer x, ob_expert x) = (l, e)) os)) \<and>
    map (\<lambda>(d, ms). (d, map (\<lambda>(m, x). (m, x_selected x)) ms)) (er_domains r) =
      map (\<lambda>d. (d, map (\<lambda>m. (m, domain_count os d m l e)) (''all'' # modalities))) domains"
proof -
  let ?g = "\<lambda>d m. rmap (\<lambda>x. (m, x)) (domain_metrics os d m l e)"
  let ?f = "\<lambda>d. rmap (\<lambda>ms. (d, ms)) (mapR (?g d) (''all'' # modalities))"
  obtain x bds where x: "metric_finish (dict_get empty_metric (l, e) (overall_acc os))
      (int (length (dict_get [] l (overall_events os)))) = Inr x"
    and b: "mapR ?f domains = Inr bds"
    and r: "r = \<lparr>er_layer = l, er_expert = e, er_aggregate = x, er_domains = bds, er_tail_count = 0,
      er_tail_frequency = None, er_candidate = False\<rparr>"
    using assms(1) unfolding expert_row_of_def by (elim rbind_InrE) simp
  have g: "map (\<lambda>(m, x). (m, x_selected x)) ms = map (\<lambda>m. (m, domain_count os d m l e)) mods"
    if "mapR (?g d) mods = Inr ms" for d mods ms
    using that
  proof (induction mods arbitrary: ms)
    case (Cons m mods)
    then show ?case using domain_selected [OF assms(2), of d m l e]
      by (auto simp: rbind_eq_Inr rmap_eq_Inr domain_metrics_def dest: metric_finish_fields)
  qed simp
  have "map (\<lambda>(d, ms). (d, map (\<lambda>(m, x). (m, x_selected x)) ms)) bds =
      map (\<lambda>d. (d, map (\<lambda>m. (m, domain_count os d m l e)) (''all'' # modalities))) ds"
    if "mapR ?f ds = Inr bds" for ds bds
    using that
  proof (induction ds arbitrary: bds)
    case (Cons d ds)
    obtain ms rest where ms: "mapR (?g d) (''all'' # modalities) = Inr ms" "mapR ?f ds = Inr rest" "bds = (d, ms) # rest"
      using Cons.prems by (auto simp: rbind_eq_Inr rmap_eq_Inr simp del: mapR.simps(2) [where xs = modalities])
    then show ?case using Cons.IH [OF ms(2)] g [OF ms(1)] by simp
  qed simp
  from this [OF b] show ?thesis using metric_finish_fields [OF x] overall_selected [of l e os] by (simp add: r)
qed

lemma mark_outlier_fields:
  "mark_outlier os p g r = Inr r' \<Longrightarrow> er_layer r' = er_layer r \<and> er_expert r' = er_expert r \<and>
     er_aggregate r' = er_aggregate r \<and> er_domains r' = er_domains r"
  by (auto simp: mark_outlier_def Let_def elim!: rbind_InrE)

definition row_ok :: "trace_row \<Rightarrow> bool" where
  "row_ok r = (0 \<le> tr_expert r \<and> (\<exists>a. tr_l2 r = Fin a \<and> 0 \<le> a))"

definition read_modalities :: "sources \<Rightarrow> bool" where
  "read_modalities so = (\<forall>x \<in> set (so_obs so).
     ob_modality x \<in> {''text'', ''media'', ''vl_text''} \<and> row_ok (ob_row x))"

text \<open>What a finished profile says of its observations.\<close>

definition counted :: "obs list \<Rightarrow> expert_row \<Rightarrow> bool" where
  "counted os r = (x_selected (er_aggregate r) =
       int (length (filter (\<lambda>x. (ob_layer x, ob_expert x) = (er_layer r, er_expert r)) os)) \<and>
     map (\<lambda>(d, ms). (d, map (\<lambda>(m, x). (m, x_selected x)) ms)) (er_domains r) =
       map (\<lambda>d. (d, map (\<lambda>m. (m, domain_count os d m (er_layer r) (er_expert r)))
            (''all'' # sorted_set (map ob_modality os)))) (sorted_set (map ob_domain os)))"

lemma profile_of_rows:
  assumes "profile_of so n = Inr p" "read_modalities so"
  shows "map (\<lambda>r. (er_layer r, er_expert r)) (pf_experts p) =
      List.product (sorted_set (map ob_layer (so_obs so))) [0..n - 1] \<and>
    (\<forall>r \<in> set (pf_experts p). counted (so_obs so) r) \<and> (\<forall>x \<in> set (so_obs so). ob_expert x < n)"
proof -
  let ?os = "so_obs so"
  let ?doms = "sorted_set (map ob_domain ?os)" and ?mods = "sorted_set (map ob_modality ?os)"
  let ?grid = "List.product (sorted_set (map ob_layer ?os)) [0..n - 1]"
  obtain rows p99 gm where rows: "mapR (\<lambda>(l, e). expert_row_of ?os ?doms ?mods l e) ?grid = Inr rows"
    and ex: "mapR (mark_outlier ?os p99 gm) rows = Inr (pf_experts p)"
    and lt: "\<forall>x \<in> set ?os. ob_expert x < n"
    using assms(1)
    by (auto simp: profile_of_def Let_def expert_rows_def list_ex_iff not_le split: if_splits elim!: rbind_InrE)
  have mods: "\<forall>x \<in> set ?os. ob_modality x \<noteq> ''all''" using assms(2) by (auto simp: read_modalities_def)
  have len: "length (pf_experts p) = length ?grid" using mapR_length [OF rows] mapR_length [OF ex] by simp
  have row: "(er_layer r, er_expert r) = ?grid ! i \<and> counted ?os r"
    if i: "i < length ?grid" and r: "r = pf_experts p ! i" for i r
  proof -
    obtain l e where g: "?grid ! i = (l, e)" by fastforce
    have a: "expert_row_of ?os ?doms ?mods l e = Inr (rows ! i)" using mapR_nth [OF rows i] g by simp
    have b: "mark_outlier ?os p99 gm (rows ! i) = Inr r" using mapR_nth [OF ex, of i] i mapR_length [OF rows] r by simp
    show ?thesis using expert_row_fields [OF a mods] mark_outlier_fields [OF b] g by (simp add: counted_def)
  qed
  have "map (\<lambda>r. (er_layer r, er_expert r)) (pf_experts p) = ?grid"
    using row len by (intro nth_equalityI) auto
  moreover have "\<forall>r \<in> set (pf_experts p). counted ?os r" using row len by (auto simp: in_set_conv_nth)
  ultimately show ?thesis using lt by blast
qed

lemma profile_row_ok:
  assumes "profile_row l = Inr r"
  shows "row_ok (snd r)"
proof -
  have "\<exists>w sl xs. 0 \<le> tr_expert (snd r) \<and> list_all is_finite ([w, tr_l2 (snd r), sl] @ xs) \<and>
      \<not> flt (tr_l2 (snd r)) (Fin 0)"
    using assms unfolding profile_row_def Let_def guard_iff
    by (elim conjE rbind_InrE) (unfold guard_iff, elim conjE, drule Inr_inject, hypsubst,
      unfold snd_conv trace_row.simps de_Morgan_disj not_less not_not, elim conjE, intro exI conjI)
  then show ?thesis by (auto simp: row_ok_def is_finite_iff)
qed

lemma read_trace_rows:
  assumes "read_trace p s = (Inr rows, s')"
  shows "\<forall>r \<in> set rows. row_ok r"
proof -
  obtain t prs where rows: "mapR profile_row (table_of t) = Inr prs" "rows = map snd prs"
    using assms by (auto simp: read_trace_def io_bind_eq_Inr read_trace_text_def split: if_splits elim!: rbind_InrE)
  have "row_ok (snd r)" if r: "r \<in> set prs" for r
  proof -
    obtain i where i: "i < length prs" "r = prs ! i" using r by (auto simp: in_set_conv_nth)
    then have "profile_row (table_of t ! i) = Inr r" using mapR_nth [OF rows(1)] mapR_length [OF rows(1)] by simp
    then show ?thesis by (rule profile_row_ok)
  qed
  then show ?thesis using rows(2) by auto
qed

lemma add_source_ok:
  assumes "add_source so d p rows f = Inr so'" "read_modalities so" "\<forall>r \<in> set rows. row_ok r"
    "\<And>r m. f r = Inr m \<Longrightarrow> m \<in> {''text'', ''media'', ''vl_text''}"
  shows "read_modalities so'"
proof -
  obtain os where os: "mapR (\<lambda>row. rmap (\<lambda>m. \<lparr>ob_source = sample_id (so_index so), ob_domain = d, ob_modality = m, ob_row = row\<rparr>)
      (f row)) rows = Inr os" and so': "so_obs so' = so_obs so @ os"
    using assms(1) by (auto simp: add_source_def Let_def elim!: rbind_InrE)
  have "\<forall>x \<in> set os. ob_modality x \<in> {''text'', ''media'', ''vl_text''} \<and> row_ok (ob_row x)"
    using os assms(3)
    by (induction rows arbitrary: os) (auto simp: rbind_eq_Inr rmap_eq_Inr dest!: assms(4))
  then show ?thesis using assms(2) so' by (auto simp: read_modalities_def)
qed

lemma vl_modality: "vl_event_modality r ids = Inr m \<Longrightarrow> m \<in> {''text'', ''media'', ''vl_text''}"
  by (auto simp: vl_event_modality_def Let_def split: if_splits)

lemma read_text_only: "read_text p s = (r, s') \<Longrightarrow> s' = s"
  by (simp add: read_text_app)

lemma read_trace_ok: "read_trace p s = (Inr rows, s') \<Longrightarrow> s' = s \<and> (\<forall>r \<in> set rows. row_ok r)"
  using read_trace_rows by (auto simp: read_trace_def io_bind_eq_Inr dest!: read_text_only)

lemma add_texts_ok: "add_texts so xs s = (Inr so', s') \<Longrightarrow> read_modalities so \<Longrightarrow> read_modalities so' \<and> s' = s"
proof (induction so xs arbitrary: s rule: add_texts.induct)
  case (2 so d p xs)
  obtain rows so1 where a: "add_source so d p rows (\<lambda>_. Inr ''text'') = Inr so1" "add_texts so1 xs s = (Inr so', s')"
    and e: "\<forall>r \<in> set rows. row_ok r"
    using "2.prems"(1) by (auto simp: io_bind_eq_Inr dest!: read_trace_ok)
  have "read_modalities so1" by (rule add_source_ok [OF a(1) "2.prems"(2) e]) simp
  then show ?case using "2.IH" a by blast
qed simp

lemma add_vls_ok: "add_vls so xs s = (Inr so', s') \<Longrightarrow> read_modalities so \<Longrightarrow> read_modalities so' \<and> s' = s"
proof (induction so xs arbitrary: s rule: add_vls.induct)
  case (2 so d p q xs)
  obtain rows ids so1 where e: "\<forall>r \<in> set rows. row_ok r" and a: "add_source so d p rows (\<lambda>row. vl_event_modality row ids) = Inr so1" "add_vls so1 xs s = (Inr so', s')"
    using "2.prems"(1)
    by (auto simp: io_bind_eq_Inr read_prompt_ids_def dest!: read_trace_ok read_text_only)
  have "read_modalities so1" by (rule add_source_ok [OF a(1) "2.prems"(2) e]) (rule vl_modality)
  then show ?case using "2.IH" a by blast
qed simp

text \<open>The rows of the named files, as the observations they give: the text traces first, then the vision-language traces
  with the modality of the prompt token at each event. Samples are numbered across both.\<close>

definition file_rows :: "fs \<Rightarrow> string \<Rightarrow> trace_row list" where
  "file_rows s path = (case fst (read_trace path s) of Inr rows \<Rightarrow> rows | Inl e \<Rightarrow> [])"

definition trace_obs :: "fs \<Rightarrow> nat \<Rightarrow> string \<Rightarrow> string \<Rightarrow> (trace_row \<Rightarrow> string) \<Rightarrow> obs list" where
  "trace_obs s i domain path modality =
     map (\<lambda>row. \<lparr>ob_source = sample_id i, ob_domain = domain, ob_modality = modality row, ob_row = row\<rparr>) (file_rows s path)"

definition prompt_modality :: "fs \<Rightarrow> string \<Rightarrow> trace_row \<Rightarrow> string" where
  "prompt_modality s ids_path row = (case fst (read_prompt_ids ids_path s) of Inl e \<Rightarrow> [] | Inr ids \<Rightarrow>
     if ids ! nat ((tr_event row - 1) mod int (length ids)) = MEDIA_PAD_ID then ''media'' else ''vl_text'')"

definition text_obs :: "fs \<Rightarrow> nat \<Rightarrow> (string \<times> string) list \<Rightarrow> obs list" where
  "text_obs s i ts = concat (map (\<lambda>(j, domain, path). trace_obs s j domain path (\<lambda>row. ''text'')) (enumerate i ts))"

definition vl_obs :: "fs \<Rightarrow> nat \<Rightarrow> (string \<times> string \<times> string) list \<Rightarrow> obs list" where
  "vl_obs s i vs = concat (map (\<lambda>(j, domain, path, ids). trace_obs s j domain path (prompt_modality s ids)) (enumerate i vs))"

definition file_obs :: "fs \<Rightarrow> (string \<times> string) list \<Rightarrow> (string \<times> string \<times> string) list \<Rightarrow> obs list" where
  "file_obs s ts vs = text_obs s 0 ts @ vl_obs s (length ts) vs"

text \<open>The data lines of a trace file, in its text.\<close>

definition trace_data_lines :: "fs \<Rightarrow> string \<Rightarrow> nat" where
  "trace_data_lines s path = (case fst (read_text path s) of Inr t \<Rightarrow> length (table_of t) | Inl e \<Rightarrow> 0)"

lemma add_source_obs:
  assumes "add_source so d p rows f = Inr so'" "\<And>r m. f r = Inr m \<Longrightarrow> m = g r" "file_rows s p = rows"
  shows "so_obs so' = so_obs so @ trace_obs s (so_index so) d p g \<and> so_index so' = Suc (so_index so)"
proof -
  obtain os where os: "mapR (\<lambda>row. rmap (\<lambda>m. \<lparr>ob_source = sample_id (so_index so), ob_domain = d, ob_modality = m, ob_row = row\<rparr>)
      (f row)) rows = Inr os" and so': "so_obs so' = so_obs so @ os" "so_index so' = Suc (so_index so)"
    using assms(1) by (auto simp: add_source_def Let_def elim!: rbind_InrE)
  have "os = map (\<lambda>row. \<lparr>ob_source = sample_id (so_index so), ob_domain = d, ob_modality = g row, ob_row = row\<rparr>) rows"
    using os by (induction rows arbitrary: os) (auto simp: rbind_eq_Inr rmap_eq_Inr dest: assms(2))
  then show ?thesis using so' assms(3) by (simp add: trace_obs_def)
qed

lemma read_trace_file: "read_trace p s = (Inr rows, s') \<Longrightarrow> s' = s \<and> file_rows s p = rows"
  using read_trace_ok by (fastforce simp: file_rows_def)

lemma add_texts_obs:
  "add_texts so xs s = (Inr so', s') \<Longrightarrow> so_obs so' = so_obs so @ text_obs s (so_index so) xs
     \<and> so_index so' = so_index so + length xs \<and> (\<forall>(d, p) \<in> set xs. is_ok (fst (read_trace p s)))"
proof (induction so xs rule: add_texts.induct)
  case (2 so d p xs)
  obtain rows so1 where r: "read_trace p s = (Inr rows, s)" and a: "add_source so d p rows (\<lambda>_. Inr ''text'') = Inr so1"
    "add_texts so1 xs s = (Inr so', s')"
    using "2.prems" read_trace_file by (fastforce simp: io_bind_eq_Inr)
  have "so_obs so1 = so_obs so @ trace_obs s (so_index so) d p (\<lambda>row. ''text'') \<and> so_index so1 = Suc (so_index so)"
    by (rule add_source_obs [OF a(1)]) (use r read_trace_file in auto)
  then show ?case using "2.IH" a(2) r by (auto simp: text_obs_def)
qed (simp add: text_obs_def)

lemma add_vls_obs:
  "add_vls so xs s = (Inr so', s') \<Longrightarrow> so_obs so' = so_obs so @ vl_obs s (so_index so) xs
     \<and> (\<forall>(d, p, q) \<in> set xs. is_ok (fst (read_trace p s)) \<and> is_ok (fst (read_prompt_ids q s)))"
proof (induction so xs rule: add_vls.induct)
  case (2 so d p q xs)
  obtain rows s1 ids s2 so1 where r: "read_trace p s = (Inr rows, s1)" "read_prompt_ids q s1 = (Inr ids, s2)"
    and a: "add_source so d p rows (\<lambda>row. vl_event_modality row ids) = Inr so1" "add_vls so1 xs s2 = (Inr so', s')"
    using "2.prems" by (auto simp: io_bind_eq_Inr)
  have st: "s1 = s" "s2 = s1"
    using r read_trace_file by (auto simp: read_prompt_ids_def io_bind_eq_Inr dest!: read_text_only)
  note r = r [unfolded st] and a = a [unfolded st]
  have m: "vl_event_modality row ids = Inr m \<Longrightarrow> m = prompt_modality s q row" for row m
    using r(2) by (auto simp: vl_event_modality_def prompt_modality_def Let_def split: if_splits)
  have "so_obs so1 = so_obs so @ trace_obs s (so_index so) d p (prompt_modality s q) \<and> so_index so1 = Suc (so_index so)"
    by (rule add_source_obs [OF a(1) m]) (use r read_trace_file in auto)
  then show ?case using "2.IH" a(2) r by (auto simp: vl_obs_def)
qed (simp add: vl_obs_def)

lemma file_rows_lines: "is_ok (fst (read_trace p s)) \<Longrightarrow> length (file_rows s p) = trace_data_lines s p"
  by (auto simp: is_ok_iff file_rows_def trace_data_lines_def read_trace_def read_trace_text_def io_bind_def rbind_eq_Inr
      split: prod.splits sum.splits if_splits dest: mapR_length)

lemma length_file_obs:
  assumes "\<forall>(d, p) \<in> set ts. is_ok (fst (read_trace p s))" "\<forall>(d, p, q) \<in> set vs. is_ok (fst (read_trace p s))"
  shows "length (file_obs s ts vs) = sum_list (map (trace_data_lines s) (map snd ts @ map (fst \<circ> snd) vs))"
proof -
  have "length (text_obs s i ts) = sum_list (map (trace_data_lines s) (map snd ts))" for i
    using assms(1) by (induction ts arbitrary: i) (auto simp: text_obs_def trace_obs_def file_rows_lines)
  moreover have "length (vl_obs s i vs) = sum_list (map (trace_data_lines s) (map (fst \<circ> snd) vs))" for i
    using assms(2) by (induction vs arbitrary: i) (auto simp: vl_obs_def trace_obs_def file_rows_lines)
  ultimately show ?thesis by (simp add: file_obs_def)
qed

lemma build_profile_run:
  assumes "build_profile ts vs n s = (Inr p, s')"
  shows "s' = s \<and> 0 < n \<and> (\<exists>so. profile_of so n = Inr p \<and> read_modalities so \<and> so_obs so = file_obs s ts vs)
    \<and> (\<forall>(d, p) \<in> set ts. is_ok (fst (read_trace p s)))
    \<and> (\<forall>(d, p, q) \<in> set vs. is_ok (fst (read_trace p s)) \<and> is_ok (fst (read_prompt_ids q s)))"
proof -
  obtain so so' s1 where a: "0 < n" "add_texts no_sources ts s = (Inr so, s1)" "add_vls so vs s1 = (Inr so', s')"
    "profile_of so' n = Inr p"
    using assms by (auto simp: build_profile_def io_bind_eq_Inr split: if_splits)
  have "read_modalities no_sources" by (simp add: read_modalities_def no_sources_def)
  then have st: "read_modalities so" "s1 = s" "read_modalities so'" "s' = s"
    using add_texts_ok [OF a(2)] add_vls_ok [OF a(3)] by blast+
  have "so_obs so' = file_obs s ts vs"
    using add_texts_obs [OF a(2)] add_vls_obs [OF a(3)] st(2) by (simp add: no_sources_def file_obs_def)
  then show ?thesis using add_texts_obs [OF a(2)] add_vls_obs [OF a(3)] a st by blast
qed

lemma grid_sum:
  assumes "map (\<lambda>r. (er_layer r, er_expert r)) rows = List.product ls [0..n - 1]" "\<forall>r \<in> set rows. counted os r"
    "\<forall>x \<in> set os. ob_layer x \<in> set ls \<and> 0 \<le> ob_expert x \<and> ob_expert x < n" "distinct ls"
  shows "sum_list (map (\<lambda>r. x_selected (er_aggregate r)) rows) = int (length os)"
proof -
  let ?key = "\<lambda>x. (ob_layer x, ob_expert x)"
  have "sum_list (map (\<lambda>r. x_selected (er_aggregate r)) rows) =
      sum_list (map (\<lambda>k. int (length (filter (\<lambda>x. ?key x = k) os))) (map (\<lambda>r. (er_layer r, er_expert r)) rows))"
    using assms(2) by (auto simp: counted_def o_def intro!: arg_cong [where f = sum_list] map_cong)
  also have "\<dots> = int (length (filter (\<lambda>x. ?key x \<in> set (List.product ls [0..n - 1])) os))"
    unfolding assms(1) by (rule filter_key_partition) (simp add: distinct_product assms(4))
  also have "filter (\<lambda>x. ?key x \<in> set (List.product ls [0..n - 1])) os = os"
    using assms(3) by (intro filter_True) auto
  finally show ?thesis .
qed

text \<open>C25: the profile accounts for every row of every trace file exactly once. A profile is built only when all files
  are readable; its experts are every layer of the traces with every expert number below the bound, each slot's
  selected is the number of rows of that layer and expert over all files, these add up to the number of
  data lines in the files, and in every slot and domain the count under all and the counts per modality are the
  numbers of that domain's rows; building it changes no file.
\<close>
theorem profile_counts_every_row:
  assumes "build_profile text_traces vl_inputs n_experts s = (Inr p, s')"
  shows "s' = s \<and> (\<forall>(d, path) \<in> set text_traces. is_ok (fst (read_trace path s))) \<and>
    (\<forall>(d, path, ids) \<in> set vl_inputs. is_ok (fst (read_trace path s)) \<and> is_ok (fst (read_prompt_ids ids s))) \<and>
    map (\<lambda>r. (er_layer r, er_expert r)) (pf_experts p) =
      List.product (sorted_set (map ob_layer (file_obs s text_traces vl_inputs))) [0..n_experts - 1] \<and>
    (\<forall>r \<in> set (pf_experts p). counted (file_obs s text_traces vl_inputs) r) \<and>
    sum_list (map (\<lambda>r. x_selected (er_aggregate r)) (pf_experts p)) =
      int (sum_list (map (trace_data_lines s) (map snd text_traces @ map (fst \<circ> snd) vl_inputs)))"
proof -
  let ?os = "file_obs s text_traces vl_inputs"
  obtain so where so: "profile_of so n_experts = Inr p" "read_modalities so" "so_obs so = ?os"
    and r: "s' = s" "\<forall>(d, p) \<in> set text_traces. is_ok (fst (read_trace p s))"
      "\<forall>(d, p, q) \<in> set vl_inputs. is_ok (fst (read_trace p s)) \<and> is_ok (fst (read_prompt_ids q s))"
    using build_profile_run [OF assms] by blast
  note R = profile_of_rows [OF so(1,2), unfolded so(3)]
  have "sum_list (map (\<lambda>r. x_selected (er_aggregate r)) (pf_experts p)) = int (length ?os)"
    by (rule grid_sum [OF conjunct1 [OF R] conjunct1 [OF conjunct2 [OF R]]])
       (use R so(2,3) in \<open>auto simp: read_modalities_def row_ok_def ob_expert_def\<close>)
  then show ?thesis using R r length_file_obs [OF r(2)] by (simp add: case_prod_unfold)
qed

section \<open>Coactivation\<close>

lemma pairs_of_mem: "(a, b) \<in> set (pairs_of xs) \<Longrightarrow> sorted xs \<Longrightarrow> distinct xs \<Longrightarrow> a \<in> set xs \<and> b \<in> set xs \<and> a < (b :: int)"
  by (induction xs) (auto simp: less_le)

lemma distinct_pairs_of: "distinct xs \<Longrightarrow> distinct (pairs_of xs)"
proof (induction xs)
  case (Cons x xs)
  have "set (pairs_of xs) \<subseteq> set xs \<times> set xs" by (induction xs) auto
  then show ?case using Cons by (auto simp: distinct_map inj_on_def)
qed simp

lemma foldl_count: "foldl (\<lambda>n _. n + 1) (a :: int) xs = a + int (length xs)"
  by (induction xs arbitrary: a) auto

lemma event_pairs_distinct: "distinct (event_pairs er)"
  by (cases er) (auto simp: event_pairs_def distinct_map distinct_pairs_of inj_on_def)

text \<open>A pair is counted once in every event that has it.\<close>

lemma filter_eq_once: "distinct ys \<Longrightarrow> length (filter (\<lambda>y. y = k) ys) = of_bool (k \<in> set ys)"
  by (induction ys) (auto simp: filter_empty_conv)

lemma filter_concat_distinct:
  assumes "\<And>x. x \<in> set xs \<Longrightarrow> distinct (f x)"
  shows "length (filter (\<lambda>y. y = k) (concat (map f xs))) = length (filter (\<lambda>x. k \<in> set (f x)) xs)"
  using assms
proof (induction xs)
  case (Cons x xs)
  have "length (filter (\<lambda>y. y = k) (f x)) = of_bool (k \<in> set (f x))"
    by (rule filter_eq_once) (simp add: Cons.prems)
  then show ?case using Cons by simp
qed simp

lemma insert_fold: "set (foldl (\<lambda>es x. List.insert (g x) es) es xs) = set es \<union> g ` set xs \<and>
   (distinct es \<longrightarrow> distinct (foldl (\<lambda>es x. List.insert (g x) es) es xs))"
  by (induction xs arbitrary: es) auto

lemma event_rows_source:
  assumes "er \<in> set (event_rows os)" "er = ((src, d, m, l, ev), rows)"
  shows "\<exists>x \<in> set os. ob_domain x = d \<and> ob_modality x = m \<and> ob_layer x = l \<and> ob_event x = (src, ev)"
proof -
  have "(src, d, m, l, ev) \<in> event_key ` set os"
    using group_by_mem [of "(src, d, m, l, ev)" rows event_key "\<lambda>x. x" os] assms by (simp add: event_rows_def)
  then show ?thesis by (force simp: event_key_def ob_event_def)
qed

lemma domain_events_covers:
  assumes "x \<in> set os"
  shows "ob_event x \<in> set (dict_get [] (ob_domain x, ob_modality x, ob_layer x) (domain_events os))"
proof -
  have "(ob_modality x, x) \<in> set (with_all os)" using assms by (auto simp: with_all_def)
  moreover have "foldl (\<lambda>es (m, x). List.insert (ob_event x) es) es ys =
      foldl (\<lambda>es y. List.insert (ob_event (snd y)) es) es ys" for es and ys :: "(string \<times> obs) list"
    by (rule foldl_cong) auto
  ultimately show ?thesis by (force simp: domain_events_def tally_lookup insert_fold)
qed

definition pair_row_ok :: "pair_row \<Rightarrow> bool" where
  "pair_row_ok r = (case pr_key r of (d, m, l, a, b) \<Rightarrow> a < b \<and> 0 < pr_count r \<and> pr_count r \<le> pr_events r \<and>
     fle (Fin 0) (pr_fraction r) \<and> fle (pr_fraction r) (Fin 1))"

text \<open>
  The interface of a table of events that serves as the denominator of coactivation: it knows the
  event of every observation under the observation's own key.
\<close>

locale event_denominator =
  fixes table_for :: "obs list \<Rightarrow> event_sets"
  assumes covers: "x \<in> set os \<Longrightarrow>
    ob_event x \<in> set (dict_get [] (ob_domain x, ob_modality x, ob_layer x) (table_for os))"
begin

lemma pair_count_le:
  assumes "((d, m, l, a, b), c) \<in> set (pair_counts os)"
  shows "0 < c \<and> c \<le> int (length (dict_get [] (d, m, l) (table_for os))) \<and> a < b"
proof -
  let ?k = "(d, m, l, a, b)" and ?ers = "event_rows os"
  let ?hit = "filter (\<lambda>er. ?k \<in> set (event_pairs er)) ?ers"
  note T = tally_mem [OF assms [unfolded pair_counts_def]]
  have c: "c = int (length ?hit)"
    using T filter_concat_distinct [of ?ers event_pairs ?k] event_pairs_distinct by (simp add: foldl_count)
  have mem: "?k \<in> set (concat (map event_pairs ?ers))" using T by auto
  then have pos: "?hit \<noteq> []" by (auto simp: filter_empty_conv)
  have key: "\<exists>src ev rows. er = ((src, d, m, l, ev), rows) \<and> (a, b) \<in> set (pairs_of (sorted_set (map ob_expert rows)))"
    if "?k \<in> set (event_pairs er)" for er
    using that by (cases er) (auto simp: event_pairs_def)
  have "a < b" using mem key pairs_of_mem [of a b] by fastforce
  moreover have "length ?hit \<le> length (dict_get [] (d, m, l) (table_for os))"
  proof -
    let ?g = "\<lambda>er :: ekey \<times> obs list. case er of ((src, d, m, l, ev), rows) \<Rightarrow> (src, ev)"
    have "distinct (map fst ?hit)" using distinct_group_by [of event_key "\<lambda>x. x" os]
      by (simp add: event_rows_def distinct_map_filter)
    then have inj: "distinct ?hit \<and> inj_on fst (set ?hit)" by (simp add: distinct_map)
    have "inj_on ?g (set ?hit)"
    proof (rule inj_onI)
      fix x y assume xy: "x \<in> set ?hit" "y \<in> set ?hit" "?g x = ?g y"
      then have "fst x = fst y" using key [of x] key [of y] by auto
      then show "x = y" using inj xy by (meson inj_onD)
    qed
    then have "card (?g ` set ?hit) = card (set ?hit)" by (rule card_image)
    moreover have "length ?hit = card (set ?hit)" by (rule distinct_card [symmetric]) (use inj in blast)
    ultimately have "length ?hit = card (?g ` set ?hit)" by (simp only:)
    also have "?g ` set ?hit \<subseteq> set (dict_get [] (d, m, l) (table_for os))"
    proof
      fix z assume "z \<in> ?g ` set ?hit"
      then obtain er where er: "er \<in> set ?ers" "?k \<in> set (event_pairs er)" "z = ?g er" by auto
      from key [OF er(2)] obtain src ev rows where k: "er = ((src, d, m, l, ev), rows)"
        by (elim exE conjE)
      then show "z \<in> set (dict_get [] (d, m, l) (table_for os))"
        using event_rows_source [OF er(1) k] er(3) covers by fastforce
    qed
    then have "card (?g ` set ?hit) \<le> length (dict_get [] (d, m, l) (table_for os))"
      by (intro le_trans [OF card_mono [OF List.finite_set] card_length])
    finally show ?thesis .
  qed
  ultimately show ?thesis using c pos by simp
qed

lemma pair_row_of_ok:
  assumes "pair_row_of (table_for os) ((d, m, l, a, b), c) = Inr r" "((d, m, l, a, b), c) \<in> set (pair_counts os)"
  shows "pr_key r = (d, m, l, a, b) \<and> a < b \<and> 0 < pr_count r \<and> pr_count r \<le> pr_events r \<and>
    (\<exists>q. pr_fraction r = Fin q \<and> 0 \<le> q \<and> q \<le> 1)"
proof -
  note c = pair_count_le [OF assms(2)]
  then have "dict_get [] (d, m, l) (table_for os) \<noteq> []" by auto
  then have "int_truediv c (int (length (dict_get [] (d, m, l) (table_for os)))) = Inr (pr_fraction r)"
    and "pr_key r = (d, m, l, a, b)" "pr_count r = c" "pr_events r = int (length (dict_get [] (d, m, l) (table_for os)))"
    using assms(1) by (auto simp: pair_row_of_def Let_def elim!: rbind_InrE)
  then show ?thesis using c int_truediv_fraction [of c "pr_events r"] by force
qed

lemma profile_pairs:
  assumes "mapR (pair_row_of (table_for os)) (sort_key fst (pair_counts os)) = Inr prs"
  shows "(\<forall>r \<in> set prs. pair_row_ok r) \<and> sorted_wrt (<) (map pr_key prs)"
proof -
  let ?items = "sort_key fst (pair_counts os)"
  have row: "pr_key (prs ! i) = fst (?items ! i) \<and> pair_row_ok (prs ! i)" if i: "i < length ?items" for i
  proof -
    obtain d m l a b c where k: "?items ! i = ((d, m, l, a, b), c)" by (metis surj_pair)
    have "?items ! i \<in> set (pair_counts os)" using i by (metis nth_mem set_sort)
    then have "((d, m, l, a, b), c) \<in> set (pair_counts os)" by (simp only: k)
    from pair_row_of_ok [OF _ this] mapR_nth [OF assms i] k show ?thesis by (auto simp: pair_row_ok_def)
  qed
  have len: "length prs = length ?items" by (rule mapR_length [OF assms])
  have "map pr_key prs = map fst ?items" using row len by (intro nth_equalityI) auto
  moreover have "sorted_wrt (<) (map fst ?items)"
    by (rule strict_sorted_keys) (simp add: pair_counts_def distinct_tally)
  ultimately show ?thesis using row len by (auto simp: in_set_conv_nth)
qed

end

interpretation modality: event_denominator domain_events
  by unfold_locales (rule domain_events_covers)

text \<open>Coactivation is counted within its denominator. Each pair of a built profile is reported
  once, in key order, with its two experts in ascending order, and its count is at least one and at
  most the number of events of that domain, modality and layer, so the reported fraction lies
  between 0 and 1, also where a trace repeats an expert within an event.
\<close>
theorem coactivation_within_events:
  assumes "build_profile text_traces vl_inputs n_experts s = (Inr p, s')"
  shows "(\<forall>r \<in> set (pf_pairs p). pair_row_ok r) \<and> sorted_wrt (<) (map pr_key (pf_pairs p))"
proof -
  obtain so where so: "profile_of so n_experts = Inr p" using build_profile_run [OF assms] by blast
  have "mapR (pair_row_of (domain_events (so_obs so))) (sort_key fst (pair_counts (so_obs so))) = Inr (pf_pairs p)"
    using so by (auto simp: profile_of_def Let_def split: if_splits elim!: rbind_InrE)
  then show ?thesis by (rule modality.profile_pairs)
qed

section \<open>The round-robin order\<close>

lemma take_next_cases:
  "take_next chosen r = (e, r') \<Longrightarrow>
     (case e of None \<Rightarrow> set r \<subseteq> set chosen \<and> r' = []
      | Some x \<Rightarrow> x \<in> set r \<and> x \<notin> set chosen \<and> set r \<subseteq> set chosen \<union> {x} \<union> set r' \<and> set r' \<subseteq> set r)"
  by (induction chosen r rule: take_next.induct) (auto split: if_splits option.splits)

definition robin_ok :: "int set \<Rightarrow> int list \<Rightarrow> int list list \<Rightarrow> bool" where
  "robin_ok U chosen rs = (distinct chosen \<and> set chosen \<subseteq> U \<and>
     (\<forall>r \<in> set rs. set r \<subseteq> U \<and> U \<subseteq> set chosen \<union> set r))"

lemma robin_round_ok:
  "robin_round chosen rs = (c', rs', p) \<Longrightarrow> robin_ok U chosen rs \<Longrightarrow>
     robin_ok U c' rs' \<and> length rs' = length rs \<and> (rs \<noteq> [] \<and> \<not> p \<longrightarrow> U \<subseteq> set chosen)"
proof (induction chosen rs arbitrary: c' rs' p rule: robin_round.induct)
  case (2 chosen r rs)
  obtain e r' where e: "take_next chosen r = (e, r')" by fastforce
  let ?c = "chosen @ opt_list e"
  obtain d qs q where d: "robin_round ?c rs = (d, qs, q)" by (metis surj_pair)
  have res: "c' = d" "rs' = r' # qs" "p = (e \<noteq> None \<or> q)" using "2.prems"(1) e d by auto
  have T: "set r \<subseteq> set ?c \<union> set r'" "set r' \<subseteq> set r" "distinct ?c" "set ?c \<subseteq> U"
    using take_next_cases [OF e] "2.prems"(2) by (auto simp: robin_ok_def opt_list_def split: option.splits)
  have "robin_ok U ?c rs" using "2.prems"(2) T by (auto simp: robin_ok_def)
  from "2.IH" [OF e [symmetric] refl d this] have IH: "robin_ok U d qs" "length qs = length rs" by auto
  obtain new where new: "d = ?c @ new" using robin_round_length [OF d] by blast
  have "set r' \<subseteq> U \<and> U \<subseteq> set d \<union> set r'" using T "2.prems"(2) new by (auto simp: robin_ok_def)
  moreover have "U \<subseteq> set chosen" if "\<not> p"
  proof -
    have "e = None" using that res by simp
    then show ?thesis using take_next_cases [OF e] "2.prems"(2) by (auto simp: robin_ok_def)
  qed
  ultimately show ?case using IH res by (auto simp: robin_ok_def)
qed simp

lemma round_robin_ok:
  "robin_ok U chosen rs \<Longrightarrow> rs \<noteq> [] \<Longrightarrow> finite U \<Longrightarrow> card U = n \<Longrightarrow>
     distinct (round_robin n chosen rs) \<and> set (round_robin n chosen rs) = U \<and>
     (\<exists>more. round_robin n chosen rs = chosen @ more)"
proof (induction n chosen rs rule: round_robin.induct)
  case (1 n chosen rs)
  show ?case
  proof (cases "length chosen < n")
    case False
    have "distinct chosen" "set chosen \<subseteq> U" using "1.prems"(1) by (auto simp: robin_ok_def)
    then have "card (set chosen) \<le> card U" "length chosen = card (set chosen)"
      using card_mono [OF "1.prems"(3), of "set chosen"] by (simp_all add: distinct_card)
    then have "set chosen = U" using False "1.prems"(3,4) \<open>set chosen \<subseteq> U\<close>
      by (intro card_subset_eq) simp_all
    then show ?thesis using False \<open>distinct chosen\<close> by (subst (1 2 3) round_robin.simps) simp
  next
    case True
    obtain d qs q where d: "robin_round chosen rs = (d, qs, q)" by (metis surj_pair)
    note R = robin_round_ok [OF d "1.prems"(1)]
    obtain new where new: "d = chosen @ new" "new = [] \<longleftrightarrow> \<not> q" using robin_round_length [OF d] by blast
    show ?thesis
    proof (cases q)
      case False
      have U: "U \<subseteq> set chosen" using R False "1.prems"(2) by blast
      have "round_robin n chosen rs = chosen" using True d False new by (subst round_robin.simps) simp
      then show ?thesis using U "1.prems"(1) by (auto simp: robin_ok_def)
    next
      case q: True
      have "qs \<noteq> []" using R "1.prems"(2) by auto
      then have "distinct (round_robin n d qs) \<and> set (round_robin n d qs) = U \<and> (\<exists>more. round_robin n d qs = d @ more)"
        using "1.IH" [OF True d [symmetric] refl q] R "1.prems" by blast
      moreover have "round_robin n chosen rs = round_robin n d qs" using True d q by (subst round_robin.simps) simp
      ultimately show ?thesis using new by auto
    qed
  qed
qed

text \<open>In the first round each domain's first choice is among the places up to its own.\<close>

lemma robin_round_first:
  "robin_round chosen rs = (c', rs', p) \<Longrightarrow> i < length rs \<Longrightarrow> rs ! i \<noteq> [] \<Longrightarrow>
     hd (rs ! i) \<in> set (take (length chosen + i + 1) c')"
proof (induction chosen rs arbitrary: c' rs' p i rule: robin_round.induct)
  case (2 chosen r rs)
  obtain e r' where e: "take_next chosen r = (e, r')" by fastforce
  let ?c = "chosen @ opt_list e"
  obtain d qs q where d: "robin_round ?c rs = (d, qs, q)" by (metis surj_pair)
  have c': "c' = d" using "2.prems"(1) e d by auto
  obtain new where new: "d = ?c @ new" using robin_round_length [OF d] by blast
  show ?case
  proof (cases i)
    case 0
    then obtain x xs where r: "r = x # xs" using "2.prems"(3) by (cases r) auto
    show ?thesis
    proof (cases "x \<in> set chosen")
      case True
      then show ?thesis using 0 r c' new by simp
    next
      case False
      then show ?thesis using 0 r c' new e by (auto simp: opt_list_def)
    qed
  next
    case (Suc j)
    have "hd (rs ! j) \<in> set (take (length ?c + j + 1) d)"
      using "2.IH" [OF e [symmetric] refl d] "2.prems" Suc by simp
    have "length ?c + j + 1 \<le> length chosen + i + 1" using Suc by (cases e) (auto simp: opt_list_def)
    with \<open>hd (rs ! j) \<in> set (take (length ?c + j + 1) d)\<close>
    have "hd (rs ! j) \<in> set (take (length chosen + i + 1) d)"
      by (rule subsetD [OF set_take_subset_set_take, rotated])
    then show ?thesis using Suc c' by simp
  qed
qed simp

lemma round_robin_first:
  assumes "robin_ok U [] rs" "finite U" "card U = n" "0 < n" "i < length rs" "rs ! i \<noteq> []"
  shows "hd (rs ! i) \<in> set (take (i + 1) (round_robin n [] rs))"
proof -
  obtain d qs q where d: "robin_round [] rs = (d, qs, q)" by (metis surj_pair)
  have h: "hd (rs ! i) \<in> set (take (i + 1) d)" using robin_round_first [OF d assms(5,6)] by simp
  have ne: "rs \<noteq> []" using assms(5) by auto
  note R = robin_round_ok [OF d assms(1)]
  have "\<exists>more. round_robin n [] rs = d @ more"
  proof (cases q)
    case True
    have "qs \<noteq> []" using R ne by auto
    then have "\<exists>more. round_robin n d qs = d @ more"
      using round_robin_ok [of U d qs n] R assms(2,3) by simp
    then show ?thesis using assms(4) d True by (subst round_robin.simps) simp
  next
    case False
    then show ?thesis using assms(4) d by (subst round_robin.simps) simp
  qed
  then obtain more where m: "round_robin n [] rs = d @ more" by (elim exE)
  show ?thesis using h by (simp add: m)
qed

section \<open>Rankings\<close>

text \<open>Norm sums and their means are never NaN, so the ranking keys are comparable.\<close>

definition nonneg :: "pyfloat \<Rightarrow> bool" where
  "nonneg x = fle (Fin 0) x"

lemma nonneg_fadd: "nonneg x \<Longrightarrow> nonneg y \<Longrightarrow> nonneg (fadd x y)"
  by (cases x; cases y) (auto simp: nonneg_def fl_nonneg)

lemma nonneg_square: "nonneg (fmul (Fin a) (Fin a))"
  by (simp add: nonneg_def fl_nonneg)

lemma nonneg_float_per:
  assumes "float_per x n = Inr y" "nonneg x" "0 \<le> n"
  shows "nonneg y"
proof (cases "n = 0")
  case True
  then show ?thesis using assms(1) by (auto simp: float_per_def nonneg_def)
next
  case False
  then obtain r where r: "float_of_int n = Inr r" "fdiv x r = Inr y"
    using assms(1) by (auto simp: float_per_def elim: rbind_InrE)
  obtain q where q: "r = Fin q" "fl (of_int n) = Fin q"
    using r(1) by (cases "fl (of_int n)") (auto simp: float_of_int_def)
  then have "0 \<le> q" using fl_nonneg [of "of_int n"] assms(3) by simp
  then show ?thesis using r(2) q(1) assms(2) fl_nonneg
    by (cases x) (auto simp: fdiv_def nonneg_def finf_def split: if_splits)
qed

definition acc_nonneg :: "metric_acc \<Rightarrow> bool" where
  "acc_nonneg a = (nonneg (m_l2_sum a) \<and> nonneg (m_l2_sq_sum a) \<and> 0 \<le> m_selected a)"

lemma metric_add_nonneg:
  assumes "acc_nonneg a" "row_ok r"
  shows "acc_nonneg (metric_add a r)"
proof -
  obtain q where q: "tr_l2 r = Fin q" "0 \<le> q" using assms(2) by (auto simp: row_ok_def)
  have "nonneg (fadd (m_l2_sum a) (Fin q))" "nonneg (fadd (m_l2_sq_sum a) (fmul (Fin q) (Fin q)))"
    using assms(1) q(2) nonneg_square [of q] by (intro nonneg_fadd; simp add: acc_nonneg_def nonneg_def)+
  then show ?thesis using assms(1) q(1) by (simp add: acc_nonneg_def metric_add_def Let_def)
qed

lemma domain_acc_nonneg:
  assumes "\<forall>x \<in> set os. row_ok (ob_row x)"
  shows "acc_nonneg (dict_get empty_metric k (domain_acc os))"
proof -
  have "acc_nonneg (foldl (\<lambda>a (m, x). metric_add a (ob_row x)) a ys)"
    if "acc_nonneg a" "\<forall>y \<in> set ys. row_ok (ob_row (snd y))" for a and ys :: "(string \<times> obs) list"
    using that by (induction ys arbitrary: a) (auto simp: metric_add_nonneg)
  moreover have "acc_nonneg empty_metric" by (simp add: acc_nonneg_def empty_metric_def nonneg_def)
  moreover have "\<forall>y \<in> set (with_all os). row_ok (ob_row (snd y))" using assms by (auto simp: with_all_def)
  ultimately show ?thesis by (simp add: domain_acc_def tally_lookup)
qed

definition comparable :: "rank_key \<Rightarrow> bool" where
  "comparable k = (fst k \<noteq> NaN \<and> fst (snd k) \<noteq> NaN)"

interpretation rank: weak_order rank_lt comparable
proof
  fix x y z :: rank_key
  obtain a b c where x: "x = (a, b, c)" by (metis surj_pair)
  obtain a' b' c' where y: "y = (a', b', c')" by (metis surj_pair)
  obtain a'' b'' c'' where z: "z = (a'', b'', c'')" by (metis surj_pair)
  have eq: "feq u v \<longleftrightarrow> u = v" if "u \<noteq> NaN" "v \<noteq> NaN" for u v
    using that by (auto simp: feq_def fle_refl fle_antisym)
  show "comparable x \<Longrightarrow> \<not> rank_lt x x"
    by (auto simp: x comparable_def eq)
  show "comparable x \<Longrightarrow> comparable y \<Longrightarrow> rank_lt x y \<Longrightarrow> \<not> rank_lt y x"
    by (auto simp: x y comparable_def eq flt_def split: if_splits)
  show "comparable x \<Longrightarrow> comparable y \<Longrightarrow> comparable z \<Longrightarrow> \<not> rank_lt y x \<Longrightarrow> \<not> rank_lt z y \<Longrightarrow> \<not> rank_lt z x"
    by (auto simp: x y z comparable_def eq flt_not_fle split: if_splits dest: fle_antisym fle_trans)
qed

text \<open>The ranking of a domain in a layer, as a specification.\<close>

definition ranks :: "(int \<Rightarrow> metrics) \<Rightarrow> int \<Rightarrow> int list \<Rightarrow> bool" where
  "ranks x n rk = (mset rk = mset [0..n - 1] \<and>
     sorted_wrt (\<lambda>a b. \<not> rank_lt (rank_key_of (x b) b) (rank_key_of (x a) a)) rk)"

lemma rank_key_expert [simp]: "snd (snd (snd (rank_key_of x e))) = e"
  by (simp add: rank_key_of_def)

lemma fneg_not_NaN: "fneg x \<noteq> NaN \<longleftrightarrow> x \<noteq> NaN"
  by (cases x) auto

lemma domain_ranking_ok:
  assumes "domain_ranking rows n d l = Inr rk"
    and "\<And>e x. domain_all rows d l e = Inr x \<Longrightarrow> nonneg (x_man x) \<and> nonneg (x_msan x)"
  shows "ranks (\<lambda>e. projr (domain_all rows d l e)) n rk"
proof -
  let ?x = "\<lambda>e. projr (domain_all rows d l e)" and ?k = "\<lambda>e. rank_key_of (projr (domain_all rows d l e)) e"
  obtain keys where keys: "mapR (\<lambda>e. rmap (\<lambda>x. rank_key_of x e) (domain_all rows d l e)) [0..n - 1] = Inr keys"
    and rk: "rk = map (snd \<circ> snd \<circ> snd) (py_sort rank_lt keys)"
    using assms(1) by (auto simp: domain_ranking_def elim!: rbind_InrE)
  have K: "keys = map ?k [0..n - 1] \<and> (\<forall>e \<in> set [0..n - 1]. \<exists>x. domain_all rows d l e = Inr x)"
    by (rule mapR_map [OF keys]) (auto simp: rmap_eq_Inr)
  have kk: "k = ?k (snd (snd (snd k)))" if "k \<in> set keys" for k using that K by auto
  have nn: "nonneg v \<Longrightarrow> v \<noteq> NaN" for v by (auto simp: nonneg_def)
  have "comparable (?k e)" if e: "e \<in> set [0..n - 1]" for e
  proof -
    obtain x where "domain_all rows d l e = Inr x" using K e by blast
    then show ?thesis using assms(2) [of e x] nn by (simp add: comparable_def rank_key_of_def fneg_not_NaN)
  qed
  then have "list_all comparable keys" using K by (auto simp: list_all_iff)
  then have "sorted_wrt (\<lambda>a b. \<not> rank_lt b a) (py_sort rank_lt keys)" by (rule rank.sorted_py_sort)
  then have "sorted_wrt (\<lambda>a b. \<not> rank_lt (?k (snd (snd (snd b)))) (?k (snd (snd (snd a))))) (py_sort rank_lt keys)"
    by (rule sorted_wrt_mono_rel [rotated]) (metis kk set_py_sort)
  then have s: "sorted_wrt (\<lambda>a b. \<not> rank_lt (?k b) (?k a)) rk" by (simp add: rk sorted_wrt_map)
  have "mset rk = image_mset (snd \<circ> snd \<circ> snd) (mset keys)" by (simp add: rk)
  also have "\<dots> = mset (map (snd \<circ> snd \<circ> snd) keys)" by simp
  also have "map (snd \<circ> snd \<circ> snd) keys = [0..n - 1]" using K by (simp add: o_def)
  finally show ?thesis using s by (simp add: ranks_def)
qed

lemma metric_finish_nonneg:
  assumes "metric_finish a n = Inr x" "acc_nonneg a"
  shows "nonneg (x_man x) \<and> nonneg (x_msan x)"
proof -
  have "float_per (m_l2_sum a) (m_selected a) = Inr (x_man x)" "float_per (m_l2_sq_sum a) (m_selected a) = Inr (x_msan x)"
    using assms(1) by (auto simp: metric_finish_def Let_def elim!: rbind_InrE)
  then show ?thesis using nonneg_float_per assms(2) by (auto simp: acc_nonneg_def)
qed

definition domains_nonneg :: "expert_row \<Rightarrow> bool" where
  "domains_nonneg r = (\<forall>(d, ms) \<in> set (er_domains r). \<forall>(m, x) \<in> set ms. nonneg (x_man x) \<and> nonneg (x_msan x))"

lemma expert_row_nonneg:
  assumes "expert_row_of os domains modalities l e = Inr r" "\<forall>x \<in> set os. row_ok (ob_row x)"
  shows "domains_nonneg r"
proof -
  let ?g = "\<lambda>d m. rmap (\<lambda>x. (m, x)) (domain_metrics os d m l e)"
  have b: "mapR (\<lambda>d. rmap (\<lambda>ms. (d, ms)) (mapR (?g d) (''all'' # modalities))) domains = Inr (er_domains r)"
    using assms(1) unfolding expert_row_of_def by (elim rbind_InrE) (drule Inr_inject, hypsubst, unfold expert_row.simps)
  have "nonneg (x_man x) \<and> nonneg (x_msan x)" if a: "(d, ms) \<in> set (er_domains r)" "(m, x) \<in> set ms" for d ms m x
  proof -
    obtain d' where "rmap (\<lambda>ms. (d', ms)) (mapR (?g d') (''all'' # modalities)) = Inr (d, ms)"
      using mapR_source [OF b a(1)] by (elim bexE)
    then have "mapR (?g d') (''all'' # modalities) = Inr ms" by (cases "mapR (?g d') (''all'' # modalities)") auto
    from mapR_source [OF this a(2)] obtain m' where "?g d' m' = Inr (m, x)" by (elim bexE)
    then have "domain_metrics os d' m' l e = Inr x" by (cases "domain_metrics os d' m' l e") auto
    then show ?thesis unfolding domain_metrics_def
      by (rule metric_finish_nonneg) (rule domain_acc_nonneg [OF assms(2)])
  qed
  then show ?thesis by (auto simp: domains_nonneg_def)
qed

lemma domain_all_nonneg:
  assumes "domain_all rows d l e = Inr x" "\<forall>r \<in> set rows. domains_nonneg r"
  shows "nonneg (x_man x) \<and> nonneg (x_msan x)"
proof -
  obtain r ms where r: "map_of (map (\<lambda>r. ((er_layer r, er_expert r), r)) rows) (l, e) = Some r"
    and ms: "map_of (er_domains r) d = Some ms" "map_of ms ''all'' = Some x"
    using assms(1) by (auto simp: domain_all_def of_option_eq_Inr elim!: rbind_InrE)
  have "r \<in> set rows" using map_of_SomeD [OF r] by auto
  then show ?thesis using assms(2) map_of_SomeD [OF ms(1)] map_of_SomeD [OF ms(2)] by (fastforce simp: domains_nonneg_def)
qed

lemma profile_of_rankings:
  assumes "profile_of so n = Inr p" "read_modalities so"
  shows "\<exists>ranked. mapR (rank_layer (pf_experts p) n (pf_domains p)) (pf_layers p) = Inr ranked \<and>
    pf_round_robin p = map (\<lambda>(l, rs). (l, round_robin (nat n) [] rs)) ranked \<and>
    pf_rankings p = map (\<lambda>i. (pf_domains p ! i, map (\<lambda>(l, rs). (l, rs ! i)) ranked)) [0..<length (pf_domains p)] \<and>
    pf_domains p = sorted_set (map ob_domain (so_obs so)) \<and> pf_layers p = sorted_set (map ob_layer (so_obs so)) \<and>
    (\<forall>r \<in> set (pf_experts p). domains_nonneg r)"
proof -
  let ?os = "so_obs so"
  let ?doms = "sorted_set (map ob_domain ?os)" and ?mods = "sorted_set (map ob_modality ?os)"
    and ?ls = "sorted_set (map ob_layer ?os)"
  obtain rows p99 gm ranked where rows: "mapR (\<lambda>(l, e). expert_row_of ?os ?doms ?mods l e) (List.product ?ls [0..n - 1]) = Inr rows"
    and ex: "mapR (mark_outlier ?os p99 gm) rows = Inr (pf_experts p)"
    and rk: "mapR (rank_layer (pf_experts p) n ?doms) ?ls = Inr ranked"
    and p: "pf_domains p = ?doms" "pf_layers p = ?ls" "pf_round_robin p = map (\<lambda>(l, rs). (l, round_robin (nat n) [] rs)) ranked"
      "pf_rankings p = map (\<lambda>i. (?doms ! i, map (\<lambda>(l, rs). (l, rs ! i)) ranked)) [0..<length ?doms]"
    using assms(1)
    by (auto simp: profile_of_def Let_def expert_rows_def split: if_splits elim!: rbind_InrE)
  have ok: "\<forall>x \<in> set ?os. row_ok (ob_row x)" using assms(2) by (simp add: read_modalities_def)
  have "domains_nonneg r" if r: "r \<in> set (pf_experts p)" for r
  proof -
    obtain r0 where r0: "r0 \<in> set rows" "mark_outlier ?os p99 gm r0 = Inr r"
      using mapR_source [OF ex r] by (elim bexE)
    obtain k where "(\<lambda>(l, e). expert_row_of ?os ?doms ?mods l e) k = Inr r0"
      using mapR_source [OF rows r0(1)] by (elim bexE)
    then have "domains_nonneg r0" using expert_row_nonneg [OF _ ok] by (cases k) auto
    then show ?thesis using mark_outlier_fields [OF r0(2)] by (simp add: domains_nonneg_def)
  qed
  then show ?thesis using rk p by (simp add: p)
qed

definition fair_order :: "int \<Rightarrow> int list list \<Rightarrow> int list \<Rightarrow> bool" where
  "fair_order n rs order = (distinct order \<and> set order = {0..<n} \<and>
     (\<forall>i < length rs. hd (rs ! i) \<in> set (take (i + 1) order)))"

lemma ranked_order:
  assumes "rs \<noteq> []" "0 < n" "\<forall>r \<in> set rs. mset r = mset [0..n - 1]"
  shows "fair_order n rs (round_robin (nat n) [] rs)"
proof -
  have U: "set [0..n - 1] = {0..<n}" by auto
  have set: "set r = {0..<n}" if "r \<in> set rs" for r
    using assms(3) that U by (metis set_mset_mset)
  have ok: "robin_ok {0..<n} [] rs" using set by (simp add: robin_ok_def)
  have card: "finite {0..<n}" "card {0..<n} = nat n" by simp_all
  have ne: "rs ! i \<noteq> []" if "i < length rs" for i
    using set [OF nth_mem [OF that]] assms(2) by auto
  show ?thesis
    using round_robin_ok [OF ok assms(1) card] round_robin_first [OF ok card _ _ ne] assms(2)
    by (auto simp: fair_order_def)
qed

lemma mapR_fst: "mapR f xs = Inr ys \<Longrightarrow> (\<And>x y. f x = Inr y \<Longrightarrow> fst y = x) \<Longrightarrow> map fst ys = xs"
  by (induction xs arbitrary: ys) (auto simp: rbind_eq_Inr)

lemma map_of_ranked:
  assumes "distinct (map fst ranked)" "(l, rs) \<in> set ranked" "\<And>l rs. (l, rs) \<in> set ranked \<Longrightarrow> length rs = length ds"
  shows "map (\<lambda>(d, lrs). the (map_of lrs l)) (map (\<lambda>i. (ds ! i, map (\<lambda>(l, rs). (l, rs ! i)) ranked)) [0..<length ds]) = rs"
proof -
  have "map_of (map (\<lambda>(l, rs). (l, rs ! i)) ranked) l = Some (rs ! i)" for i
    using assms(1,2) by (intro map_of_is_SomeI) (force simp: o_def split_beta)+
  then show ?thesis using assms(2,3) by (intro nth_equalityI) auto
qed

text \<open>C26: rankings and protection order. A built profile ranks, for every domain of the traces and every layer of the
  traces, all experts once, by descending mean output norm of the domain in the profile and then by the tie-breakers; and its
  round-robin order lists, for every layer, every expert once, with the first choice of the i-th
  domain among its first i places, so no domain's strongest expert is crowded out.
\<close>
theorem rankings_and_round_robin:
  assumes "build_profile text_traces vl_inputs n_experts s = (Inr p, s')"
  shows "map fst (pf_rankings p) = sorted_set (map ob_domain (file_obs s text_traces vl_inputs)) \<and>
    (\<forall>(d, per_layer) \<in> set (pf_rankings p).
      map fst per_layer = sorted_set (map ob_layer (file_obs s text_traces vl_inputs)) \<and>
      (\<forall>(l, rk) \<in> set per_layer. ranks (\<lambda>e. projr (domain_all (pf_experts p) d l e)) n_experts rk)) \<and>
    map fst (pf_round_robin p) = sorted_set (map ob_layer (file_obs s text_traces vl_inputs)) \<and>
    (\<forall>(l, order) \<in> set (pf_round_robin p). pf_rankings p \<noteq> [] \<longrightarrow>
      fair_order n_experts (map (\<lambda>(d, per_layer). the (map_of per_layer l)) (pf_rankings p)) order)"
proof -
  let ?os = "file_obs s text_traces vl_inputs"
  obtain so where n: "0 < n_experts" and so: "profile_of so n_experts = Inr p" "read_modalities so" and os: "so_obs so = ?os"
    using build_profile_run [OF assms(1)] by blast
  obtain ranked where rk: "mapR (rank_layer (pf_experts p) n_experts (pf_domains p)) (pf_layers p) = Inr ranked"
    and rr: "pf_round_robin p = map (\<lambda>(l, rs). (l, round_robin (nat n_experts) [] rs)) ranked"
    and pr: "pf_rankings p = map (\<lambda>i. (pf_domains p ! i, map (\<lambda>(l, rs). (l, rs ! i)) ranked)) [0..<length (pf_domains p)]"
    and dl: "pf_domains p = sorted_set (map ob_domain ?os)" "pf_layers p = sorted_set (map ob_layer ?os)"
    and nn: "\<forall>r \<in> set (pf_experts p). domains_nonneg r"
    using profile_of_rankings [OF so, unfolded os] by (elim exE conjE)
  have layer: "length rs = length (pf_domains p)
      \<and> (\<forall>i < length rs. ranks (\<lambda>e. projr (domain_all (pf_experts p) (pf_domains p ! i) l e)) n_experts (rs ! i))"
    if mem: "(l, rs) \<in> set ranked" for l rs
  proof -
    obtain l' where "rank_layer (pf_experts p) n_experts (pf_domains p) l' = Inr (l, rs)"
      using mapR_source [OF rk mem] by (elim bexE)
    then have rs: "mapR (\<lambda>d. domain_ranking (pf_experts p) n_experts d l) (pf_domains p) = Inr rs"
      by (auto simp: rank_layer_def rmap_eq_Inr)
    have len: "length rs = length (pf_domains p)" by (rule mapR_length [OF rs])
    have "ranks (\<lambda>e. projr (domain_all (pf_experts p) (pf_domains p ! i) l e)) n_experts (rs ! i)" if i: "i < length rs" for i
      using mapR_nth [OF rs, of i] i len domain_all_nonneg nn by (intro domain_ranking_ok) auto
    then show ?thesis using len by blast
  qed
  have fst_ranked: "map fst ranked = pf_layers p"
    using rk by (intro mapR_fst) (auto simp: rank_layer_def rmap_eq_Inr)
  have dist: "distinct (map fst ranked)" by (simp add: fst_ranked dl)
  have rankings: "map fst per_layer = pf_layers p \<and> (\<forall>(l, rk) \<in> set per_layer. ranks (\<lambda>e. projr (domain_all (pf_experts p) d l e)) n_experts rk)"
    if "(d, per_layer) \<in> set (pf_rankings p)" for d per_layer
    using that layer unfolding pr fst_ranked [symmetric] by (fastforce simp: o_def split_beta)
  have orders: "fair_order n_experts (map (\<lambda>(d, per_layer). the (map_of per_layer l)) (pf_rankings p)) order"
    if mem: "(l, order) \<in> set (pf_round_robin p)" and ne: "pf_rankings p \<noteq> []" for l order
  proof -
    obtain rs where rs: "(l, rs) \<in> set ranked" "order = round_robin (nat n_experts) [] rs" using mem rr by auto
    have "map (\<lambda>(d, per_layer). the (map_of per_layer l)) (pf_rankings p) = rs"
      unfolding pr by (rule map_of_ranked [OF dist rs(1)]) (use layer in blast)
    moreover have "fair_order n_experts rs (round_robin (nat n_experts) [] rs)"
      using ne layer [OF rs(1)] n pr by (intro ranked_order) (auto simp: in_set_conv_nth ranks_def)
    ultimately show ?thesis using rs(2) by simp
  qed
  have "map fst (pf_rankings p) = pf_domains p" by (simp add: pr o_def map_nth)
  moreover have "map fst (pf_round_robin p) = pf_layers p" by (simp add: rr fst_ranked [symmetric] o_def split_beta)
  moreover have "\<forall>(d, per_layer) \<in> set (pf_rankings p). map fst per_layer = pf_layers p \<and>
      (\<forall>(l, rk) \<in> set per_layer. ranks (\<lambda>e. projr (domain_all (pf_experts p) d l e)) n_experts rk)"
    by (intro ballI case_prodI2) (use rankings in metis)
  moreover have "\<forall>(l, order) \<in> set (pf_round_robin p). pf_rankings p \<noteq> [] \<longrightarrow>
      fair_order n_experts (map (\<lambda>(d, per_layer). the (map_of per_layer l)) (pf_rankings p)) order"
    by (intro ballI case_prodI2) (use orders in metis)
  ultimately show ?thesis unfolding dl by blast
qed

section \<open>Percentiles\<close>

lemma fl_between:
  assumes "0 \<le> x" "x \<le> of_nat m" "m < 2 ^ 53"
  shows "\<exists>u. fl x = Fin u \<and> 0 \<le> u \<and> u \<le> of_nat m"
proof -
  have "fle (Fin 0) (fl x)" "fle (fl x) (Fin (of_nat m))"
    using fl_nonneg [OF assms(1)] fl_mono [OF assms(2)] fl_of_nat [OF assms(3)] by simp_all
  then show ?thesis by (cases "fl x") auto
qed

lemma at_index_ok: "0 \<le> i \<Longrightarrow> i < int (length xs) \<Longrightarrow> at_index xs i = Inr (xs ! nat i)"
  by (simp add: at_index_def)

text \<open>A percentile of observed values always exists: for a non-empty list of fewer than
  2 ** 53 / 100 values and a rank between 0 and 100, percentile raises nothing: the rounded
  float rank stays within the list, so neither index is out of range; a single value is its own
  percentile.
\<close>
theorem percentile_total:
  assumes "xs \<noteq> []" "0 \<le> r" "r \<le> 100" "100 * length xs < 2 ^ 53"
  shows "\<exists>y. percentile xs (Fin r) = Inr y \<and> (length xs = 1 \<longrightarrow> y = hd xs)"
proof (cases "length xs = 1")
  case True
  then obtain v where "xs = [v]" by (cases xs) auto
  then show ?thesis using assms by (simp add: percentile_def py_sort_def insert_after_def)
next
  case False
  define m where "m = length xs - 1"
  have len: "length xs = Suc m" using assms(1) by (simp add: m_def)
  have m: "fl (of_nat m) = Fin (of_nat m)" "100 * m < 2 ^ 53" "m < 2 ^ 53"
    using fl_of_nat [of m] assms(4) len by simp_all
  have fm: "float_of_int (int m) = Inr (Fin (of_nat m))" using m(1) by (simp add: float_of_int_def)
  have "of_nat m * r \<le> of_nat m * 100" using assms(3) by (intro mult_left_mono) simp_all
  then have "of_nat m * r \<le> of_nat (100 * m)" by simp
  then obtain t where t: "fl (of_nat m * r) = Fin t" "0 \<le> t" "t \<le> of_nat (100 * m)"
    using fl_between [of "of_nat m * r" "100 * m"] assms(2) m(2) by auto
  then obtain u where u: "fl (t / 100) = Fin u" "0 \<le> u" "u \<le> of_nat m"
    using fl_between [of "t / 100" m] m(3) by auto
  have lo: "0 \<le> \<lfloor>u\<rfloor>" "\<lfloor>u\<rfloor> < int (Suc m)" using u by (auto simp: floor_less_iff)
  have hi: "0 \<le> \<lceil>u\<rceil>" "\<lceil>u\<rceil> < int (Suc m)"
  proof -
    show "0 \<le> \<lceil>u\<rceil>" using lo(1) by linarith
    have "\<lceil>u\<rceil> \<le> int m" using u(3) by (simp add: ceiling_le_iff)
    then show "\<lceil>u\<rceil> < int (Suc m)" by simp
  qed
  have "nat \<lfloor>u\<rfloor> < 2 ^ 53" using lo m(3) by linarith
  then have flo: "\<exists>w. float_of_int \<lfloor>u\<rfloor> = Inr w"
    using fl_of_nat [of "nat \<lfloor>u\<rfloor>"] lo(1) by (simp add: float_of_int_def)
  have "\<exists>y. percentile xs (Fin r) = Inr y"
    using False assms(1-3) len lo hi flo
    by (auto simp: percentile_def Let_def fm t(1) fdiv_def u(1) float_floor_def float_ceil_def at_index_ok)
  then show ?thesis using False by blast
qed

theorem percentile_total_witness:
  "\<exists>y. percentile [Fin 3, Fin 1, Fin 2] (Fin (199 / 2)) = Inr y"
  using percentile_total [of "[Fin 3, Fin 1, Fin 2]" "199 / 2"] by simp

section \<open>A profile\<close>

text \<open>Two traces of one event each, whose domains prefer different experts.\<close>

definition trace_d :: string where "trace_d = ''1 1 0 1 2 1'' @ [LF] @ ''1 1 1 1 1 1''"
definition trace_e :: string where "trace_e = ''1 1 0 1 1 1'' @ [LF] @ ''1 1 1 1 2 1''"

definition profile_example :: fs where
  "profile_example = [''t'' \<mapsto> ascii_encode trace_d, ''u'' \<mapsto> ascii_encode trace_e]"

definition example_row :: "int \<Rightarrow> rat \<Rightarrow> trace_row" where
  "example_row e n = \<lparr>tr_event = 1, tr_layer = 1, tr_expert = e, tr_weight = Fin 1, tr_l2 = Fin n,
     tr_saliency = Fin 1, tr_max = None\<rparr>"

definition example_obs :: "string \<Rightarrow> string \<Rightarrow> trace_row list \<Rightarrow> obs list" where
  "example_obs sid d rows = map (\<lambda>r. \<lparr>ob_source = sid, ob_domain = d, ob_modality = ''text'', ob_row = r\<rparr>) rows"

definition example_source :: sources where
  "example_source = \<lparr>so_obs = example_obs ''sample-00000'' ''d'' [example_row 0 2, example_row 1 1],
     so_legacy = 1, so_v2 = 0, so_paths = [(''sample-00000'', ''t'')], so_index = 1\<rparr>"

definition example_sources :: sources where
  "example_sources = \<lparr>so_obs = example_obs ''sample-00000'' ''d'' [example_row 0 2, example_row 1 1]
       @ example_obs ''sample-00001'' ''e'' [example_row 0 1, example_row 1 2],
     so_legacy = 2, so_v2 = 0, so_paths = [(''sample-00000'', ''t''), (''sample-00001'', ''u'')], so_index = 2\<rparr>"

lemma profile_example_rows:
  "read_trace_text trace_d = Inr [example_row 0 2, example_row 1 1]"
  "read_trace_text trace_e = Inr [example_row 0 1, example_row 1 2]"
  "table_of trace_d = [''1 1 0 1 2 1'', ''1 1 1 1 1 1'']" "table_of trace_e = [''1 1 0 1 1 1'', ''1 1 1 1 2 1'']"
  by code_simp+

lemma profile_example_text:
  "read_text ''t'' profile_example = (Inr trace_d, profile_example)" "read_text ''u'' profile_example = (Inr trace_e, profile_example)"
proof -
  have "is_ascii trace_d" "is_ascii trace_e" by code_simp+
  then show "read_text ''t'' profile_example = (Inr trace_d, profile_example)"
    "read_text ''u'' profile_example = (Inr trace_e, profile_example)"
    by (simp_all add: read_text_app profile_example_def ascii_roundtrip)
qed

lemma profile_example_trace:
  "read_trace ''t'' profile_example = (Inr [example_row 0 2, example_row 1 1], profile_example)"
  "read_trace ''u'' profile_example = (Inr [example_row 0 1, example_row 1 2], profile_example)"
  by (simp_all add: read_trace_def io_bind_def profile_example_text profile_example_rows)

lemmas profile_eval = profile_of_def sorted_set_def expert_rows_def expert_row_of_def domain_metrics_def
  metric_finish_def overall_acc_def domain_acc_def overall_events_def domain_events_def with_all_def
  dict_upd_def dict_get_def metric_add_def empty_metric_def ob_defs float_per_def if_values_def max_of_def
  opt_list_def mark_outlier_def flt_opt_def pair_counts_def event_rows_def group_by_def event_key_def
  event_pairs_def pair_row_of_def sample_vectors_def vector_row_of_def rank_layer_def domain_ranking_def
  domain_all_def rank_key_of_def fmax2_def flt_def feq_def fdiv_def int_truediv_def float_of_int_def

lemma profile_example_of:
  "rmap (\<lambda>p. length (pf_pairs p)) (profile_of example_sources 2) = Inr 2"
proof -
  have up: "[0..1] = [0 :: int, 1]" by code_simp
  show ?thesis
    by (simp add: profile_eval example_sources_def example_obs_def example_row_def fl_simps up Let_def)
qed

lemma profile_example_source:
  "add_source no_sources ''d'' ''t'' [example_row 0 2, example_row 1 1] (\<lambda>_. Inr ''text'') = Inr example_source"
  "add_source example_source ''e'' ''u'' [example_row 0 1, example_row 1 2] (\<lambda>_. Inr ''text'') = Inr example_sources"
  by code_simp+

lemma profile_example_run:
  "\<exists>p. build_profile [(''d'', ''t''), (''e'', ''u'')] [] 2 profile_example = (Inr p, profile_example) \<and> length (pf_pairs p) = 2"
proof -
  have "add_texts no_sources [(''d'', ''t''), (''e'', ''u'')] profile_example = (Inr example_sources, profile_example)"
    by (simp add: io_bind_def profile_example_trace profile_example_source)
  moreover obtain p where "profile_of example_sources 2 = Inr p" "length (pf_pairs p) = 2"
    using profile_example_of by (auto simp: rmap_eq_Inr)
  ultimately show ?thesis by (simp add: build_profile_def io_bind_def)
qed

lemma profile_example_obs:
  "sorted_set (map ob_layer (file_obs profile_example [(''d'', ''t''), (''e'', ''u'')] [])) = [1]"
  "sorted_set (map ob_domain (file_obs profile_example [(''d'', ''t''), (''e'', ''u'')] [])) = [''d'', ''e'']"
  by (simp_all add: file_obs_def text_obs_def vl_obs_def trace_obs_def file_rows_def profile_example_trace
      ob_layer_def example_row_def sorted_set_def)

theorem profile_counts_every_row_witness:
  "\<exists>p. build_profile [(''d'', ''t''), (''e'', ''u'')] [] 2 profile_example = (Inr p, profile_example) \<and>
     map (\<lambda>r. (er_layer r, er_expert r)) (pf_experts p) = [(1, 0), (1, 1)] \<and>
     sum_list (map (\<lambda>r. x_selected (er_aggregate r)) (pf_experts p)) = 4"
proof -
  obtain p where p: "build_profile [(''d'', ''t''), (''e'', ''u'')] [] 2 profile_example = (Inr p, profile_example)"
    using profile_example_run by blast
  have up: "[0..1] = [0 :: int, 1]" by code_simp
  have "map (trace_data_lines profile_example) (map snd [(''d'', ''t''), (''e'', ''u'')] @ map (fst \<circ> snd) []) = [2, 2]"
    by (simp add: trace_data_lines_def profile_example_text profile_example_rows)
  then show ?thesis using profile_counts_every_row [OF p] p by (simp add: profile_example_obs up)
qed

theorem coactivation_within_events_witness:
  "\<exists>p :: profile. length (pf_pairs p) = 2 \<and> (\<forall>r \<in> set (pf_pairs p). pair_row_ok r)"
proof -
  obtain p where p: "build_profile [(''d'', ''t''), (''e'', ''u'')] [] 2 profile_example = (Inr p, profile_example)" "length (pf_pairs p) = 2"
    using profile_example_run by (elim exE conjE)
  from coactivation_within_events [OF p(1)] p(2) show ?thesis by (intro exI [of _ p] conjI) simp_all
qed

theorem rankings_and_round_robin_witness:
  "\<exists>p rd re order. build_profile [(''d'', ''t''), (''e'', ''u'')] [] 2 profile_example = (Inr p, profile_example) \<and>
     pf_rankings p = [(''d'', [(1, rd)]), (''e'', [(1, re)])] \<and> mset rd = {#0, 1#} \<and> mset re = {#0, 1#} \<and>
     pf_round_robin p = [(1, order)] \<and> hd rd = hd order \<and> set order = {0, 1}"
proof -
  obtain p where p: "build_profile [(''d'', ''t''), (''e'', ''u'')] [] 2 profile_example = (Inr p, profile_example)"
    using profile_example_run by blast
  have up: "[0..1] = [0 :: int, 1]" "{0..<2} = {0 :: int, 1}" by (code_simp, auto)
  note t = rankings_and_round_robin [OF p, unfolded profile_example_obs]
  obtain pd pe where r: "pf_rankings p = [(''d'', pd), (''e'', pe)]" "map fst pd = [1]" "map fst pe = [1]"
    using t by (auto simp: map_eq_Cons_conv)
  obtain rd re order where o: "pd = [(1, rd)]" "pe = [(1, re)]" "pf_round_robin p = [(1, order)]"
    using t r by (auto simp: map_eq_Cons_conv)
  have "mset rd = {#0, 1#}" "mset re = {#0, 1#}" "fair_order 2 [rd, re] order"
    using t r(1) o by (simp_all add: ranks_def up)
  moreover from this have "hd rd \<in> set (take 1 order)" "set order = {0, 1}"
    using up by (auto simp: fair_order_def)
  moreover from this have "hd rd = hd order" by (cases order) auto
  ultimately show ?thesis using p r(1) o by blast
qed

end
