(* ===== verification/TokenProfile.thy ===== *)
theory TokenProfile
  imports MoeProfile DynSkip
begin

text \<open>
  The token-aware companion profile (\<^verbatim>\<open>tools/kimi_moe_token_profile.py\<close>): every trace row is placed
  at its prompt token, and the metrics of the profile are recomputed per token family, per token
  class and per domain and family. An observation keeps its family where the profile keeps the
  modality, so the tables of events and pairs are the profile's own.
\<close>

section \<open>Placing the rows\<close>

definition class_name :: "token_class \<Rightarrow> string" where
  "class_name c = (case c of
     system \<Rightarrow> ''system'' | user_control \<Rightarrow> ''user_control'' | user_content \<Rightarrow> ''user_content''
   | media_control \<Rightarrow> ''media_control'' | media_pad \<Rightarrow> ''media_pad''
   | assistant_transition \<Rightarrow> ''assistant_transition'' | unclassified \<Rightarrow> ''unclassified'')"

record tobs =
  tk_obs :: obs
  tk_class :: token_class

definition place_row ::
  "string \<Rightarrow> string \<Rightarrow> token_class list \<Rightarrow> int \<Rightarrow> trace_row \<Rightarrow> tobs res" where
  "place_row sample domain classes n_experts row =
     (if n_experts \<le> tr_expert row then Inl (ValueError ''expert >= n_experts'')
      else rbind (event_position (tr_event row) (tr_layer row) (int (length classes))) (\<lambda>pos.
        let c = classes ! nat pos in
        Inr \<lparr>tk_obs = \<lparr>ob_source = sample, ob_domain = domain, ob_modality = TOKEN_FAMILY c, ob_row = row\<rparr>,
             tk_class = c\<rparr>))"

record token_sources =
  ts_obs :: "tobs list"
  ts_legacy :: int
  ts_v2 :: int

definition token_sample :: "nat \<Rightarrow> int \<Rightarrow> token_sources \<Rightarrow> string \<times> string \<times> string \<Rightarrow> token_sources io" where
  "token_sample idx n_experts so input = (case input of (domain, trace_path, ids_path) \<Rightarrow>
     io_bind (read_trace trace_path) (\<lambda>rows.
     io_bind (read_prompt_ids ids_path) (\<lambda>ids.
     io_bind (io_lift (classify_prompt_tokens ids)) (\<lambda>classes.
     let v2 = (tr_max (hd rows) \<noteq> None) in
     io_bind (io_lift (mapR (place_row (sample_id idx) domain classes n_experts) rows)) (\<lambda>os.
       io_return \<lparr>ts_obs = ts_obs so @ os, ts_legacy = ts_legacy so + of_bool (\<not> v2),
                  ts_v2 = ts_v2 so + of_bool v2\<rparr>)))))"

fun token_samples :: "nat \<Rightarrow> int \<Rightarrow> token_sources \<Rightarrow> (string \<times> string \<times> string) list \<Rightarrow> token_sources io" where
  "token_samples idx n_experts so [] = io_return so"
| "token_samples idx n_experts so (x # xs) =
     io_bind (token_sample idx n_experts so x) (\<lambda>so'. token_samples (Suc idx) n_experts so' xs)"

section \<open>Tables per scope\<close>

definition acc_table :: "(tobs \<Rightarrow> 'k) \<Rightarrow> tobs list \<Rightarrow> ('k \<times> metric_acc) list" where
  "acc_table key os = tally empty_metric key (\<lambda>a x. metric_add a (ob_row (tk_obs x))) [] os"

definition event_table :: "(tobs \<Rightarrow> 'k) \<Rightarrow> tobs list \<Rightarrow> ('k \<times> (string \<times> int) list) list" where
  "event_table key os = tally [] key (\<lambda>es x. List.insert (ob_event (tk_obs x)) es) [] os"

definition tk_family :: "tobs \<Rightarrow> string" where "tk_family x = ob_modality (tk_obs x)"
definition tk_domain :: "tobs \<Rightarrow> string" where "tk_domain x = ob_domain (tk_obs x)"
definition tk_layer :: "tobs \<Rightarrow> int" where "tk_layer x = ob_layer (tk_obs x)"
definition tk_expert :: "tobs \<Rightarrow> int" where "tk_expert x = ob_expert (tk_obs x)"
definition tk_class_name :: "tobs \<Rightarrow> string" where "tk_class_name x = class_name (tk_class x)"

definition scope_metrics :: "(tobs \<Rightarrow> 's) \<Rightarrow> tobs list \<Rightarrow> 's \<Rightarrow> int \<Rightarrow> int \<Rightarrow> metrics res" where
  "scope_metrics scope os s layer expert =
     metric_finish (dict_get empty_metric (s, layer, expert) (acc_table (\<lambda>x. (scope x, tk_layer x, tk_expert x)) os))
       (int (length (dict_get [] (s, layer) (event_table (\<lambda>x. (scope x, tk_layer x)) os))))"

section \<open>Families\<close>

record family_row =
  fr_layer :: int
  fr_expert :: int
  fr_metrics :: metrics
  fr_tail_count :: int
  fr_tail_frequency :: "pyfloat option"

definition family_rows :: "tobs list \<Rightarrow> int list \<Rightarrow> int \<Rightarrow> string \<Rightarrow> family_row list res" where
  "family_rows os layers n_experts family =
     mapR (\<lambda>(layer, expert). rmap (\<lambda>m. \<lparr>fr_layer = layer, fr_expert = expert, fr_metrics = m,
               fr_tail_count = 0, fr_tail_frequency = None\<rparr>)
             (scope_metrics tk_family os family layer expert))
       (List.product layers [0..n_experts - 1])"

record outlier_profile =
  op_p99_5 :: "pyfloat option"
  op_global_max :: "pyfloat option"
  op_candidates :: "(int \<times> int \<times> pyfloat option) list"

definition outlier_row :: "tobs list \<Rightarrow> string \<Rightarrow> pyfloat option \<Rightarrow> family_row \<Rightarrow> family_row res" where
  "outlier_row os family p99_5 r =
     (let values = m_max_values (dict_get empty_metric (family, fr_layer r, fr_expert r)
                     (acc_table (\<lambda>x. (tk_family x, tk_layer x, tk_expert x)) os));
          tail = int (length (filter (\<lambda>v. flt_opt p99_5 (Some v)) values))
      in rbind (if_values values (int_truediv tail (int (length values)))) (\<lambda>freq.
           Inr (r\<lparr>fr_tail_count := tail, fr_tail_frequency := freq\<rparr>)))"

definition outlier_profile_of :: "tobs list \<Rightarrow> string \<Rightarrow> family_row list \<Rightarrow> (family_row list \<times> outlier_profile) res" where
  "outlier_profile_of os family rows =
     (let maxima = concat (map (\<lambda>r. opt_list (x_max (fr_metrics r))) rows) in
      rbind (if_values maxima (percentile maxima (Fin (199 / 2)))) (\<lambda>p99_5.
      let global_max = max_of maxima in
      rbind (mapR (outlier_row os family p99_5) rows) (\<lambda>rows'.
        Inr (rows', \<lparr>op_p99_5 = p99_5, op_global_max = global_max,
          op_candidates = map (\<lambda>r. (fr_layer r, fr_expert r, x_max (fr_metrics r)))
            (filter (\<lambda>r. flt_opt p99_5 (x_max (fr_metrics r)) \<and>
               flt_opt (map_option (fmul tenth) global_max) (x_max (fr_metrics r))) rows')\<rparr>))))"

definition by_family :: "tobs list \<Rightarrow> int list \<Rightarrow> int \<Rightarrow> string \<Rightarrow> (string \<times> family_row list \<times> outlier_profile) res" where
  "by_family os layers n_experts family =
     rbind (family_rows os layers n_experts family) (\<lambda>rows. rmap (Pair family) (outlier_profile_of os family rows))"

section \<open>Classes and domains\<close>

text \<open>The slots of a scope that were selected at least once.\<close>

record 's scope_row =
  sr_scope :: 's
  sr_layer :: int
  sr_expert :: int
  sr_metrics :: metrics

definition scope_rows :: "(tobs \<Rightarrow> 's) \<Rightarrow> tobs list \<Rightarrow> 's list \<Rightarrow> int list \<Rightarrow> int \<Rightarrow> 's scope_row list res" where
  "scope_rows scope os scopes layers n_experts =
     rmap (filter (\<lambda>r. x_selected (sr_metrics r) \<noteq> 0))
       (mapR (\<lambda>(s, layer, expert). rmap (\<lambda>m. \<lparr>sr_scope = s, sr_layer = layer, sr_expert = expert, sr_metrics = m\<rparr>)
               (scope_metrics scope os s layer expert))
         (List.product scopes (List.product layers [0..n_experts - 1])))"

definition family_event_table :: "obs list \<Rightarrow> event_sets" where
  "family_event_table os = tally [] (\<lambda>x. (ob_domain x, ob_modality x, ob_layer x))
     (\<lambda>es x. List.insert (ob_event x) es) [] os"

record token_profile =
  tp_layers :: "int list"
  tp_domains :: "string list"
  tp_classes :: "string list"
  tp_families :: "string list"
  tp_legacy :: int
  tp_v2 :: int
  tp_by_family :: "(string \<times> family_row list \<times> outlier_profile) list"
  tp_by_class :: "string scope_row list"
  tp_by_domain_family :: "(string \<times> string) scope_row list"
  tp_pairs :: "pair_row list"

definition token_profile_of :: "token_sources \<Rightarrow> int \<Rightarrow> token_profile res" where
  "token_profile_of so n_experts =
     (let os = ts_obs so; obs = map tk_obs os;
          domains = sorted_set (map tk_domain os);
          classes = sorted_set (map tk_class_name os);
          families = sorted_set (map tk_family os);
          layers = sorted_set (map tk_layer os)
      in rbind (mapR (by_family os layers n_experts) families) (\<lambda>fam.
         rbind (scope_rows tk_class_name os classes layers n_experts) (\<lambda>cls.
         rbind (scope_rows (\<lambda>x. (tk_domain x, tk_family x)) os (List.product domains families) layers n_experts) (\<lambda>dom.
         rbind (mapR (pair_row_of (family_event_table obs)) (sort_key fst (pair_counts obs))) (\<lambda>pairs.
           Inr \<lparr>tp_layers = layers, tp_domains = domains, tp_classes = classes, tp_families = families,
                tp_legacy = ts_legacy so, tp_v2 = ts_v2 so, tp_by_family = fam, tp_by_class = cls,
                tp_by_domain_family = dom, tp_pairs = pairs\<rparr>)))))"

definition build_token_profile :: "(string \<times> string \<times> string) list \<Rightarrow> int \<Rightarrow> token_profile io" where
  "build_token_profile inputs n_experts =
     (if inputs = [] then io_raise (ValueError ''at least one token-aware trace is required'')
      else if n_experts \<le> 0 then io_raise (ValueError ''n_experts must be positive'')
      else io_bind (token_samples 0 n_experts \<lparr>ts_obs = [], ts_legacy = 0, ts_v2 = 0\<rparr> inputs) (\<lambda>so.
             io_lift (token_profile_of so n_experts)))"

section \<open>The partition\<close>

lemma tk_add_fold: "m_selected (foldl (\<lambda>a x. metric_add a (ob_row (tk_obs x))) a xs) = m_selected a + int (length xs)"
  by (induction xs arbitrary: a) (auto simp: metric_add_def Let_def)

definition scope_count :: "(tobs \<Rightarrow> 's) \<Rightarrow> tobs list \<Rightarrow> 's \<times> int \<times> int \<Rightarrow> int" where
  "scope_count scope os k = int (length (filter (\<lambda>x. (scope x, tk_layer x, tk_expert x) = k) os))"

lemma scope_metrics_selected:
  "scope_metrics scope os s l e = Inr m \<Longrightarrow> x_selected m = scope_count scope os (s, l, e)"
  unfolding scope_metrics_def
  by (drule metric_finish_fields)
     (simp add: acc_table_def tally_lookup tk_add_fold scope_count_def, simp add: empty_metric_def)

definition grid :: "'s list \<Rightarrow> int list \<Rightarrow> int \<Rightarrow> ('s \<times> int \<times> int) list" where
  "grid scopes layers n = List.product scopes (List.product layers [0..n - 1])"

definition inside :: "(tobs \<Rightarrow> 's) \<Rightarrow> tobs list \<Rightarrow> 's list \<Rightarrow> int list \<Rightarrow> int \<Rightarrow> bool" where
  "inside scope os scopes layers n = (distinct scopes \<and> distinct layers \<and>
     (\<forall>x \<in> set os. scope x \<in> set scopes \<and> tk_layer x \<in> set layers \<and> 0 \<le> tk_expert x \<and> tk_expert x < n))"

lemma grid_count:
  assumes "inside scope os scopes layers n"
  shows "sum_list (map (scope_count scope os) (grid scopes layers n)) = int (length os)"
proof -
  have "distinct (grid scopes layers n)" using assms by (simp add: grid_def inside_def distinct_product)
  from filter_key_partition [OF this, of "\<lambda>x. (scope x, tk_layer x, tk_expert x)" os]
  have "sum_list (map (scope_count scope os) (grid scopes layers n)) =
      int (length (filter (\<lambda>x. (scope x, tk_layer x, tk_expert x) \<in> set (grid scopes layers n)) os))"
    by (simp add: scope_count_def [abs_def])
  also have "filter (\<lambda>x. (scope x, tk_layer x, tk_expert x) \<in> set (grid scopes layers n)) os = os"
    using assms by (intro filter_True) (auto simp: inside_def grid_def)
  finally show ?thesis .
qed

lemma sum_nonzero: "sum_list (map f (filter (\<lambda>x. f x \<noteq> 0) xs)) = sum_list (map (f :: _ \<Rightarrow> int) xs)"
  by (induction xs) auto

lemma scope_rows_ok:
  assumes "scope_rows scope os scopes layers n = Inr rows" "inside scope os scopes layers n"
  shows "sum_list (map (\<lambda>r. x_selected (sr_metrics r)) rows) = int (length os) \<and>
    (\<forall>r \<in> set rows. 0 < x_selected (sr_metrics r) \<and>
       x_selected (sr_metrics r) = scope_count scope os (sr_scope r, sr_layer r, sr_expert r))"
proof -
  let ?f = "\<lambda>(s, layer, expert). rmap (\<lambda>m. \<lparr>sr_scope = s, sr_layer = layer, sr_expert = expert, sr_metrics = m\<rparr>)
               (scope_metrics scope os s layer expert)"
  obtain all where all: "mapR ?f (grid scopes layers n) = Inr all"
    and rows: "rows = filter (\<lambda>r. x_selected (sr_metrics r) \<noteq> 0) all"
    using assms(1) by (auto simp: scope_rows_def rmap_eq_Inr grid_def)
  have sel: "x_selected (sr_metrics r) = scope_count scope os (sr_scope r, sr_layer r, sr_expert r) \<and>
      (sr_scope r, sr_layer r, sr_expert r) = k" if "?f k = Inr r" for k r
    using that by (cases k) (auto simp: rmap_eq_Inr dest: scope_metrics_selected)
  have len: "length all = length (grid scopes layers n)" by (rule mapR_length [OF all])
  have "map (\<lambda>r. x_selected (sr_metrics r)) all = map (scope_count scope os) (grid scopes layers n)"
  proof (rule mapR_map_eq [OF all])
    fix k r assume "?f k = Inr r"
    from sel [OF this] show "x_selected (sr_metrics r) = scope_count scope os k" by simp
  qed
  then have "sum_list (map (\<lambda>r. x_selected (sr_metrics r)) all) = int (length os)"
    using grid_count [OF assms(2)] by simp
  moreover have "x_selected (sr_metrics r) = scope_count scope os (sr_scope r, sr_layer r, sr_expert r)" if "r \<in> set all" for r
    using mapR_source [OF all that] sel by blast
  ultimately show ?thesis
    using sum_nonzero [of "\<lambda>r. x_selected (sr_metrics r)" all] by (auto simp: rows scope_count_def)
qed

lemma outlier_row_metrics: "outlier_row os f p r = Inr r' \<Longrightarrow> fr_metrics r' = fr_metrics r"
  by (auto simp: outlier_row_def Let_def elim!: rbind_InrE)

lemma family_rows_ok:
  assumes "by_family os layers n f = Inr (f', rows, op)"
  shows "f' = f \<and> map (\<lambda>r. x_selected (fr_metrics r)) rows =
    map (\<lambda>k. scope_count tk_family os (f, k)) (List.product layers [0..n - 1])"
proof -
  let ?g = "\<lambda>(layer, expert). rmap (\<lambda>m. \<lparr>fr_layer = layer, fr_expert = expert, fr_metrics = m,
               fr_tail_count = 0, fr_tail_frequency = None\<rparr>) (scope_metrics tk_family os f layer expert)"
  obtain rows0 p99 where r0: "mapR ?g (List.product layers [0..n - 1]) = Inr rows0" and f: "f' = f"
    and r: "mapR (outlier_row os f p99) rows0 = Inr rows"
    using assms by (auto simp: by_family_def family_rows_def outlier_profile_of_def Let_def rmap_eq_Inr elim!: rbind_InrE)
  have len: "length rows0 = length (List.product layers [0..n - 1])" "length rows = length rows0"
    using mapR_length [OF r0] mapR_length [OF r] by simp_all
  have "x_selected (fr_metrics (rows ! i)) = scope_count tk_family os (f, List.product layers [0..n - 1] ! i)"
    if i: "i < length rows" for i
  proof -
    obtain l e where k: "List.product layers [0..n - 1] ! i = (l, e)" by fastforce
    have "?g (l, e) = Inr (rows0 ! i)" using mapR_nth [OF r0, of i] i len k by simp
    then have "x_selected (fr_metrics (rows0 ! i)) = scope_count tk_family os (f, l, e)"
      by (auto simp: rmap_eq_Inr dest: scope_metrics_selected)
    moreover have "outlier_row os f p99 (rows0 ! i) = Inr (rows ! i)" using mapR_nth [OF r, of i] i len by simp
    then have "fr_metrics (rows ! i) = fr_metrics (rows0 ! i)" by (rule outlier_row_metrics)
    ultimately show ?thesis by (simp add: k)
  qed
  then show ?thesis using f len by (auto intro: nth_equalityI)
qed

lemma all_families_sum:
  assumes "mapR (by_family os layers n) fams = Inr fam" "inside tk_family os fams layers n"
  shows "sum_list (map (\<lambda>(f, rows, op). sum_list (map (\<lambda>r. x_selected (fr_metrics r)) rows)) fam) = int (length os)"
proof -
  have "sum_list (map (\<lambda>(f, rows, op). sum_list (map (\<lambda>r. x_selected (fr_metrics r)) rows)) fam) =
      sum_list (map (scope_count tk_family os) (grid fams layers n))"
    using assms(1)
  proof (induction fams arbitrary: fam)
    case Nil
    then show ?case by (simp add: grid_def)
  next
    case (Cons f fams)
    obtain y ys where y: "by_family os layers n f = Inr y" "mapR (by_family os layers n) fams = Inr ys" "fam = y # ys"
      using Cons.prems by (auto simp: rbind_eq_Inr)
    obtain f' rows op where y3: "y = (f', rows, op)" by (metis surj_pair)
    have "map (\<lambda>r. x_selected (fr_metrics r)) rows = map (scope_count tk_family os) (map (Pair f) (List.product layers [0..n - 1]))"
      using family_rows_ok [of os layers n f f' rows op] y(1) y3 by simp
    then show ?case using Cons.IH [OF y(2)] y(3) y3 by (simp add: grid_def)
  qed
  then show ?thesis using grid_count [OF assms(2)] by simp
qed

text \<open>The token profile's own event table serves as the denominator of its pairs.\<close>

interpretation family: event_denominator family_event_table
  by unfold_locales (simp add: family_event_table_def tally_lookup insert_fold)

section \<open>What a token profile says\<close>

definition token_row_ok :: "int \<Rightarrow> tobs \<Rightarrow> bool" where
  "token_row_ok n x = (0 \<le> tk_expert x \<and> tk_expert x < n \<and> tk_family x = TOKEN_FAMILY (tk_class x))"

lemma place_row_ok:
  "place_row s d cs n row = Inr x \<Longrightarrow> row_ok row \<Longrightarrow> token_row_ok n x"
  by (auto simp: place_row_def token_row_ok_def tk_expert_def ob_expert_def tk_family_def row_ok_def Let_def
      split: if_splits elim!: rbind_InrE)

lemma token_sample_ok:
  assumes "token_sample i n so x s = (Inr so', s')" "\<forall>x \<in> set (ts_obs so). token_row_ok n x"
  shows "s' = s \<and> (\<forall>x \<in> set (ts_obs so'). token_row_ok n x)"
proof -
  obtain d p q where x: "x = (d, p, q)" by (metis surj_pair)
  obtain rows classes os where rows: "\<forall>r \<in> set rows. row_ok r"
    and os: "mapR (place_row (sample_id i) d classes n) rows = Inr os" and so': "ts_obs so' = ts_obs so @ os" "s' = s"
    using assms(1)
    by (auto simp: token_sample_def x io_bind_eq_Inr read_prompt_ids_def Let_def dest!: read_trace_ok read_text_only)
  have "token_row_ok n y" if "y \<in> set os" for y
    using mapR_source [OF os that] rows place_row_ok by blast
  then show ?thesis using assms(2) so' by auto
qed

lemma token_samples_ok:
  "token_samples i n so xs s = (Inr so', s') \<Longrightarrow> \<forall>x \<in> set (ts_obs so). token_row_ok n x \<Longrightarrow>
     s' = s \<and> (\<forall>x \<in> set (ts_obs so'). token_row_ok n x)"
proof (induction xs arbitrary: i so s)
  case (Cons x xs)
  obtain so1 s1 where a: "token_sample i n so x s = (Inr so1, s1)" "token_samples (Suc i) n so1 xs s1 = (Inr so', s')"
    using Cons.prems(1) by (auto simp: io_bind_eq_Inr)
  show ?case using Cons.IH [OF a(2)] token_sample_ok [OF a(1) Cons.prems(2)] by simp
qed simp

lemma token_profile_of_ok:
  assumes "token_profile_of so n = Inr p" "\<forall>x \<in> set (ts_obs so). token_row_ok n x"
  shows "sum_list (map (\<lambda>(f, rows, op). sum_list (map (\<lambda>r. x_selected (fr_metrics r)) rows)) (tp_by_family p)) = int (length (ts_obs so)) \<and>
    sum_list (map (\<lambda>r. x_selected (sr_metrics r)) (tp_by_class p)) = int (length (ts_obs so)) \<and>
    sum_list (map (\<lambda>r. x_selected (sr_metrics r)) (tp_by_domain_family p)) = int (length (ts_obs so)) \<and>
    (\<forall>r \<in> set (tp_by_class p). 0 < x_selected (sr_metrics r)) \<and>
    (\<forall>r \<in> set (tp_pairs p). pair_row_ok r) \<and> tp_families p = sorted_set (map tk_family (ts_obs so))"
proof -
  let ?os = "ts_obs so"
  let ?ls = "sorted_set (map tk_layer ?os)" and ?fs = "sorted_set (map tk_family ?os)"
    and ?cs = "sorted_set (map tk_class_name ?os)" and ?ds = "sorted_set (map tk_domain ?os)"
  have r: "mapR (by_family ?os ?ls n) ?fs = Inr (tp_by_family p)"
    "scope_rows tk_class_name ?os ?cs ?ls n = Inr (tp_by_class p)"
    "scope_rows (\<lambda>x. (tk_domain x, tk_family x)) ?os (List.product ?ds ?fs) ?ls n = Inr (tp_by_domain_family p)"
    "mapR (pair_row_of (family_event_table (map tk_obs ?os))) (sort_key fst (pair_counts (map tk_obs ?os))) = Inr (tp_pairs p)"
    "tp_families p = ?fs"
    using assms(1) by (auto simp: token_profile_of_def Let_def elim!: rbind_InrE)
  have i: "inside tk_family ?os ?fs ?ls n" "inside tk_class_name ?os ?cs ?ls n"
    "inside (\<lambda>x. (tk_domain x, tk_family x)) ?os (List.product ?ds ?fs) ?ls n"
    using assms(2) by (auto simp: inside_def token_row_ok_def distinct_product)
  show ?thesis
    using all_families_sum [OF r(1) i(1)] scope_rows_ok [OF r(2) i(2)] scope_rows_ok [OF r(3) i(3)]
      family.profile_pairs [OF r(4)] r(5) by blast
qed

text \<open>The token-aware profile is a partition of the traces. In a profile that was built, the rows
  counted over the token families, over the token classes and over the domain and family pairs are
  each exactly the rows read, every row under the family its token class belongs to; the class table
  lists no slot that was never selected; every coactivation fraction lies between 0 and 1; and
  building it changes no file.
\<close>
theorem token_profile_partition:
  assumes "build_token_profile inputs n_experts s = (Inr p, s')"
  shows "s' = s \<and> (\<exists>os. (\<forall>x \<in> set os. tk_family x = TOKEN_FAMILY (tk_class x)) \<and>
    sum_list (map (\<lambda>(f, rows, op). sum_list (map (\<lambda>r. x_selected (fr_metrics r)) rows)) (tp_by_family p)) = int (length os) \<and>
    sum_list (map (\<lambda>r. x_selected (sr_metrics r)) (tp_by_class p)) = int (length os) \<and>
    sum_list (map (\<lambda>r. x_selected (sr_metrics r)) (tp_by_domain_family p)) = int (length os) \<and>
    (\<forall>r \<in> set (tp_by_class p). 0 < x_selected (sr_metrics r)) \<and>
    (\<forall>r \<in> set (tp_pairs p). pair_row_ok r) \<and> tp_families p = sorted_set (map tk_family os))"
proof -
  obtain so where a: "token_samples 0 n_experts \<lparr>ts_obs = [], ts_legacy = 0, ts_v2 = 0\<rparr> inputs s = (Inr so, s')"
    and p: "token_profile_of so n_experts = Inr p"
    using assms by (auto simp: build_token_profile_def io_bind_eq_Inr split: if_splits)
  have ok: "s' = s \<and> (\<forall>x \<in> set (ts_obs so). token_row_ok n_experts x)" using token_samples_ok [OF a] by simp
  have fam: "\<forall>x \<in> set (ts_obs so). tk_family x = TOKEN_FAMILY (tk_class x)" using ok by (simp add: token_row_ok_def)
  show ?thesis using token_profile_of_ok [OF p] ok fam by (intro conjI exI [of _ "ts_obs so"]) simp_all
qed

section \<open>A token profile\<close>

definition token_example :: fs where
  "token_example = [''t'' \<mapsto> ascii_encode trace_d, ''i'' \<mapsto> ascii_encode ''5'']"

definition example_tobs :: "trace_row \<Rightarrow> tobs" where
  "example_tobs r = \<lparr>tk_obs = \<lparr>ob_source = ''sample-00000'', ob_domain = ''d'', ob_modality = ''unclassified'', ob_row = r\<rparr>,
     tk_class = unclassified\<rparr>"

definition example_tokens :: token_sources where
  "example_tokens = \<lparr>ts_obs = map example_tobs [example_row 0 2, example_row 1 1], ts_legacy = 1, ts_v2 = 0\<rparr>"

lemmas token_eval = token_profile_of_def by_family_def family_rows_def scope_metrics_def acc_table_def event_table_def
  outlier_profile_of_def outlier_row_def scope_rows_def family_event_table_def
  tk_family_def tk_domain_def tk_layer_def tk_expert_def tk_class_name_def class_name_def

lemma token_example_of: "is_ok (token_profile_of example_tokens 2)"
proof -
  have up: "[0..1] = [0 :: int, 1]" by code_simp
  show ?thesis
    by (simp add: token_eval profile_eval example_tokens_def example_tobs_def example_row_def fl_simps up Let_def)
qed

lemma token_example_run:
  "\<exists>p. build_token_profile [(''d'', ''t'', ''i'')] 2 token_example = (Inr p, token_example)"
proof -
  have "is_ascii trace_d" by code_simp
  then have t: "read_trace ''t'' token_example = (Inr [example_row 0 2, example_row 1 1], token_example)"
    by (simp add: read_trace_def io_bind_def read_text_app token_example_def ascii_roundtrip profile_example_rows)
  have "read_prompt_ids_text ''5'' = Inr [5]" by code_simp
  then have i: "read_prompt_ids ''i'' token_example = (Inr [5], token_example)"
    by (simp add: read_prompt_ids_def io_bind_def read_text_app token_example_def ascii_roundtrip is_ascii_def cp_def)
  have c: "classify_prompt_tokens [5] = Inr [unclassified]"
    by (simp add: classify_prompt_tokens_def token_class_step_def marker_defs)
  have s: "sample_id 0 = ''sample-00000''" by code_simp
  have "token_samples 0 2 \<lparr>ts_obs = [], ts_legacy = 0, ts_v2 = 0\<rparr> [(''d'', ''t'', ''i'')] token_example =
      (Inr example_tokens, token_example)"
    by (simp add: token_sample_def io_bind_def t i c s place_row_def event_position_def example_row_def
        example_tokens_def example_tobs_def TOKEN_FAMILY_def)
  moreover obtain p where "token_profile_of example_tokens 2 = Inr p"
    using token_example_of by (auto simp: is_ok_iff)
  ultimately show ?thesis by (simp add: build_token_profile_def io_bind_def)
qed

theorem token_profile_partition_witness:
  "\<exists>p :: token_profile. build_token_profile [(''d'', ''t'', ''i'')] 2 token_example = (Inr p, token_example) \<and>
     (\<forall>r \<in> set (tp_pairs p). pair_row_ok r)"
  using token_example_run token_profile_partition [of "[(''d'', ''t'', ''i'')]" 2 token_example] by blast

end
