(* ===== verification/MoeTrace.thy ===== *)
theory MoeTrace
  imports MoeProfile
begin

text \<open>
  Functional-pruning analysis of Q8 route traces (\<^verbatim>\<open>tools/analyze_kimi_moe_trace.py\<close>): per-layer
  selection counts and saliency sums, entropy and rank-correlation metrics, coactivation pairs, the
  keep-N masks, the unseen-cap masks and the coverage report. The functions of Python's \<^verbatim>\<open>math\<close> that
  IEEE arithmetic does not determine (\<^verbatim>\<open>log\<close>, \<^verbatim>\<open>exp\<close>, \<^verbatim>\<open>sqrt\<close>) and the \<^verbatim>\<open>.12g\<close> formatting are parameters.
\<close>

unbundle bit_operations_syntax

section \<open>Rows\<close>

record route_row =
  rt_event :: int
  rt_source :: int
  rt_layer :: int
  rt_expert :: int
  rt_weight :: pyfloat
  rt_l2 :: pyfloat
  rt_saliency :: pyfloat

definition parse_route_row :: "int \<Rightarrow> string \<Rightarrow> route_row res" where
  "parse_route_row source_id line = (let parts = py_split line in
     if length parts \<noteq> 6 then Inl (ValueError ''expected 6 columns'')
     else rbind (int_res (parts ! 0)) (\<lambda>local_event. rbind (int_res (parts ! 1)) (\<lambda>layer.
          rbind (int_res (parts ! 2)) (\<lambda>expert. rbind (float_res (parts ! 3)) (\<lambda>weight.
          rbind (float_res (parts ! 4)) (\<lambda>output_l2. rbind (float_res (parts ! 5)) (\<lambda>saliency.
            if local_event \<le> 0 \<or> layer < 0 \<or> expert < 0
            then Inl (ValueError ''invalid event/layer/expert'')
            else Inr \<lparr>rt_event = push_bit 32 source_id OR local_event, rt_source = source_id,
                   rt_layer = layer, rt_expert = expert, rt_weight = weight, rt_l2 = output_l2,
                   rt_saliency = saliency\<rparr>)))))))"

definition parse_route_text :: "int \<Rightarrow> string \<Rightarrow> route_row list res" where
  "parse_route_text source_id t =
     rbind (mapR (parse_route_row source_id) (file_table_of t)) (\<lambda>rows.
       if rows = [] then Inl (ValueError ''no trace rows'') else Inr rows)"

fun parse_traces :: "int \<Rightarrow> string list \<Rightarrow> route_row list io" where
  "parse_traces source_id [] = io_return []"
| "parse_traces source_id (p # ps) =
     io_bind (read_text p) (\<lambda>t. io_bind (io_lift (parse_route_text source_id t)) (\<lambda>rows.
     io_bind (parse_traces (source_id + 1) ps) (\<lambda>rest. io_return (rows @ rest))))"

section \<open>Entropy and rank correlation\<close>

record libm =
  m_log :: "pyfloat \<Rightarrow> pyfloat res"
  m_exp :: "pyfloat \<Rightarrow> pyfloat res"
  m_sqrt :: "pyfloat \<Rightarrow> pyfloat res"

text \<open>\<open>tot\<close> is \<^verbatim>\<open>float(sum(values))\<close> and \<open>positive\<close> the floats of the positive values.\<close>

definition entropy_of :: "libm \<Rightarrow> pyfloat \<Rightarrow> pyfloat list \<Rightarrow> nat \<Rightarrow> (pyfloat \<times> pyfloat) res" where
  "entropy_of lib tot positive n =
     (if fle tot (Fin 0) then Inr (Fin 0, Fin 0)
      else rbind (mapR (\<lambda>v. fdiv v tot) positive) (\<lambda>probs.
           rbind (mapR (\<lambda>p. rmap (fmul p) (m_log lib p)) probs) (\<lambda>terms.
           let h = fneg (fsum terms) in
           rbind (if 1 < n then rbind (float_of_int (int n)) (\<lambda>m. rbind (m_log lib m) (fdiv h)) else Inr (Fin 0)) (\<lambda>normalized.
           rbind (m_exp lib h) (\<lambda>eff. Inr (normalized, eff))))))"

definition entropy_ints :: "libm \<Rightarrow> int list \<Rightarrow> (pyfloat \<times> pyfloat) res" where
  "entropy_ints lib xs =
     rbind (float_of_int (sum_list xs)) (\<lambda>tot.
     if fle tot (Fin 0) then Inr (Fin 0, Fin 0)
     else rbind (mapR float_of_int (filter (\<lambda>v. 0 < v) xs)) (\<lambda>ps. entropy_of lib tot ps (length xs)))"

definition entropy_floats :: "libm \<Rightarrow> pyfloat list \<Rightarrow> (pyfloat \<times> pyfloat) res" where
  "entropy_floats lib xs = entropy_of lib (fsum xs) (filter (\<lambda>v. flt (Fin 0) v) xs) (length xs)"

text \<open>
  Average ranks, over any values with Python's \<^verbatim>\<open><\<close> and \<^verbatim>\<open>==\<close>: the order by value and index is walked
  in runs of equal values, and every index of a run gets the run's mean rank.
\<close>

definition value_order :: "('a \<Rightarrow> 'a \<Rightarrow> bool) \<Rightarrow> ('a \<Rightarrow> 'a \<Rightarrow> bool) \<Rightarrow> 'a list \<Rightarrow> nat list" where
  "value_order lt eq xs = py_sort (\<lambda>i j. if \<not> eq (xs ! i) (xs ! j) then lt (xs ! i) (xs ! j) else i < j) [0..<length xs]"

function rank_runs :: "('a \<Rightarrow> 'a \<Rightarrow> bool) \<Rightarrow> 'a list \<Rightarrow> nat \<Rightarrow> nat list \<Rightarrow> pyfloat list \<Rightarrow> pyfloat list res" where
  "rank_runs eq xs pos [] rs  = Inr rs"
| "rank_runs eq xs pos (i # rest) rs =
     (let run = takeWhile (\<lambda>j. eq (xs ! j) (xs ! i)) rest;
          stop = pos + 1 + length run
      in rbind (rbind (float_of_int (int (pos + 1 + stop))) (\<lambda>x. fdiv x (Fin 2))) (\<lambda>r.
           rank_runs eq xs stop (drop (length run) rest)
             (foldl (\<lambda>ys j. ys[j := r]) rs (i # run))))"
  by pat_completeness auto
termination by (relation "measure (\<lambda>(eq, xs, pos, order, rs). length order)") auto

definition average_ranks :: "('a \<Rightarrow> 'a \<Rightarrow> bool) \<Rightarrow> ('a \<Rightarrow> 'a \<Rightarrow> bool) \<Rightarrow> 'a list \<Rightarrow> pyfloat list res" where
  "average_ranks lt eq xs = rank_runs eq xs 0 (value_order lt eq xs) (replicate (length xs) (Fin 0))"

definition mean :: "pyfloat list \<Rightarrow> pyfloat res" where
  "mean xs = rbind (float_of_int (int (length xs))) (fdiv (fsum xs))"

definition pearson :: "libm \<Rightarrow> pyfloat list \<Rightarrow> pyfloat list \<Rightarrow> pyfloat res" where
  "pearson lib a b =
     (if length a \<noteq> length b \<or> a = [] then Inr (Fin 0)
      else rbind (mean a) (\<lambda>ma. rbind (mean b) (\<lambda>mb.
        let da = map (\<lambda>x. fsub x ma) a; db = map (\<lambda>x. fsub x mb) b;
            va = fsum (map (\<lambda>x. fmul x x) da); vb = fsum (map (\<lambda>x. fmul x x) db)
        in if fle va (Fin 0) \<or> fle vb (Fin 0) then Inr (Fin 0)
           else rbind (m_sqrt lib (fmul va vb)) (\<lambda>d. fdiv (fsum (map2 fmul da db)) d))))"

definition spearman :: "libm \<Rightarrow> int list \<Rightarrow> pyfloat list \<Rightarrow> pyfloat res" where
  "spearman lib a b = rbind (average_ranks (<) (=) a) (\<lambda>ra. rbind (average_ranks flt feq b) (pearson lib ra))"

section \<open>Per-layer statistics\<close>

record expert_stats =
  es_selected :: int
  es_router_abs :: pyfloat
  es_l2 :: pyfloat
  es_saliency :: pyfloat
  es_sources :: "int list"

definition empty_stats :: expert_stats where
  "empty_stats = \<lparr>es_selected = 0, es_router_abs = Fin 0, es_l2 = Fin 0, es_saliency = Fin 0, es_sources = []\<rparr>"

definition add_row :: "expert_stats \<Rightarrow> route_row \<Rightarrow> expert_stats" where
  "add_row s r = \<lparr>es_selected = es_selected s + 1, es_router_abs = fadd (es_router_abs s) (fabs (rt_weight r)),
     es_l2 = fadd (es_l2 s) (rt_l2 r), es_saliency = fadd (es_saliency s) (rt_saliency r),
     es_sources = List.insert (rt_source r) (es_sources s)\<rparr>"

definition layer_table :: "nat \<Rightarrow> route_row list \<Rightarrow> (int \<times> expert_stats list) list" where
  "layer_table n rows = tally (replicate n empty_stats) rt_layer
     (\<lambda>ss r. ss[nat (rt_expert r) := add_row (ss ! nat (rt_expert r)) r]) [] rows"

definition route_events :: "route_row list \<Rightarrow> ((int \<times> int) \<times> int list) list" where
  "route_events rows = group_by (\<lambda>r. (rt_event r, rt_layer r)) rt_expert rows"

definition layer_events :: "route_row list \<Rightarrow> (int \<times> int) list" where
  "layer_events rows = tally 0 (\<lambda>((e, l), ids). l) (\<lambda>n _. n + 1) [] (route_events rows)"

definition coact_pairs :: "route_row list \<Rightarrow> int \<Rightarrow> ((int \<times> int) \<times> int) list" where
  "coact_pairs rows layer = tally 0 (\<lambda>k. k) (\<lambda>n _. n + 1) []
     (concat (map (\<lambda>((e, l), ids). if l = layer then pairs_of (sorted_set ids) else []) (route_events rows)))"

text \<open>\<^verbatim>\<open>Counter.most_common(n)\<close>\<close>

definition most_common :: "int \<Rightarrow> ('k \<times> int) list \<Rightarrow> ('k \<times> int) list" where
  "most_common n kvs = take (nat n) (sort_key (\<lambda>kv. - snd kv) kvs)"

section \<open>The pruning order\<close>

type_synonym prune_key = "pyfloat \<times> int \<times> int"

fun prune_lt :: "prune_key \<Rightarrow> prune_key \<Rightarrow> bool" where
  "prune_lt (a, b) (a', b') = (if \<not> feq a a' then flt a a' else b < b')"

definition prune_keys :: "expert_stats list \<Rightarrow> prune_key list" where
  "prune_keys ss = map (\<lambda>e. (es_saliency (ss ! e), es_selected (ss ! e), int e)) [0..<length ss]"

definition ranking :: "expert_stats list \<Rightarrow> int list" where
  "ranking ss = map (snd \<circ> snd) (py_sort prune_lt (prune_keys ss))"

definition seen_count :: "expert_stats list \<Rightarrow> int" where
  "seen_count ss = int (length (filter (\<lambda>s. 0 < es_selected s) ss))"

definition fratio :: "pyfloat \<Rightarrow> pyfloat \<Rightarrow> pyfloat res" where
  "fratio a b = (if b \<noteq> Fin 0 then fdiv a b else Inr (Fin 0))"

definition iratio :: "int \<Rightarrow> int \<Rightarrow> pyfloat res" where
  "iratio a b = (if b \<noteq> 0 then int_truediv a b else Inr (Fin 0))"

record layer_report =
  lr_layer :: int
  lr_events :: int
  lr_seen :: int
  lr_unseen :: int
  lr_selection_entropy :: "pyfloat \<times> pyfloat"
  lr_saliency_entropy :: "pyfloat \<times> pyfloat"
  lr_top1 :: pyfloat
  lr_top6 :: pyfloat
  lr_spearman :: pyfloat
  lr_experts :: "(expert_stats \<times> pyfloat) list"
  lr_order :: "int list"
  lr_pairs :: "((int \<times> int) \<times> int) list"

definition layer_report_of ::
  "libm \<Rightarrow> route_row list \<Rightarrow> int \<Rightarrow> int \<Rightarrow> int \<times> expert_stats list \<Rightarrow> layer_report res" where
  "layer_report_of lib rows n_experts coactivation_top ls = (case ls of (layer, ss) \<Rightarrow>
     let selected = map es_selected ss; saliency = map es_saliency ss;
         seen = seen_count ss; sel_total = sum_list selected;
         sorted_sel = rev (sort selected)
     in rbind (mapR (\<lambda>s. rmap (Pair s) (float_per (es_saliency s) (es_selected s))) ss) (\<lambda>experts.
        rbind (entropy_ints lib selected) (\<lambda>sel_h.
        rbind (entropy_floats lib saliency) (\<lambda>sal_h.
        rbind (iratio (hd sorted_sel) sel_total) (\<lambda>top1.
        rbind (iratio (sum_list (take 6 sorted_sel)) sel_total) (\<lambda>top6.
        rbind (spearman lib selected saliency) (\<lambda>rho.
          Inr \<lparr>lr_layer = layer, lr_events = dict_get 0 layer (layer_events rows), lr_seen = seen,
               lr_unseen = n_experts - seen, lr_selection_entropy = sel_h, lr_saliency_entropy = sal_h,
               lr_top1 = top1, lr_top6 = top6, lr_spearman = rho, lr_experts = experts,
               lr_order = ranking ss, lr_pairs = most_common coactivation_top (coact_pairs rows layer)\<rparr>)))))))"

definition total_saliency :: "(int \<times> expert_stats list) list \<Rightarrow> pyfloat" where
  "total_saliency layers = fsum (map (\<lambda>(l, ss). fsum (map es_saliency ss)) layers)"

definition support_histogram :: "(int \<times> expert_stats list) list \<Rightarrow> (int \<times> int) list" where
  "support_histogram layers = sort_key fst (tally 0 (\<lambda>s. int (length (es_sources s))) (\<lambda>n _. n + 1) []
     (concat (map snd layers)))"

section \<open>Masks\<close>

type_synonym disabled_slot = "int \<times> int \<times> pyfloat \<times> int"

definition layer_disabled :: "int \<Rightarrow> expert_stats list \<Rightarrow> int list" where
  "layer_disabled prune_n ss = take (nat prune_n) (ranking ss)"

definition slot_of :: "int \<Rightarrow> expert_stats list \<Rightarrow> int \<Rightarrow> disabled_slot" where
  "slot_of layer ss e = (layer, e, es_saliency (ss ! nat e), es_selected (ss ! nat e))"

record layer_impact =
  li_disabled :: int
  li_seen :: int
  li_unseen :: int
  li_fraction :: pyfloat

record keep_report =
  kr_keep :: int
  kr_disabled :: int
  kr_per_layer :: int
  kr_seen :: int
  kr_unseen :: int
  kr_fraction :: pyfloat
  kr_layers :: "(int \<times> layer_impact) list"

definition layer_seen :: "int \<Rightarrow> expert_stats list \<Rightarrow> int" where
  "layer_seen prune_n ss = int (length (filter (\<lambda>e. 0 < es_selected (ss ! nat e)) (layer_disabled prune_n ss)))"

definition layer_disabled_saliency :: "int \<Rightarrow> expert_stats list \<Rightarrow> pyfloat" where
  "layer_disabled_saliency prune_n ss = fsum (map (\<lambda>e. es_saliency (ss ! nat e)) (layer_disabled prune_n ss))"

definition impact_of :: "int \<Rightarrow> int \<times> expert_stats list \<Rightarrow> (int \<times> layer_impact) res" where
  "impact_of prune_n ls = (case ls of (layer, ss) \<Rightarrow>
     let k = int (length (layer_disabled prune_n ss)) in
     rbind (fratio (layer_disabled_saliency prune_n ss) (fsum (map es_saliency ss))) (\<lambda>q.
       Inr (layer, \<lparr>li_disabled = k, li_seen = layer_seen prune_n ss,
                    li_unseen = k - layer_seen prune_n ss, li_fraction = q\<rparr>)))"

definition keep_mask :: "int \<Rightarrow> (int \<times> expert_stats list) list \<Rightarrow> int \<Rightarrow> (disabled_slot list \<times> keep_report) res" where
  "keep_mask n_experts layers keep =
     (if keep < 1 \<or> n_experts < keep then Inl (ValueError ''invalid --keep'')
      else let prune_n = n_experts - keep;
               disabled = concat (map (\<lambda>(l, ss). map (slot_of l ss) (layer_disabled prune_n ss)) layers);
               seen = sum_list (map (\<lambda>(l, ss). layer_seen prune_n ss) layers);
               lost = fsum (map (\<lambda>(l, ss). layer_disabled_saliency prune_n ss) layers)
           in rbind (mapR (impact_of prune_n) layers) (\<lambda>impacts.
              rbind (fratio lost (total_saliency layers)) (\<lambda>q.
                Inr (disabled, \<lparr>kr_keep = keep, kr_disabled = int (length disabled), kr_per_layer = prune_n,
                  kr_seen = seen, kr_unseen = int (length disabled) - seen, kr_fraction = q,
                  kr_layers = impacts\<rparr>))))"

record unseen_report =
  ur_cap :: int
  ur_disabled :: int
  ur_min :: int
  ur_mean :: pyfloat
  ur_max :: int

definition unseen_experts :: "expert_stats list \<Rightarrow> int list" where
  "unseen_experts ss = map int (filter (\<lambda>e. es_selected (ss ! e) = 0) [0..<length ss])"

definition unseen_mask :: "int \<Rightarrow> (int \<times> expert_stats list) list \<Rightarrow> int \<Rightarrow> (disabled_slot list \<times> unseen_report) res" where
  "unseen_mask n_experts layers cap =
     (if cap < 0 \<or> n_experts < cap then Inl (ValueError ''invalid --unseen-cap'')
      else let chosen = \<lambda>ss. take (nat cap) (unseen_experts ss);
               disabled = concat (map (\<lambda>(l, ss). map (\<lambda>e. (l, e, Fin 0, 0)) (chosen ss)) layers);
               kept = map (\<lambda>(l, ss). n_experts - int (length (chosen ss))) layers
           in rbind (if kept \<noteq> [] then int_truediv (sum_list kept) (int (length kept)) else float_of_int n_experts) (\<lambda>m.
                Inr (disabled, \<lparr>ur_cap = cap, ur_disabled = int (length disabled),
                  ur_min = (if kept \<noteq> [] then Min (set kept) else n_experts), ur_mean = m,
                  ur_max = (if kept \<noteq> [] then Max (set kept) else n_experts)\<rparr>)))"

section \<open>The analysis\<close>

record coverage =
  cv_layers :: int
  cv_slots :: int
  cv_seen :: int
  cv_unseen :: int
  cv_fraction :: pyfloat
  cv_min :: int
  cv_mean :: pyfloat
  cv_max :: int
  cv_histogram :: "(int \<times> int) list"

definition coverage_of :: "int \<Rightarrow> (int \<times> expert_stats list) list \<Rightarrow> coverage res" where
  "coverage_of n_experts layers =
     (let seen = map (\<lambda>(l, ss). seen_count ss) layers; cnt = int (length layers);
          slots = cnt * n_experts; seen_slots = sum_list seen
      in rbind (iratio seen_slots slots) (\<lambda>q. rbind (iratio seen_slots cnt) (\<lambda>m.
           Inr \<lparr>cv_layers = cnt, cv_slots = slots, cv_seen = seen_slots, cv_unseen = slots - seen_slots,
                cv_fraction = q, cv_min = (if seen \<noteq> [] then Min (set seen) else 0), cv_mean = m,
                cv_max = (if seen \<noteq> [] then Max (set seen) else 0), cv_histogram = support_histogram layers\<rparr>)))"

record trace_report =
  rp_rows :: nat
  rp_layers :: "layer_report list"
  rp_masks :: "(int \<times> keep_report) list"
  rp_unseen :: "(int \<times> unseen_report) list"
  rp_coverage :: coverage

definition analyze ::
  "libm \<Rightarrow> route_row list \<Rightarrow> int \<Rightarrow> int list \<Rightarrow> int \<Rightarrow> int list \<Rightarrow>
   (trace_report \<times> (int \<times> disabled_slot list) list \<times> (int \<times> disabled_slot list) list) res" where
  "analyze lib rows n_experts keep_values coactivation_top unseen_caps =
     (if list_ex (\<lambda>r. n_experts \<le> rt_expert r) rows then Inl (ValueError ''trace expert exceeds --n-experts'')
      else let layers = sort_key fst (layer_table (nat n_experts) rows) in
        rbind (mapR (layer_report_of lib rows n_experts coactivation_top) layers) (\<lambda>reports.
        rbind (mapR (\<lambda>k. rmap (Pair k) (keep_mask n_experts layers k)) keep_values) (\<lambda>keeps.
        rbind (mapR (\<lambda>c. rmap (Pair c) (unseen_mask n_experts layers c)) unseen_caps) (\<lambda>caps.
        rbind (coverage_of n_experts layers) (\<lambda>cov.
          let masks = foldl (\<lambda>d (k, v). dict_set k v d) [] keeps;
              unseen = foldl (\<lambda>d (k, v). dict_set k v d) [] caps
          in Inr (\<lparr>rp_rows = length rows, rp_layers = reports,
                   rp_masks = map (\<lambda>(k, d, r). (k, r)) masks, rp_unseen = map (\<lambda>(k, d, r). (k, r)) unseen,
                   rp_coverage = cov\<rparr>,
                  map (\<lambda>(k, d, r). (k, d)) masks, map (\<lambda>(k, d, r). (k, d)) unseen))))))"

section \<open>Writing a mask\<close>

definition mask_row :: "(pyfloat \<Rightarrow> string) \<Rightarrow> disabled_slot \<Rightarrow> string" where
  "mask_row fmt s = (case s of (layer, expert, saliency, cnt) \<Rightarrow>
     show_int layer @ '' '' @ show_int expert @ '' # saliency='' @ fmt saliency @ '' selected='' @ show_int cnt)"

definition mask_text :: "(pyfloat \<Rightarrow> string) \<Rightarrow> string \<Rightarrow> int \<Rightarrow> disabled_slot list \<Rightarrow> string" where
  "mask_text fmt description n_experts disabled = concat (map (\<lambda>l. l @ [LF])
     ([''# KVL_MOE_MASK_V1'', ''# n_experts='' @ show_int n_experts @ '' '' @ description,
       ''# columns: layer expert ; comments show calibration saliency/count''] @ map (mask_row fmt) disabled))"

definition write_mask :: "(pyfloat \<Rightarrow> string) \<Rightarrow> string \<Rightarrow> string \<Rightarrow> int \<Rightarrow> disabled_slot list \<Rightarrow> unit io" where
  "write_mask fmt path description n_experts disabled = write_text path (mask_text fmt description n_experts disabled)"

section \<open>The tables, row by row\<close>

definition rows_of :: "route_row list \<Rightarrow> int \<Rightarrow> int \<Rightarrow> route_row list" where
  "rows_of rows l e = filter (\<lambda>r. rt_layer r = l \<and> rt_expert r = e) rows"

definition slot_saliency :: "route_row list \<Rightarrow> int \<Rightarrow> int \<Rightarrow> pyfloat" where
  "slot_saliency rows l e = fsum (map rt_saliency (rows_of rows l e))"

lemma layer_fold:
  assumes "\<forall>r \<in> set xs. nat (rt_expert r) < length ss"
  shows "length (foldl (\<lambda>ss r. ss[nat (rt_expert r) := add_row (ss ! nat (rt_expert r)) r]) ss xs) = length ss \<and>
    (\<forall>e < length ss. foldl (\<lambda>ss r. ss[nat (rt_expert r) := add_row (ss ! nat (rt_expert r)) r]) ss xs ! e =
       foldl add_row (ss ! e) (filter (\<lambda>r. nat (rt_expert r) = e) xs))"
  using assms by (induction xs arbitrary: ss) auto

lemma add_rows_fields:
  "es_selected (foldl add_row s xs) = es_selected s + int (length xs)"
  "es_saliency (foldl add_row s xs) = foldl fadd (es_saliency s) (map rt_saliency xs)"
  by (induction xs arbitrary: s) (simp_all add: add_row_def)

definition rows_within :: "int \<Rightarrow> route_row list \<Rightarrow> bool" where
  "rows_within n rows = (\<forall>r \<in> set rows. 0 \<le> rt_expert r \<and> rt_expert r < n)"

lemma layer_table_mem:
  assumes "(l, ss) \<in> set (layer_table (nat n) rows)" "rows_within n rows"
  shows "length ss = nat n \<and> l \<in> rt_layer ` set rows \<and>
    (\<forall>e. 0 \<le> e \<and> e < n \<longrightarrow> es_selected (ss ! nat e) = int (length (rows_of rows l e)) \<and>
       es_saliency (ss ! nat e) = slot_saliency rows l e)"
proof -
  let ?xs = "filter (\<lambda>r. rt_layer r = l) rows"
  have ss: "ss = foldl (\<lambda>ss r. ss[nat (rt_expert r) := add_row (ss ! nat (rt_expert r)) r]) (replicate (nat n) empty_stats) ?xs"
    and l: "l \<in> rt_layer ` set rows"
    using tally_mem [OF assms(1) [unfolded layer_table_def]] by simp_all
  have b: "\<forall>r \<in> set ?xs. nat (rt_expert r) < length (replicate (nat n) empty_stats)"
    using assms(2) by (auto simp: rows_within_def)
  note F = layer_fold [OF b, folded ss]
  have "ss ! nat e = foldl add_row empty_stats (rows_of rows l e)" if e: "0 \<le> e" "e < n" for e
  proof -
    have "nat e < nat n" using e by simp
    then have "ss ! nat e = foldl add_row empty_stats (filter (\<lambda>r. nat (rt_expert r) = nat e) ?xs)"
      using F by simp
    also have "filter (\<lambda>r. nat (rt_expert r) = nat e) ?xs = rows_of rows l e"
      unfolding rows_of_def filter_filter
      by (rule filter_cong) (use assms(2) e in \<open>auto simp: rows_within_def\<close>)
    finally show ?thesis .
  qed
  then show ?thesis using F l
    by (simp add: add_rows_fields slot_saliency_def fsum_def) (simp add: empty_stats_def)
qed

lemma layer_table_keys: "fst ` set (layer_table n rows) = rt_layer ` set rows" "distinct (map fst (layer_table n rows))"
  by (simp_all add: layer_table_def tally_keys distinct_tally)

section \<open>The pruning order is an order\<close>

definition orderable :: "prune_key \<Rightarrow> bool" where
  "orderable k = (fst k \<noteq> NaN)"

interpretation prune: weak_order prune_lt orderable
proof
  fix x y z :: prune_key
  obtain a b where x: "x = (a, b)" by (rule prod.exhaust)
  obtain a' b' where y: "y = (a', b')" by (rule prod.exhaust)
  obtain a'' b'' where z: "z = (a'', b'')" by (rule prod.exhaust)
  have eq: "feq u v \<longleftrightarrow> u = v" if "u \<noteq> NaN" "v \<noteq> NaN" for u v
    using that by (auto simp: feq_def fle_refl fle_antisym)
  show "orderable x \<Longrightarrow> \<not> prune_lt x x"
    by (auto simp: x orderable_def eq)
  show "orderable x \<Longrightarrow> orderable y \<Longrightarrow> prune_lt x y \<Longrightarrow> \<not> prune_lt y x"
    by (auto simp: x y orderable_def eq flt_def split: if_splits)
  show "orderable x \<Longrightarrow> orderable y \<Longrightarrow> orderable z \<Longrightarrow> \<not> prune_lt y x \<Longrightarrow> \<not> prune_lt z y \<Longrightarrow> \<not> prune_lt z x"
    by (auto simp: x y z orderable_def eq flt_not_fle split: if_splits dest: fle_antisym fle_trans)
qed

lemma ranking_perm: "mset (ranking ss) = mset (map int [0..<length ss])"
proof -
  have "mset (ranking ss) = image_mset (snd \<circ> snd) (mset (prune_keys ss))"
    by (simp add: ranking_def)
  also have "\<dots> = mset (map (snd \<circ> snd) (prune_keys ss))" by simp
  also have "map (snd \<circ> snd) (prune_keys ss) = map int [0..<length ss]" by (simp add: prune_keys_def)
  finally show ?thesis .
qed

lemma ranking_set: "set (ranking ss) = {0..<int (length ss)}" "distinct (ranking ss)" "length (ranking ss) = length ss"
proof -
  have "set (ranking ss) = int ` {0..<length ss}"
    using ranking_perm [of ss] by (metis atLeast0LessThan atLeast_upt list.set_map set_mset_mset)
  also have "\<dots> = {0..<int (length ss)}" by (simp add: image_int_atLeastLessThan)
  finally show "set (ranking ss) = {0..<int (length ss)}" .
  show "distinct (ranking ss)" using ranking_perm [of ss]
    by (metis distinct_map distinct_upt inj_on_of_nat mset_eq_imp_distinct_iff)
  show "length (ranking ss) = length ss" using ranking_perm [of ss] by (metis diff_zero length_map length_upt size_mset)
qed

text \<open>What a prefix of the order leaves out is no lighter than what it holds.\<close>

lemma ranking_prefix:
  assumes "\<forall>s \<in> set ss. es_saliency s \<noteq> NaN" "e \<in> set (take k (ranking ss))" "f \<in> set (ranking ss) - set (take k (ranking ss))"
  shows "\<not> flt (es_saliency (ss ! nat f)) (es_saliency (ss ! nat e))"
proof -
  let ?K = "py_sort prune_lt (prune_keys ss)"
  have key: "x = (es_saliency (ss ! nat (snd (snd x))), es_selected (ss ! nat (snd (snd x))), snd (snd x)) \<and> fst x \<noteq> NaN"
    if "x \<in> set ?K" for x
    using that assms(1) by (auto simp: prune_keys_def)
  have "list_all orderable (prune_keys ss)" using assms(1) by (auto simp: list_all_iff orderable_def prune_keys_def)
  then have "sorted_wrt (\<lambda>a b. \<not> prune_lt b a) (take k ?K @ drop k ?K)"
    using prune.sorted_py_sort by simp
  then have cross: "\<And>x y. x \<in> set (take k ?K) \<Longrightarrow> y \<in> set (drop k ?K) \<Longrightarrow> \<not> prune_lt y x"
    unfolding sorted_wrt_append by blast
  obtain x where x: "x \<in> set (take k ?K)" "e = snd (snd x)"
    using assms(2) by (auto simp: ranking_def take_map)
  have "f \<in> set (drop k (ranking ss))" using assms(3) by (metis DiffE Un_iff append_take_drop_id set_append)
  then obtain y where y: "y \<in> set (drop k ?K)" "f = snd (snd y)" by (auto simp: ranking_def drop_map)
  have xy: "\<not> prune_lt y x" by (rule cross [OF x(1) y(1)])
  have kx: "fst x = es_saliency (ss ! nat e)" and ky: "fst y = es_saliency (ss ! nat f)"
    using key [of x] key [of y] x y in_set_takeD in_set_dropD by (metis fst_conv)+
  show ?thesis using xy kx ky by (cases x; cases y) (auto simp: feq_def flt_def split: if_splits)
qed

lemma saliency_not_NaN:
  assumes "\<forall>r \<in> set rows. nonneg (rt_saliency r)"
  shows "slot_saliency rows l e \<noteq> NaN"
proof -
  have "nonneg (foldl fadd a xs)" if "nonneg a" "\<forall>x \<in> set xs. nonneg x" for a xs
    using that by (induction xs arbitrary: a) (auto simp: nonneg_fadd)
  then have "nonneg (slot_saliency rows l e)"
    using assms by (auto simp: slot_saliency_def fsum_def rows_of_def nonneg_def)
  then show ?thesis by (auto simp: nonneg_def)
qed

section \<open>What the masks disable\<close>

lemma dict_build_mem: "x \<in> set (foldl (\<lambda>d (k, v). dict_set k v d) acc kvs) \<Longrightarrow> x \<in> set acc \<union> set kvs"
proof (induction kvs arbitrary: acc)
  case (Cons y kvs)
  obtain k v where y: "y = (k, v)" by fastforce
  have "x \<in> set (dict_set k v acc) \<Longrightarrow> x \<in> set acc \<union> {(k, v)}" for acc
    by (induction k v acc rule: dict_set.induct) (auto split: if_splits)
  then show ?case using Cons.IH [of "dict_set k v acc"] Cons.prems by (auto simp: y)
qed simp

lemma parse_route_row_expert: "parse_route_row sid l = Inr r \<Longrightarrow> 0 \<le> rt_expert r"
  unfolding parse_route_row_def Let_def guard_iff
  by (elim conjE rbind_InrE) (unfold guard_iff, elim conjE, drule Inr_inject, hypsubst,
      simp only: route_row.simps de_Morgan_disj not_less)

lemma parse_traces_ok:
  "parse_traces sid ps s = (Inr rows, s') \<Longrightarrow> s' = s \<and> (\<forall>r \<in> set rows. 0 \<le> rt_expert r)"
proof (induction sid ps arbitrary: s rows s' rule: parse_traces.induct)
  case (2 sid p ps)
  obtain t rs s1 rest where t: "parse_route_text sid t = Inr rs" "parse_traces (sid + 1) ps s = (Inr rest, s1)"
    "rows = rs @ rest" "s' = s1"
    using "2.prems" by (auto simp: io_bind_eq_Inr dest!: read_text_only)
  obtain ls where "mapR (parse_route_row sid) ls = Inr rs"
    using t(1) by (auto simp: parse_route_text_def split: if_splits elim!: rbind_InrE)
  from mapR_source [OF this] have "\<forall>r \<in> set rs. 0 \<le> rt_expert r" by (auto dest: parse_route_row_expert)
  then show ?case using "2.IH" [OF t(2)] t(3,4) by auto
qed simp

lemma analyze_parts:
  assumes "analyze lib rows n keeps best caps = Inr (rep, masks, unseen)"
  shows "(\<forall>r \<in> set rows. rt_expert r < n) \<and>
    ((k, d) \<in> set masks \<longrightarrow> (\<exists>r. keep_mask n (sort_key fst (layer_table (nat n) rows)) k = Inr (d, r))) \<and>
    ((c, d) \<in> set unseen \<longrightarrow> (\<exists>r. unseen_mask n (sort_key fst (layer_table (nat n) rows)) c = Inr (d, r))) \<and>
    coverage_of n (sort_key fst (layer_table (nat n) rows)) = Inr (rp_coverage rep)"
proof -
  let ?L = "sort_key fst (layer_table (nat n) rows)"
  obtain ks cs cov where lt: "\<forall>r \<in> set rows. rt_expert r < n"
    and ks: "mapR (\<lambda>k. rmap (Pair k) (keep_mask n ?L k)) keeps = Inr ks"
    and cs: "mapR (\<lambda>c. rmap (Pair c) (unseen_mask n ?L c)) caps = Inr cs"
    and cov: "coverage_of n ?L = Inr (rp_coverage rep)"
    and m: "masks = map (\<lambda>(k, d, r). (k, d)) (foldl (\<lambda>d (k, v). dict_set k v d) [] ks)"
    and u: "unseen = map (\<lambda>(k, d, r). (k, d)) (foldl (\<lambda>d (k, v). dict_set k v d) [] cs)"
    using assms by (auto simp: analyze_def Let_def list_ex_iff not_le split: if_splits elim!: rbind_InrE)
  have "\<exists>r. keep_mask n ?L k = Inr (d, r)" if kd: "(k, d) \<in> set masks"
  proof -
    obtain r where "(k, d, r) \<in> set (foldl (\<lambda>d (k, v). dict_set k v d) [] ks)" using kd m by auto
    then have "(k, d, r) \<in> set ks" using dict_build_mem by fastforce
    from mapR_source [OF ks this] show ?thesis by (auto simp: rmap_eq_Inr)
  qed
  moreover have "\<exists>r. unseen_mask n ?L c = Inr (d, r)" if cd: "(c, d) \<in> set unseen"
  proof -
    obtain r where "(c, d, r) \<in> set (foldl (\<lambda>d (k, v). dict_set k v d) [] cs)" using cd u by auto
    then have "(c, d, r) \<in> set cs" using dict_build_mem by fastforce
    from mapR_source [OF cs this] show ?thesis by (auto simp: rmap_eq_Inr)
  qed
  ultimately show ?thesis using lt cov by blast
qed

text \<open>The experts a list of slots disables in a layer, in order.\<close>

definition disabled_in :: "disabled_slot list \<Rightarrow> int \<Rightarrow> int list" where
  "disabled_in ds l = map (\<lambda>(l', e, s, c). e) (filter (\<lambda>(l', e, s, c). l' = l) ds)"

lemma disabled_in_concat:
  assumes "distinct (map fst layers)" "(l, ss) \<in> set layers" "\<And>l ss e. fst (f l ss e) = l \<and> fst (snd (f l ss e)) = e"
  shows "disabled_in (concat (map (\<lambda>(l, ss). map (f l ss) (g ss)) layers)) l = g ss"
  using assms(1,2)
proof (induction layers)
  case (Cons x layers)
  obtain l' ss' where x: "x = (l', ss')" by fastforce
  have same: "disabled_in (map (f l ss) es) l = es" for l ss es
    using assms(3) by (induction es) (auto simp: disabled_in_def split_beta)
  have other: "l'' \<noteq> l \<Longrightarrow> disabled_in (map (f l'' ss) es) l = []" for l'' ss es
    using assms(3) by (auto simp: disabled_in_def split_beta filter_empty_conv)
  have app: "disabled_in (xs @ ys) l = disabled_in xs l @ disabled_in ys l" for xs ys
    by (simp add: disabled_in_def)
  have none: "disabled_in (concat (map (\<lambda>(l, ss). map (f l ss) (g ss)) layers)) l = []" if "l \<notin> fst ` set layers"
    using that other app by (induction layers) (auto simp: disabled_in_def)
  show ?case
  proof (cases "l' = l")
    case True
    then have "l \<notin> fst ` set layers" using Cons.prems(1) x by auto
    moreover have "ss' = ss" using Cons.prems True x \<open>l \<notin> fst ` set layers\<close> by force
    ultimately show ?thesis using True x none same app by simp
  next
    case False
    then show ?thesis using Cons x other app by auto
  qed
qed simp

text \<open>C27: a keep-N mask disables exactly the least salient experts. For traces without negative or NaN
  saliency, every mask the analysis emits for --keep k disables, in each layer of the traces,
  exactly n_experts - k distinct experts below n_experts, and no expert it keeps has a lower
  total saliency over the traces than an expert it disables.
\<close>
theorem keep_masks_disable_least_salient:
  assumes "parse_traces 1 paths s = (Inr rows, s')" "\<forall>r \<in> set rows. nonneg (rt_saliency r)"
    and "analyze lib rows n keeps best caps = Inr (rep, masks, unseen)"
    and "(k, disabled) \<in> set masks" "l \<in> rt_layer ` set rows"
  shows "distinct (disabled_in disabled l) \<and> int (length (disabled_in disabled l)) = n - k \<and>
    set (disabled_in disabled l) \<subseteq> {0..<n} \<and>
    (\<forall>e \<in> set (disabled_in disabled l). \<forall>f \<in> {0..<n} - set (disabled_in disabled l).
       \<not> flt (slot_saliency rows l f) (slot_saliency rows l e))"
proof -
  let ?L = "sort_key fst (layer_table (nat n) rows)"
  have within: "rows_within n rows"
    using parse_traces_ok [OF assms(1)] analyze_parts [OF assms(3)] by (auto simp: rows_within_def)
  obtain r where km: "keep_mask n ?L k = Inr (disabled, r)" using analyze_parts [OF assms(3)] assms(4) by blast
  then have k: "1 \<le> k" "k \<le> n" and d: "disabled = concat (map (\<lambda>(l, ss). map (slot_of l ss) (layer_disabled (n - k) ss)) ?L)"
    by (auto simp: keep_mask_def Let_def split: if_splits elim!: rbind_InrE)
  obtain ss where ss: "(l, ss) \<in> set (layer_table (nat n) rows)"
    using assms(5) layer_table_keys(1) [of "nat n" rows] by force
  note T = layer_table_mem [OF ss within]
  have "distinct (map fst ?L)"
    using layer_table_keys(2) [of "nat n" rows] by (simp add: distinct_map)
  then have di: "disabled_in disabled l = take (nat (n - k)) (ranking ss)"
    unfolding d using ss by (subst disabled_in_concat [where g = "layer_disabled (n - k)" and ss = ss])
      (auto simp: slot_of_def layer_disabled_def)
  have len: "int (length ss) = n" using T k by simp
  have nan: "\<forall>s \<in> set ss. es_saliency s \<noteq> NaN"
  proof
    fix s assume "s \<in> set ss"
    then obtain i where i: "i < length ss" "s = ss ! i" by (auto simp: in_set_conv_nth)
    then have "es_saliency s = slot_saliency rows l (int i)" using T len by (metis nat_int of_nat_0_le_iff of_nat_less_iff)
    then show "es_saliency s \<noteq> NaN" using saliency_not_NaN [OF assms(2)] by simp
  qed
  have sal: "es_saliency (ss ! nat e) = slot_saliency rows l e" if "e \<in> {0..<n}" for e using T that by auto
  have set: "set (ranking ss) = {0..<n}" "distinct (ranking ss)" "length (ranking ss) = length ss"
    using ranking_set [of ss] len by simp_all
  have sub: "set (disabled_in disabled l) \<subseteq> {0..<n}" using set(1) di by (metis set_take_subset)
  have "\<not> flt (slot_saliency rows l f) (slot_saliency rows l e)"
    if e: "e \<in> set (disabled_in disabled l)" and f: "f \<in> {0..<n} - set (disabled_in disabled l)" for e f
  proof -
    have "\<not> flt (es_saliency (ss ! nat f)) (es_saliency (ss ! nat e))"
      by (rule ranking_prefix [OF nan, where k = "nat (n - k)"]) (use e f di set(1) in simp_all)
    then show ?thesis using sal [of e] sal [of f] e f sub by auto
  qed
  then show ?thesis using set di sub len k by simp
qed

text \<open>An unseen-cap mask never disables an expert the calibration used. Every slot such a mask
  disables belongs to a layer of the traces and to an expert no trace row selects in that layer,
  and in each layer the mask disables as many unseen experts as there are, up to the cap.
\<close>
theorem unseen_masks_spare_seen_experts:
  assumes "parse_traces 1 paths s = (Inr rows, s')"
    and "analyze lib rows n keeps best caps = Inr (rep, masks, unseen)"
    and "(c, disabled) \<in> set unseen" "l \<in> rt_layer ` set rows"
  shows "(\<forall>e \<in> set (disabled_in disabled l). 0 \<le> e \<and> e < n \<and> rows_of rows l e = []) \<and>
    distinct (disabled_in disabled l) \<and>
    int (length (disabled_in disabled l)) = min c (int (card {e \<in> {0..<n}. rows_of rows l e = []}))"
proof -
  let ?L = "sort_key fst (layer_table (nat n) rows)"
  have within: "rows_within n rows"
    using parse_traces_ok [OF assms(1)] analyze_parts [OF assms(2)] by (auto simp: rows_within_def)
  obtain r where um: "unseen_mask n ?L c = Inr (disabled, r)" using analyze_parts [OF assms(2)] assms(3) by blast
  then have c: "0 \<le> c" "c \<le> n"
    and d: "disabled = concat (map (\<lambda>(l, ss). map ((\<lambda>l ss e. (l, e, Fin 0, 0)) l ss) (take (nat c) (unseen_experts ss))) ?L)"
    by (auto simp: unseen_mask_def Let_def split: if_splits elim!: rbind_InrE)
  obtain ss where ss: "(l, ss) \<in> set (layer_table (nat n) rows)"
    using assms(4) layer_table_keys(1) [of "nat n" rows] by force
  note T = layer_table_mem [OF ss within]
  have "distinct (map fst ?L)"
    using layer_table_keys(2) [of "nat n" rows] by (simp add: distinct_map)
  then have di: "disabled_in disabled l = take (nat c) (unseen_experts ss)"
    unfolding d using ss by (subst disabled_in_concat [where g = "\<lambda>ss. take (nat c) (unseen_experts ss)" and ss = ss]) simp_all
  have len: "length ss = nat n" "0 \<le> n" using T c by simp_all
  have U: "set (unseen_experts ss) = {e \<in> {0..<n}. rows_of rows l e = []}"
  proof (rule set_eqI)
    fix e
    have "e \<in> set (unseen_experts ss) \<longleftrightarrow> 0 \<le> e \<and> e < n \<and> es_selected (ss ! nat e) = 0"
    proof (cases "0 \<le> e")
      case True
      then obtain i where "e = int i" using nonneg_int_cases by blast
      then show ?thesis using len by (auto simp: unseen_experts_def)
    qed (auto simp: unseen_experts_def)
    then show "e \<in> set (unseen_experts ss) \<longleftrightarrow> e \<in> {e \<in> {0..<n}. rows_of rows l e = []}"
      using T by auto
  qed
  have dist: "distinct (unseen_experts ss)" by (simp add: unseen_experts_def distinct_map)
  have "length (unseen_experts ss) = card {e \<in> {0..<n}. rows_of rows l e = []}"
    using distinct_card [OF dist] U by simp
  then show ?thesis using di U dist c in_set_takeD by (auto dest: in_set_takeD)
qed

section \<open>Coverage\<close>

lemma seen_count_card:
  assumes "(l, ss) \<in> set (layer_table (nat n) rows)" "rows_within n rows"
  shows "seen_count ss = int (card {e. \<exists>r \<in> set rows. rt_layer r = l \<and> rt_expert r = e})"
proof -
  note T = layer_table_mem [OF assms]
  have sel: "0 < es_selected (ss ! i) \<longleftrightarrow> (\<exists>r \<in> set rows. rt_layer r = l \<and> rt_expert r = int i)" if i: "i < length ss" for i
  proof -
    have "0 \<le> int i \<and> int i < n" using i T by auto
    then have "es_selected (ss ! nat (int i)) = int (length (rows_of rows l (int i)))" using T by blast
    then show ?thesis by (auto simp: rows_of_def filter_empty_conv)
  qed
  have "seen_count ss = int (card {i. i < length ss \<and> 0 < es_selected (ss ! i)})"
    by (simp add: seen_count_def length_filter_conv_card)
  also have "{i. i < length ss \<and> 0 < es_selected (ss ! i)} =
      nat ` {e. \<exists>r \<in> set rows. rt_layer r = l \<and> rt_expert r = e}"
  proof (rule set_eqI)
    fix i
    show "i \<in> {i. i < length ss \<and> 0 < es_selected (ss ! i)} \<longleftrightarrow>
        i \<in> nat ` {e. \<exists>r \<in> set rows. rt_layer r = l \<and> rt_expert r = e}"
    proof
      assume "i \<in> {i. i < length ss \<and> 0 < es_selected (ss ! i)}"
      then have "\<exists>r \<in> set rows. rt_layer r = l \<and> rt_expert r = int i" using sel by blast
      then show "i \<in> nat ` {e. \<exists>r \<in> set rows. rt_layer r = l \<and> rt_expert r = e}"
        by (intro image_eqI [of _ _ "int i"] CollectI) simp_all
    next
      assume "i \<in> nat ` {e. \<exists>r \<in> set rows. rt_layer r = l \<and> rt_expert r = e}"
      then obtain r where r: "r \<in> set rows" "rt_layer r = l" "i = nat (rt_expert r)" by (elim imageE CollectE bexE conjE) simp
      then have "i < length ss" "rt_expert r = int i" using assms(2) T by (auto simp: rows_within_def)
      then have "\<exists>r \<in> set rows. rt_layer r = l \<and> rt_expert r = int i" using r(1,2) by (intro bexI [of _ r]) simp_all
      then show "i \<in> {i. i < length ss \<and> 0 < es_selected (ss ! i)}"
        using sel [OF \<open>i < length ss\<close>] \<open>i < length ss\<close> by blast
    qed
  qed
  also have "card (nat ` {e. \<exists>r \<in> set rows. rt_layer r = l \<and> rt_expert r = e}) =
      card {e. \<exists>r \<in> set rows. rt_layer r = l \<and> rt_expert r = e}"
  proof (rule card_image, rule inj_on_subset)
    show "inj_on nat {0..}" by (auto simp: inj_on_def)
    show "{e. \<exists>r \<in> set rows. rt_layer r = l \<and> rt_expert r = e} \<subseteq> {0..}"
      using assms(2) by (auto simp: rows_within_def)
  qed
  finally show ?thesis .
qed

lemma coverage_of_fields:
  "coverage_of n L = Inr cv \<Longrightarrow> cv_slots cv = int (length L) * n \<and>
    cv_seen cv = sum_list (map (\<lambda>(l, ss). seen_count ss) L) \<and> cv_unseen cv = cv_slots cv - cv_seen cv \<and>
    iratio (cv_seen cv) (cv_slots cv) = Inr (cv_fraction cv)"
  by (auto simp: coverage_of_def Let_def elim!: rbind_InrE)

text \<open>The coverage report counts slots exactly. Of the slots (layers of the traces times
  n_experts), the seen ones are exactly as many as there are distinct layer and expert pairs in
  the trace rows, the unseen ones are the rest, and the seen fraction lies between 0 and 1.
\<close>
theorem coverage_counts_slots:
  assumes "parse_traces 1 paths s = (Inr rows, s')"
    and "analyze lib rows n keeps best caps = Inr (rep, masks, unseen)"
  shows "cv_slots (rp_coverage rep) = int (card (rt_layer ` set rows)) * n \<and>
    cv_seen (rp_coverage rep) = int (card ((\<lambda>r. (rt_layer r, rt_expert r)) ` set rows)) \<and>
    cv_seen (rp_coverage rep) + cv_unseen (rp_coverage rep) = cv_slots (rp_coverage rep) \<and>
    0 \<le> cv_unseen (rp_coverage rep) \<and>
    (\<exists>q. cv_fraction (rp_coverage rep) = Fin q \<and> 0 \<le> q \<and> q \<le> 1)"
proof -
  let ?T = "layer_table (nat n) rows" and ?cv = "rp_coverage rep"
  have within: "rows_within n rows"
    using parse_traces_ok [OF assms(1)] analyze_parts [OF assms(2)] by (auto simp: rows_within_def)
  have cov: "coverage_of n (sort_key fst ?T) = Inr ?cv" using analyze_parts [OF assms(2)] by blast
  have f: "cv_slots ?cv = int (length ?T) * n"
    "cv_seen ?cv = sum_list (map (\<lambda>(l, ss). seen_count ss) ?T)"
    "cv_unseen ?cv = cv_slots ?cv - cv_seen ?cv" "iratio (cv_seen ?cv) (cv_slots ?cv) = Inr (cv_fraction ?cv)"
    using coverage_of_fields [OF cov, unfolded length_sort sum_list_sort_key] by blast+
  note K = layer_table_keys [of "nat n" rows]
  have len: "length ?T = card (rt_layer ` set rows)" using K distinct_card [OF K(2)] by simp
  let ?at = "\<lambda>l. {e. \<exists>r \<in> set rows. rt_layer r = l \<and> rt_expert r = e}"
  have fin: "finite (?at l)" for l by (rule finite_subset [of _ "rt_expert ` set rows"]) auto
  have "sum_list (map (\<lambda>(l, ss). seen_count ss) ?T) = sum_list (map (\<lambda>l. int (card (?at l))) (map fst ?T))"
    using seen_count_card [OF _ within] by (auto simp: o_def intro!: arg_cong [where f = sum_list] map_cong)
  also have "\<dots> = (\<Sum>l \<in> rt_layer ` set rows. int (card (?at l)))"
    using K by (simp only: sum_list_distinct_conv_sum_set list.set_map)
  also have "\<dots> = int (card (Sigma (rt_layer ` set rows) ?at))"
    using fin by (simp add: card_SigmaI)
  also have "Sigma (rt_layer ` set rows) ?at = (\<lambda>r. (rt_layer r, rt_expert r)) ` set rows"
    by (auto simp: image_iff) metis
  finally have seen: "cv_seen ?cv = int (card ((\<lambda>r. (rt_layer r, rt_expert r)) ` set rows))" by (simp add: f(2))
  have "(\<lambda>r. (rt_layer r, rt_expert r)) ` set rows \<subseteq> (rt_layer ` set rows) \<times> {0..<n}"
    using within by (auto simp: rows_within_def)
  then have "card ((\<lambda>r. (rt_layer r, rt_expert r)) ` set rows) \<le> card ((rt_layer ` set rows) \<times> {0..<n})"
    by (rule card_mono [rotated]) simp
  then have prod: "cv_seen ?cv \<le> int (card (rt_layer ` set rows) * nat n)"
    unfolding seen of_nat_le_iff by (simp add: card_cartesian_product)
  have le: "cv_seen ?cv \<le> cv_slots ?cv"
  proof (cases "0 \<le> n")
    case True
    then show ?thesis using prod f(1) len by simp
  next
    case False
    then have "rows = []" using within by (cases rows) (auto simp: rows_within_def)
    then show ?thesis using seen f(1) len by simp
  qed
  have "\<exists>q. cv_fraction ?cv = Fin q \<and> 0 \<le> q \<and> q \<le> 1"
    using f(4) le seen int_truediv_fraction [of "cv_seen ?cv" "cv_slots ?cv"] by (auto simp: iratio_def split: if_splits dest: sym)
  then show ?thesis using f le seen len by simp
qed

section \<open>An analysis\<close>

definition trace_example :: fs where
  "trace_example = [''t'' \<mapsto> ascii_encode ''1 2 0 1 1 1'']"

definition one_libm :: libm where
  "one_libm = \<lparr>m_log = \<lambda>x. Inr (Fin 1), m_exp = \<lambda>x. Inr (Fin 1), m_sqrt = \<lambda>x. Inr (Fin 1)\<rparr>"

definition example_route :: route_row where
  "example_route = \<lparr>rt_event = 4294967297, rt_source = 1, rt_layer = 2, rt_expert = 0, rt_weight = Fin 1,
     rt_l2 = Fin 1, rt_saliency = Fin 1\<rparr>"

lemma trace_example_rows: "parse_traces 1 [''t''] trace_example = (Inr [example_route], trace_example)"
proof -
  have "int_res ''1'' = Inr 1" "int_res ''2'' = Inr 2" "int_res ''0'' = Inr 0" "float_res ''1'' = Inr (Fin 1)"
    by code_simp+
  moreover have "file_table_of ''1 2 0 1 1 1'' = [''1 2 0 1 1 1'']" by code_simp
  moreover have "py_split ''1 2 0 1 1 1'' = [''1'', ''2'', ''0'', ''1'', ''1'', ''1'']" by code_simp
  moreover have "push_bit 32 1 OR 1 = (4294967297 :: int)" by simp
  ultimately have "parse_route_text 1 ''1 2 0 1 1 1'' = Inr [example_route]"
    by (simp add: parse_route_text_def parse_route_row_def example_route_def del: push_bit_of_1)
  then show ?thesis
    by (simp add: io_bind_def read_text_app trace_example_def ascii_roundtrip is_ascii_def cp_def)
qed

definition example_stats :: expert_stats where
  "example_stats = \<lparr>es_selected = 1, es_router_abs = Fin 1, es_l2 = Fin 1, es_saliency = Fin 1, es_sources = [1]\<rparr>"

lemma example_table: "layer_table 2 [example_route] = [(2, [example_stats, empty_stats])]"
  by (simp add: layer_table_def dict_upd_def dict_get_def numeral_2_eq_2 add_row_def empty_stats_def
      example_route_def example_stats_def fl_simps)

lemma example_entropy:
  "entropy_ints one_libm [1, 0] = Inr (Fin (-1), Fin 1)" "entropy_floats one_libm [Fin 1, Fin 0] = Inr (Fin (-1), Fin 1)"
  by code_simp+

lemma example_ranks:
  "average_ranks (<) (=) [1 :: int, 0] = Inr [Fin 2, Fin 1]" "average_ranks flt feq [Fin 1, Fin 0] = Inr [Fin 2, Fin 1]"
  by code_simp+

lemma example_halves: "fl (3 / 2) = Fin (3 / 2)" "fl (1 / 2) = Fin (1 / 2)" "fl (- (1 / 2)) = Fin (- (1 / 2))"
  "fl (1 / 4) = Fin (1 / 4)"
  by code_simp+

lemma example_pearson: "pearson one_libm [Fin 2, Fin 1] [Fin 2, Fin 1] = Inr (Fin (1 / 2))"
  by (simp add: pearson_def mean_def fsum_def fsub_def float_of_int_def fdiv_def one_libm_def example_halves fl_simps)

lemma example_ranking: "ranking [example_stats, empty_stats] = [1, 0]"
  by code_simp

lemma trace_example_analysis:
  "rmap (\<lambda>(rep, masks, unseen). (masks, unseen)) (analyze one_libm [example_route] 2 [1] 5 [1]) =
     Inr ([(1, [(2, 1, Fin 0, 0)])], [(1, [(2, 1, Fin 0, 0)])])"
proof -
  have st: "es_selected example_stats = 1" "es_saliency example_stats = Fin 1"
    "es_selected empty_stats = 0" "es_saliency empty_stats = Fin 0" "rt_expert example_route = 0"
    by (simp_all add: example_stats_def empty_stats_def example_route_def)
  have srt: "sort [1, 0 :: int] = [0, 1]" by simp
  have rep: "\<exists>r. layer_report_of one_libm [example_route] 2 5 (2, [example_stats, empty_stats]) = Inr r"
    by (simp add: layer_report_of_def st float_per_def float_of_int_def fdiv_def fl_simps example_entropy srt
        spearman_def example_ranks example_pearson iratio_def int_truediv_def Let_def)
  have un: "unseen_experts [example_stats, empty_stats] = [1]"
    by (simp add: unseen_experts_def st)
  show ?thesis using rep
    by (auto simp: analyze_def example_table un example_ranking keep_mask_def unseen_mask_def layer_disabled_def
        slot_of_def layer_seen_def layer_disabled_saliency_def impact_of_def fratio_def total_saliency_def st fsum_def
        fl_simps fdiv_def coverage_of_def iratio_def int_truediv_def float_of_int_def seen_count_def example_halves Let_def)
qed

theorem keep_masks_disable_least_salient_witness:
  "\<exists>rep masks unseen. analyze one_libm [example_route] 2 [1] 5 [1] = Inr (rep, masks, unseen) \<and>
     (\<forall>e \<in> set (disabled_in [(2, 1, Fin 0, 0)] 2). \<forall>f \<in> {0..<2} - set (disabled_in [(2, 1, Fin 0, 0)] 2).
       \<not> flt (slot_saliency [example_route] 2 f) (slot_saliency [example_route] 2 e))"
proof -
  obtain rep masks unseen where a: "analyze one_libm [example_route] 2 [1] 5 [1] = Inr (rep, masks, unseen)"
    "(1, [(2, 1, Fin 0, 0)]) \<in> set masks"
    using trace_example_analysis by (auto simp: rmap_eq_Inr)
  have "\<forall>r \<in> set [example_route]. nonneg (rt_saliency r)" by (simp add: example_route_def nonneg_def)
  from keep_masks_disable_least_salient [OF trace_example_rows this a, of 2] a(1) show ?thesis
    by (auto simp: example_route_def)
qed

theorem unseen_masks_spare_seen_experts_witness:
  "disabled_in [(2, 1, Fin 0, 0)] 2 = [1] \<and> rows_of [example_route] 2 1 = []"
proof -
  obtain rep masks unseen where a: "analyze one_libm [example_route] 2 [1] 5 [1] = Inr (rep, masks, unseen)"
    "(1, [(2, 1, Fin 0, 0)]) \<in> set unseen"
    using trace_example_analysis by (auto simp: rmap_eq_Inr)
  from unseen_masks_spare_seen_experts [OF trace_example_rows a, of 2] show ?thesis
    by (simp add: example_route_def disabled_in_def)
qed

theorem coverage_counts_slots_witness:
  "\<exists>rep masks unseen. analyze one_libm [example_route] 2 [1] 5 [1] = Inr (rep, masks, unseen) \<and>
     cv_seen (rp_coverage rep) = 1 \<and> cv_slots (rp_coverage rep) = 2"
proof -
  obtain rep masks unseen where a: "analyze one_libm [example_route] 2 [1] 5 [1] = Inr (rep, masks, unseen)"
    using trace_example_analysis by (auto simp: rmap_eq_Inr)
  from coverage_counts_slots [OF trace_example_rows a] a show ?thesis by auto
qed

end
