(* ===== verification/MaskNovelty.thy ===== *)
theory MaskNovelty
  imports MoeTrace
begin

text \<open>
  Held-out behaviour of a calibration mask (\<^verbatim>\<open>tools/analyze_kimi_mask_novelty.py\<close>): reading the mask,
  counting the masked experts the baseline routes select, and splitting the substitutions of the
  full-against-mask comparison into direct ones and the cascade. The directory tree is the parameter
  \<open>subdirs\<close> (the names of the directories inside a directory, nothing for what is no directory) and
  \<^verbatim>\<open>json.loads\<close> is the parameter \<open>loads\<close>. The integer 0 that Python's counters and empty sums give
  for a saliency is the float 0.
\<close>

section \<open>Mask and direct hits\<close>

definition slot_mask_line :: "(int \<times> int) list \<Rightarrow> string \<Rightarrow> (int \<times> int) list res" where
  "slot_mask_line out raw = (let line = py_strip (before_hash raw) in
     if line = [] then Inr out
     else let parts = py_split line in
       if length parts \<noteq> 2 then Inl (ValueError ''expected layer expert'')
       else rbind (int_res (parts ! 0)) (\<lambda>layer. rbind (int_res (parts ! 1)) (\<lambda>expert.
         if layer < 0 \<or> expert < 0 then Inl (ValueError ''negative layer/expert'')
         else if (layer, expert) \<in> set out then Inl (ValueError ''duplicate'')
         else Inr (out @ [(layer, expert)]))))"

definition read_slot_mask_text :: "string \<Rightarrow> (int \<times> int) list res" where
  "read_slot_mask_text t = rbind (foldR slot_mask_line [] (splitlines t)) (\<lambda>out.
     if out = [] then Inl (ValueError ''empty mask'') else Inr out)"

definition read_slot_mask :: "string \<Rightarrow> (int \<times> int) list io" where
  "read_slot_mask path = io_bind (read_text path) (\<lambda>t. io_lift (read_slot_mask_text t))"

type_synonym hit = "(int \<times> int) \<times> pyfloat"

definition hit_row :: "string \<Rightarrow> hit res" where
  "hit_row line = (let parts = py_split line in
     if length parts \<noteq> 6 then Inl (ValueError ''expected 6 columns'')
     else rbind (int_res (parts ! 0)) (\<lambda>_. rbind (int_res (parts ! 1)) (\<lambda>layer.
          rbind (int_res (parts ! 2)) (\<lambda>expert. rbind (float_res (parts ! 5)) (\<lambda>sal.
            if \<not> is_finite sal \<or> flt sal (Fin 0) then Inl (ValueError ''invalid saliency'')
            else Inr ((layer, expert), sal))))))"

type_synonym hit_counter = "((int \<times> int) \<times> int) list"
type_synonym saliency_counter = "((int \<times> int) \<times> pyfloat) list"

definition masked_rows :: "(int \<times> int) list \<Rightarrow> hit list \<Rightarrow> hit list" where
  "masked_rows slots rows = filter (\<lambda>r. fst r \<in> set slots) rows"

definition direct_hits :: "(int \<times> int) list \<Rightarrow> hit list \<Rightarrow> hit_counter" where
  "direct_hits slots rows = tally 0 fst (\<lambda>n _. n + 1) [] (masked_rows slots rows)"

definition direct_saliency :: "(int \<times> int) list \<Rightarrow> hit list \<Rightarrow> saliency_counter" where
  "direct_saliency slots rows = tally (Fin 0) fst (\<lambda>x r. fadd x (snd r)) [] (masked_rows slots rows)"

definition read_direct_hits :: "string \<Rightarrow> (int \<times> int) list \<Rightarrow> (hit_counter \<times> saliency_counter) io" where
  "read_direct_hits trace slots = io_bind (read_text trace) (\<lambda>t.
     io_lift (rbind (mapR hit_row (table_of t)) (\<lambda>rows.
       Inr (direct_hits slots rows, direct_saliency slots rows))))"

section \<open>The report\<close>

record slot_hits =
  sh_layer :: int
  sh_expert :: int
  sh_count :: int
  sh_saliency :: pyfloat

record prompt_novelty =
  pn_id :: string
  pn_direct :: int
  pn_unique :: int
  pn_saliency :: pyfloat
  pn_substitutions :: int
  pn_cascade :: int
  pn_slots :: "slot_hits list"

definition slot_row :: "hit_counter \<Rightarrow> saliency_counter \<Rightarrow> int \<times> int \<Rightarrow> slot_hits" where
  "slot_row hits saliency k = \<lparr>sh_layer = fst k, sh_expert = snd k, sh_count = dict_get 0 k hits,
     sh_saliency = dict_get (Fin 0) k saliency\<rparr>"

definition substitutions_of :: "json \<Rightarrow> int res" where
  "substitutions_of route = rbind (json_index route ''summary'') (\<lambda>s.
     rbind (json_index s ''substitutions'') json_int)"

definition prompt_row :: "string \<Rightarrow> hit_counter \<Rightarrow> saliency_counter \<Rightarrow> int \<Rightarrow> prompt_novelty res" where
  "prompt_row name hits saliency substitutions =
     (let direct = sum_list (map snd hits); cascade = substitutions - direct in
      if cascade < 0 then Inl (ValueError ''substitutions < direct masked selections'')
      else Inr \<lparr>pn_id = name, pn_direct = direct, pn_unique = int (length hits),
        pn_saliency = fsum (map snd saliency), pn_substitutions = substitutions, pn_cascade = cascade,
        pn_slots = map (slot_row hits saliency) (sorted_set (map fst hits))\<rparr>)"

text \<open>\<^verbatim>\<open>Counter.update\<close> adds the counts of the other counter.\<close>

definition add_hits :: "hit_counter \<Rightarrow> hit_counter \<Rightarrow> hit_counter" where
  "add_hits acc hits = tally 0 fst (\<lambda>n kv. snd kv + n) acc hits"

definition add_saliency :: "saliency_counter \<Rightarrow> saliency_counter \<Rightarrow> saliency_counter" where
  "add_saliency acc saliency = tally (Fin 0) fst (\<lambda>x kv. fadd (snd kv) x) acc saliency"

type_synonym novelty_state = "hit_counter \<times> saliency_counter \<times> prompt_novelty list"

definition trace_path :: "string \<Rightarrow> string \<Rightarrow> string" where
  "trace_path evidence name = in_dir (in_dir (in_dir (in_dir evidence ''heldout'') name) ''full'') ''route.tsv''"

definition comparison_path :: "string \<Rightarrow> string \<Rightarrow> string \<Rightarrow> string" where
  "comparison_path evidence variant name =
     in_dir (in_dir (in_dir (in_dir evidence ''comparisons'') name) variant) ''route.json''"

definition novelty_prompt ::
  "(string \<Rightarrow> json res) \<Rightarrow> (int \<times> int) list \<Rightarrow> string \<Rightarrow> string \<Rightarrow> novelty_state \<Rightarrow> string \<Rightarrow> novelty_state io" where
  "novelty_prompt loads slots evidence variant st name = (case st of (slot_hits, saliencies, per_prompt) \<Rightarrow>
     io_bind (path_is_file (trace_path evidence name)) (\<lambda>trace_ok.
     io_bind (path_is_file (comparison_path evidence variant name)) (\<lambda>route_ok.
     if \<not> trace_ok \<or> \<not> route_ok then io_raise (ValueError ''missing full route or comparison'')
     else io_bind (read_direct_hits (trace_path evidence name) slots) (\<lambda>(hits, saliency).
       io_bind (read_text (comparison_path evidence variant name)) (\<lambda>t.
       io_bind (io_lift (rbind (loads t) substitutions_of)) (\<lambda>substitutions.
       io_bind (io_lift (prompt_row name hits saliency substitutions)) (\<lambda>row.
         io_return (add_hits slot_hits hits, add_saliency saliencies saliency, per_prompt @ [row])))))))) "

fun novelty_prompts ::
  "(string \<Rightarrow> json res) \<Rightarrow> (int \<times> int) list \<Rightarrow> string \<Rightarrow> string \<Rightarrow> novelty_state \<Rightarrow> string list \<Rightarrow> novelty_state io" where
  "novelty_prompts loads slots evidence variant st [] = io_return st"
| "novelty_prompts loads slots evidence variant st (name # names) =
     io_bind (novelty_prompt loads slots evidence variant st name) (\<lambda>st'.
       novelty_prompts loads slots evidence variant st' names)"

record novelty_report =
  nv_variant :: string
  nv_mask_entries :: int
  nv_prompts :: int
  nv_direct :: int
  nv_slots_hit :: int
  nv_slots_never :: int
  nv_prompts_hit :: int
  nv_substitutions :: int
  nv_cascade :: int
  nv_per_prompt :: "prompt_novelty list"
  nv_mask_slots :: "slot_hits list"

definition novelty_report_of :: "string \<Rightarrow> (int \<times> int) list \<Rightarrow> novelty_state \<Rightarrow> novelty_report" where
  "novelty_report_of variant slots st = (case st of (slot_hits, saliencies, per_prompt) \<Rightarrow>
     let slot_rows = map (slot_row slot_hits saliencies) (sort slots);
         direct_total = sum_list (map snd slot_hits);
         substitutions_total = sum_list (map pn_substitutions per_prompt)
     in \<lparr>nv_variant = variant, nv_mask_entries = int (length slots), nv_prompts = int (length per_prompt),
        nv_direct = direct_total,
        nv_slots_hit = int (length (filter (\<lambda>r. 0 < sh_count r) slot_rows)),
        nv_slots_never = int (length (filter (\<lambda>r. sh_count r = 0) slot_rows)),
        nv_prompts_hit = int (length (filter (\<lambda>p. 0 < pn_direct p) per_prompt)),
        nv_substitutions = substitutions_total, nv_cascade = substitutions_total - direct_total,
        nv_per_prompt = per_prompt, nv_mask_slots = slot_rows\<rparr>)"

definition analyze_novelty ::
  "(string \<Rightarrow> string list option) \<Rightarrow> (string \<Rightarrow> json res) \<Rightarrow> string \<Rightarrow> string \<Rightarrow> string \<Rightarrow> novelty_report io" where
  "analyze_novelty subdirs loads evidence mask_path variant =
     io_bind (read_slot_mask mask_path) (\<lambda>slots.
       case (subdirs (in_dir evidence ''heldout''), subdirs (in_dir evidence ''comparisons'')) of
         (Some names, Some _) \<Rightarrow>
           io_bind (novelty_prompts loads slots evidence variant ([], [], []) (sort names)) (\<lambda>st.
             io_return (novelty_report_of variant slots st))
       | _ \<Rightarrow> io_raise (ValueError ''missing heldout/comparisons directories''))"

section \<open>Sums of counters\<close>

lemma dict_get_absent: "k \<notin> fst ` set kvs \<Longrightarrow> dict_get d k kvs = d"
  by (simp add: dict_get_def map_of_eq_None_iff [THEN iffD2])

lemma sum_upd:
  fixes f :: "int \<Rightarrow> int"
  assumes "distinct (map fst kvs)"
  shows "sum_list (map snd (dict_upd 0 k f kvs)) = sum_list (map snd kvs) + f (dict_get 0 k kvs) - dict_get 0 k kvs"
  using sum_dict_upd [OF assms, of "\<lambda>v. v" 0 k f] 
  by (cases "k \<in> fst ` set kvs") (simp_all add: case_prod_beta' dict_get_absent)

lemma sum_tally:
  fixes g :: "'a \<Rightarrow> int"
  shows "distinct (map fst kvs) \<Longrightarrow>
    sum_list (map snd (tally 0 key (\<lambda>n x. g x + n) kvs xs)) = sum_list (map snd kvs) + sum_list (map g xs)"
  by (induction xs arbitrary: kvs) (auto simp: sum_upd distinct_dict_upd)

lemma tally_plus_lookup:
  fixes g :: "'a \<Rightarrow> int"
  shows "dict_get 0 k (tally 0 key (\<lambda>n x. g x + n) kvs xs) =
    dict_get 0 k kvs + sum_list (map g (filter (\<lambda>x. key x = k) xs))"
proof -
  have "foldl (\<lambda>n x. g x + n) n ys = n + sum_list (map g ys)" for n ys
    by (induction ys arbitrary: n) auto
  then show ?thesis by (simp add: tally_lookup)
qed

lemma direct_hits_alt: "direct_hits slots rows = tally 0 fst (\<lambda>n x. 1 + n) [] (masked_rows slots rows)"
  by (simp add: direct_hits_def add.commute)

lemma direct_hits_total: "sum_list (map snd (direct_hits slots rows)) = int (length (masked_rows slots rows))"
  by (simp add: direct_hits_alt sum_tally sum_list_triv)

lemma direct_hits_lookup:
  "dict_get 0 k (direct_hits slots rows) = int (length (filter (\<lambda>r. fst r = k) (masked_rows slots rows)))"
  by (simp add: direct_hits_alt tally_plus_lookup sum_list_triv)

lemma direct_hits_keys: "fst ` set (direct_hits slots rows) \<subseteq> set slots"
  by (auto simp: direct_hits_def tally_keys masked_rows_def)

lemma distinct_direct_hits: "distinct (map fst (direct_hits slots rows))"
  by (simp add: direct_hits_def distinct_tally)

lemma entries_of_key:
  "distinct (map fst kvs) \<Longrightarrow> sum_list (map snd (filter (\<lambda>kv. fst kv = k) kvs)) = (dict_get 0 k kvs :: int)"
proof (induction kvs)
  case (Cons x kvs)
  obtain k' v where x: "x = (k', v)" by (cases x)
  show ?case
  proof (cases "k' = k")
    case True
    with Cons.prems have "filter (\<lambda>kv. fst kv = k) kvs = []" by (auto simp: x filter_empty_conv)
    then show ?thesis by (simp add: x True dict_get_def)
  next
    case False
    then show ?thesis using Cons by (simp add: x dict_get_def)
  qed
qed simp

lemma sum_over_keys:
  assumes "distinct (map fst kvs)" "fst ` set kvs \<subseteq> set ks" "distinct ks"
  shows "sum_list (map (\<lambda>k. dict_get 0 k kvs :: int) ks) = sum_list (map snd kvs)"
proof -
  have "sum_list (map (\<lambda>k. dict_get 0 k kvs) ks) = (\<Sum>k \<in> set ks. dict_get 0 k kvs)"
    using assms(3) by (simp add: sum_list_distinct_conv_sum_set)
  also have "\<dots> = (\<Sum>k \<in> fst ` set kvs. dict_get 0 k kvs)"
    using assms(2) by (intro sum.mono_neutral_right) (auto intro: dict_get_absent)
  also have "\<dots> = sum_list (map (\<lambda>k. dict_get 0 k kvs) (map fst kvs))"
    using assms(1) by (simp only: sum_list_distinct_conv_sum_set set_map)
  also have "map (\<lambda>k. dict_get 0 k kvs) (map fst kvs) = map snd kvs"
    using dict_get_mem [OF assms(1)] by auto
  finally show ?thesis .
qed

section \<open>The accounting of a run\<close>

text \<open>The rows of a prompt's baseline trace.\<close>

definition trace_hits :: "fs \<Rightarrow> string \<Rightarrow> string \<Rightarrow> hit list" where
  "trace_hits s evidence name = (case fst (read_text (trace_path evidence name) s) of
     Inl e \<Rightarrow> []
   | Inr t \<Rightarrow> (case mapR hit_row (table_of t) of Inl e \<Rightarrow> [] | Inr rows \<Rightarrow> rows))"

definition prompt_ok :: "(string \<Rightarrow> hit list) \<Rightarrow> (int \<times> int) list \<Rightarrow> prompt_novelty \<Rightarrow> bool" where
  "prompt_ok H slots p = (pn_direct p = int (length (filter (\<lambda>r. fst r \<in> set slots) (H (pn_id p)))) \<and>
     pn_substitutions p = pn_direct p + pn_cascade p \<and> 0 \<le> pn_cascade p)"

definition novelty_ok :: "(string \<Rightarrow> hit list) \<Rightarrow> (int \<times> int) list \<Rightarrow> novelty_state \<Rightarrow> bool" where
  "novelty_ok H slots st = (case st of (hits, saliency, ps) \<Rightarrow>
     distinct (map fst hits) \<and> fst ` set hits \<subseteq> set slots \<and> sum_list (map snd hits) = sum_list (map pn_direct ps) \<and>
     (\<forall>k \<in> set slots. dict_get 0 k hits =
        sum_list (map (\<lambda>p. int (length (filter (\<lambda>r. fst r = k) (H (pn_id p))))) ps)) \<and>
     (\<forall>p \<in> set ps. prompt_ok H slots p))"

lemma masked_of_key: "k \<in> set slots \<Longrightarrow>
  filter (\<lambda>r. fst r = k) (masked_rows slots rows) = filter (\<lambda>r. fst r = k) rows"
  unfolding masked_rows_def filter_filter by (rule filter_cong) auto

lemma prompt_row_ok:
  assumes "prompt_row name hits saliency n = Inr p"
  shows "pn_id p = name \<and> pn_direct p = sum_list (map snd hits) \<and> pn_substitutions p = pn_direct p + pn_cascade p \<and>
    0 \<le> pn_cascade p"
  using assms by (auto simp: prompt_row_def Let_def split: if_splits)

lemma novelty_prompt_ok:
  assumes "novelty_prompt loads slots evidence variant st name s = (Inr st', s')"
    and "novelty_ok (trace_hits s evidence) slots st"
  shows "s' = s \<and> novelty_ok (trace_hits s evidence) slots st' \<and>
    map pn_id (snd (snd st')) = map pn_id (snd (snd st)) @ [name]"
proof -
  obtain H S ps where st: "st = (H, S, ps)" by (cases st)
  obtain t rows p n where t: "fst (read_text (trace_path evidence name) s) = Inr t"
    and rows: "mapR hit_row (table_of t) = Inr rows"
    and p: "prompt_row name (direct_hits slots rows) (direct_saliency slots rows) n = Inr p"
    and st': "st' = (add_hits H (direct_hits slots rows), add_saliency S (direct_saliency slots rows), ps @ [p])"
    and s: "s' = s"
    using assms(1)
    by (auto simp: novelty_prompt_def st io_bind_eq_Inr path_is_file_def read_direct_hits_def
        read_text_app rbind_eq_Inr split: if_splits)
  have th: "trace_hits s evidence name = rows" by (simp add: trace_hits_def t rows)
  note P = prompt_row_ok [OF p]
  have key: "dict_get 0 k (add_hits H (direct_hits slots rows)) =
      dict_get 0 k H + int (length (filter (\<lambda>r. fst r = k) rows))" if "k \<in> set slots" for k
    by (simp add: add_hits_def tally_plus_lookup entries_of_key distinct_direct_hits direct_hits_lookup
        masked_of_key [OF that])
  have "distinct (map fst (add_hits H (direct_hits slots rows)))"
    "fst ` set (add_hits H (direct_hits slots rows)) \<subseteq> set slots"
    "sum_list (map snd (add_hits H (direct_hits slots rows))) = sum_list (map pn_direct (ps @ [p]))"
    using assms(2) P direct_hits_keys [of slots rows]
    by (auto simp: novelty_ok_def st add_hits_def distinct_tally tally_keys sum_tally)
  then have "novelty_ok (trace_hits s evidence) slots st'"
    using assms(2) P
    by (simp add: novelty_ok_def st st' key th prompt_ok_def direct_hits_total masked_rows_def)
  with s P show ?thesis by (simp add: st st')
qed

lemma novelty_prompts_ok:
  "novelty_prompts loads slots evidence variant st names s = (Inr st', s') \<Longrightarrow>
   novelty_ok (trace_hits s evidence) slots st \<Longrightarrow>
   s' = s \<and> novelty_ok (trace_hits s evidence) slots st' \<and>
     map pn_id (snd (snd st')) = map pn_id (snd (snd st)) @ names"
proof (induction names arbitrary: st)
  case (Cons name names)
  from Cons.prems(1) obtain st1 s1 where 1: "novelty_prompt loads slots evidence variant st name s = (Inr st1, s1)"
    "novelty_prompts loads slots evidence variant st1 names s1 = (Inr st', s')"
    by (auto simp: io_bind_eq_Inr)
  note N = novelty_prompt_ok [OF 1(1) Cons.prems(2)]
  then show ?case using Cons.IH [of st1] 1(2) by simp
qed simp

lemma slot_mask_line_distinct:
  "slot_mask_line out raw = Inr out' \<Longrightarrow> distinct out \<Longrightarrow> distinct out'"
  by (auto simp: slot_mask_line_def Let_def rbind_eq_Inr split: if_splits)

lemma read_slot_mask_distinct:
  assumes "read_slot_mask path s = (Inr slots, s')"
  shows "distinct slots \<and> slots \<noteq> [] \<and> s' = s"
proof -
  obtain t where f: "foldR slot_mask_line [] (splitlines t) = Inr slots" and ne: "slots \<noteq> []" "s' = s"
    using assms by (auto simp: read_slot_mask_def read_slot_mask_text_def io_bind_eq_Inr read_text_app
        rbind_eq_Inr split: if_splits)
  have "distinct slots" by (rule foldR_invariant [OF f]) (auto dest: slot_mask_line_distinct)
  with ne show ?thesis by simp
qed

section \<open>Correctness\<close>

text \<open>C28: the analysis separates direct from cascade substitutions exactly. A run that answers changes
  no file and reports every mask slot once, in order; a slot's count is the number of rows of the
  prompts' baseline traces that select it, a prompt's direct count the number of its rows that select
  any masked expert; substitutions are direct plus cascade, with no negative cascade, per prompt and
  in total; the total of direct selections agrees with the slots and with the prompts; and the slots
  hit and never hit make up the mask.
\<close>
theorem novelty_separates_direct_hits:
  assumes "analyze_novelty subdirs loads evidence mask_path variant s = (Inr rep, s')"
  shows "\<exists>slots names. read_slot_mask mask_path s = (Inr slots, s) \<and> s' = s \<and>
    subdirs (in_dir evidence ''heldout'') = Some names \<and> map pn_id (nv_per_prompt rep) = sort names \<and>
    map (\<lambda>r. (sh_layer r, sh_expert r)) (nv_mask_slots rep) = sort slots \<and>
    sorted_wrt (<) (sort slots) \<and>
    (\<forall>r \<in> set (nv_mask_slots rep). sh_count r = sum_list (map (\<lambda>p. int (length
       (filter (\<lambda>h. fst h = (sh_layer r, sh_expert r)) (trace_hits s evidence (pn_id p))))) (nv_per_prompt rep))) \<and>
    (\<forall>p \<in> set (nv_per_prompt rep).
       pn_direct p = int (length (filter (\<lambda>h. fst h \<in> set slots) (trace_hits s evidence (pn_id p)))) \<and>
       pn_substitutions p = pn_direct p + pn_cascade p \<and> 0 \<le> pn_cascade p) \<and>
    nv_direct rep = sum_list (map pn_direct (nv_per_prompt rep)) \<and>
    nv_direct rep = sum_list (map sh_count (nv_mask_slots rep)) \<and>
    nv_substitutions rep = nv_direct rep + nv_cascade rep \<and> 0 \<le> nv_cascade rep \<and>
    nv_cascade rep = sum_list (map pn_cascade (nv_per_prompt rep)) \<and>
    nv_slots_hit rep + nv_slots_never rep = nv_mask_entries rep"
proof -
  obtain slots s1 where m: "read_slot_mask mask_path s = (Inr slots, s1)"
    using assms by (auto simp: analyze_novelty_def io_bind_eq_Inr)
  note D = read_slot_mask_distinct [OF m]
  obtain names st where names: "subdirs (in_dir evidence ''heldout'') = Some names"
    and run: "novelty_prompts loads slots evidence variant ([], [], []) (sort names) s = (Inr st, s')"
    and rep: "rep = novelty_report_of variant slots st"
    using assms m D by (auto simp: analyze_novelty_def io_bind_eq_Inr split: option.splits)
  obtain H S ps where st: "st = (H, S, ps)" by (cases st)
  have N: "s' = s" "novelty_ok (trace_hits s evidence) slots (H, S, ps)" "map pn_id ps = sort names"
    using novelty_prompts_ok [OF run] by (simp_all add: novelty_ok_def st)
  have sorted: "sorted_wrt (<) (sort slots)" using D by (simp add: strict_sorted_iff)
  have total: "sum_list (map snd H) = sum_list (map sh_count (map (slot_row H S) (sort slots)))"
    using N(2) D sum_over_keys [of H "sort slots"] by (simp add: novelty_ok_def slot_row_def o_def)
  have count: "0 \<le> sh_count r" if "r \<in> set (map (slot_row H S) (sort slots))" for r
    using N(2) that by (auto simp: novelty_ok_def slot_row_def intro!: sum_list_nonneg)
  have split: "length (filter (\<lambda>r. 0 < sh_count r) rs) + length (filter (\<lambda>r. sh_count r = 0) rs) = length rs"
    if "\<forall>r \<in> set rs. 0 \<le> sh_count r" for rs
    using that by (induction rs) auto
  have cascade: "sum_list (map pn_substitutions ps) = sum_list (map pn_direct ps) + sum_list (map pn_cascade ps)
      \<and> 0 \<le> sum_list (map pn_cascade ps)"
  proof -
    have "\<forall>p \<in> set ps. pn_substitutions p = pn_direct p + pn_cascade p \<and> 0 \<le> pn_cascade p"
      using N(2) by (auto simp: novelty_ok_def prompt_ok_def)
    then show ?thesis by (induction ps) auto
  qed
  show ?thesis
    using N m D names sorted total cascade split [of "map (slot_row H S) (sort slots)"] count
    by (intro exI [of _ slots] exI [of _ names])
       (auto simp: rep st novelty_report_of_def Let_def novelty_ok_def prompt_ok_def slot_row_def o_def)
qed

definition novelty_example :: fs where
  "novelty_example = [''m'' \<mapsto> ascii_encode ''1 2 # never seen'',
     ''e/heldout/p/full/route.tsv'' \<mapsto> ascii_encode ''1 1 2 0 0 1'',
     ''e/comparisons/p/v/route.json'' \<mapsto> ascii_encode ''{}'']"

definition novelty_dirs :: "string \<Rightarrow> string list option" where
  "novelty_dirs d = (if d = ''e/heldout'' then Some [''p''] else if d = ''e/comparisons'' then Some [''p''] else None)"

definition novelty_loads :: "string \<Rightarrow> json res" where
  "novelty_loads t = Inr (JObj [(''summary'', JObj [(''substitutions'', JInt 3)])])"

lemma novelty_example_mask: "read_slot_mask_text ''1 2 # never seen'' = Inr [(1, 2)]"
  by code_simp

lemma novelty_example_rows: "mapR hit_row (table_of ''1 1 2 0 0 1'') = Inr [((1, 2), Fin 1)]"
  by code_simp

lemma novelty_example_paths:
  "trace_path ''e'' ''p'' = ''e/heldout/p/full/route.tsv''"
  "comparison_path ''e'' ''v'' ''p'' = ''e/comparisons/p/v/route.json''"
  "in_dir ''e'' ''heldout'' = ''e/heldout''" "in_dir ''e'' ''comparisons'' = ''e/comparisons''"
  by (simp_all add: trace_path_def comparison_path_def in_dir_def)

lemma novelty_example_files:
  "read_text ''m'' novelty_example = (Inr ''1 2 # never seen'', novelty_example)"
  "read_text ''e/heldout/p/full/route.tsv'' novelty_example = (Inr ''1 1 2 0 0 1'', novelty_example)"
  "read_text ''e/comparisons/p/v/route.json'' novelty_example = (Inr ''{}'', novelty_example)"
  by (simp_all add: read_text_app novelty_example_def ascii_roundtrip is_ascii_def cp_def)

lemma novelty_example_run:
  "\<exists>rep. analyze_novelty novelty_dirs novelty_loads ''e'' ''m'' ''v'' novelty_example = (Inr rep, novelty_example) \<and>
     nv_direct rep = 1 \<and> nv_cascade rep = 2"
proof -
  have "path_is_file p novelty_example = (Inr True, novelty_example)"
    if "p = ''e/heldout/p/full/route.tsv'' \<or> p = ''e/comparisons/p/v/route.json''" for p
    using that by (auto simp: path_is_file_def novelty_example_def)
  then show ?thesis
    by (simp add: analyze_novelty_def read_slot_mask_def io_bind_def novelty_example_files
        novelty_example_mask novelty_dirs_def novelty_example_paths novelty_prompt_def read_direct_hits_def
        novelty_example_rows novelty_loads_def substitutions_of_def prompt_row_def direct_hits_def
        direct_saliency_def masked_rows_def tally_def dict_upd_def novelty_report_of_def Let_def add_hits_def
        add_saliency_def dict_get_def slot_row_def)
qed

theorem novelty_separates_direct_hits_witness:
  "\<exists>rep. analyze_novelty novelty_dirs novelty_loads ''e'' ''m'' ''v'' novelty_example = (Inr rep, novelty_example) \<and>
     nv_direct rep = 1 \<and> nv_cascade rep = 2 \<and>
     nv_direct rep = sum_list (map sh_count (nv_mask_slots (rep :: novelty_report))) \<and>
     nv_slots_hit rep + nv_slots_never rep = nv_mask_entries rep"
  using novelty_example_run
    novelty_separates_direct_hits [of novelty_dirs novelty_loads "''e''" "''m''" "''v''" novelty_example _ novelty_example]
  by metis

section \<open>Masks of the trace analysis\<close>

definition slot_of_entry :: "disabled_slot \<Rightarrow> int \<times> int" where
  "slot_of_entry d = (fst d, fst (snd d))"

lemma before_hash_line: "\<forall>c \<in> set s. c \<noteq> CHR ''#'' \<Longrightarrow> before_hash (s @ CHR ''#'' # t) = s"
  by (simp add: before_hash_def takeWhile_append2)

lemma strip_pair:
  "py_strip (show_nat a @ CHR '' '' # show_nat b @ '' '') = show_nat a @ CHR '' '' # show_nat b"
proof -
  let ?m = "show_nat a @ CHR '' '' # show_nat b"
  have sp: "is_space (CHR '' '')" by (simp add: is_space_def cp_def)
  have h: "\<not> is_space (hd ?m)" "\<not> is_space (last ?m)" "?m \<noteq> []"
    using nonspace_show_nat [of a] nonspace_show_nat [of b] by (simp_all add: list_all_iff hd_append)
  have "dropWhile is_space (?m @ '' '') = ?m @ '' ''"
    using h(1,3) by (cases ?m) auto
  moreover have "dropWhile is_space (rev (?m @ '' '')) = rev ?m"
    using h(2,3) sp by (cases ?m rule: rev_cases) auto
  ultimately show ?thesis by (simp add: py_strip_def)
qed

text \<open>A mask line is its two numbers followed by a comment.\<close>

lemma slot_mask_line_comment:
  assumes "0 \<le> l" "0 \<le> e" "(l, e) \<notin> set acc"
  shows "slot_mask_line acc (show_int l @ '' '' @ show_int e @ '' #'' @ c) = Inr (acc @ [(l, e)])"
proof -
  define a b where "a = nat l" and "b = nat e"
  have le: "l = int a" "e = int b" using assms by (simp_all add: a_def b_def)
  have sp: "is_space (CHR '' '')" by (simp add: is_space_def cp_def)
  have "\<forall>c \<in> set (show_nat a @ '' '' @ show_nat b @ '' ''). c \<noteq> CHR ''#''"
    using show_nat_digits [of a] show_nat_digits [of b] by (auto simp: list_all_iff dest!: bspec digit_not_hash)
  from before_hash_line [OF this]
  have bh: "before_hash (show_int l @ '' '' @ show_int e @ '' #'' @ c) = show_nat a @ CHR '' '' # show_nat b @ '' ''"
    by (simp add: le show_int_def)
  have "py_split (show_nat a @ CHR '' '' # show_nat b) = [show_nat a, show_nat b]"
    using py_split_word [OF _ nonspace_show_nat sp, of a "show_nat b"]
      py_split_single [OF _ nonspace_show_nat, of b] by simp
  then show ?thesis
    using assms(3) unfolding slot_mask_line_def bh strip_pair Let_def by (simp add: int_res_def le)
qed

lemma slot_mask_line_entry:
  assumes "0 \<le> fst d" "0 \<le> fst (snd d)" "slot_of_entry d \<notin> set acc"
  shows "slot_mask_line acc (mask_row fmt d) = Inr (acc @ [slot_of_entry d])"
proof -
  obtain l e x n where d: "d = (l, e, x, n)" by (metis surj_pair)
  show ?thesis
    using assms slot_mask_line_comment [of l e acc "'' saliency='' @ fmt x @ '' selected='' @ show_int n"]
    by (simp add: d mask_row_def slot_of_entry_def)
qed

lemma slot_mask_fold:
  assumes "distinct (map slot_of_entry ds)" "\<forall>d \<in> set ds. 0 \<le> fst d \<and> 0 \<le> fst (snd d)"
    "set acc \<inter> slot_of_entry ` set ds = {}"
  shows "foldR slot_mask_line acc (map (mask_row fmt) ds) = Inr (acc @ map slot_of_entry ds)"
  using assms by (induction ds arbitrary: acc) (auto simp: slot_mask_line_entry)

definition plain_text :: "string \<Rightarrow> bool" where
  "plain_text s = (is_ascii s \<and> list_all (\<lambda>c. \<not> is_linebreak c) s)"

lemma plain_text_append [simp]: "plain_text (s @ t) \<longleftrightarrow> plain_text s \<and> plain_text t"
  by (auto simp: plain_text_def)

lemma plain_show_nat: "plain_text (show_nat n)"
  by (simp add: plain_text_def is_ascii_digits show_nat_digits nobreak_show_nat)

lemma plain_show_int [simp]: "plain_text (show_int i)"
proof -
  have "plain_text ''-''" by code_simp
  then show ?thesis using plain_text_append [of "''-''"] by (simp add: show_int_def plain_show_nat del: plain_text_append)
qed

text \<open>The masks the trace analysis writes are the masks this tool reads: for disabled slots without
  duplicates or negative numbers, a description and a number format that print plain ASCII without
  line breaks, reading the file write_mask wrote gives exactly the disabled slots, in its order.
\<close>
theorem written_mask_reads_back:
  assumes "ds \<noteq> []" "distinct (map slot_of_entry ds)" "\<forall>d \<in> set ds. 0 \<le> fst d \<and> 0 \<le> fst (snd d)"
    and "plain_text description" "\<And>x. plain_text (fmt x)"
  shows "\<exists>s'. write_mask fmt path description n_experts ds s = (Inr (), s') \<and>
    read_slot_mask path s' = (Inr (map slot_of_entry ds), s')"
proof -
  define ls where "ls = [''# KVL_MOE_MASK_V1'', ''# n_experts='' @ show_int n_experts @ '' '' @ description,
       ''# columns: layer expert ; comments show calibration saliency/count''] @ map (mask_row fmt) ds"
  have k: "plain_text ''# KVL_MOE_MASK_V1''" "plain_text ''# n_experts=''" "plain_text '' ''"
    "plain_text ''# columns: layer expert ; comments show calibration saliency/count''"
    "plain_text '' # saliency=''" "plain_text '' selected=''"
    by code_simp+
  have "plain_text (mask_row fmt d)" for d
    using k assms(5) by (cases d) (simp only: mask_row_def prod.case plain_text_append plain_show_int simp_thms)
  then have plain: "\<forall>l \<in> set ls. plain_text l"
    using k assms(4) by (auto simp only: ls_def set_append set_map list.set plain_text_append plain_show_int)
  have t: "mask_text fmt description n_experts ds = concat (map (\<lambda>l. l @ [LF]) ls)"
    by (simp add: mask_text_def ls_def)
  have lf: "is_ascii [LF]" by code_simp
  have "is_ascii (concat (map (\<lambda>l. l @ [LF]) ls))"
    using plain lf by (auto simp: plain_text_def is_ascii_def list_all_iff)
  then have dec: "ascii_decode (ascii_encode (mask_text fmt description n_experts ds)) =
      Inr (mask_text fmt description n_experts ds)"
    by (simp add: t ascii_roundtrip)
  have lines: "splitlines (mask_text fmt description n_experts ds) = ls"
    unfolding t by (rule splitlines_joined) (use plain in \<open>auto simp: list_all_iff plain_text_def\<close>)
  have comment: "slot_mask_line acc (CHR ''#'' # c) = Inr acc" for acc c
    by (simp add: slot_mask_line_def before_hash_def py_strip_def)
  have "foldR slot_mask_line [] ls = Inr (map slot_of_entry ds)"
    using slot_mask_fold [OF assms(2,3), of "[]"] by (simp add: ls_def comment)
  then have "read_slot_mask_text (mask_text fmt description n_experts ds) = Inr (map slot_of_entry ds)"
    using assms(1) by (simp add: read_slot_mask_text_def lines)
  then show ?thesis
    by (simp add: write_mask_def write_text_def read_slot_mask_def io_bind_def read_text_app dec)
qed

theorem written_mask_reads_back_witness:
  "\<exists>s'. write_mask (\<lambda>_. ''0'') ''m'' ''keep=1'' 4 [(1, 3, Fin 0, 0), (2, 0, Fin 0, 0)] Map.empty = (Inr (), s') \<and>
     read_slot_mask ''m'' s' = (Inr [(1, 3), (2, 0)], s')"
proof -
  have "plain_text ''keep=1''" "plain_text ''0''" by code_simp+
  then show ?thesis
    using written_mask_reads_back [of "[(1, 3, Fin 0, 0), (2, 0, Fin 0, 0)]" "''keep=1''" "\<lambda>_. ''0''" "''m''" 4 Map.empty]
    by (simp add: slot_of_entry_def)
qed

end
