(* ===== verification/ReapVl.thy ===== *)
theory ReapVl
  imports MaskNovelty
begin

text \<open>
  Modality-aware REAP masks (\<^verbatim>\<open>tools/analyze_kimi_reap_vl.py\<close>): text traces and VL traces split into
  media and text events, the mean saliency per expert normalised by the layer's median and maximised
  over the modalities, the greedy choice of slots to disable under a cap per layer and per router
  group, with a snapshot at every target, and the output files: report, ranking and masks. Reading a count from the source's
  defaultdict inserts a zero entry, which changes no sum; the model reads without inserting.
\<close>

section \<open>Traces\<close>

record reap_row =
  vr_event :: int
  vr_layer :: int
  vr_expert :: int
  vr_weight :: pyfloat
  vr_l2 :: pyfloat
  vr_saliency :: pyfloat

definition reap_trace_row :: "string \<Rightarrow> reap_row res" where
  "reap_trace_row line = (let parts = py_split line in
     if length parts \<noteq> 6 then Inl (ValueError ''expected six columns'')
     else rbind (int_res (parts ! 0)) (\<lambda>event. rbind (int_res (parts ! 1)) (\<lambda>layer.
          rbind (int_res (parts ! 2)) (\<lambda>expert. rbind (float_res (parts ! 3)) (\<lambda>weight.
          rbind (float_res (parts ! 4)) (\<lambda>output_l2. rbind (float_res (parts ! 5)) (\<lambda>saliency.
            if event \<le> 0 \<or> layer \<le> 0 \<or> expert < 0 then Inl (ValueError ''invalid event/layer/expert'')
            else if \<not> (is_finite weight \<and> is_finite output_l2 \<and> is_finite saliency)
            then Inl (ValueError ''non-finite metric'')
            else if flt output_l2 (Fin 0) \<or> flt saliency (Fin 0) then Inl (ValueError ''negative norm/saliency'')
            else Inr \<lparr>vr_event = event, vr_layer = layer, vr_expert = expert, vr_weight = weight,
                   vr_l2 = output_l2, vr_saliency = saliency\<rparr>)))))))"

definition read_reap_trace :: "string \<Rightarrow> reap_row list io" where
  "read_reap_trace path = io_bind (read_text path) (\<lambda>t.
     io_lift (rbind (mapR reap_trace_row (table_of t)) (\<lambda>rows.
       if rows = [] then Inl (ValueError ''empty trace'') else Inr rows)))"

definition token_line :: "string \<Rightarrow> int res" where
  "token_line line = (case py_int line of
     None \<Rightarrow> Inl (ValueError ''invalid token id'')
   | Some token \<Rightarrow> if token < 0 then Inl (ValueError ''negative token id'') else Inr token)"

definition read_token_ids :: "string \<Rightarrow> int list io" where
  "read_token_ids path = io_bind (read_text path) (\<lambda>t.
     io_lift (rbind (mapR token_line (filter (\<lambda>l. l \<noteq> []) (map py_strip (splitlines t)))) (\<lambda>ids.
       if ids = [] then Inl (ValueError ''empty prompt ids'') else Inr ids)))"

definition vl_event_kind :: "reap_row \<Rightarrow> int list \<Rightarrow> string res" where
  "vl_event_kind row ids =
     (let n = int (length ids);
          zero = vr_event row - 1
      in if zero div n + 1 \<noteq> vr_layer row then Inl (ValueError ''VL trace ordering mismatch'')
         else Inr (if ids ! nat (zero mod n) = MEDIA_PAD_ID then ''media'' else ''vl_text''))"

text \<open>\<^verbatim>\<open>statistics.median\<close> of the positive values.\<close>

definition median :: "pyfloat list \<Rightarrow> pyfloat res" where
  "median xs = (let data = py_sort flt xs; n = length data in
     if n = 0 then Inl (ValueError ''no median for empty data'')
     else if odd n then Inr (data ! (n div 2))
     else fdiv (fadd (data ! (n div 2 - 1)) (data ! (n div 2))) (Fin 2))"

definition positive_median :: "pyfloat list \<Rightarrow> pyfloat res" where
  "positive_median xs = (let positive = filter (\<lambda>x. flt (Fin 0) x) xs in
     if positive = [] then Inr (Fin 1) else median positive)"

section \<open>Statistics\<close>

text \<open>An observation is a trace row with its kind; the statistics count and sum them per slot.\<close>

type_synonym reap_obs = "(string \<times> int \<times> int) \<times> pyfloat"

definition observe :: "int \<Rightarrow> (reap_row \<Rightarrow> string res) \<Rightarrow> reap_row \<Rightarrow> reap_obs res" where
  "observe n_experts kind_of row =
     (if n_experts \<le> vr_expert row then Inl (ValueError ''expert >= n_experts'')
      else rbind (kind_of row) (\<lambda>kind. Inr ((kind, vr_layer row, vr_expert row), vr_saliency row)))"

fun text_observations :: "int \<Rightarrow> (string \<times> string) list \<Rightarrow> reap_obs list io" where
  "text_observations n_experts [] = io_return []"
| "text_observations n_experts ((kind, path) # rest) =
     io_bind (read_reap_trace path) (\<lambda>rows.
     io_bind (io_lift (mapR (observe n_experts (\<lambda>_. Inr kind)) rows)) (\<lambda>os.
     io_bind (text_observations n_experts rest) (\<lambda>os'. io_return (os @ os'))))"

fun vl_observations :: "int \<Rightarrow> (string \<times> string) list \<Rightarrow> reap_obs list io" where
  "vl_observations n_experts [] = io_return []"
| "vl_observations n_experts ((trace, ids_path) # rest) =
     io_bind (read_token_ids ids_path) (\<lambda>ids.
     io_bind (read_reap_trace trace) (\<lambda>rows.
     io_bind (io_lift (mapR (observe n_experts (\<lambda>r. vl_event_kind r ids)) rows)) (\<lambda>os.
     io_bind (vl_observations n_experts rest) (\<lambda>os'. io_return (os @ os')))))"

type_synonym reap_stats = "((string \<times> int \<times> int) \<times> int \<times> pyfloat) list"

definition reap_table :: "reap_obs list \<Rightarrow> reap_stats" where
  "reap_table os = tally (0, Fin 0) fst (\<lambda>(n, x) o'. (n + 1, fadd x (snd o'))) [] os"

definition reap_stat :: "reap_stats \<Rightarrow> string \<Rightarrow> int \<Rightarrow> int \<Rightarrow> int \<times> pyfloat" where
  "reap_stat st kind layer expert = dict_get (0, Fin 0) (kind, layer, expert) st"

definition mean_saliency :: "int \<times> pyfloat \<Rightarrow> pyfloat res" where
  "mean_saliency v = (if fst v \<noteq> 0 then rbind (float_of_int (fst v)) (fdiv (snd v)) else Inr (Fin 0))"

definition reap_scale :: "reap_stats \<Rightarrow> int \<Rightarrow> string \<Rightarrow> int \<Rightarrow> pyfloat res" where
  "reap_scale st n_experts kind layer =
     rbind (mapR (\<lambda>expert. mean_saliency (reap_stat st kind layer expert)) [0..n_experts - 1]) positive_median"

record kind_stats =
  ks_kind :: string
  ks_selected :: int
  ks_sum :: pyfloat
  ks_mean :: pyfloat
  ks_scale :: pyfloat
  ks_normalized :: pyfloat

record reap_expert =
  ve_layer :: int
  ve_expert :: int
  ve_score :: pyfloat
  ve_support :: int
  ve_selected :: int
  ve_kinds :: "kind_stats list"

definition kind_row :: "reap_stats \<Rightarrow> ((string \<times> int) \<times> pyfloat) list \<Rightarrow> int \<Rightarrow> int \<Rightarrow> string \<Rightarrow> kind_stats res" where
  "kind_row st scales layer expert kind =
     (let v = reap_stat st kind layer expert;
          scale = dict_get (Fin 0) (kind, layer) scales
      in rbind (mean_saliency v) (\<lambda>m.
         rbind (if flt (Fin 0) m \<and> flt (Fin 0) scale then fdiv m scale else Inr (Fin 0)) (\<lambda>normalized.
           Inr \<lparr>ks_kind = kind, ks_selected = fst v, ks_sum = snd v, ks_mean = m, ks_scale = scale,
                ks_normalized = normalized\<rparr>)))"

definition reap_expert_of :: "int \<Rightarrow> int \<Rightarrow> kind_stats list \<Rightarrow> reap_expert" where
  "reap_expert_of layer expert ks =
     \<lparr>ve_layer = layer, ve_expert = expert,
      ve_score = foldl (\<lambda>score k. fmax2 score (ks_normalized k)) (Fin 0) ks,
      ve_support = int (length (filter (\<lambda>k. ks_selected k \<noteq> 0) ks)),
      ve_selected = sum_list (map ks_selected ks), ve_kinds = ks\<rparr>"

definition reap_expert_row ::
  "reap_stats \<Rightarrow> ((string \<times> int) \<times> pyfloat) list \<Rightarrow> string list \<Rightarrow> int \<times> int \<Rightarrow> reap_expert res" where
  "reap_expert_row st scales kinds slot = (case slot of (layer, expert) \<Rightarrow>
     rbind (mapR (kind_row st scales layer expert) kinds) (\<lambda>ks. Inr (reap_expert_of layer expert ks)))"

section \<open>The greedy choice\<close>

definition reap_lt :: "reap_expert \<Rightarrow> reap_expert \<Rightarrow> bool" where
  "reap_lt a b = (if \<not> feq (ve_score a) (ve_score b) then flt (ve_score a) (ve_score b)
     else (ve_support a, ve_selected a, ve_layer a, ve_expert a) < (ve_support b, ve_selected b, ve_layer b, ve_expert b))"

record reap_caps =
  rc_layer :: int
  rc_group :: int
  rc_per_group :: int
  rc_targets :: "int list"

record greedy =
  gr_chosen :: "reap_expert list"
  gr_layers :: "(int \<times> int) list"
  gr_groups :: "((int \<times> int) \<times> int) list"
  gr_snapshots :: "(int \<times> reap_expert list) list"

definition group_of :: "reap_caps \<Rightarrow> reap_expert \<Rightarrow> int \<times> int" where
  "group_of c row = (ve_layer row, ve_expert row div rc_per_group c)"

definition capped :: "reap_caps \<Rightarrow> greedy \<Rightarrow> reap_expert \<Rightarrow> bool" where
  "capped c g row = (rc_layer c \<le> dict_get 0 (ve_layer row) (gr_layers g) \<or>
     rc_group c \<le> dict_get 0 (group_of c row) (gr_groups g))"

definition choose_row :: "reap_caps \<Rightarrow> greedy \<Rightarrow> reap_expert \<Rightarrow> greedy" where
  "choose_row c g row = (let chosen = gr_chosen g @ [row]; k = int (length chosen) in
     \<lparr>gr_chosen = chosen, gr_layers = dict_upd 0 (ve_layer row) (\<lambda>n. n + 1) (gr_layers g),
      gr_groups = dict_upd 0 (group_of c row) (\<lambda>n. n + 1) (gr_groups g),
      gr_snapshots = (if k \<in> set (rc_targets c) then dict_set k chosen (gr_snapshots g) else gr_snapshots g)\<rparr>)"

definition max_target :: "reap_caps \<Rightarrow> int" where
  "max_target c = foldl max (hd (rc_targets c)) (tl (rc_targets c))"

fun greedy_run :: "reap_caps \<Rightarrow> greedy \<Rightarrow> reap_expert list \<Rightarrow> greedy" where
  "greedy_run c g [] = g"
| "greedy_run c g (row # rows) =
     (if capped c g row then greedy_run c g rows
      else let g' = choose_row c g row in
        if max_target c \<le> int (length (gr_chosen g')) then g' else greedy_run c g' rows)"

definition no_choice :: greedy where
  "no_choice = \<lparr>gr_chosen = [], gr_layers = [], gr_groups = [], gr_snapshots = []\<rparr>"

section \<open>The report\<close>

text \<open>The report's constants (schema, descriptions) and the arguments it repeats are left out.\<close>

record kind_loss =
  kl_kind :: string
  kl_seen_slots :: int
  kl_fraction :: pyfloat

record reap_target =
  vt_disabled :: int
  vt_zero_score :: int
  vt_max_layer :: int
  vt_max_group :: int
  vt_kinds :: "kind_loss list"

definition kind_entry :: "string \<Rightarrow> reap_expert \<Rightarrow> kind_stats res" where
  "kind_entry kind row = of_option (KeyError kind) (find (\<lambda>k. ks_kind k = kind) (ve_kinds row))"

definition kind_loss_of :: "reap_stats \<Rightarrow> reap_expert list \<Rightarrow> string \<Rightarrow> kind_loss res" where
  "kind_loss_of st disabled kind =
     rbind (mapR (kind_entry kind) disabled) (\<lambda>ks.
       let denom = fsum (map (\<lambda>(k, v). snd v) (filter (\<lambda>(k, v). fst k = kind) st)) in
       rbind (if feq denom (Fin 0) then Inr (Fin 0) else fdiv (fsum (map ks_sum ks)) denom) (\<lambda>q.
         Inr \<lparr>kl_kind = kind, kl_seen_slots = int (length (filter (\<lambda>k. 0 < ks_selected k) ks)),
              kl_fraction = q\<rparr>))"

definition max_count :: "('k \<times> int) list \<Rightarrow> int" where
  "max_count kvs = (case map snd kvs of [] \<Rightarrow> 0 | n # ns \<Rightarrow> foldl max n ns)"

definition reap_target_of ::
  "reap_caps \<Rightarrow> reap_stats \<Rightarrow> string list \<Rightarrow> (int \<times> reap_expert list) list \<Rightarrow> int \<Rightarrow> reap_target res" where
  "reap_target_of c st kinds snapshots target =
     rbind (of_option (KeyError ''target'') (map_of snapshots target)) (\<lambda>disabled.
     rbind (mapR (kind_loss_of st disabled) kinds) (\<lambda>by_kind.
       Inr \<lparr>vt_disabled = target,
            vt_zero_score = int (length (filter (\<lambda>r. feq (ve_score r) (Fin 0)) disabled)),
            vt_max_layer = max_count (tally 0 ve_layer (\<lambda>n _. n + 1) [] disabled),
            vt_max_group = max_count (tally 0 (group_of c) (\<lambda>n _. n + 1) [] disabled),
            vt_kinds = by_kind\<rparr>))"

record reap_report =
  vp_layers :: "int list"
  vp_kinds :: "string list"
  vp_trace_rows :: "(string \<times> int) list"
  vp_targets :: "(int \<times> reap_target) list"
  vp_experts :: "reap_expert list"
  vp_prune_order :: "(int \<times> int \<times> pyfloat) list"

definition reap_rank ::
  "reap_caps \<Rightarrow> int \<Rightarrow> bool \<Rightarrow> reap_obs list \<Rightarrow> (reap_report \<times> (int \<times> reap_expert list) list) res" where
  "reap_rank c n_experts has_vl os =
     (let st = reap_table os;
          layers = sorted_set (map (\<lambda>o'. fst (snd (fst o'))) os);
          kinds = sorted_set (map (\<lambda>o'. fst (fst o')) os)
      in if ''media'' \<notin> set kinds \<and> has_vl then Inl (ValueError ''VL traces contained no media-token events'')
         else rbind (mapR (\<lambda>(kind, layer). rmap (Pair (kind, layer)) (reap_scale st n_experts kind layer))
                      (List.product kinds layers)) (\<lambda>scales.
              rbind (mapR (reap_expert_row st scales kinds) (List.product layers [0..n_experts - 1])) (\<lambda>experts.
              let g = greedy_run c no_choice (py_sort reap_lt experts) in
              if int (length (gr_chosen g)) < max_target c then Inl (ValueError ''mask caps permit only'')
              else rbind (mapR (\<lambda>t. rmap (Pair t) (reap_target_of c st kinds (gr_snapshots g) t)) (rc_targets c)) (\<lambda>ts.
                Inr (\<lparr>vp_layers = layers, vp_kinds = kinds,
                      vp_trace_rows = tally 0 (\<lambda>o'. fst (fst o')) (\<lambda>n _. n + 1) [] os,
                      vp_targets = ts, vp_experts = experts,
                      vp_prune_order = map (\<lambda>r. (ve_layer r, ve_expert r, ve_score r)) (gr_chosen g)\<rparr>,
                     gr_snapshots g)))))"

definition build_reap ::
  "(string \<times> string) list \<Rightarrow> (string \<times> string) list \<Rightarrow> int \<Rightarrow> int \<Rightarrow> int list \<Rightarrow> int \<Rightarrow> int \<Rightarrow>
   (reap_report \<times> (int \<times> reap_expert list) list) io" where
  "build_reap text_traces vl_pairs n_experts n_groups targets per_layer per_group =
     (if n_experts \<le> 0 \<or> n_groups \<le> 0 \<or> n_experts mod n_groups \<noteq> 0
      then io_raise (ValueError ''n_experts must be positive and divisible by n_groups'')
      else if text_traces = [] \<and> vl_pairs = [] then io_raise (ValueError ''at least one trace is required'')
      else if targets = [] \<or> list_ex (\<lambda>t. t \<le> 0) targets \<or> targets \<noteq> sorted_set targets
      then io_raise (ValueError ''targets must be unique positive integers in increasing order'')
      else if per_layer \<le> 0 \<or> per_group \<le> 0 then io_raise (ValueError ''mask caps must be positive'')
      else io_bind (text_observations n_experts text_traces) (\<lambda>ts.
           io_bind (vl_observations n_experts vl_pairs) (\<lambda>vs.
           io_lift (reap_rank \<lparr>rc_layer = per_layer, rc_group = per_group,
               rc_per_group = n_experts div n_groups, rc_targets = targets\<rparr> n_experts (vl_pairs \<noteq> []) (ts @ vs)))))"

section \<open>Mask files\<close>

definition reap_mask_row :: "(pyfloat \<Rightarrow> string) \<Rightarrow> (pyfloat \<Rightarrow> string) \<Rightarrow> string list \<Rightarrow> reap_expert \<Rightarrow> string res" where
  "reap_mask_row fmt6 fmt9 kinds row =
     rbind (mapR (\<lambda>kind. rmap (\<lambda>k. kind @ ''='' @ fmt6 (ks_normalized k)) (kind_entry kind row)) kinds) (\<lambda>bits.
       Inr (show_int (ve_layer row) @ '' '' @ show_int (ve_expert row) @ '' # final='' @ fmt9 (ve_score row) @
            '' '' @ join '' '' bits))"

definition reap_mask_text ::
  "(pyfloat \<Rightarrow> string) \<Rightarrow> (pyfloat \<Rightarrow> string) \<Rightarrow> string list \<Rightarrow> int \<Rightarrow> reap_expert list \<Rightarrow> string res" where
  "reap_mask_text fmt6 fmt9 kinds target rows =
     rbind (mapR (reap_mask_row fmt6 fmt9 kinds) rows) (\<lambda>ls.
       Inr (concat (map (\<lambda>l. l @ [LF]) ([''# KVL_MOE_MASK_V1'',
         ''# REAP-VL logical mask disabled_slots='' @ show_int target,
         ''# final_score is max normalized mean contribution across modalities''] @ ls))))"

definition reap_mask_path :: "string \<Rightarrow> int \<Rightarrow> string" where
  "reap_mask_path out_dir target = in_dir out_dir (''mask-reap'' @ show_int target @ ''.txt'')"

fun write_reap_masks ::
  "(pyfloat \<Rightarrow> string) \<Rightarrow> (pyfloat \<Rightarrow> string) \<Rightarrow> string \<Rightarrow> string list \<Rightarrow> (int \<times> reap_expert list) list \<Rightarrow> unit io" where
  "write_reap_masks fmt6 fmt9 out_dir kinds [] = io_return ()"
| "write_reap_masks fmt6 fmt9 out_dir kinds ((target, rows) # rest) =
     io_bind (io_lift (reap_mask_text fmt6 fmt9 kinds target rows)) (\<lambda>t.
     io_bind (write_text (reap_mask_path out_dir target) t) (\<lambda>_.
       write_reap_masks fmt6 fmt9 out_dir kinds rest))"

text \<open>
  \<^verbatim>\<open>ranking.tsv\<close>: a header and one row per expert, by ascending score. The \<^verbatim>\<open>csv\<close> writer quotes a field that holds the
  delimiter, a quote or a line break. The file is made in one piece; the entry of a kind is never missing in a built report.
\<close>

definition TAB :: char where "TAB = CHR 0x09"
definition QUOTE :: char where "QUOTE = CHR 0x22"

definition csv_field :: "string \<Rightarrow> string" where
  "csv_field f = (if list_ex (\<lambda>c. c \<in> {TAB, QUOTE, LF, CR}) f
     then QUOTE # concat (map (\<lambda>c. if c = QUOTE then [QUOTE, QUOTE] else [c]) f) @ [QUOTE] else f)"

definition csv_line :: "string list \<Rightarrow> string" where
  "csv_line cells = join [TAB] (map csv_field cells) @ [LF]"

definition ranking_fields :: "string list \<Rightarrow> string list" where
  "ranking_fields kinds = [''layer'', ''expert'', ''final_score'', ''support_kinds'', ''selected_total'']
     @ concat (map (\<lambda>k. [k @ ''_selected'', k @ ''_mean'', k @ ''_normalized'']) kinds)"

definition ranking_lt :: "reap_expert \<Rightarrow> reap_expert \<Rightarrow> bool" where
  "ranking_lt a b = (if \<not> feq (ve_score a) (ve_score b) then flt (ve_score a) (ve_score b)
     else (ve_layer a, ve_expert a) < (ve_layer b, ve_expert b))"

definition ranking_row :: "(pyfloat \<Rightarrow> string) \<Rightarrow> string list \<Rightarrow> reap_expert \<Rightarrow> string list res" where
  "ranking_row fmt12 kinds row =
     rbind (mapR (\<lambda>kind. rmap (\<lambda>k. [show_int (ks_selected k), fmt12 (ks_mean k), fmt12 (ks_normalized k)])
              (kind_entry kind row)) kinds) (\<lambda>cells.
       Inr ([show_int (ve_layer row), show_int (ve_expert row), fmt12 (ve_score row), show_int (ve_support row),
             show_int (ve_selected row)] @ concat cells))"

definition ranking_text :: "(pyfloat \<Rightarrow> string) \<Rightarrow> reap_report \<Rightarrow> string res" where
  "ranking_text fmt12 rep =
     rbind (mapR (ranking_row fmt12 (vp_kinds rep)) (py_sort ranking_lt (vp_experts rep))) (\<lambda>rows.
       Inr (concat (map csv_line (ranking_fields (vp_kinds rep) # rows))))"

definition report_path :: "string \<Rightarrow> string" where "report_path out_dir = in_dir out_dir ''report.json''"
definition ranking_path :: "string \<Rightarrow> string" where "ranking_path out_dir = in_dir out_dir ''ranking.tsv''"

text \<open>The three number formats and \<^verbatim>\<open>json.dumps\<close> of the report are parameters.\<close>

record reap_format =
  rf_json :: "reap_report \<Rightarrow> string"
  rf_12g :: "pyfloat \<Rightarrow> string"
  rf_9g :: "pyfloat \<Rightarrow> string"
  rf_6g :: "pyfloat \<Rightarrow> string"

definition write_reap_outputs :: "reap_format \<Rightarrow> string \<Rightarrow> reap_report \<Rightarrow> (int \<times> reap_expert list) list \<Rightarrow> unit io" where
  "write_reap_outputs F out_dir rep masks =
     io_bind (write_text (report_path out_dir) (rf_json F rep @ [LF])) (\<lambda>_.
     io_bind (io_lift (ranking_text (rf_12g F) rep)) (\<lambda>t.
     io_bind (write_text (ranking_path out_dir) t) (\<lambda>_.
       write_reap_masks (rf_6g F) (rf_9g F) out_dir (vp_kinds rep) masks)))"

text \<open>
  The command line: \<^verbatim>\<open>KIND=PATH\<close> and \<^verbatim>\<open>TRACE=PROMPT_IDS\<close> arguments, whose type errors argparse turns
  into an exit, then the report, the ranking and the masks.
\<close>

definition split_pair :: "string \<Rightarrow> (string \<times> string) option" where
  "split_pair v = (if CHR ''='' \<in> set v
     then Some (takeWhile (\<lambda>c. c \<noteq> CHR ''='') v, tl (dropWhile (\<lambda>c. c \<noteq> CHR ''='') v)) else None)"

definition parse_kind_path :: "string \<Rightarrow> (string \<times> string) res" where
  "parse_kind_path v = (case split_pair v of
     None \<Rightarrow> Inl (SystemExit ''expected KIND=PATH'')
   | Some (kind, raw) \<Rightarrow> if py_strip kind = [] \<or> py_strip raw = []
       then Inl (SystemExit ''expected non-empty KIND=PATH'') else Inr (py_strip kind, raw))"

definition parse_vl_pair :: "string \<Rightarrow> (string \<times> string) res" where
  "parse_vl_pair v = (case split_pair v of
     None \<Rightarrow> Inl (SystemExit ''expected TRACE=PROMPT_IDS'')
   | Some (trace, ids) \<Rightarrow> if py_strip trace = [] \<or> py_strip ids = []
       then Inl (SystemExit ''expected non-empty TRACE=PROMPT_IDS'') else Inr (trace, ids))"

definition reap_main ::
  "reap_format \<Rightarrow> string list \<Rightarrow> string list \<Rightarrow> int \<Rightarrow> int \<Rightarrow> int list \<Rightarrow> int \<Rightarrow> int \<Rightarrow>
   string \<Rightarrow> (reap_report \<times> (int \<times> reap_expert list) list) io" where
  "reap_main F traces vl_traces n_experts n_groups targets per_layer per_group out_dir =
     io_bind (io_lift (mapR parse_kind_path traces)) (\<lambda>text_traces.
     io_bind (io_lift (mapR parse_vl_pair vl_traces)) (\<lambda>vl_pairs.
     io_bind (build_reap text_traces vl_pairs n_experts n_groups targets per_layer per_group) (\<lambda>(rep, snaps).
     io_bind (write_reap_outputs F out_dir rep snaps) (\<lambda>_. io_return (rep, snaps)))))"

section \<open>The greedy choice, step by step\<close>

definition layer_load :: "reap_expert list \<Rightarrow> int \<Rightarrow> int" where
  "layer_load ch l = int (length (filter (\<lambda>r. ve_layer r = l) ch))"

definition group_load :: "reap_caps \<Rightarrow> reap_expert list \<Rightarrow> int \<times> int \<Rightarrow> int" where
  "group_load c ch k = int (length (filter (\<lambda>r. group_of c r = k) ch))"

definition full :: "reap_caps \<Rightarrow> reap_expert list \<Rightarrow> reap_expert \<Rightarrow> bool" where
  "full c ch r = (rc_layer c \<le> layer_load ch (ve_layer r) \<or> rc_group c \<le> group_load c ch (group_of c r))"

lemma loads_snoc [simp]:
  "layer_load (ch @ [r]) l = layer_load ch l + (if ve_layer r = l then 1 else 0)"
  "group_load c (ch @ [r]) k = group_load c ch k + (if group_of c r = k then 1 else 0)"
  by (simp_all add: layer_load_def group_load_def)

lemma full_snoc: "full c ch r \<Longrightarrow> full c (ch @ [x]) r"
  by (auto simp: full_def)

text \<open>
  \<open>greedy_ok c seen g\<close>: after the rows \<open>seen\<close>, the counters of \<open>g\<close> count the chosen rows, the caps
  hold, every seen row is chosen or was full, the snapshots are prefixes of the choice, and the
  rows before the \<open>k\<close>-th chosen one are among the first \<open>k\<close> or full with respect to them.
\<close>

definition prefix_ok :: "reap_caps \<Rightarrow> reap_expert list \<Rightarrow> reap_expert list \<Rightarrow> bool" where
  "prefix_ok c seen ch = (\<forall>k < length ch. \<exists>before after. seen = before @ ch ! k # after \<and>
     set (take k ch) \<subseteq> set before \<and> (\<forall>r \<in> set before. r \<in> set (take k ch) \<or> full c (take (Suc k) ch) r))"

definition snaps_ok :: "reap_caps \<Rightarrow> greedy \<Rightarrow> bool" where
  "snaps_ok c g = (\<forall>t. map_of (gr_snapshots g) t =
     (if t \<in> set (rc_targets c) \<and> 0 < t \<and> t \<le> int (length (gr_chosen g)) then Some (take (nat t) (gr_chosen g)) else None))"

definition counters_ok :: "reap_caps \<Rightarrow> greedy \<Rightarrow> bool" where
  "counters_ok c g = ((\<forall>l. dict_get 0 l (gr_layers g) = layer_load (gr_chosen g) l \<and> layer_load (gr_chosen g) l \<le> rc_layer c) \<and>
     (\<forall>k. dict_get 0 k (gr_groups g) = group_load c (gr_chosen g) k \<and> group_load c (gr_chosen g) k \<le> rc_group c))"

definition greedy_ok :: "reap_caps \<Rightarrow> reap_expert list \<Rightarrow> greedy \<Rightarrow> bool" where
  "greedy_ok c seen g = (counters_ok c g \<and> snaps_ok c g \<and> prefix_ok c seen (gr_chosen g) \<and>
     distinct (gr_chosen g) \<and> set (gr_chosen g) \<subseteq> set seen \<and>
     (\<forall>r \<in> set seen. r \<in> set (gr_chosen g) \<or> full c (gr_chosen g) r))"

lemma counters_caps:
  "counters_ok c g \<Longrightarrow> layer_load (gr_chosen g) l \<le> rc_layer c \<and> group_load c (gr_chosen g) k \<le> rc_group c"
  by (simp add: counters_ok_def del: split_paired_All)

lemma capped_full: "counters_ok c g \<Longrightarrow> capped c g r = full c (gr_chosen g) r"
  by (simp add: capped_def full_def counters_ok_def del: split_paired_All)

lemma prefix_ok_later: "prefix_ok c seen ch \<Longrightarrow> prefix_ok c (seen @ ws) ch"
  unfolding prefix_ok_def by (metis append.assoc append_Cons)

lemma prefix_ok_snoc:
  assumes "prefix_ok c seen ch" "set ch \<subseteq> set seen" "\<forall>r \<in> set seen. r \<in> set ch \<or> full c ch r"
  shows "prefix_ok c (seen @ [r]) (ch @ [r])"
  unfolding prefix_ok_def
proof (intro allI impI)
  fix k assume k: "k < length (ch @ [r])"
  show "\<exists>before after. seen @ [r] = before @ (ch @ [r]) ! k # after \<and>
      set (take k (ch @ [r])) \<subseteq> set before \<and>
      (\<forall>x \<in> set before. x \<in> set (take k (ch @ [r])) \<or> full c (take (Suc k) (ch @ [r])) x)"
  proof (cases "k = length ch")
    case True
    then show ?thesis using assms(2,3) full_snoc by (intro exI [of _ seen] exI [of _ "[]"]) auto
  next
    case False
    with k have "k < length ch" by simp
    then show ?thesis
      using prefix_ok_later [OF assms(1), of "[r]"] by (simp add: prefix_ok_def nth_append)
  qed
qed

lemma snaps_ok_choose:
  assumes "snaps_ok c g"
  shows "snaps_ok c (choose_row c g r)"
proof -
  let ?ch = "gr_chosen g"
  have "map_of (gr_snapshots (choose_row c g r)) t =
      (if t \<in> set (rc_targets c) \<and> 0 < t \<and> t \<le> int (length (?ch @ [r])) then Some (take (nat t) (?ch @ [r])) else None)" for t
    using assms by (cases "t = int (length ?ch) + 1") (auto simp: snaps_ok_def choose_row_def Let_def add.commute)
  then show ?thesis by (simp add: snaps_ok_def choose_row_def Let_def)
qed

lemma counters_ok_choose:
  "counters_ok c g \<Longrightarrow> \<not> capped c g r \<Longrightarrow> counters_ok c (choose_row c g r)"
  by (auto simp: counters_ok_def capped_def choose_row_def Let_def simp del: split_paired_All)

lemma greedy_ok_skip: "greedy_ok c seen g \<Longrightarrow> capped c g r \<Longrightarrow> greedy_ok c (seen @ [r]) g"
  using capped_full [of c g r] prefix_ok_later [of c seen "gr_chosen g" "[r]"] by (auto simp: greedy_ok_def)

lemma greedy_ok_choose:
  assumes "greedy_ok c seen g" "\<not> capped c g r" "r \<notin> set seen"
  shows "greedy_ok c (seen @ [r]) (choose_row c g r)"
proof -
  have ch: "gr_chosen (choose_row c g r) = gr_chosen g @ [r]" by (simp add: choose_row_def Let_def)
  have "prefix_ok c (seen @ [r]) (gr_chosen g @ [r])"
    using assms(1) by (intro prefix_ok_snoc) (auto simp: greedy_ok_def)
  then show ?thesis
    using assms counters_ok_choose [of c g r] snaps_ok_choose [of c g r] full_snoc
    by (auto simp: greedy_ok_def ch)
qed

lemma greedy_run_ok:
  "greedy_ok c seen g \<Longrightarrow> distinct (seen @ rows) \<Longrightarrow>
   \<exists>vis rest. seen @ rows = vis @ rest \<and> greedy_ok c vis (greedy_run c g rows)"
proof (induction rows arbitrary: seen g)
  case Nil
  then show ?case by (intro exI [of _ seen] exI [of _ "[]"]) simp
next
  case (Cons r rows)
  have d: "distinct ((seen @ [r]) @ rows)" "r \<notin> set seen" using Cons.prems(2) by auto
  show ?case
  proof (cases "capped c g r")
    case True
    then show ?thesis using Cons.IH [OF greedy_ok_skip [OF Cons.prems(1) True] d(1)] by simp
  next
    case False
    note ok = greedy_ok_choose [OF Cons.prems(1) False d(2)]
    show ?thesis
    proof (cases "max_target c \<le> int (length (gr_chosen (choose_row c g r)))")
      case True
      then show ?thesis
        using ok False by (intro exI [of _ "seen @ [r]"] exI [of _ rows]) (simp add: Let_def)
    next
      case 2: False
      then show ?thesis using Cons.IH [OF ok d(1)] False by (simp add: Let_def)
    qed
  qed
qed

lemma no_choice_ok: "0 \<le> rc_layer c \<Longrightarrow> 0 \<le> rc_group c \<Longrightarrow> greedy_ok c [] no_choice"
  by (simp add: greedy_ok_def counters_ok_def snaps_ok_def prefix_ok_def no_choice_def layer_load_def group_load_def)

text \<open>A row the first \<open>k\<close> choices leave out although it ranks below one of them is full.\<close>

lemma left_out_full:
  assumes ok: "prefix_ok c rows ch" and k: "k \<le> length ch"
    and sorted: "sorted_wrt (\<lambda>a b. \<not> lt b a) rows"
    and r: "r \<in> set rows" "r \<notin> set (take k ch)" and x: "x \<in> set (take k ch)" "lt r x"
  shows "full c (take k ch) r"
proof -
  have "k \<noteq> 0" using x(1) by (intro notI) simp
  then obtain j where j: "k = Suc j" by (cases k) auto
  then obtain before after where s: "rows = before @ ch ! j # after" "set (take j ch) \<subseteq> set before"
    "\<forall>r \<in> set before. r \<in> set (take j ch) \<or> full c (take (Suc j) ch) r"
    using ok k unfolding prefix_ok_def by (meson Suc_le_eq)
  have t: "take k ch = take j ch @ [ch ! j]" using k by (simp add: j take_Suc_conv_app_nth)
  have "r \<notin> set after"
  proof
    assume "r \<in> set after"
    then have "\<forall>y \<in> set (before @ [ch ! j]). \<not> lt r y"
      using sorted by (auto simp: s(1) sorted_wrt_append)
    then show False using x s(2) t by auto
  qed
  then have "r \<in> set before" using r t by (auto simp: s(1))
  then show ?thesis using s(3) r(2) t j by auto
qed

section \<open>What a report holds\<close>

definition scored :: "reap_expert \<Rightarrow> bool" where
  "scored r = (ve_score r \<noteq> NaN)"

definition reap_key :: "reap_expert \<Rightarrow> int \<times> int \<times> int \<times> int" where
  "reap_key r = (ve_support r, ve_selected r, ve_layer r, ve_expert r)"

lemma reap_lt_alt: "reap_lt a b = (if \<not> feq (ve_score a) (ve_score b) then flt (ve_score a) (ve_score b)
     else reap_key a < reap_key b)"
  by (simp add: reap_lt_def reap_key_def)

interpretation reap: weak_order reap_lt scored
proof
  fix x y z :: reap_expert
  have eq: "feq u v \<longleftrightarrow> u = v" if "u \<noteq> NaN" "v \<noteq> NaN" for u v
    using that by (auto simp: feq_def fle_refl fle_antisym)
  show "scored x \<Longrightarrow> \<not> reap_lt x x"
    by (auto simp: reap_lt_alt scored_def eq)
  show "scored x \<Longrightarrow> scored y \<Longrightarrow> reap_lt x y \<Longrightarrow> \<not> reap_lt y x"
    by (auto simp: reap_lt_alt scored_def eq flt_def split: if_splits)
  show "scored x \<Longrightarrow> scored y \<Longrightarrow> scored z \<Longrightarrow> \<not> reap_lt y x \<Longrightarrow> \<not> reap_lt z y \<Longrightarrow> \<not> reap_lt z x"
    by (auto simp: reap_lt_alt scored_def eq flt_not_fle split: if_splits dest: fle_antisym fle_trans)
qed

definition slot_key :: "reap_expert \<Rightarrow> int \<times> int" where
  "slot_key r = (ve_layer r, ve_expert r)"

lemma score_bounds:
  assumes "x \<noteq> NaN"
  shows "foldl (\<lambda>score k. fmax2 score (ks_normalized k)) x ks \<noteq> NaN \<and>
    fle x (foldl (\<lambda>score k. fmax2 score (ks_normalized k)) x ks) \<and>
    (foldl (\<lambda>score k. fmax2 score (ks_normalized k)) x ks = x \<or>
     foldl (\<lambda>score k. fmax2 score (ks_normalized k)) x ks \<in> ks_normalized ` set ks) \<and>
    (\<forall>k \<in> set ks. ks_normalized k = NaN \<or> fle (ks_normalized k) (foldl (\<lambda>score k. fmax2 score (ks_normalized k)) x ks))"
  using assms
proof (induction ks arbitrary: x)
  case Nil
  then show ?case by (simp add: fle_refl)
next
  case (Cons k ks)
  let ?y = "fmax2 x (ks_normalized k)"
  have y: "?y \<noteq> NaN" "fle x ?y" "ks_normalized k = NaN \<or> fle (ks_normalized k) ?y" "?y = x \<or> ?y = ks_normalized k"
    using Cons.prems fle_not_NaN fle_refl flt_not_fle [of x "ks_normalized k"] by (auto simp: fmax2_def flt_def)
  define F where "F = foldl (\<lambda>score k. fmax2 score (ks_normalized k)) ?y ks"
  have IH: "F \<noteq> NaN" "fle ?y F" "F = ?y \<or> F \<in> ks_normalized ` set ks"
    "\<forall>k \<in> set ks. ks_normalized k = NaN \<or> fle (ks_normalized k) F"
    using Cons.IH [OF y(1)] unfolding F_def by blast+
  have "fle x F" "ks_normalized k = NaN \<or> fle (ks_normalized k) F"
    using fle_trans [OF _ IH(2)] y(2,3) by blast+
  moreover have "F = x \<or> F \<in> ks_normalized ` set (k # ks)" using IH(3) y(4) by auto
  ultimately show ?case using IH(1,4) by (simp add: F_def [symmetric])
qed

lemma reap_stat_count:
  "fst (reap_stat (reap_table os) kind layer expert) = int (length (filter (\<lambda>o'. fst o' = (kind, layer, expert)) os))"
proof -
  have "fst (foldl (\<lambda>(n, x) o'. (n + 1, fadd x (snd o'))) (m, y) xs) = m + int (length xs)" for m y and xs :: "reap_obs list"
    by (induction xs arbitrary: m y) auto
  then show ?thesis by (simp add: reap_stat_def reap_table_def tally_lookup)
qed

lemma kind_row_ok:
  assumes "kind_row (reap_table os) scales layer expert kind = Inr k"
  shows "ks_kind k = kind \<and> ks_selected k = int (length (filter (\<lambda>o'. fst o' = (kind, layer, expert)) os)) \<and>
    (ks_selected k = 0 \<longrightarrow> ks_normalized k = Fin 0)"
  using assms
  by (auto simp: kind_row_def Let_def reap_stat_count mean_saliency_def split: if_splits elim!: rbind_InrE)

definition expert_ok :: "reap_obs list \<Rightarrow> string list \<Rightarrow> reap_expert \<Rightarrow> bool" where
  "expert_ok os kinds r = (map ks_kind (ve_kinds r) = kinds \<and> scored r \<and>
     (\<forall>k \<in> set (ve_kinds r). (ks_normalized k = NaN \<or> fle (ks_normalized k) (ve_score r)) \<and>
        ks_selected k = int (length (filter (\<lambda>o'. fst o' = (ks_kind k, slot_key r)) os))) \<and>
     (ve_score r = Fin 0 \<or> ve_score r \<in> ks_normalized ` set (ve_kinds r)) \<and>
     ve_selected r = sum_list (map ks_selected (ve_kinds r)) \<and>
     (ve_selected r = 0 \<longrightarrow> ve_score r = Fin 0))"

lemma reap_expert_row_ok:
  assumes "reap_expert_row (reap_table os) scales kinds slot = Inr r"
  shows "slot_key r = slot \<and> expert_ok os kinds r"
proof -
  obtain layer expert where slot: "slot = (layer, expert)" by (cases slot)
  obtain ks where ks: "mapR (kind_row (reap_table os) scales layer expert) kinds = Inr ks"
    and r: "r = reap_expert_of layer expert ks"
    using assms by (auto simp: reap_expert_row_def slot elim!: rbind_InrE)
  have each: "\<forall>k \<in> set ks. ks_selected k = int (length (filter (\<lambda>o'. fst o' = (ks_kind k, layer, expert)) os)) \<and>
      (ks_selected k = 0 \<longrightarrow> ks_normalized k = Fin 0)"
    using mapR_source [OF ks] kind_row_ok by fastforce
  have kinds: "map ks_kind ks = kinds"
    using mapR_map_eq [OF ks, of ks_kind "\<lambda>k. k"] kind_row_ok by force
  note S = score_bounds [of "Fin 0" ks]
  have zero: "ve_score r = Fin 0" if "sum_list (map ks_selected ks) = 0"
  proof -
    have "\<forall>k \<in> set ks. ks_selected k = 0"
    proof -
      have "0 \<le> x" if "x \<in> set (map ks_selected ks)" for x using that each by auto
      then have "\<forall>x \<in> set (map ks_selected ks). x = 0"
        using that sum_list_nonneg_eq_0_iff [of "map ks_selected ks"] by blast
      then show ?thesis by simp
    qed
    then have "\<forall>k \<in> set ks. ks_normalized k = Fin 0" using each by auto
    then show ?thesis using S by (auto simp: r reap_expert_of_def)
  qed
  show ?thesis
    using each kinds S zero by (auto simp: expert_ok_def slot r reap_expert_of_def slot_key_def scored_def)
qed

text \<open>The pieces of a successful ranking.\<close>

definition rank_ok :: "reap_caps \<Rightarrow> int \<Rightarrow> reap_obs list \<Rightarrow> reap_report \<Rightarrow> (int \<times> reap_expert list) list \<Rightarrow> greedy \<Rightarrow> bool" where
  "rank_ok c n os rep snaps g = (map slot_key (vp_experts rep) = List.product (vp_layers rep) [0..n - 1] \<and>
     vp_layers rep = sorted_set (map (\<lambda>o'. fst (snd (fst o'))) os) \<and>
     vp_kinds rep = sorted_set (map (\<lambda>o'. fst (fst o')) os) \<and>
     (\<forall>r \<in> set (vp_experts rep). expert_ok os (vp_kinds rep) r) \<and>
     vp_trace_rows rep = tally 0 (\<lambda>o'. fst (fst o')) (\<lambda>n _. n + 1) [] os \<and>
     g = greedy_run c no_choice (py_sort reap_lt (vp_experts rep)) \<and> snaps = gr_snapshots g \<and>
     max_target c \<le> int (length (gr_chosen g)) \<and>
     vp_prune_order rep = map (\<lambda>r. (ve_layer r, ve_expert r, ve_score r)) (gr_chosen g))"

lemma reap_rank_ok:
  assumes "reap_rank c n has_vl os = Inr (rep, snaps)"
  shows "\<exists>g. rank_ok c n os rep snaps g"
proof -
  obtain scales where e: "mapR (reap_expert_row (reap_table os) scales (vp_kinds rep))
        (List.product (vp_layers rep) [0..n - 1]) = Inr (vp_experts rep)"
    and l: "vp_layers rep = sorted_set (map (\<lambda>o'. fst (snd (fst o'))) os)"
    "vp_kinds rep = sorted_set (map (\<lambda>o'. fst (fst o')) os)"
    and g: "\<not> int (length (gr_chosen (greedy_run c no_choice (py_sort reap_lt (vp_experts rep))))) < max_target c"
    "snaps = gr_snapshots (greedy_run c no_choice (py_sort reap_lt (vp_experts rep)))"
    "vp_prune_order rep = map (\<lambda>r. (ve_layer r, ve_expert r, ve_score r))
       (gr_chosen (greedy_run c no_choice (py_sort reap_lt (vp_experts rep))))"
    "vp_trace_rows rep = tally 0 (\<lambda>o'. fst (fst o')) (\<lambda>n _. n + 1) [] os"
    using assms unfolding reap_rank_def Let_def guard_iff
    by (elim conjE rbind_InrE) (unfold guard_iff, elim conjE rbind_InrE, auto)
  have "map slot_key (vp_experts rep) = map (\<lambda>s. s) (List.product (vp_layers rep) [0..n - 1])"
    by (rule mapR_map_eq [OF e]) (use reap_expert_row_ok in blast)
  moreover have "\<forall>r \<in> set (vp_experts rep). expert_ok os (vp_kinds rep) r"
    using mapR_source [OF e] reap_expert_row_ok by blast
  ultimately show ?thesis using l g by (auto simp: rank_ok_def)
qed

lemma rank_greedy:
  assumes "rank_ok c n os rep snaps g" "0 \<le> rc_layer c" "0 \<le> rc_group c"
  shows "counters_ok c g \<and> snaps_ok c g \<and> prefix_ok c (py_sort reap_lt (vp_experts rep)) (gr_chosen g) \<and>
    set (gr_chosen g) \<subseteq> set (vp_experts rep) \<and> distinct (map slot_key (gr_chosen g)) \<and>
    sorted_wrt (\<lambda>a b. \<not> reap_lt b a) (py_sort reap_lt (vp_experts rep))"
proof -
  let ?order = "py_sort reap_lt (vp_experts rep)"
  have ds: "distinct (map slot_key (vp_experts rep))"
    using assms(1) by (simp add: rank_ok_def distinct_product)
  then have d: "distinct ([] @ ?order)" by (simp add: distinct_map)
  obtain vis rest where v: "?order = vis @ rest" "greedy_ok c vis g"
    using greedy_run_ok [OF no_choice_ok [OF assms(2,3)] d] assms(1) by (auto simp: rank_ok_def)
  then have sub: "set (gr_chosen g) \<subseteq> set ?order" "distinct (gr_chosen g)" by (auto simp: greedy_ok_def)
  then have "distinct (map slot_key (gr_chosen g))"
    using ds by (auto simp: distinct_map intro: inj_on_subset)
  moreover have "list_all scored (vp_experts rep)"
    using assms(1) by (auto simp: rank_ok_def expert_ok_def list_all_iff)
  then have "sorted_wrt (\<lambda>a b. \<not> reap_lt b a) ?order" by (rule reap.sorted_py_sort)
  moreover have "prefix_ok c ?order (gr_chosen g)"
    using v prefix_ok_later [of c vis "gr_chosen g" rest] by (simp add: greedy_ok_def)
  ultimately show ?thesis using v(2) sub by (simp add: greedy_ok_def)
qed

section \<open>Runs\<close>

definition obs_inside :: "int \<Rightarrow> reap_obs list \<Rightarrow> bool" where
  "obs_inside n os = (\<forall>o' \<in> set os. 0 < fst (snd (fst o')) \<and> 0 \<le> snd (snd (fst o')) \<and> snd (snd (fst o')) < n)"

lemma reap_trace_row_ok: "reap_trace_row line = Inr r \<Longrightarrow> 0 < vr_layer r \<and> 0 \<le> vr_expert r"
  unfolding reap_trace_row_def Let_def guard_iff by (elim conjE rbind_InrE) (auto split: if_splits)

lemma read_reap_trace_ok:
  "read_reap_trace path s = (Inr rows, s') \<Longrightarrow> s' = s \<and> (\<forall>r \<in> set rows. 0 < vr_layer r \<and> 0 \<le> vr_expert r)"
proof -
  assume a: "read_reap_trace path s = (Inr rows, s')"
  then obtain t where t: "mapR reap_trace_row (table_of t) = Inr rows" "s' = s"
    by (auto simp: read_reap_trace_def io_bind_eq_Inr rbind_eq_Inr split: if_splits dest!: read_text_only)
  then show "s' = s \<and> (\<forall>r \<in> set rows. 0 < vr_layer r \<and> 0 \<le> vr_expert r)"
    using mapR_source [OF t(1)] reap_trace_row_ok by blast
qed

lemma observe_inside:
  assumes "mapR (observe n kind_of) rows = Inr os" "\<forall>r \<in> set rows. 0 < vr_layer r \<and> 0 \<le> vr_expert r"
  shows "obs_inside n os"
  unfolding obs_inside_def
proof
  fix o' assume "o' \<in> set os"
  then obtain r where "r \<in> set rows" "observe n kind_of r = Inr o'" using mapR_source [OF assms(1)] by blast
  then show "0 < fst (snd (fst o')) \<and> 0 \<le> snd (snd (fst o')) \<and> snd (snd (fst o')) < n"
    using assms(2) by (auto simp: observe_def split: if_splits elim!: rbind_InrE)
qed

lemma obs_inside_append [simp]: "obs_inside n (os @ os') \<longleftrightarrow> obs_inside n os \<and> obs_inside n os'"
  by (auto simp: obs_inside_def)

lemma text_observations_ok: "text_observations n ts s = (Inr os, s') \<Longrightarrow> s' = s \<and> obs_inside n os"
proof (induction n ts arbitrary: s os rule: text_observations.induct)
  case (1 n)
  then show ?case by (simp add: obs_inside_def)
next
  case (2 n kind path rest)
  then show ?case using observe_inside
    by (fastforce simp: io_bind_eq_Inr dest!: read_reap_trace_ok)
qed

lemma vl_observations_ok: "vl_observations n ts s = (Inr os, s') \<Longrightarrow> s' = s \<and> obs_inside n os"
proof (induction n ts arbitrary: s os rule: vl_observations.induct)
  case (1 n)
  then show ?case by (simp add: obs_inside_def)
next
  case (2 n trace ids_path rest)
  have "read_token_ids p s = (Inr ids, s1) \<Longrightarrow> s1 = s" for p ids s1
    by (auto simp: read_token_ids_def io_bind_eq_Inr dest!: read_text_only)
  with 2 show ?case using observe_inside
    by (fastforce simp: io_bind_eq_Inr dest!: read_reap_trace_ok)
qed

lemma build_reap_run:
  assumes "build_reap texts vls n groups targets per_layer per_group s = (Inr (rep, snaps), s')"
  defines "c \<equiv> \<lparr>rc_layer = per_layer, rc_group = per_group, rc_per_group = n div groups, rc_targets = targets\<rparr>"
  shows "\<exists>os g. s' = s \<and> obs_inside n os \<and> rank_ok c n os rep snaps g \<and> 0 < per_layer \<and> 0 < per_group \<and>
    targets \<noteq> [] \<and> (\<forall>t \<in> set targets. 0 < t)"
proof -
  have ok: "0 < per_layer" "0 < per_group" "targets \<noteq> []" "\<forall>t \<in> set targets. 0 < t"
    and run: "io_bind (text_observations n texts) (\<lambda>ts. io_bind (vl_observations n vls) (\<lambda>vs.
       io_lift (reap_rank c n (vls \<noteq> []) (ts @ vs)))) s = (Inr (rep, snaps), s')"
    using assms(1) unfolding build_reap_def c_def
    by (auto split: if_splits simp: list_ex_iff not_le simp del: split_paired_All)
  from run obtain ts s1 vs where "text_observations n texts s = (Inr ts, s1)"
    "vl_observations n vls s1 = (Inr vs, s')" "reap_rank c n (vls \<noteq> []) (ts @ vs) = Inr (rep, snaps)"
    by (auto simp: io_bind_eq_Inr)
  then show ?thesis
    using ok text_observations_ok vl_observations_ok reap_rank_ok [of c n "vls \<noteq> []" "ts @ vs" rep snaps]
    by (metis obs_inside_append)
qed

lemma max_target_ge: "t \<in> set (rc_targets c) \<Longrightarrow> t \<le> max_target c"
proof -
  have "\<forall>t \<in> set (x # xs). t \<le> foldl max x xs" for x :: int and xs
    by (induction xs arbitrary: x) fastforce+
  then show "t \<in> set (rc_targets c) \<Longrightarrow> t \<le> max_target c"
    by (cases "rc_targets c") (auto simp: max_target_def)
qed

text \<open>C29: the masks are nested and respect the caps. A run that answers changes no file; its masks are the
  prefixes of one prune order, one of exactly each requested size and no other; the order names
  distinct slots of the ranked experts; no mask disables more than the cap per layer or per router
  group; and the ranked experts are all slots of the layers seen.
\<close>
theorem reap_masks_nested_and_capped:
  assumes "build_reap texts vls n groups targets per_layer per_group s = (Inr (rep, snaps), s')"
  shows "\<exists>order. s' = s \<and> vp_prune_order rep = map (\<lambda>r. (ve_layer r, ve_expert r, ve_score r)) order \<and>
    set order \<subseteq> set (vp_experts rep) \<and> distinct (map slot_key order) \<and>
    map slot_key (vp_experts rep) = List.product (vp_layers rep) [0..n - 1] \<and>
    (\<forall>t. map_of snaps t = (if t \<in> set targets then Some (take (nat t) order) else None)) \<and>
    (\<forall>t \<in> set targets. 0 < t \<and> t \<le> int (length order)) \<and>
    (\<forall>l. int (length (filter (\<lambda>r. ve_layer r = l) order)) \<le> per_layer) \<and>
    (\<forall>l k. int (length (filter (\<lambda>r. ve_layer r = l \<and> ve_expert r div (n div groups) = k) order)) \<le> per_group)"
proof -
  let ?c = "\<lparr>rc_layer = per_layer, rc_group = per_group, rc_per_group = n div groups, rc_targets = targets\<rparr>"
  obtain os g where g: "s' = s" "rank_ok ?c n os rep snaps g" "0 < per_layer" "0 < per_group"
    "\<forall>t \<in> set targets. 0 < t"
    using build_reap_run [OF assms] by blast
  note G = rank_greedy [OF g(2)]
  have large: "t \<le> int (length (gr_chosen g))" if "t \<in> set targets" for t
    using max_target_ge [of t ?c] that g(2) by (auto simp: rank_ok_def)
  have "group_load ?c (gr_chosen g) (l, k) \<le> per_group" for l k
    using G g(3,4) counters_caps [of ?c g] by simp
  then have caps: "int (length (filter (\<lambda>r. ve_layer r = l \<and> ve_expert r div (n div groups) = k) (gr_chosen g))) \<le> per_group" for l k
    by (simp add: group_load_def group_of_def)
  have "layer_load (gr_chosen g) l \<le> per_layer" for l using G g(3,4) counters_caps [of ?c g] by simp
  then have layers: "int (length (filter (\<lambda>r. ve_layer r = l) (gr_chosen g))) \<le> per_layer" for l
    by (simp add: layer_load_def)
  have snaps: "map_of snaps t = (if t \<in> set targets then Some (take (nat t) (gr_chosen g)) else None)" for t
    using G g large by (auto simp: snaps_ok_def rank_ok_def)
  show ?thesis
    using g G large caps layers snaps by (intro exI [of _ "gr_chosen g"]) (simp add: rank_ok_def)
qed

text \<open>C30: no slot is spared except by a cap. If an expert outside a mask ranks strictly below (by score,
  then support, selections and position) an expert the mask disables, then the mask already
  disables as many slots of its layer, or of its router group, as the caps allow.
\<close>
theorem reap_masks_least_important:
  assumes "build_reap texts vls n groups targets per_layer per_group s = (Inr (rep, snaps), s')"
    and "map_of snaps t = Some disabled" "r \<in> set (vp_experts rep)" "r \<notin> set disabled"
    and "x \<in> set disabled" "reap_lt r x"
  shows "int (length (filter (\<lambda>y. ve_layer y = ve_layer r) disabled)) = per_layer \<or>
    int (length (filter (\<lambda>y. ve_layer y = ve_layer r \<and>
       ve_expert y div (n div groups) = ve_expert r div (n div groups)) disabled)) = per_group"
proof -
  let ?c = "\<lparr>rc_layer = per_layer, rc_group = per_group, rc_per_group = n div groups, rc_targets = targets\<rparr>"
  obtain os g where g: "rank_ok ?c n os rep snaps g" "0 < per_layer" "0 < per_group"
    using build_reap_run [OF assms(1)] by blast
  let ?ch = "gr_chosen g"
  note G = rank_greedy [OF g(1)]
  have d: "disabled = take (nat t) ?ch" "nat t \<le> length ?ch"
    using assms(2) G g by (auto simp: snaps_ok_def rank_ok_def split: if_splits)
  have f: "full ?c disabled r"
    unfolding d(1) using G g assms(3-6) d
    by (intro left_out_full [where x = x and lt = reap_lt and rows = "py_sort reap_lt (vp_experts rep)"]) auto
  have mono: "length (filter P disabled) \<le> length (filter P ?ch)" for P
    unfolding d(1) by (metis append_take_drop_id filter_append le_add1 length_append)
  have "layer_load ?ch (ve_layer r) \<le> per_layer" "group_load ?c ?ch (group_of ?c r) \<le> per_group"
    using G g(2,3) counters_caps [of ?c g] by simp_all
  then show ?thesis
    using f mono [of "\<lambda>y. ve_layer y = ve_layer r"] mono [of "\<lambda>y. group_of ?c y = group_of ?c r"]
    by (auto simp: full_def layer_load_def group_load_def group_of_def)
qed

text \<open>How many rows of a kind an expert of the report counts.\<close>

definition kind_selected :: "string \<Rightarrow> reap_expert \<Rightarrow> int" where
  "kind_selected kind r = sum_list (map ks_selected (filter (\<lambda>k. ks_kind k = kind) (ve_kinds r)))"

lemma kind_selected_ok:
  assumes "expert_ok os kinds r" "distinct kinds" "kind \<in> set kinds"
  shows "kind_selected kind r = int (length (filter (\<lambda>o'. fst o' = (kind, slot_key r)) os))"
proof -
  have "filter (\<lambda>k. ks_kind k = kind) ks = [THE k. k \<in> set ks \<and> ks_kind k = kind] \<and>
      (THE k. k \<in> set ks \<and> ks_kind k = kind) \<in> set ks"
    if dist: "distinct (map ks_kind ks)" and mem: "kind \<in> set (map ks_kind ks)" for ks
  proof -
    obtain us k vs where ks: "ks = us @ k # vs" "ks_kind k = kind"
      using mem by (auto dest!: split_list)
    have "ks_kind y \<noteq> kind" if "y \<in> set us \<union> set vs" for y
      using dist that ks(2) by (auto simp: ks)
    then have "filter (\<lambda>k. ks_kind k = kind) ks = [k]" "(THE k. k \<in> set ks \<and> ks_kind k = kind) = k"
      by (auto simp: ks filter_empty_conv intro!: the_equality)
    then show ?thesis by (simp add: ks)
  qed
  from this [of "ve_kinds r"] obtain k where k: "filter (\<lambda>k. ks_kind k = kind) (ve_kinds r) = [k]" "k \<in> set (ve_kinds r)"
    using assms by (auto simp: expert_ok_def)
  have "ks_kind k = kind" using arg_cong [OF k(1), of set] by auto
  then show ?thesis using assms(1) k by (simp add: kind_selected_def expert_ok_def)
qed

text \<open>Scores and counts are those of the traces. Every expert of a report has one entry per kind; its
  score is one of its normalised values (or 0 when it was never selected), and no comparable one is
  larger, so an expert that matters in one modality keeps its rank; and for every kind the
  selections of all experts add up to the trace rows of that kind.
\<close>
theorem reap_scores_and_counts:
  assumes "build_reap texts vls n groups targets per_layer per_group s = (Inr (rep, snaps), s')"
  shows "(\<forall>r \<in> set (vp_experts rep). map ks_kind (ve_kinds r) = vp_kinds rep \<and>
       (\<forall>k \<in> set (ve_kinds r). ks_normalized k = NaN \<or> fle (ks_normalized k) (ve_score r)) \<and>
       (ve_score r = Fin 0 \<or> ve_score r \<in> ks_normalized ` set (ve_kinds r)) \<and>
       ve_selected r = sum_list (map ks_selected (ve_kinds r)) \<and>
       (ve_selected r = 0 \<longrightarrow> ve_score r = Fin 0)) \<and>
    fst ` set (vp_trace_rows rep) = set (vp_kinds rep) \<and>
    (\<forall>(kind, m) \<in> set (vp_trace_rows rep). m = sum_list (map (kind_selected kind) (vp_experts rep)))"
proof -
  obtain c os g where os: "obs_inside n os" and R: "rank_ok c n os rep snaps g"
    using build_reap_run [OF assms] by blast
  have rows: "vp_trace_rows rep = tally 0 (\<lambda>o'. fst (fst o')) (\<lambda>n _. n + 1) [] os"
    "set (vp_kinds rep) = (\<lambda>o'. fst (fst o')) ` set os" "distinct (vp_kinds rep)"
    "set (vp_layers rep) = (\<lambda>o'. fst (snd (fst o'))) ` set os" "distinct (vp_layers rep)"
    using R by (simp_all add: rank_ok_def)
  have E: "\<forall>r \<in> set (vp_experts rep). expert_ok os (vp_kinds rep) r" using R unfolding rank_ok_def by blast
  have keys: "fst ` set (vp_trace_rows rep) = set (vp_kinds rep)" by (simp add: rows tally_keys)
  have cnt: "foldl (\<lambda>n _. n + 1) a xs = a + int (length xs)" for a and xs :: "reap_obs list"
    by (induction xs arbitrary: a) auto
  have sum: "m = sum_list (map (kind_selected kind) (vp_experts rep))"
    if km: "(kind, m) \<in> set (vp_trace_rows rep)" for kind m
  proof -
    define ks where "ks = filter (\<lambda>o'. fst (fst o') = kind) os"
    have m: "m = int (length ks)" using tally_mem [OF km [unfolded rows(1)]] cnt by (simp add: ks_def)
    have kind: "kind \<in> set (vp_kinds rep)" using km keys by force
    have f: "filter (\<lambda>o'. fst o' = (kind, k)) os = filter (\<lambda>o'. snd (fst o') = k) ks" for k
      unfolding ks_def filter_filter by (rule filter_cong) auto
    have "\<forall>r \<in> set (vp_experts rep). kind_selected kind r = int (length (filter (\<lambda>o'. snd (fst o') = slot_key r) ks))"
      using E kind_selected_ok [OF _ rows(3) kind] by (auto simp: f [symmetric])
    then have "sum_list (map (kind_selected kind) (vp_experts rep)) =
        sum_list (map (\<lambda>k. int (length (filter (\<lambda>o'. snd (fst o') = k) ks))) (map slot_key (vp_experts rep)))"
      by (simp cong: map_cong)
    also have "\<dots> = int (length (filter (\<lambda>o'. snd (fst o') \<in> set (map slot_key (vp_experts rep))) ks))"
      using R by (intro filter_key_partition) (simp add: rank_ok_def distinct_product)
    also have "filter (\<lambda>o'. snd (fst o') \<in> set (map slot_key (vp_experts rep))) ks = ks"
      using R os rows(4) by (intro filter_True) (auto simp: rank_ok_def obs_inside_def ks_def mem_Times_iff)
    finally show ?thesis by (simp add: m)
  qed
  show ?thesis using E keys sum by (auto simp: expert_ok_def)
qed

section \<open>An example\<close>

definition reap_example :: fs where
  "reap_example = [''tr'' \<mapsto> ascii_encode ''1 1 0 1 3 3'', ''tr2'' \<mapsto> ascii_encode ''2 2 0 1 3 3'']"

definition reap_example_stats :: reap_stats where
  "reap_example_stats = [((''text'', 1, 0), 1, Fin 3), ((''text'', 2, 0), 1, Fin 3)]"

definition example_expert :: "int \<Rightarrow> int \<Rightarrow> int \<Rightarrow> reap_expert" where
  "example_expert l e k = \<lparr>ve_layer = l, ve_expert = e, ve_score = Fin (of_int k), ve_support = k, ve_selected = k,
     ve_kinds = [\<lparr>ks_kind = ''text'', ks_selected = k, ks_sum = Fin (of_int (3 * k)), ks_mean = Fin (of_int (3 * k)),
       ks_scale = Fin 3, ks_normalized = Fin (of_int k)\<rparr>]\<rparr>"

definition example_experts :: "reap_expert list" where
  "example_experts = [example_expert 1 0 1, example_expert 1 1 0, example_expert 1 2 0,
     example_expert 2 0 1, example_expert 2 1 0, example_expert 2 2 0]"

definition example_caps :: reap_caps where
  "example_caps = \<lparr>rc_layer = 1, rc_group = 1, rc_per_group = 1, rc_targets = [2]\<rparr>"

lemma example_trace: "mapR reap_trace_row (table_of ''1 1 0 1 3 3'') =
    Inr [\<lparr>vr_event = 1, vr_layer = 1, vr_expert = 0, vr_weight = Fin 1, vr_l2 = Fin 3, vr_saliency = Fin 3\<rparr>]"
  "mapR reap_trace_row (table_of ''2 2 0 1 3 3'') =
    Inr [\<lparr>vr_event = 2, vr_layer = 2, vr_expert = 0, vr_weight = Fin 1, vr_l2 = Fin 3, vr_saliency = Fin 3\<rparr>]"
  by code_simp+

lemma example_observations:
  "text_observations 3 [(''text'', ''tr''), (''text'', ''tr2'')] reap_example =
     (Inr [((''text'', 1, 0), Fin 3), ((''text'', 2, 0), Fin 3)], reap_example)"
proof -
  have "read_text ''tr'' reap_example = (Inr ''1 1 0 1 3 3'', reap_example)"
    "read_text ''tr2'' reap_example = (Inr ''2 2 0 1 3 3'', reap_example)"
    by (simp_all add: read_text_app reap_example_def ascii_roundtrip is_ascii_def cp_def)
  then show ?thesis
    by (simp add: read_reap_trace_def io_bind_def example_trace observe_def)
qed

lemma reap_example_table: "reap_table [((''text'', 1, 0), Fin 3), ((''text'', 2, 0), Fin 3)] = reap_example_stats"
  by code_simp

lemma example_scales:
  "reap_scale reap_example_stats 3 ''text'' 1 = Inr (Fin 3)" "reap_scale reap_example_stats 3 ''text'' 2 = Inr (Fin 3)"
  by code_simp+

lemma example_rows:
  "mapR (reap_expert_row reap_example_stats [((''text'', 1), Fin 3), ((''text'', 2), Fin 3)] [''text''])
     (List.product [1, 2] [0..3 - 1]) = Inr example_experts"
  by code_simp

lemma example_greedy:
  "gr_chosen (greedy_run example_caps no_choice (py_sort reap_lt example_experts)) = [example_expert 1 1 0, example_expert 2 1 0]"
  "gr_snapshots (greedy_run example_caps no_choice (py_sort reap_lt example_experts)) =
     [(2, [example_expert 1 1 0, example_expert 2 1 0])]"
  by code_simp+

lemma example_loss: "is_ok (reap_target_of example_caps reap_example_stats [''text'']
    [(2, [example_expert 1 1 0, example_expert 2 1 0])] 2)"
  by code_simp

lemma reap_example_run:
  "\<exists>rep. build_reap [(''text'', ''tr''), (''text'', ''tr2'')] [] 3 3 [2] 1 1 reap_example =
      (Inr (rep, [(2, [example_expert 1 1 0, example_expert 2 1 0])]), reap_example) \<and>
    vp_experts rep = example_experts \<and> vp_trace_rows rep = [(''text'', 2)] \<and> vp_kinds rep = [''text'']"
proof -
  have sets: "sorted_set [''text'', ''text''] = [''text'']" "sorted_set [1, 2] = [1, 2 :: int]"
    by (simp_all add: sorted_set_def)
  have t: "max_target example_caps = 2" "rc_targets example_caps = [2]"
    by (simp_all add: max_target_def example_caps_def)
  obtain v where v: "reap_target_of example_caps reap_example_stats [''text'']
    [(2, [example_expert 1 1 0, example_expert 2 1 0])] 2 = Inr v" using example_loss by (auto simp: is_ok_iff)
  have "\<exists>rep. reap_rank example_caps 3 False [((''text'', 1, 0), Fin 3), ((''text'', 2, 0), Fin 3)] =
      Inr (rep, [(2, [example_expert 1 1 0, example_expert 2 1 0])]) \<and>
    vp_experts rep = example_experts \<and> vp_trace_rows rep = [(''text'', 2)] \<and> vp_kinds rep = [''text'']"
    unfolding reap_rank_def reap_example_table Let_def
    using example_rows by (simp add: sets example_scales example_greedy t v dict_upd_def dict_get_def)
  then show ?thesis
    by (auto simp: build_reap_def io_bind_def example_observations sorted_set_def example_caps_def
        simp del: text_observations.simps)
qed

theorem reap_masks_nested_and_capped_witness:
  "\<exists>rep order. build_reap [(''text'', ''tr''), (''text'', ''tr2'')] [] 3 3 [2] 1 1 reap_example =
       (Inr (rep, [(2, [example_expert 1 1 0, example_expert 2 1 0])]), reap_example) \<and> vp_experts rep = example_experts \<and>
     vp_prune_order rep = map (\<lambda>r. (ve_layer r, ve_expert r, ve_score r)) order \<and> distinct (map slot_key order) \<and>
     take 2 order = [example_expert 1 1 0, example_expert 2 1 0]"
proof -
  obtain rep where run: "build_reap [(''text'', ''tr''), (''text'', ''tr2'')] [] 3 3 [2] 1 1 reap_example =
      (Inr (rep, [(2, [example_expert 1 1 0, example_expert 2 1 0])]), reap_example)" "vp_experts rep = example_experts"
    using reap_example_run by blast
  from reap_masks_nested_and_capped [OF run(1)] obtain order where
    "vp_prune_order rep = map (\<lambda>r. (ve_layer r, ve_expert r, ve_score r)) order" "distinct (map slot_key order)"
    "\<forall>t. map_of [(2, [example_expert 1 1 0, example_expert 2 1 0])] t =
       (if t \<in> set [2] then Some (take (nat t) order) else None)" by blast
  then show ?thesis using run by (intro exI [of _ rep] exI [of _ order]) (auto dest: spec [of _ 2])
qed

theorem reap_masks_least_important_witness:
  "(\<exists>rep. build_reap [(''text'', ''tr''), (''text'', ''tr2'')] [] 3 3 [2] 1 1 reap_example =
      (Inr (rep, [(2, [example_expert 1 1 0, example_expert 2 1 0])]), reap_example) \<and> vp_experts rep = example_experts) \<and>
   example_expert 1 2 0 \<notin> set [example_expert 1 1 0, example_expert 2 1 0] \<and>
   reap_lt (example_expert 1 2 0) (example_expert 2 1 0) \<and>
   (int (length (filter (\<lambda>y. ve_layer y = 1) [example_expert 1 1 0, example_expert 2 1 0])) = 1 \<or>
    int (length (filter (\<lambda>y. ve_layer y = 1 \<and> ve_expert y div (3 div 3) = 2 div (3 div 3))
      [example_expert 1 1 0, example_expert 2 1 0])) = 1)"
proof -
  obtain rep where run: "build_reap [(''text'', ''tr''), (''text'', ''tr2'')] [] 3 3 [2] 1 1 reap_example =
      (Inr (rep, [(2, [example_expert 1 1 0, example_expert 2 1 0])]), reap_example)" "vp_experts rep = example_experts"
    using reap_example_run by blast
  have e: "example_expert 1 2 0 \<in> set (vp_experts rep)" by (simp add: run(2) example_experts_def)
  have o: "example_expert 1 2 0 \<notin> set [example_expert 1 1 0, example_expert 2 1 0]"
    "reap_lt (example_expert 1 2 0) (example_expert 2 1 0)"
    by (simp_all add: example_expert_def reap_lt_def)
  have "int (length (filter (\<lambda>y. ve_layer y = 1) [example_expert 1 1 0, example_expert 2 1 0])) = 1 \<or>
    int (length (filter (\<lambda>y. ve_layer y = 1 \<and> ve_expert y div (3 div 3) = 2 div (3 div 3))
      [example_expert 1 1 0, example_expert 2 1 0])) = 1"
    using reap_masks_least_important [OF run(1) _ e o(1) _ o(2), of 2] by (simp add: example_expert_def)
  then show ?thesis using run o by blast
qed

theorem reap_scores_and_counts_witness:
  "fst ` set [(''text'', 2 :: int)] = {''text''} \<and> (2 :: int) = sum_list (map (kind_selected ''text'') example_experts)"
proof -
  obtain rep where run: "build_reap [(''text'', ''tr''), (''text'', ''tr2'')] [] 3 3 [2] 1 1 reap_example =
      (Inr (rep, [(2, [example_expert 1 1 0, example_expert 2 1 0])]), reap_example)" "vp_experts rep = example_experts"
    "vp_trace_rows rep = [(''text'', 2)]"
    using reap_example_run by blast
  show ?thesis using reap_scores_and_counts [OF run(1)] by (simp add: run)
qed

section \<open>Mask files read back\<close>

lemma plain_join: "\<forall>x \<in> set xs. plain_text x \<Longrightarrow> plain_text sep \<Longrightarrow> plain_text (join sep xs)"
  by (induction sep xs rule: join.induct) (auto simp: plain_text_def is_ascii_def)

lemma mask_path_inject: "reap_mask_path out t = reap_mask_path out u \<longleftrightarrow> t = u"
proof -
  have "show_int t = show_int u \<longleftrightarrow> t = u" by (metis option.inject py_int_show_int)
  then show ?thesis by (simp add: reap_mask_path_def in_dir_def)
qed

lemma distinct_snapshots:
  "distinct (map fst (gr_snapshots g)) \<Longrightarrow> distinct (map fst (gr_snapshots (greedy_run c g rows)))"
  by (induction c g rows rule: greedy_run.induct) (auto simp: choose_row_def Let_def distinct_dict_set)

lemma write_reap_masks_ok:
  assumes "write_reap_masks fmt6 fmt9 out kinds snaps s = (Inr u, s')" "distinct (map fst snaps)"
  shows "(\<forall>(t, rows) \<in> set snaps. \<exists>tx. reap_mask_text fmt6 fmt9 kinds t rows = Inr tx \<and>
       s' (reap_mask_path out t) = Some (ascii_encode tx)) \<and>
    (\<forall>p. p \<notin> reap_mask_path out ` fst ` set snaps \<longrightarrow> s' p = s p)"
  using assms
proof (induction fmt6 fmt9 out kinds snaps arbitrary: s rule: write_reap_masks.induct)
  case (2 fmt6 fmt9 out kinds t rows rest)
  obtain tx where tx: "reap_mask_text fmt6 fmt9 kinds t rows = Inr tx"
    and run: "write_reap_masks fmt6 fmt9 out kinds rest (s(reap_mask_path out t \<mapsto> ascii_encode tx)) = (Inr u, s')"
    using "2.prems"(1) by (auto simp: io_bind_eq_Inr write_text_def)
  have "reap_mask_path out t \<notin> reap_mask_path out ` fst ` set rest"
    using "2.prems"(2) by (auto simp: mask_path_inject image_iff)
  then show ?case using "2.IH" [OF run] "2.prems"(2) tx by (auto simp: image_iff)
qed simp

text \<open>A number format that prints plain text.\<close>

definition plain_format :: "(pyfloat \<Rightarrow> string) \<Rightarrow> bool" where
  "plain_format fmt = (\<forall>x. plain_text (fmt x))"

lemma reap_mask_row_ok:
  assumes "reap_mask_row fmt6 fmt9 kinds r = Inr l"
    and "plain_format fmt6" "plain_format fmt9" "\<forall>k \<in> set kinds. plain_text k"
  shows "\<exists>c. l = show_int (ve_layer r) @ '' '' @ show_int (ve_expert r) @ '' #'' @ c \<and> plain_text l"
proof -
  obtain bits where bits: "mapR (\<lambda>kind. rmap (\<lambda>k. kind @ ''='' @ fmt6 (ks_normalized k)) (kind_entry kind r)) kinds = Inr bits"
    and l: "l = show_int (ve_layer r) @ '' '' @ show_int (ve_expert r) @ '' # final='' @ fmt9 (ve_score r) @
      '' '' @ join '' '' bits"
    using assms(1) by (auto simp: reap_mask_row_def elim!: rbind_InrE)
  have p: "plain_text ''=''" "plain_text '' ''" "plain_text '' # final=''" by code_simp+
  have "plain_text b" if "b \<in> set bits" for b
    using mapR_source [OF bits that] assms(2,4) p(1)
    by (auto simp only: rmap_eq_Inr plain_text_append plain_format_def)
  then have "plain_text (join '' '' bits)" using p(2) by (intro plain_join) auto
  then have "plain_text l"
    using p assms(3) unfolding l by (simp only: plain_text_append plain_show_int simp_thms plain_format_def)
  then show ?thesis by (simp add: l)
qed

text \<open>A mask file of the given header lines and of rows with a comment reads as its slots.\<close>

lemma mask_lines_read:
  assumes "mapR f rows = Inr ls" "distinct (map slot_key rows)" "\<forall>r \<in> set rows. 0 \<le> ve_layer r \<and> 0 \<le> ve_expert r"
    and "\<And>r l. f r = Inr l \<Longrightarrow> \<exists>c. l = show_int (ve_layer r) @ '' '' @ show_int (ve_expert r) @ '' #'' @ c"
    and "set acc \<inter> slot_key ` set rows = {}"
  shows "foldR slot_mask_line acc ls = Inr (acc @ map slot_key rows)"
  using assms(1-3,5)
proof (induction rows arbitrary: ls acc)
  case (Cons r rows)
  obtain l ls' where l: "f r = Inr l" "mapR f rows = Inr ls'" "ls = l # ls'"
    using Cons.prems(1) by (auto simp: rbind_eq_Inr)
  obtain c where c: "l = show_int (ve_layer r) @ '' '' @ show_int (ve_expert r) @ '' #'' @ c"
    using assms(4) [OF l(1)] by blast
  have "slot_mask_line acc l = Inr (acc @ [slot_key r])"
    unfolding c slot_key_def using Cons.prems(3,4) by (intro slot_mask_line_comment) (auto simp: slot_key_def)
  moreover have "foldR slot_mask_line (acc @ [slot_key r]) ls' = Inr ((acc @ [slot_key r]) @ map slot_key rows)"
    using Cons.prems by (intro Cons.IH [OF l(2)]) auto
  ultimately show ?case by (simp add: l(3))
qed simp

lemma reap_mask_text_reads:
  assumes "reap_mask_text fmt6 fmt9 kinds t rows = Inr tx" "s p = Some (ascii_encode tx)"
    and "plain_format fmt6" "plain_format fmt9" "\<forall>k \<in> set kinds. plain_text k"
    and "distinct (map slot_key rows)" "\<forall>r \<in> set rows. 0 \<le> ve_layer r \<and> 0 \<le> ve_expert r" "rows \<noteq> []"
  shows "read_slot_mask p s = (Inr (map slot_key rows), s)"
proof -
  obtain ls where ls: "mapR (reap_mask_row fmt6 fmt9 kinds) rows = Inr ls"
    and tx: "tx = concat (map (\<lambda>l. l @ [LF]) ([''# KVL_MOE_MASK_V1'',
       ''# REAP-VL logical mask disabled_slots='' @ show_int t,
       ''# final_score is max normalized mean contribution across modalities''] @ ls))"
    using assms(1) unfolding reap_mask_text_def by (auto elim!: rbind_InrE)
  define all where "all = [''# KVL_MOE_MASK_V1'', ''# REAP-VL logical mask disabled_slots='' @ show_int t,
       ''# final_score is max normalized mean contribution across modalities''] @ ls"
  note row = reap_mask_row_ok [OF _ assms(3,4,5)]
  have k: "plain_text ''# KVL_MOE_MASK_V1''" "plain_text ''# REAP-VL logical mask disabled_slots=''"
    "plain_text ''# final_score is max normalized mean contribution across modalities''" "is_ascii [LF]"
    by code_simp+
  have "\<forall>l \<in> set ls. plain_text l" using mapR_source [OF ls] row by blast
  then have plain: "\<forall>l \<in> set all. plain_text l"
    using k by (auto simp only: all_def set_append list.set plain_text_append plain_show_int)
  have t: "tx = concat (map (\<lambda>l. l @ [LF]) all)" by (simp add: tx all_def)
  have "is_ascii tx"
    unfolding t using plain k(4) by (auto simp: plain_text_def is_ascii_def list_all_iff)
  then have dec: "ascii_decode (ascii_encode tx) = Inr tx" by (rule ascii_roundtrip)
  have lines: "splitlines tx = all"
    unfolding t by (rule splitlines_joined) (use plain in \<open>auto simp: list_all_iff plain_text_def\<close>)
  have comment: "slot_mask_line acc (CHR ''#'' # c) = Inr acc" for acc c
    by (simp add: slot_mask_line_def before_hash_def py_strip_def)
  have "foldR slot_mask_line [] ls = Inr ([] @ map slot_key rows)"
    using row by (intro mask_lines_read [OF ls assms(6,7)]) auto
  then have "foldR slot_mask_line [] all = Inr (map slot_key rows)" by (simp add: all_def comment)
  then have "read_slot_mask_text tx = Inr (map slot_key rows)"
    using assms(8) by (simp add: read_slot_mask_text_def lines)
  then show ?thesis by (simp add: read_slot_mask_def io_bind_def read_text_app assms(2) dec)
qed

lemma reap_paths:
  "report_path out \<noteq> ranking_path out" "reap_mask_path out t \<noteq> report_path out" "reap_mask_path out t \<noteq> ranking_path out"
  by (simp_all add: report_path_def ranking_path_def reap_mask_path_def in_dir_def)

text \<open>C31: the output files carry the ranking. When the tool succeeds and its formats and kinds print plain
  ASCII without line breaks, there is one mask file per target; read by the tool that evaluates
  masks, it holds exactly as many slots as its name says, the first ones of the prune order. The report file holds the JSON of
  the report, and the ranking file one line per expert, by ascending score; no other file changed.
\<close>
theorem reap_mask_files_read_back:
  assumes "reap_main F traces vls n groups targets per_layer per_group out s = (Inr (rep, snaps), s')"
    and "plain_format (rf_6g F)" "plain_format (rf_9g F)" "\<forall>k \<in> set (vp_kinds rep). plain_text k"
  shows "(\<forall>t \<in> set targets. nat t \<le> length (vp_prune_order rep) \<and>
       read_slot_mask (reap_mask_path out t) s' =
         (Inr (map (\<lambda>(l, e, x). (l, e)) (take (nat t) (vp_prune_order rep))), s')) \<and>
    s' (report_path out) = Some (ascii_encode (rf_json F rep @ [LF])) \<and>
    (\<exists>rows. mapR (ranking_row (rf_12g F) (vp_kinds rep)) (py_sort ranking_lt (vp_experts rep)) = Inr rows \<and>
       s' (ranking_path out) = Some (ascii_encode (concat (map csv_line (ranking_fields (vp_kinds rep) # rows))))) \<and>
    (\<forall>p. p \<notin> {report_path out, ranking_path out} \<union> reap_mask_path out ` set targets \<longrightarrow> s' p = s p)"
proof -
  define fmt6 fmt9 where fmt: "fmt6 = rf_6g F" "fmt9 = rf_9g F"
  obtain ts vs where b: "build_reap ts vs n groups targets per_layer per_group s = (Inr (rep, snaps), s)"
    and o: "write_reap_outputs F out rep snaps s = (Inr (), s')"
    using assms(1) build_reap_run by (fastforce simp: reap_main_def io_bind_eq_Inr)
  obtain rows where rows: "mapR (ranking_row (rf_12g F) (vp_kinds rep)) (py_sort ranking_lt (vp_experts rep)) = Inr rows"
    and w0: "write_reap_masks fmt6 fmt9 out (vp_kinds rep) snaps
      (s(report_path out \<mapsto> ascii_encode (rf_json F rep @ [LF]),
         ranking_path out \<mapsto> ascii_encode (concat (map csv_line (ranking_fields (vp_kinds rep) # rows))))) = (Inr (), s')"
    using o by (auto simp: write_reap_outputs_def ranking_text_def io_bind_eq_Inr write_text_def rbind_eq_Inr fmt)
  define s2 where "s2 = s(report_path out \<mapsto> ascii_encode (rf_json F rep @ [LF]),
         ranking_path out \<mapsto> ascii_encode (concat (map csv_line (ranking_fields (vp_kinds rep) # rows))))"
  have w: "write_reap_masks fmt6 fmt9 out (vp_kinds rep) snaps s2 = (Inr (), s')" using w0 by (simp add: s2_def)
  let ?c = "\<lparr>rc_layer = per_layer, rc_group = per_group, rc_per_group = n div groups, rc_targets = targets\<rparr>"
  obtain os g where g: "obs_inside n os" "rank_ok ?c n os rep snaps g" "0 < per_layer" "0 < per_group"
    "\<forall>t \<in> set targets. 0 < t"
    using build_reap_run [OF b] by blast
  let ?ch = "gr_chosen g"
  note G = rank_greedy [OF g(2)]
  have slots: "0 \<le> ve_layer r \<and> 0 \<le> ve_expert r" if "r \<in> set (vp_experts rep)" for r
  proof -
    have "slot_key r \<in> set (List.product (vp_layers rep) [0..n - 1])"
      using g(2) that unfolding rank_ok_def by (metis image_eqI set_map)
    then show ?thesis using g(1,2) by (auto simp: slot_key_def rank_ok_def obs_inside_def)
  qed
  have large: "t \<le> int (length ?ch)" if "t \<in> set targets" for t
    using max_target_ge [of t ?c] that g(2) by (auto simp: rank_ok_def)
  have snaps: "map_of snaps t = (if t \<in> set targets then Some (take (nat t) ?ch) else None)" for t
    using G g large by (auto simp: snaps_ok_def rank_ok_def)
  have order: "map (\<lambda>(l, e, x). (l, e)) (take k (vp_prune_order rep)) = map slot_key (take k ?ch)"
    "length (vp_prune_order rep) = length ?ch" for k
    using g(2) by (simp_all add: rank_ok_def take_map slot_key_def)
  have d: "distinct (map fst snaps)"
    using g(2) distinct_snapshots [of no_choice] by (simp add: rank_ok_def no_choice_def)
  note W = write_reap_masks_ok [OF w d]
  have read: "read_slot_mask (reap_mask_path out t) s' = (Inr (map slot_key (take (nat t) ?ch)), s')"
    if t: "t \<in> set targets" for t
  proof -
    have m: "(t, take (nat t) ?ch) \<in> set snaps" using snaps [of t] t map_of_SomeD by fastforce
    obtain tx where tx: "reap_mask_text fmt6 fmt9 (vp_kinds rep) t (take (nat t) ?ch) = Inr tx"
      "s' (reap_mask_path out t) = Some (ascii_encode tx)"
      using W m by blast
    have sub: "set (take (nat t) ?ch) \<subseteq> set (vp_experts rep)" using G g(3,4) set_take_subset by fastforce
    have "take (nat t) ?ch \<noteq> []" using g(5) t large [OF t] by auto
    moreover have "distinct (map slot_key (take (nat t) ?ch))"
      using G g(3,4) by (simp add: take_map [symmetric] distinct_take)
    moreover have "\<forall>r \<in> set (take (nat t) ?ch). 0 \<le> ve_layer r \<and> 0 \<le> ve_expert r"
      using sub slots by blast
    ultimately show ?thesis
      by (intro reap_mask_text_reads [where s = s' and p = "reap_mask_path out t", OF tx assms(2,3) [folded fmt] assms(4)])
  qed
  have "fst ` set snaps \<subseteq> set targets"
  proof
    fix t assume "t \<in> fst ` set snaps"
    then have "map_of snaps t \<noteq> None" by (simp add: map_of_eq_None_iff)
    then show "t \<in> set targets" using snaps [of t] by (simp split: if_splits)
  qed
  then have frame: "s' p = s2 p" if "p \<notin> reap_mask_path out ` set targets" for p
    using W that by blast
  have "report_path out \<notin> reap_mask_path out ` set targets" "ranking_path out \<notin> reap_mask_path out ` set targets"
    using reap_paths(2,3) [of out] by (auto simp: image_iff) (metis)+
  then have "s' (report_path out) = Some (ascii_encode (rf_json F rep @ [LF]))"
    "s' (ranking_path out) = Some (ascii_encode (concat (map csv_line (ranking_fields (vp_kinds rep) # rows))))"
    using frame reap_paths by (simp_all add: s2_def)
  moreover have "s' p = s p" if "p \<notin> {report_path out, ranking_path out} \<union> reap_mask_path out ` set targets" for p
    using frame [of p] that by (simp add: s2_def)
  ultimately show ?thesis using read rows order large by (auto simp: nat_le_iff)
qed

definition example_format :: reap_format where
  "example_format = \<lparr>rf_json = (\<lambda>rep. ''{}''), rf_12g = (\<lambda>_. ''0''), rf_9g = (\<lambda>_. ''0''), rf_6g = (\<lambda>_. ''0'')\<rparr>"

lemma reap_main_example:
  "\<exists>rep s'. reap_main example_format [''text=tr'', ''text=tr2''] [] 3 3 [2] 1 1 ''o'' reap_example =
     (Inr (rep, [(2, [example_expert 1 1 0, example_expert 2 1 0])]), s') \<and> vp_kinds rep = [''text''] \<and>
     vp_prune_order rep = [(1, 1, Fin 0), (2, 1, Fin 0)]"
proof -
  obtain rep where run: "build_reap [(''text'', ''tr''), (''text'', ''tr2'')] [] 3 3 [2] 1 1 reap_example =
      (Inr (rep, [(2, [example_expert 1 1 0, example_expert 2 1 0])]), reap_example)" "vp_experts rep = example_experts"
    "vp_kinds rep = [''text'']"
    using reap_example_run by blast
  have parse: "mapR parse_kind_path [''text=tr'', ''text=tr2''] = Inr [(''text'', ''tr''), (''text'', ''tr2'')]"
    by code_simp
  have "is_ok (reap_mask_text (\<lambda>_. ''0'') (\<lambda>_. ''0'') [''text''] 2 [example_expert 1 1 0, example_expert 2 1 0])"
    "is_ok (mapR (ranking_row (\<lambda>_. ''0'') [''text'']) (py_sort ranking_lt example_experts))"
    by code_simp+
  then obtain tx rows where tx: "reap_mask_text (\<lambda>_. ''0'') (\<lambda>_. ''0'') [''text''] 2
      [example_expert 1 1 0, example_expert 2 1 0] = Inr tx"
    "mapR (ranking_row (\<lambda>_. ''0'') [''text'']) (py_sort ranking_lt example_experts) = Inr rows"
    by (auto simp: is_ok_iff)
  have order: "vp_prune_order rep = [(1, 1, Fin 0), (2, 1, Fin 0)]"
    using build_reap_run [OF run(1)] example_greedy
    by (auto simp: rank_ok_def run(2) example_caps_def [symmetric] example_expert_def)
  show ?thesis
    by (simp add: reap_main_def write_reap_outputs_def ranking_text_def example_format_def io_bind_def parse run tx
        write_text_def order del: mapR.simps(2))
qed

theorem reap_mask_files_read_back_witness:
  "\<exists>rep snaps s'. reap_main example_format [''text=tr'', ''text=tr2''] [] 3 3 [2] 1 1 ''o'' reap_example = (Inr (rep, snaps), s') \<and>
     read_slot_mask (reap_mask_path ''o'' 2) s' = (Inr [(1, 1), (2, 1)], s') \<and>
     s' (report_path ''o'') = Some (ascii_encode (''{}'' @ [LF])) \<and> s' (ranking_path ''o'') \<noteq> None \<and> s' ''tr'' = reap_example ''tr''"
proof -
  have f: "plain_format (\<lambda>_. ''0'')" "plain_text ''text''"
  proof -
    have "plain_text ''0''" by code_simp
    then show "plain_format (\<lambda>_. ''0'')" by (simp add: plain_format_def)
    show "plain_text ''text''" by code_simp
  qed
  obtain rep s' where run: "reap_main example_format [''text=tr'', ''text=tr2''] [] 3 3 [2] 1 1 ''o'' reap_example =
     (Inr (rep, [(2, [example_expert 1 1 0, example_expert 2 1 0])]), s')" "vp_kinds rep = [''text'']"
     "vp_prune_order rep = [(1, 1, Fin 0), (2, 1, Fin 0)]"
    using reap_main_example by blast
  have "''tr'' \<notin> {report_path ''o'', ranking_path ''o''} \<union> reap_mask_path ''o'' ` set [2]"
    by (simp add: report_path_def ranking_path_def reap_mask_path_def in_dir_def)
  moreover have F: "rf_6g example_format = (\<lambda>_. ''0'')" "rf_9g example_format = (\<lambda>_. ''0'')" "rf_json example_format rep = ''{}''"
    by (simp_all add: example_format_def)
  ultimately show ?thesis
    using reap_mask_files_read_back [OF run(1)] f run
    by (intro exI [of _ rep] exI [of _ "[(2, [example_expert 1 1 0, example_expert 2 1 0])]"] exI [of _ s']) auto
qed

end
