(* ===== verification/PruneMap.thy ===== *)
theory PruneMap
  imports TrunkStore MergeStore TraceText
begin

text \<open>
  Choosing shared experts from the router weights (\<^verbatim>\<open>tools/make_router_prune_map.py\<close>): reading the
  router matrices out of a trunk store, farthest-first prototypes under cosine similarity, and the
  manifest that \<^verbatim>\<open>merge_expert_store.py\<close> reads. numpy's arithmetic is the parameter \<open>np\<close>: row norms,
  the similarities of all rows to one row and to the prototypes, means and minima. The selection
  itself (\<^verbatim>\<open>argmin\<close>, \<^verbatim>\<open>argmax\<close>, \<^verbatim>\<open>maximum\<close> with numpy's treatment of NaN) is written out. The manifest is a JSON value;
  its text, \<^verbatim>\<open>json.dumps(obj, indent=2, sort_keys=True)\<close>, is the parameter \<open>to_json\<close>.
\<close>

section \<open>Router matrices\<close>

definition ROUTER_WEIGHT :: nat where "ROUTER_WEIGHT = 30"

type_synonym f32_matrix = "32 word list list"

text \<open>A bfloat16 is the upper half of a float32; rows of \<open>cols\<close> little-endian pairs.\<close>

definition bf16_to_f32 :: "bytes \<Rightarrow> nat \<Rightarrow> nat \<Rightarrow> f32_matrix" where
  "bf16_to_f32 raw rows cols = map (\<lambda>i. map (\<lambda>j.
     push_bit 16 (word_of_nat (from_le (take 2 (drop (2 * (i * cols + j)) raw))))) [0..<cols]) [0..<rows]"

definition router_record :: "bytes \<Rightarrow> (int \<times> f32_matrix) list \<Rightarrow> trec \<Rightarrow> (int \<times> f32_matrix) list res" where
  "router_record data routers r =
     (if tr_kind r \<noteq> ROUTER_WEIGHT then Inr routers
      else if tr_dtype r \<noteq> DT_BF16 \<or> tr_ndim r \<noteq> 2 then Inl (SystemExit ''router must be BF16 rank-2'')
      else let expected = tr_dim0 r * tr_dim1 r * 2 in
        if tr_payload r \<noteq> expected then Inl (SystemExit ''router payload'')
        else case seek_error (tr_at r) of
            Some e \<Rightarrow> Inl e
          | None \<Rightarrow> let blob = take expected (drop (tr_at r) data) in
              if length blob \<noteq> expected then Inl (SystemExit ''short router read'')
              else Inr (dict_set (tr_layer r) (bf16_to_f32 blob (tr_dim0 r) (tr_dim1 r)) routers))"

definition router_header :: "bytes \<Rightarrow> thdr res" where
  "router_header raw =
     (if length raw < THDR_SIZE then Inl (SystemExit ''bad trunk.idx: short header'')
      else let h = THDR_unpack (take THDR_SIZE raw) in
        if th_magic h \<noteq> TMAGIC \<or> th_version h \<noteq> VERSION \<or> th_align h \<noteq> ALIGN
        then Inl (SystemExit ''bad trunk.idx header'')
        else if length raw < th_offset h + th_records h * TREC_SIZE then Inl (SystemExit ''bad trunk.idx: truncated records'')
        else Inr h)"

definition router_matrices :: "thdr \<Rightarrow> bytes \<Rightarrow> bytes \<Rightarrow> (int \<times> f32_matrix) list res" where
  "router_matrices h raw data =
     (if length data < th_data_bytes h then Inl (SystemExit ''trunk.bin shorter than index declares'')
      else rbind (unpack_table TREC_unpack TREC_SIZE raw (th_offset h) (th_records h)) (\<lambda>recs.
           rbind (foldR (router_record data) [] recs) (\<lambda>routers.
             if routers = [] then Inl (SystemExit ''no router-weight records found'') else Inr routers)))"

definition read_router_rows :: "string \<Rightarrow> string \<Rightarrow> (int \<times> f32_matrix) list io" where
  "read_router_rows bin_path idx_path =
     io_bind (read_bytes idx_path) (\<lambda>raw. io_bind (io_lift (router_header raw)) (\<lambda>h.
     io_bind (read_bytes bin_path) (\<lambda>data. io_lift (router_matrices h raw data))))"

section \<open>Prototypes\<close>

record numpy =
  np_norms :: "f32_matrix \<Rightarrow> pyfloat list"
  np_sims :: "f32_matrix \<Rightarrow> nat \<Rightarrow> pyfloat list"
  np_sims_to :: "f32_matrix \<Rightarrow> nat list \<Rightarrow> pyfloat list list"
  np_mean :: "pyfloat list \<Rightarrow> pyfloat"

text \<open>The first NaN, otherwise the first best entry.\<close>

definition np_better :: "(pyfloat \<Rightarrow> pyfloat \<Rightarrow> bool) \<Rightarrow> pyfloat \<Rightarrow> pyfloat \<Rightarrow> bool" where
  "np_better lt x y = (y \<noteq> NaN \<and> (x = NaN \<or> lt x y))"

definition np_arg :: "(pyfloat \<Rightarrow> pyfloat \<Rightarrow> bool) \<Rightarrow> pyfloat list \<Rightarrow> nat" where
  "np_arg lt xs = first_min (\<lambda>i j. np_better lt (xs ! i) (xs ! j)) 0 [1..<length xs]"

definition np_argmin :: "pyfloat list \<Rightarrow> nat" where
  "np_argmin xs = np_arg flt xs"

definition np_argmax :: "pyfloat list \<Rightarrow> nat" where
  "np_argmax xs = np_arg (\<lambda>x y. flt y x) xs"

definition np_maximum :: "pyfloat \<Rightarrow> pyfloat \<Rightarrow> pyfloat" where
  "np_maximum x y = (if x = NaN \<or> y = NaN then NaN else fmax2 x y)"

fun choose_more :: "numpy \<Rightarrow> f32_matrix \<Rightarrow> nat \<Rightarrow> nat list \<Rightarrow> pyfloat list \<Rightarrow> nat list" where
  "choose_more np rows 0 chosen best_sim = chosen"
| "choose_more np rows (Suc k) chosen best_sim =
     (let score = map (\<lambda>i. if i \<in> set chosen then PosInf else best_sim ! i) [0..<length best_sim];
          nxt = np_argmin score
      in choose_more np rows k (chosen @ [nxt]) (map2 np_maximum best_sim (np_sims np rows nxt)))"

definition choose_prototypes :: "numpy \<Rightarrow> f32_matrix \<Rightarrow> int \<Rightarrow> (nat list \<times> nat list \<times> pyfloat list) res" where
  "choose_prototypes np rows keep =
     (if keep < 1 \<or> int (length rows) < keep then Inl (ValueError ''keep'')
      else let first = np_argmax (np_norms np rows);
               chosen = choose_more np rows (nat keep - 1) [first] (np_sims np rows first);
               sims = np_sims_to np rows chosen;
               nearest = map np_argmax sims;
               mapping = foldl (\<lambda>m p. m[p := p]) (map (\<lambda>i. chosen ! i) nearest) chosen
           in Inr (sort chosen, mapping, map2 (!) sims nearest))"

section \<open>The manifest\<close>

text \<open>\<^verbatim>\<open>np.min\<close> passes NaN on; Python's \<^verbatim>\<open>min(a, b)\<close> keeps the first unless the second is smaller.\<close>

definition np_min :: "pyfloat list \<Rightarrow> pyfloat" where
  "np_min xs = xs ! np_argmin xs"

record layer_map_report =
  lr_layer :: int
  lr_experts :: nat
  lr_prototypes :: "nat list"
  lr_mapping :: "nat list"
  lr_sims :: "pyfloat list"

definition layer_prototypes :: "numpy \<Rightarrow> int \<Rightarrow> int \<times> f32_matrix \<Rightarrow> layer_map_report res" where
  "layer_prototypes np keep lm = rbind (choose_prototypes np (snd lm) keep) (\<lambda>(chosen, mapping, sims).
     Inr \<lparr>lr_layer = fst lm, lr_experts = length (snd lm), lr_prototypes = chosen, lr_mapping = mapping,
          lr_sims = sims\<rparr>)"

definition layer_json :: "numpy \<Rightarrow> layer_map_report \<Rightarrow> string \<times> json" where
  "layer_json np r = (show_int (lr_layer r), JObj
     [(''experts'', JInt (int (lr_experts r))),
      (''prototypes'', JList (map (\<lambda>p. JInt (int p)) (lr_prototypes r))),
      (''map'', JObj (map (\<lambda>i. (show_int (int i), JInt (int (lr_mapping r ! i)))) [0..<lr_experts r])),
      (''mean_assigned_cosine'', JFloat (np_mean np (lr_sims r))),
      (''min_assigned_cosine'', JFloat (np_min (lr_sims r)))])"

definition manifest_json :: "numpy \<Rightarrow> int \<Rightarrow> layer_map_report list \<Rightarrow> json" where
  "manifest_json np keep rs = JObj
     [(''version'', JInt 1), (''method'', JStr ''router-cosine-farthest-first''), (''keep_per_layer'', JInt keep),
      (''logical_expert_records'', JInt (int (sum_list (map lr_experts rs)))),
      (''unique_expert_payloads'', JInt (int (sum_list (map (\<lambda>r. length (lr_prototypes r)) rs)))),
      (''mean_assigned_cosine'', JFloat (np_mean np (concat (map lr_sims rs)))),
      (''min_assigned_cosine'', JFloat (foldl (\<lambda>x r. fmin2 x (np_min (lr_sims r))) (Fin 1) rs)),
      (''layers'', JObj (map (layer_json np) rs))]"

definition make_prune_map ::
  "numpy \<Rightarrow> (json \<Rightarrow> string) \<Rightarrow> string \<Rightarrow> string \<Rightarrow> string \<Rightarrow> int \<Rightarrow> (json \<times> layer_map_report list) io" where
  "make_prune_map np to_json trunk_bin trunk_idx output_json keep =
     io_bind (read_router_rows trunk_bin trunk_idx) (\<lambda>routers.
     io_bind (io_lift (mapR (layer_prototypes np keep) (sort_key fst routers))) (\<lambda>rs.
       let obj = manifest_json np keep rs in
       io_bind (write_text output_json (to_json obj @ [LF])) (\<lambda>_. io_return (obj, rs))))"

section \<open>Farthest-first choice\<close>

text \<open>What numpy promises of its shapes, and that a similarity is never positive infinity.\<close>

definition numpy_ok :: "numpy \<Rightarrow> bool" where
  "numpy_ok np = (\<forall>rows. length (np_norms np rows) = length rows \<and>
     (\<forall>j. length (np_sims np rows j) = length rows \<and> PosInf \<notin> set (np_sims np rows j)) \<and>
     (\<forall>ks. length (np_sims_to np rows ks) = length rows \<and> (\<forall>v \<in> set (np_sims_to np rows ks). length v = length ks)))"

lemma weak_order_better: "weak_order (\<lambda>i j. np_better flt (xs ! i) (xs ! j)) (\<lambda>_. True)"
proof
  fix x y z :: nat
  show "\<not> np_better flt (xs ! x) (xs ! x)" by (auto simp: np_better_def flt_def)
  show "np_better flt (xs ! x) (xs ! y) \<Longrightarrow> \<not> np_better flt (xs ! y) (xs ! x)"
    by (auto simp: np_better_def flt_def)
  show "\<not> np_better flt (xs ! y) (xs ! x) \<Longrightarrow> \<not> np_better flt (xs ! z) (xs ! y) \<Longrightarrow> \<not> np_better flt (xs ! z) (xs ! x)"
    by (auto simp: np_better_def flt_not_fle dest: fle_trans) (auto simp: flt_def dest: fle_trans)
qed

lemma np_arg_less: "xs \<noteq> [] \<Longrightarrow> np_arg lt xs < length xs"
  using first_min_in [of "\<lambda>i j. np_better lt (xs ! i) (xs ! j)" 0 "[1..<length xs]"]
  by (auto simp: np_arg_def)

lemma np_argmin_least: "j < length xs \<Longrightarrow> \<not> np_better flt (xs ! j) (xs ! np_argmin xs)"
proof -
  assume "j < length xs"
  then have "j \<in> set (0 # [1..<length xs])" by (cases j) auto
  then show ?thesis
    unfolding np_argmin_def np_arg_def
    by (intro weak_order.first_min_least [OF weak_order_better]) (auto simp: list_all_iff)
qed

lemma argmin_new:
  assumes "length best = n" "PosInf \<notin> set best" "length chosen < n"
  shows "np_argmin (map (\<lambda>i. if i \<in> set chosen then PosInf else best ! i) [0..<length best]) \<in> {..<n} - set chosen"
proof -
  let ?score = "map (\<lambda>i. if i \<in> set chosen then PosInf else best ! i) [0..<length best]"
  let ?m = "np_argmin ?score"
  have "\<not> {..<n} \<subseteq> set chosen"
    using assms(3) card_mono [of "set chosen" "{..<n}"] card_length [of chosen] by fastforce
  then obtain j where j: "j < n" "j \<notin> set chosen" by blast
  have m: "?m < n" using np_arg_less [of ?score flt] j assms(1) by (auto simp: np_argmin_def)
  have "?m \<notin> set chosen"
  proof
    assume "?m \<in> set chosen"
    then have s: "?score ! ?m = PosInf" using m assms(1) by simp
    have "?score ! j = best ! j" "best ! j \<noteq> PosInf" using j assms(1,2) nth_mem [of j best] by (auto simp del: nth_mem)
    then have "np_better flt (?score ! j) PosInf" by (cases "best ! j") (auto simp: np_better_def flt_def)
    then show False using np_argmin_least [of j ?score] j assms(1) s by simp
  qed
  with m show ?thesis by simp
qed

lemma np_maximum_not_PosInf: "x \<noteq> PosInf \<Longrightarrow> y \<noteq> PosInf \<Longrightarrow> np_maximum x y \<noteq> PosInf"
  by (auto simp: np_maximum_def fmax2_def)

lemma choose_more_ok:
  assumes "numpy_ok np" "length best = length rows" "PosInf \<notin> set best" "distinct chosen"
    "set chosen \<subseteq> {..<length rows}" "length chosen + k \<le> length rows"
  shows "distinct (choose_more np rows k chosen best) \<and> set (choose_more np rows k chosen best) \<subseteq> {..<length rows} \<and>
    length (choose_more np rows k chosen best) = length chosen + k \<and> take (length chosen) (choose_more np rows k chosen best) = chosen"
  using assms
proof (induction k arbitrary: chosen best)
  case (Suc k)
  let ?nxt = "np_argmin (map (\<lambda>i. if i \<in> set chosen then PosInf else best ! i) [0..<length best])"
  let ?best = "map2 np_maximum best (np_sims np rows ?nxt)"
  have new: "?nxt \<in> {..<length rows} - set chosen" using Suc.prems by (intro argmin_new) auto
  have len: "length ?best = length rows" using Suc.prems(1,2) by (simp add: numpy_ok_def)
  have "PosInf \<notin> set ?best"
  proof
    assume "PosInf \<in> set ?best"
    then obtain x y where "(x, y) \<in> set (zip best (np_sims np rows ?nxt))" "np_maximum x y = PosInf" by auto
    moreover have "x \<noteq> PosInf" "y \<noteq> PosInf" if "(x, y) \<in> set (zip best (np_sims np rows ?nxt))" for x y
      using that Suc.prems(1,3) by (auto simp: numpy_ok_def dest: set_zip_leftD set_zip_rightD)
    ultimately show False using np_maximum_not_PosInf by blast
  qed
  then have IH: "distinct (choose_more np rows k (chosen @ [?nxt]) ?best) \<and>
      set (choose_more np rows k (chosen @ [?nxt]) ?best) \<subseteq> {..<length rows} \<and>
      length (choose_more np rows k (chosen @ [?nxt]) ?best) = length (chosen @ [?nxt]) + k \<and>
      take (length (chosen @ [?nxt])) (choose_more np rows k (chosen @ [?nxt]) ?best) = chosen @ [?nxt]"
    using Suc.prems new len by (intro Suc.IH) auto
  then have "take (length chosen) (choose_more np rows k (chosen @ [?nxt]) ?best) = chosen"
  proof -
    have "take (length chosen) zs = chosen" if "take (length (chosen @ [x])) zs = chosen @ [x]" for zs x
      using arg_cong [OF that, of "take (length chosen)"] by (simp add: min_def)
    then show ?thesis using IH by blast
  qed
  with IH show ?case by (simp add: Let_def)
qed simp

lemma foldl_fix: "i < length m \<Longrightarrow> foldl (\<lambda>m p. m[p := p]) m ps ! i = (if i \<in> set ps then i else m ! i)"
  by (induction ps arbitrary: m) (auto simp: nth_list_update)

lemma length_foldl_fix [simp]: "length (foldl (\<lambda>m p. m[p := p]) m ps) = length m"
  by (induction ps arbitrary: m) auto

definition prototypes_ok :: "nat \<Rightarrow> int \<Rightarrow> nat list \<Rightarrow> nat list \<Rightarrow> bool" where
  "prototypes_ok n keep protos mapping = (int (length protos) = keep \<and> sorted_wrt (<) protos \<and> set protos \<subseteq> {..<n} \<and>
     length mapping = n \<and> (\<forall>i < n. mapping ! i \<in> set protos) \<and> (\<forall>p \<in> set protos. mapping ! p = p))"

lemma choose_prototypes_ok:
  assumes "numpy_ok np" "choose_prototypes np rows keep = Inr (protos, mapping, sims)"
  shows "prototypes_ok (length rows) keep protos mapping"
proof -
  define first where "first = np_argmax (np_norms np rows)"
  define chosen where "chosen = choose_more np rows (nat keep - 1) [first] (np_sims np rows first)"
  define nearest where "nearest = map np_argmax (np_sims_to np rows chosen)"
  have k: "1 \<le> keep" "keep \<le> int (length rows)" and p: "protos = sort chosen"
    and m: "mapping = foldl (\<lambda>m p. m[p := p]) (map (\<lambda>i. chosen ! i) nearest) chosen"
    using assms(2) by (auto simp: choose_prototypes_def Let_def first_def chosen_def nearest_def split: if_splits)
  have n: "length (np_norms np rows) = length rows" using assms(1) by (simp add: numpy_ok_def)
  then have "np_norms np rows \<noteq> []" using k by auto
  then have f: "first < length rows" using np_arg_less n by (metis first_def np_argmax_def)
  have C: "distinct chosen" "set chosen \<subseteq> {..<length rows}" "length chosen = nat keep"
    using choose_more_ok [OF assms(1), of "np_sims np rows first" rows "[first]" "nat keep - 1"] assms(1) k f
    by (auto simp: chosen_def numpy_ok_def)
  have len: "length nearest = length rows" using assms(1) by (simp add: nearest_def numpy_ok_def)
  have near: "chosen ! (nearest ! i) \<in> set chosen" if "i < length rows" for i
  proof -
    have "np_sims_to np rows chosen ! i \<in> set (np_sims_to np rows chosen)"
      using that assms(1) by (intro nth_mem) (simp add: numpy_ok_def)
    then have "length (np_sims_to np rows chosen ! i) = length chosen" using assms(1) by (simp add: numpy_ok_def)
    moreover have "0 < length chosen" using C(3) k by simp
    ultimately have "np_argmax (np_sims_to np rows chosen ! i) < length chosen"
      using np_arg_less by (metis length_greater_0_conv np_argmax_def)
    then show ?thesis using that assms(1) by (simp add: nearest_def numpy_ok_def)
  qed
  have "mapping ! i \<in> set chosen" if "i < length rows" for i
    using that len near by (simp add: m foldl_fix)
  moreover have "mapping ! q = q" if "q \<in> set chosen" for q
    using that C(2) len by (subst m, subst foldl_fix) auto
  ultimately show ?thesis
    using C k len by (auto simp: prototypes_ok_def p m strict_sorted_iff)
qed

section \<open>The merger reads the manifest\<close>

lemma entries_fold:
  "foldR (\<lambda>m (k, v). rbind (int_res k) (\<lambda>a. rbind (json_int v) (\<lambda>b. Inr (m(a \<mapsto> b))))) m
     (map (\<lambda>i. (show_int (int i), JInt (int (f i)))) is) = Inr (foldl (\<lambda>m i. m(int i \<mapsto> int (f i))) m is)"
  by (induction "is" arbitrary: m) (simp_all add: int_res_def)

lemma entries_lookup:
  "foldl (\<lambda>m i. m(int i \<mapsto> int (f i))) m is a = (if a \<in> int ` set is then Some (int (f (nat a))) else m a)"
  by (induction "is" arbitrary: m) auto

definition layer_entries :: "layer_map_report \<Rightarrow> int \<rightharpoonup> int" where
  "layer_entries r = foldl (\<lambda>m i. m(int i \<mapsto> int (lr_mapping r ! i))) Map.empty [0..<lr_experts r]"

lemma map_entries_layer: "map_entries (snd (layer_json np r)) = Inr (layer_entries r)"
  using entries_fold [of Map.empty "\<lambda>i. lr_mapping r ! i" "[0..<lr_experts r]"]
  by (simp add: map_entries_def layer_json_def json_items_def layer_entries_def)

lemma layers_fold:
  "foldR (\<lambda>m (k, info). rbind (int_res k) (\<lambda>layer. rbind (map_entries info) (\<lambda>e. Inr (m(layer \<mapsto> e))))) m
     (map (layer_json np) rs) = Inr (foldl (\<lambda>m r. m(lr_layer r \<mapsto> layer_entries r)) m rs)"
proof (induction rs arbitrary: m)
  case (Cons r rs)
  obtain info where "layer_json np r = (show_int (lr_layer r), info)" by (simp add: layer_json_def)
  then show ?case using Cons map_entries_layer [of np r] by (simp add: int_res_def)
qed simp

lemma layers_lookup:
  "distinct (map lr_layer rs) \<Longrightarrow> r \<in> set rs \<Longrightarrow>
     foldl (\<lambda>m r. m(lr_layer r \<mapsto> layer_entries r)) m rs (lr_layer r) = Some (layer_entries r)"
  "l \<notin> lr_layer ` set rs \<Longrightarrow> foldl (\<lambda>m r. m(lr_layer r \<mapsto> layer_entries r)) m rs l = m l"
proof -
  show keep: "l \<notin> lr_layer ` set rs \<Longrightarrow> foldl (\<lambda>m r. m(lr_layer r \<mapsto> layer_entries r)) m rs l = m l" for l m rs
    by (induction rs arbitrary: m) auto
  show "distinct (map lr_layer rs) \<Longrightarrow> r \<in> set rs \<Longrightarrow>
     foldl (\<lambda>m r. m(lr_layer r \<mapsto> layer_entries r)) m rs (lr_layer r) = Some (layer_entries r)"
    by (induction rs arbitrary: m) (auto simp: keep)
qed

lemma load_manifest:
  "load_mapping (manifest_json np keep rs) = Inr (foldl (\<lambda>m r. m(lr_layer r \<mapsto> layer_entries r)) Map.empty rs)"
  using layers_fold [of Map.empty np rs]
  by (simp add: load_mapping_def manifest_json_def json_contains_def json_eq_int_def json_items_def)

lemma read_router_rows_ok:
  "read_router_rows bin_path idx_path s = (Inr routers, s') \<Longrightarrow> s' = s \<and> distinct (map fst routers)"
proof -
  assume a: "read_router_rows bin_path idx_path s = (Inr routers, s')"
  then obtain data recs where f: "foldR (router_record data) [] recs = Inr routers" and s: "s' = s"
    by (auto simp: read_router_rows_def router_matrices_def io_bind_eq_Inr rbind_eq_Inr split: if_splits option.splits)
  have "distinct (map fst routers)"
    by (rule foldR_invariant [OF f])
       (auto simp: router_record_def Let_def distinct_dict_set split: if_splits option.splits)
  with s show ?thesis by simp
qed

text \<open>C35: the manifest merges. With numpy's shapes and similarities below infinity, a run that answers
  covers the router layers of the store in order, keeps the wanted number of distinct experts in every layer, writes the text of
  its manifest to the output file and changes no other file; and the manifest is
  one the merger accepts: under the mapping it loads, every expert of a listed layer shares the
  payload of a kept expert of its layer, a kept expert keeps its own, and experts of other layers
  are left alone.
\<close>
theorem prune_map_merges:
  assumes "make_prune_map np to_json trunk_bin trunk_idx output_json keep s = (Inr (obj, rs), s')" "numpy_ok np"
  shows "\<exists>lm routers. load_mapping obj = Inr lm \<and> s' = s(output_json \<mapsto> ascii_encode (to_json obj @ [LF])) \<and>
    read_router_rows trunk_bin trunk_idx s = (Inr routers, s) \<and>
    map (\<lambda>r. (lr_layer r, lr_experts r)) rs = map (\<lambda>(l, m). (l, length m)) (sort_key fst routers) \<and>
    sorted_wrt (<) (map lr_layer rs) \<and>
    (\<forall>r \<in> set rs. int (length (lr_prototypes r)) = keep \<and> sorted_wrt (<) (lr_prototypes r) \<and>
       (\<forall>l e. int l = lr_layer r \<and> e < lr_experts r \<longrightarrow>
          prototype_of lm (l, e) \<in> int ` set (lr_prototypes r) \<and>
          prototype_of lm (l, nat (prototype_of lm (l, e))) = prototype_of lm (l, e) \<and>
          (e \<in> set (lr_prototypes r) \<longrightarrow> prototype_of lm (l, e) = int e))) \<and>
    (\<forall>l e. int l \<notin> lr_layer ` set rs \<longrightarrow> prototype_of lm (l, e) = int e)"
proof -
  obtain routers where read: "read_router_rows trunk_bin trunk_idx s = (Inr routers, s)"
    and rs: "mapR (layer_prototypes np keep) (sort_key fst routers) = Inr rs"
    and obj: "obj = manifest_json np keep rs"
    and written: "s' = s(output_json \<mapsto> ascii_encode (to_json obj @ [LF]))"
    using assms(1) read_router_rows_ok by (fastforce simp: make_prune_map_def Let_def io_bind_eq_Inr write_text_def)
  have routers: "distinct (map fst routers)" using read_router_rows_ok [OF read] by simp
  have sizes: "map (\<lambda>r. (lr_layer r, lr_experts r)) rs = map (\<lambda>(l, m). (l, length m)) (sort_key fst routers)"
    by (rule mapR_map_eq [OF rs]) (auto simp: layer_prototypes_def elim!: rbind_InrE)
  define lm where "lm = foldl (\<lambda>m r. m(lr_layer r \<mapsto> layer_entries r)) Map.empty rs"
  have layers: "map lr_layer rs = map fst (sort_key fst routers)"
    by (rule mapR_map_eq [OF rs]) (auto simp: layer_prototypes_def elim!: rbind_InrE)
  then have sorted: "sorted_wrt (<) (map lr_layer rs)" using strict_sorted_keys [OF routers] by simp
  then have dist: "distinct (map lr_layer rs)" by (simp add: strict_sorted_iff)
  have P: "prototypes_ok (lr_experts r) keep (lr_prototypes r) (lr_mapping r)" if r: "r \<in> set rs" for r
    using mapR_source [OF rs r] choose_prototypes_ok [OF assms(2)]
    by (auto simp: layer_prototypes_def elim!: rbind_InrE)
  have look: "prototype_of lm (l, e) = int (lr_mapping r ! e)"
    if "r \<in> set rs" "int l = lr_layer r" "e < lr_experts r" for r l e
    using layers_lookup(1) [OF dist that(1), of Map.empty] that(2,3)
    by (simp add: prototype_of_def lm_def layer_entries_def entries_lookup)
  have other: "prototype_of lm (l, e) = int e" if "int l \<notin> lr_layer ` set rs" for l e
    using layers_lookup(2) [OF that, of Map.empty] by (simp add: prototype_of_def lm_def)
  have "int (length (lr_prototypes r)) = keep \<and> sorted_wrt (<) (lr_prototypes r) \<and>
       (\<forall>l e. int l = lr_layer r \<and> e < lr_experts r \<longrightarrow>
          prototype_of lm (l, e) \<in> int ` set (lr_prototypes r) \<and>
          prototype_of lm (l, nat (prototype_of lm (l, e))) = prototype_of lm (l, e) \<and>
          (e \<in> set (lr_prototypes r) \<longrightarrow> prototype_of lm (l, e) = int e))" if r: "r \<in> set rs" for r
  proof -
    have "lr_mapping r ! e < lr_experts r" if "e < lr_experts r" for e
      using P [OF r] that by (auto simp: prototypes_ok_def)
    then show ?thesis using P [OF r] look [OF r] by (auto simp: prototypes_ok_def)
  qed
  then show ?thesis
    using load_manifest [of np keep rs] read sizes written sorted other
    by (intro exI [of _ lm] exI [of _ routers]) (simp add: obj lm_def)
qed

section \<open>Trunk stores of the packer\<close>

text \<open>An index the trunk packer writes is one this tool reads, with the same records.\<close>

lemma router_header_of_packed:
  assumes "trunk_index recs n = Inr raw"
  shows "router_header raw = Inr (trunk_header recs n) \<and>
    unpack_table TREC_unpack TREC_SIZE raw (th_offset (trunk_header recs n)) (th_records (trunk_header recs n)) = Inr recs"
proof -
  note R = trunk_index_reads [OF assms]
  then have "unpack_table TREC_unpack TREC_SIZE raw THDR_SIZE (length recs) = Inr recs"
    by (auto simp: trunk_load_existing_def trunk_header_def split: if_splits)
  then show ?thesis using R by (simp add: router_header_def trunk_header_def)
qed

definition example_numpy :: numpy where
  "example_numpy = \<lparr>np_norms = (\<lambda>rows. replicate (length rows) (Fin 1)),
     np_sims = (\<lambda>rows j. replicate (length rows) (Fin 0)),
     np_sims_to = (\<lambda>rows ks. replicate (length rows) (replicate (length ks) (Fin 0))), np_mean = (\<lambda>_. Fin 0)\<rparr>"

definition example_router :: trec where
  "example_router = \<lparr>tr_layer = 1, tr_kind = 30, tr_dtype = 1, tr_ndim = 2, tr_dim0 = 3, tr_dim1 = 1, tr_dim2 = 0,
     tr_dim3 = 0, tr_at = 0, tr_read = 4096, tr_payload = 6\<rparr>"

definition example_trunk :: "bytes \<Rightarrow> fs" where
  "example_trunk raw = [''t.idx'' \<mapsto> raw, ''t.bin'' \<mapsto> replicate 6 0]"

lemma example_numpy_ok: "numpy_ok example_numpy"
  by (simp add: numpy_ok_def example_numpy_def)

lemma example_choice: "choose_prototypes example_numpy (replicate 3 [0]) 2 = Inr ([0, 1], [0, 1, 0], replicate 3 (Fin 0))"
  by code_simp

lemma example_router_read: "router_record (replicate 6 0) [] example_router = Inr [(1, replicate 3 [0])]"
proof -
  have "bf16_to_f32 (replicate 6 0) 3 1 = replicate 3 [0]" by code_simp
  then show ?thesis
    by (simp add: router_record_def example_router_def ROUTER_WEIGHT_def DT_BF16_def seek_error_def)
qed

lemma example_prune_map:
  "\<exists>raw obj rs. make_prune_map example_numpy (\<lambda>v. ''{}'') ''t.bin'' ''t.idx'' ''m.json'' 2 (example_trunk raw) =
       (Inr (obj, rs), (example_trunk raw)(''m.json'' \<mapsto> ascii_encode (''{}'' @ [LF]))) \<and> map lr_prototypes rs = [[0, 1]]"
proof -
  have "fields_fit thdr_widths (thdr_values (trunk_header [example_router] 6))"
    by (simp add: fields_fit_def thdr_widths_def thdr_values_def trunk_header_def VERSION_def ALIGN_def THDR_SIZE_def)
  then obtain hb where hb: "THDR_pack (trunk_header [example_router] 6) = Inr hb"
    using pack_fields_fit by (fastforce simp: THDR_pack_def)
  have "trec_fits example_router"
    by (simp add: trec_fits_def fields_fit_def trec_widths_def trec_values_def example_router_def)
  then obtain b where "TREC_pack example_router = Inr b" using trec_codec.enc_fits by blast
  then obtain raw where raw: "trunk_index [example_router] 6 = Inr raw" by (simp add: trunk_index_def hb)
  note H = router_header_of_packed [OF raw]
  have "router_matrices (trunk_header [example_router] 6) raw (replicate 6 0) = Inr [(1, replicate 3 [0])]"
    using H by (simp add: router_matrices_def example_router_read) (simp add: trunk_header_def)
  then have "read_router_rows ''t.bin'' ''t.idx'' (example_trunk raw) = (Inr [(1, replicate 3 [0])], example_trunk raw)"
    using H by (simp add: read_router_rows_def io_bind_def example_trunk_def)
  then have "make_prune_map example_numpy (\<lambda>v. ''{}'') ''t.bin'' ''t.idx'' ''m.json'' 2 (example_trunk raw) =
      (Inr (manifest_json example_numpy 2 [\<lparr>lr_layer = 1, lr_experts = 3, lr_prototypes = [0, 1], lr_mapping = [0, 1, 0],
        lr_sims = replicate 3 (Fin 0)\<rparr>], [\<lparr>lr_layer = 1, lr_experts = 3, lr_prototypes = [0, 1], lr_mapping = [0, 1, 0],
        lr_sims = replicate 3 (Fin 0)\<rparr>]), (example_trunk raw)(''m.json'' \<mapsto> ascii_encode (''{}'' @ [LF])))"
    using example_choice by (simp add: make_prune_map_def io_bind_def layer_prototypes_def write_text_def)
  then show ?thesis by (intro exI conjI) (assumption, simp)
qed

theorem prune_map_merges_witness:
  "\<exists>raw obj rs s' lm. make_prune_map example_numpy (\<lambda>v. ''{}'') ''t.bin'' ''t.idx'' ''m.json'' 2 (example_trunk raw) = (Inr (obj, rs), s') \<and>
     load_mapping obj = Inr lm \<and> map lr_prototypes rs = [[0, 1]] \<and> s' ''m.json'' = Some (ascii_encode (''{}'' @ [LF])) \<and>
     s' ''t.bin'' = example_trunk raw ''t.bin'' \<and> (\<forall>r \<in> set rs. int (length (lr_prototypes r)) = 2)"
proof -
  obtain raw obj rs s' where run: "make_prune_map example_numpy (\<lambda>v. ''{}'') ''t.bin'' ''t.idx'' ''m.json'' 2 (example_trunk raw) =
      (Inr (obj, rs), s')" "map lr_prototypes rs = [[0, 1]]"
    using example_prune_map by (elim exE conjE) (rule that)
  from prune_map_merges [OF run(1) example_numpy_ok] obtain lm where
    "load_mapping obj = Inr lm" "s' = (example_trunk raw)(''m.json'' \<mapsto> ascii_encode (''{}'' @ [LF]))"
    "\<forall>r \<in> set rs. int (length (lr_prototypes r)) = 2"
    by auto
  then show ?thesis
    using run by (intro exI [of _ raw] exI [of _ obj] exI [of _ rs] exI [of _ s'] exI [of _ lm]) simp
qed

end
