(* ===== verification/PhaseGate.thy ===== *)
theory PhaseGate
  imports TraceText
begin

text \<open>
  The Phase-A eligibility gate (\<^verbatim>\<open>tools/gate_kimi_pruning_phase_a.py\<close>): which pruning variants of a
  Phase-A summary are worth a longer run, and in which order. The summary is a parsed JSON value.
\<close>

section \<open>Screening\<close>

definition VARIANTS :: "string list" where
  "VARIANTS = [''keep60'', ''keep58'', ''adaptive-unseen-cap6'']"

definition json_path :: "json \<Rightarrow> string list \<Rightarrow> json res" where
  "json_path v ks = foldR json_index v ks"

definition disabled_count :: "json \<Rightarrow> string \<Rightarrow> int res" where
  "disabled_count summary variant =
     rbind (json_index summary ''calibration'') (\<lambda>cal.
       if starts_with variant ''keep''
       then rbind (json_path cal [''masks'', drop 4 variant, ''disabled_count'']) json_int
       else if variant = ''adaptive-unseen-cap6''
       then rbind (json_path cal [''unseen_cap_masks'', ''6'', ''disabled_count'']) json_int
       else Inl (KeyError variant))"

record thresholds =
  th_topk :: pyfloat
  th_js :: pyfloat
  th_retention :: pyfloat
  th_coverage :: pyfloat

record variant_row =
  vr_name :: string
  vr_first_exact :: bool
  vr_argmax :: bool
  vr_topk_ok :: bool
  vr_js_ok :: bool
  vr_retention_ok :: bool
  vr_disabled :: int
  vr_prompts :: int
  vr_first_token_exact :: int
  vr_argmax_agree :: int
  vr_topk :: pyfloat
  vr_js :: pyfloat
  vr_retention :: pyfloat
  vr_substitutions :: int
  vr_read_ops :: int
  vr_read_mib :: pyfloat

definition eligible :: "variant_row \<Rightarrow> bool" where
  "eligible r = (vr_first_exact r \<and> vr_argmax r \<and> vr_topk_ok r \<and> vr_js_ok r \<and> vr_retention_ok r)"

definition int_field :: "json \<Rightarrow> string \<Rightarrow> int res" where
  "int_field a k = rbind (json_index a k) json_int"

definition float_field :: "json \<Rightarrow> string \<Rightarrow> pyfloat res" where
  "float_field a k = rbind (json_index a k) json_float"

definition variant_row_of :: "thresholds \<Rightarrow> json \<Rightarrow> string \<Rightarrow> variant_row res" where
  "variant_row_of th summary name =
     rbind (json_path summary [''aggregate'', name]) (\<lambda>a.
     rbind (int_field a ''prompts'') (\<lambda>prompts.
     rbind (int_field a ''first_token_exact'') (\<lambda>exact.
     rbind (int_field a ''logit_argmax_agree'') (\<lambda>argmax.
     rbind (float_field a ''logit_min_topk_overlap'') (\<lambda>topk.
     rbind (float_field a ''logit_max_js_divergence'') (\<lambda>js.
     rbind (float_field a ''route_min_selected_retention'') (\<lambda>retention.
     rbind (disabled_count summary name) (\<lambda>disabled.
     rbind (int_field a ''route_substitutions'') (\<lambda>subst.
     rbind (int_field a ''cache_read_ops_total'') (\<lambda>ops.
     rbind (float_field a ''cache_bytes_read_mib_total'') (\<lambda>rd.
       Inr \<lparr>vr_name = name, vr_first_exact = (exact = prompts), vr_argmax = (argmax = prompts),
            vr_topk_ok = fle (th_topk th) topk, vr_js_ok = fle js (th_js th),
            vr_retention_ok = fle (th_retention th) retention, vr_disabled = disabled, vr_prompts = prompts,
            vr_first_token_exact = exact, vr_argmax_agree = argmax, vr_topk = topk, vr_js = js,
            vr_retention = retention, vr_substitutions = subst, vr_read_ops = ops, vr_read_mib = rd\<rparr>)))))))))))"

text \<open>Most disabled slots first, then the smaller divergence, then the larger overlap.\<close>

definition gate_lt :: "variant_row \<Rightarrow> variant_row \<Rightarrow> bool" where
  "gate_lt a b =
     (if vr_disabled a \<noteq> vr_disabled b then - vr_disabled a < - vr_disabled b
      else if \<not> feq (vr_js a) (vr_js b) then flt (vr_js a) (vr_js b)
      else flt (fneg (vr_topk a)) (fneg (vr_topk b)))"

record gate_report =
  ga_seen :: int
  ga_slots :: int
  ga_fraction :: pyfloat
  ga_warning :: bool
  ga_variants :: "variant_row list"
  ga_candidates :: "string list"

definition screen :: "json \<Rightarrow> thresholds \<Rightarrow> gate_report res" where
  "screen summary th =
     rbind (json_get summary ''schema_version'' JNull) (\<lambda>version.
       if \<not> json_eq_int version 1 then Inl (ValueError ''unsupported summary schema'')
       else rbind (json_path summary [''calibration'', ''coverage'']) (\<lambda>coverage.
            rbind (int_field coverage ''layer_expert_slots'') (\<lambda>slots.
            rbind (int_field coverage ''seen_slots'') (\<lambda>seen.
            rbind (if slots \<noteq> 0 then int_truediv seen slots else Inr (Fin 0)) (\<lambda>fraction.
            rbind (mapR (variant_row_of th summary) VARIANTS) (\<lambda>rows.
              Inr \<lparr>ga_seen = seen, ga_slots = slots, ga_fraction = fraction,
                   ga_warning = flt fraction (th_coverage th), ga_variants = rows,
                   ga_candidates = map vr_name (py_sort gate_lt (filter eligible rows))\<rparr>))))))"

text \<open>The command line refuses thresholds outside [0, 1], NaN included.\<close>

definition gate_main :: "(string \<Rightarrow> json res) \<Rightarrow> string \<Rightarrow> thresholds \<Rightarrow> gate_report io" where
  "gate_main loads path th =
     (if \<not> list_all (\<lambda>v. fle (Fin 0) v \<and> fle v (Fin 1)) [th_topk th, th_js th, th_retention th, th_coverage th]
      then io_raise (SystemExit ''must be in [0,1]'')
      else io_bind (read_text path) (\<lambda>t. io_lift (rbind (loads t) (\<lambda>summary. screen summary th))))"

section \<open>Correctness\<close>

text \<open>A variant passes when its numbers in the summary meet every threshold.\<close>

definition passes :: "thresholds \<Rightarrow> json \<Rightarrow> string \<Rightarrow> bool" where
  "passes th summary name = (\<exists>a prompts topk js retention.
     json_path summary [''aggregate'', name] = Inr a \<and> int_field a ''prompts'' = Inr prompts \<and>
     int_field a ''first_token_exact'' = Inr prompts \<and> int_field a ''logit_argmax_agree'' = Inr prompts \<and>
     float_field a ''logit_min_topk_overlap'' = Inr topk \<and> fle (th_topk th) topk \<and>
     float_field a ''logit_max_js_divergence'' = Inr js \<and> fle js (th_js th) \<and>
     float_field a ''route_min_selected_retention'' = Inr retention \<and> fle (th_retention th) retention)"

lemma variant_row_ok:
  assumes "variant_row_of th summary name = Inr r"
  shows "vr_name r = name \<and> (eligible r \<longleftrightarrow> passes th summary name) \<and> disabled_count summary name = Inr (vr_disabled r) \<and>
    (eligible r \<longrightarrow> vr_js r \<noteq> NaN \<and> vr_topk r \<noteq> NaN)"
  using assms unfolding variant_row_of_def
  by (elim rbind_InrE) (auto simp: eligible_def passes_def dest: fle_not_NaN)

definition rankable :: "variant_row \<Rightarrow> bool" where
  "rankable r = (vr_js r \<noteq> NaN \<and> vr_topk r \<noteq> NaN)"

lemma fneg_neq_NaN: "fneg x \<noteq> NaN \<longleftrightarrow> x \<noteq> NaN"
  by (cases x) auto

interpretation gate: weak_order gate_lt rankable
proof
  fix x y z :: variant_row
  have eq: "feq u v \<longleftrightarrow> u = v" if "u \<noteq> NaN" "v \<noteq> NaN" for u v
    using that by (auto simp: feq_def fle_refl fle_antisym)
  show "rankable x \<Longrightarrow> \<not> gate_lt x x"
    by (auto simp: gate_lt_def rankable_def eq flt_def)
  show "rankable x \<Longrightarrow> rankable y \<Longrightarrow> gate_lt x y \<Longrightarrow> \<not> gate_lt y x"
    by (auto simp: gate_lt_def rankable_def eq flt_def split: if_splits)
  show "rankable x \<Longrightarrow> rankable y \<Longrightarrow> rankable z \<Longrightarrow> \<not> gate_lt y x \<Longrightarrow> \<not> gate_lt z y \<Longrightarrow> \<not> gate_lt z x"
    by (auto simp: gate_lt_def rankable_def eq flt_not_fle fneg_neq_NaN split: if_splits dest: fle_antisym fle_trans)
qed

text \<open>C37: the gate lets through exactly the variants whose numbers meet every threshold, each once; a
  variant with a NaN divergence, overlap or retention never passes; the candidates come with the
  most disabled slots first.
\<close>
theorem gate_candidates_exact:
  assumes "gate_main loads path th s = (Inr rep, s')"
  shows "\<exists>t summary. s' = s \<and> read_text path s = (Inr t, s) \<and> loads t = Inr summary \<and>
    distinct (ga_candidates rep) \<and>
    (\<forall>name. name \<in> set (ga_candidates rep) \<longleftrightarrow> name \<in> set VARIANTS \<and> passes th summary name) \<and>
    sorted_wrt (\<lambda>a b. \<exists>da db. disabled_count summary a = Inr da \<and> disabled_count summary b = Inr db \<and> db \<le> da)
      (ga_candidates rep)"
proof -
  obtain t summary where t: "s' = s" "read_text path s = (Inr t, s)" "loads t = Inr summary" "screen summary th = Inr rep"
    using assms by (auto simp: gate_main_def io_bind_eq_Inr read_text_app rbind_eq_Inr split: if_splits)
  obtain rows where rows: "mapR (variant_row_of th summary) VARIANTS = Inr rows"
    and c: "ga_candidates rep = map vr_name (py_sort gate_lt (filter eligible rows))"
    using t(4) unfolding screen_def by (elim rbind_InrE, unfold guard_iff, elim conjE rbind_InrE) auto
  have names: "map vr_name rows = VARIANTS"
    using mapR_map_eq [OF rows, of vr_name "\<lambda>n. n"] variant_row_ok by auto
  have each: "vr_name r \<in> set VARIANTS \<and> (eligible r \<longleftrightarrow> passes th summary (vr_name r)) \<and>
      disabled_count summary (vr_name r) = Inr (vr_disabled r) \<and> (eligible r \<longrightarrow> rankable r)" if "r \<in> set rows" for r
    using mapR_source [OF rows that] variant_row_ok by (auto simp: rankable_def)
  have "distinct (map vr_name rows)" by (simp add: names VARIANTS_def)
  then have d: "distinct (ga_candidates rep)"
    by (auto simp: c distinct_map intro: inj_on_subset)
  have "name \<in> set (ga_candidates rep) \<longleftrightarrow> name \<in> set VARIANTS \<and> passes th summary name" for name
  proof
    assume "name \<in> set (ga_candidates rep)"
    then show "name \<in> set VARIANTS \<and> passes th summary name" using each by (auto simp: c)
  next
    assume n: "name \<in> set VARIANTS \<and> passes th summary name"
    then have "name \<in> vr_name ` set rows" by (metis names set_map)
    then show "name \<in> set (ga_candidates rep)" using n each by (auto simp: c)
  qed
  moreover have "sorted_wrt (\<lambda>a b. \<not> gate_lt b a) (py_sort gate_lt (filter eligible rows))"
    using each by (intro gate.sorted_py_sort) (auto simp: list_all_iff)
  then have "sorted_wrt (\<lambda>a b. \<exists>da db. disabled_count summary a = Inr da \<and> disabled_count summary b = Inr db \<and> db \<le> da)
      (ga_candidates rep)"
    unfolding c sorted_wrt_map
    by (rule sorted_wrt_mono_rel [rotated]) (use each in \<open>auto simp: gate_lt_def split: if_splits\<close>)
  ultimately show ?thesis using t d by blast
qed

definition example_row :: "int \<Rightarrow> rat \<Rightarrow> json" where
  "example_row exact js = JObj [(''prompts'', JInt 2), (''first_token_exact'', JInt exact), (''logit_argmax_agree'', JInt 2),
     (''logit_min_topk_overlap'', JFloat (Fin 1)), (''logit_max_js_divergence'', JFloat (Fin js)),
     (''route_min_selected_retention'', JFloat (Fin 1)), (''route_substitutions'', JInt 0),
     (''cache_read_ops_total'', JInt 0), (''cache_bytes_read_mib_total'', JInt 0)]"

definition example_summary :: json where
  "example_summary = JObj [(''schema_version'', JInt 1),
     (''calibration'', JObj [(''coverage'', JObj [(''layer_expert_slots'', JInt 0), (''seen_slots'', JInt 0)]),
        (''masks'', JObj [(''60'', JObj [(''disabled_count'', JInt 4)]), (''58'', JObj [(''disabled_count'', JInt 6)])]),
        (''unseen_cap_masks'', JObj [(''6'', JObj [(''disabled_count'', JInt 5)])])]),
     (''aggregate'', JObj [(''keep60'', example_row 2 0), (''keep58'', example_row 1 0),
        (''adaptive-unseen-cap6'', example_row 2 0)])]"

definition example_thresholds :: thresholds where
  "example_thresholds = \<lparr>th_topk = Fin 1, th_js = Fin 0, th_retention = Fin 1, th_coverage = Fin 1\<rparr>"

lemma example_screen:
  "rmap ga_candidates (screen example_summary example_thresholds) = Inr [''adaptive-unseen-cap6'', ''keep60'']"
  by code_simp

theorem gate_candidates_exact_witness:
  "\<exists>rep. gate_main (\<lambda>_. Inr example_summary) ''s'' example_thresholds [''s'' \<mapsto> []] = (Inr rep, [''s'' \<mapsto> []]) \<and>
     ga_candidates rep = [''adaptive-unseen-cap6'', ''keep60''] \<and>
     \<not> passes example_thresholds example_summary ''keep58'' \<and> passes example_thresholds example_summary ''keep60''"
proof -
  obtain rep where rep: "screen example_summary example_thresholds = Inr rep"
    "ga_candidates rep = [''adaptive-unseen-cap6'', ''keep60'']"
    using example_screen by (auto simp: rmap_eq_Inr)
  have run: "gate_main (\<lambda>_. Inr example_summary) ''s'' example_thresholds [''s'' \<mapsto> []] = (Inr rep, [''s'' \<mapsto> []])"
    by (simp add: gate_main_def io_bind_def read_text_app ascii_decode_def rep(1)) (simp add: example_thresholds_def)
  from gate_candidates_exact [OF run]
  have "name \<in> set (ga_candidates rep) \<longleftrightarrow> name \<in> set VARIANTS \<and> passes example_thresholds example_summary name"
    for name by auto
  from this [of "''keep58''"] this [of "''keep60''"] show ?thesis
    by (intro exI [of _ rep]) (simp add: run rep(2) VARIANTS_def)
qed

end
