(* ===== verification/Float32.thy ===== *)
theory Float32
  imports FileIO PyFloat
begin

text \<open>
  Little-endian arrays of IEEE binary32 words, as \<^verbatim>\<open>array('f')\<close>, \<^verbatim>\<open>struct\<close> and \<^verbatim>\<open>np.frombuffer\<close> read them:
  the value of a word, and a round trip between bytes and words.
\<close>

unbundle bit_operations_syntax

text \<open>Every finite binary32 value is a binary64 number.\<close>

definition f32_value :: "32 word \<Rightarrow> pyfloat" where
  "f32_value w = (let e = uint (drop_bit 23 w AND 0xFF); m = uint (w AND 0x7FFFFF); neg = bit w 31 in
     if e = 255 then (if m = 0 then finf (\<not> neg) else NaN)
     else let x = (if e = 0 then of_int m * pow2 (- 149) else of_int (m + 2 ^ 23) * pow2 (e - 150))
          in Fin (if neg then - x else x))"

text \<open>The first words of a byte string, four bytes each.\<close>

fun le_words :: "nat \<Rightarrow> bytes \<Rightarrow> 32 word list" where
  "le_words 0 bs = []"
| "le_words (Suc n) bs = word_of_nat (from_le (take 4 bs)) # le_words n (drop 4 bs)"

definition word_bytes :: "32 word list \<Rightarrow> bytes" where
  "word_bytes ws = concat (map (\<lambda>w. le_bytes 4 (unat w)) ws)"

lemma length_le_words [simp]: "length (le_words n bs) = n"
  by (induction n arbitrary: bs) auto

lemma length_word_bytes [simp]: "length (word_bytes ws) = 4 * length ws"
  by (induction ws) (simp_all add: word_bytes_def)

lemma le_words_written: "length ws = n \<Longrightarrow> le_words n (word_bytes ws @ rest) = ws"
proof (induction ws arbitrary: n)
  case (Cons w ws)
  have "unat w < 256 ^ 4" using unsigned_less [of w] by simp
  then show ?case using Cons by (auto simp: from_le_le_bytes word_bytes_def)
qed simp

lemma word_bytes_read: "4 * n \<le> length bs \<Longrightarrow> word_bytes (le_words n bs) = take (4 * n) bs"
proof (induction n arbitrary: bs)
  case (Suc n)
  have l: "length (take 4 bs) = 4" using Suc.prems by simp
  have "from_le (take 4 bs) < 2 ^ 32" using from_le_bound [of "take 4 bs"] l by simp
  then have "unat (word_of_nat (from_le (take 4 bs)) :: 32 word) = from_le (take 4 bs)"
    by (simp add: unsigned_of_nat take_bit_nat_eq_self)
  then have "le_bytes 4 (unat (word_of_nat (from_le (take 4 bs)) :: 32 word)) = take 4 bs"
    using le_bytes_from_le [of "take 4 bs"] l by simp
  then show ?case using Suc by (simp add: word_bytes_def take_add [of 4 "4 * n" bs, symmetric] add.commute)
qed (simp add: word_bytes_def)

end
