(* ===== verification/LogitCompare.thy ===== *)
theory LogitCompare
  imports MoeTrace Float32
begin

text \<open>
  Comparison of float32 logit dumps (\<^verbatim>\<open>tools/compare_kimi_logits.py\<close>): the dump format, the top-k
  ids, the per-record metrics and the summary. \<^verbatim>\<open>log\<close>, \<^verbatim>\<open>exp\<close> and \<^verbatim>\<open>sqrt\<close> are the parameter \<open>lib\<close>.
  \<^verbatim>\<open>heapq.nlargest(k, ids, key)\<close> is the head of the stable descending sort, as its documentation says.
\<close>

section \<open>The dump format\<close>

definition LOGIT_MAGIC :: bytes where "LOGIT_MAGIC = ascii_encode ''KVLLOG1'' @ [0]"

type_synonym logit_record = "nat \<times> 32 word list"

function read_logits :: "nat \<Rightarrow> bytes \<Rightarrow> logit_record list res" where
  "read_logits vocab data =
     (if data = [] then Inr []
      else if length data < 8 then Inl (ValueError ''truncated record header'')
      else let n = from_le (take 4 (drop 4 data)); body = drop 8 data in
        if n \<noteq> vocab then Inl (ValueError ''record size'')
        else if length body < n * 4 then Inl (ValueError ''truncated record'')
        else let vals = le_words n body in
          if list_ex (\<lambda>w. \<not> is_finite (f32_value w)) vals then Inl (ValueError ''non-finite logit'')
          else rmap (\<lambda>rs. (from_le (take 4 data), vals) # rs) (read_logits vocab (drop (n * 4) body)))"
  by pat_completeness auto
termination by (relation "measure (\<lambda>(vocab, data). length data)") auto

declare read_logits.simps [simp del]

definition read_dump_bytes :: "bytes \<Rightarrow> (nat \<times> logit_record list) res" where
  "read_dump_bytes data =
     (if length data < 16 then Inl (ValueError ''truncated header'')
      else let version = from_le (take 4 (drop 8 data)); vocab = from_le (take 4 (drop 12 data)) in
        if take 8 data \<noteq> LOGIT_MAGIC \<or> version \<noteq> 1 \<or> vocab = 0 then Inl (ValueError ''bad header magic/version/vocab'')
        else rbind (read_logits vocab (drop 16 data)) (\<lambda>records.
          if records = [] then Inl (ValueError ''no records'') else Inr (vocab, records)))"

definition read_dump :: "string \<Rightarrow> (nat \<times> logit_record list) io" where
  "read_dump path = io_bind (read_bytes path) (\<lambda>data. io_lift (read_dump_bytes data))"

section \<open>Metrics of a record\<close>

definition logsumexp :: "libm \<Rightarrow> pyfloat list \<Rightarrow> pyfloat res" where
  "logsumexp lib xs = (let m = foldl fmax2 (hd xs) (tl xs) in
     rbind (mapR (\<lambda>x. m_exp lib (fsub x m)) xs) (\<lambda>es. rmap (fadd m) (m_log lib (fsum es))))"

definition top_ids :: "pyfloat list \<Rightarrow> nat \<Rightarrow> nat list" where
  "top_ids xs k = take (min k (length xs)) (py_sort (\<lambda>i j. flt (xs ! j) (xs ! i)) [0..<length xs])"

record prob_acc =
  pa_kl_ab :: pyfloat
  pa_kl_ba :: pyfloat
  pa_js :: pyfloat
  pa_max :: pyfloat
  pa_overlap :: pyfloat
  pa_l1 :: pyfloat

definition zero_prob :: prob_acc where
  "zero_prob = \<lparr>pa_kl_ab = Fin 0, pa_kl_ba = Fin 0, pa_js = Fin 0, pa_max = Fin 0, pa_overlap = Fin 0, pa_l1 = Fin 0\<rparr>"

text \<open>\<^verbatim>\<open>c * p * log(p / q)\<close>, added where the guard holds.\<close>

definition add_log :: "libm \<Rightarrow> bool \<Rightarrow> pyfloat \<Rightarrow> pyfloat \<Rightarrow> pyfloat \<Rightarrow> pyfloat \<Rightarrow> pyfloat res" where
  "add_log lib guard acc w p q =
     (if guard then rbind (fdiv p q) (\<lambda>r. rbind (m_log lib r) (\<lambda>l. Inr (fadd acc (fmul w l)))) else Inr acc)"

definition prob_step :: "libm \<Rightarrow> pyfloat \<Rightarrow> pyfloat \<Rightarrow> prob_acc \<Rightarrow> pyfloat \<times> pyfloat \<Rightarrow> prob_acc res" where
  "prob_step lib za zb acc xy =
     rbind (m_exp lib (fsub (fst xy) za)) (\<lambda>pa. rbind (m_exp lib (fsub (snd xy) zb)) (\<lambda>pb.
       let dp = fabs (fsub pa pb); both = flt (Fin 0) pa \<and> flt (Fin 0) pb; half = Fin (1 / 2);
           m = fmul half (fadd pa pb)
       in rbind (add_log lib both (pa_kl_ab acc) pa pa pb) (\<lambda>kl_ab.
          rbind (add_log lib both (pa_kl_ba acc) pb pb pa) (\<lambda>kl_ba.
          rbind (add_log lib (flt (Fin 0) pa) (pa_js acc) (fmul half pa) pa m) (\<lambda>js.
          rbind (add_log lib (flt (Fin 0) pb) js (fmul half pb) pb m) (\<lambda>js.
            Inr \<lparr>pa_kl_ab = kl_ab, pa_kl_ba = kl_ba, pa_js = js, pa_max = fmax2 (pa_max acc) dp,
                 pa_overlap = fadd (pa_overlap acc) (fmin2 pa pb), pa_l1 = fadd (pa_l1 acc) dp\<rparr>))))))"

record logit_cmp =
  lc_index :: nat
  lc_max_abs :: pyfloat
  lc_rms :: pyfloat
  lc_argmax_base :: nat
  lc_argmax_variant :: nat
  lc_agree :: bool
  lc_topk :: nat
  lc_overlap :: nat
  lc_fraction :: pyfloat
  lc_prob :: prob_acc
  lc_variation :: pyfloat

definition compare_record :: "libm \<Rightarrow> nat \<Rightarrow> nat \<Rightarrow> pyfloat list \<Rightarrow> pyfloat list \<Rightarrow> logit_cmp res" where
  "compare_record lib topk index a b =
     (if length a \<noteq> length b then Inl (ValueError ''logit vector size mismatch'')
      else let n = length a; ds = map2 fsub a b; ta = top_ids a topk; tb = top_ids b topk;
               inter = length (filter (\<lambda>i. i \<in> set tb) ta) in
        rbind (if n \<noteq> 0 then rbind (rbind (float_of_int (int n)) (fdiv (fsum (map (\<lambda>d. fmul d d) ds)))) (m_sqrt lib)
               else Inr (Fin 0)) (\<lambda>rms.
        rbind (logsumexp lib a) (\<lambda>za. rbind (logsumexp lib b) (\<lambda>zb.
        rbind (foldR (prob_step lib za zb) zero_prob (zip a b)) (\<lambda>acc.
        rbind (int_truediv (int inter) (int (min topk n))) (\<lambda>q.
          Inr \<lparr>lc_index = index, lc_max_abs = foldl (\<lambda>m d. fmax2 m (fabs d)) (Fin 0) ds, lc_rms = rms,
               lc_argmax_base = ta ! 0, lc_argmax_variant = tb ! 0, lc_agree = (ta ! 0 = tb ! 0),
               lc_topk = min topk n, lc_overlap = inter, lc_fraction = q, lc_prob = acc,
               lc_variation = fmul (Fin (1 / 2)) (pa_l1 acc)\<rparr>))))))"

section \<open>The report\<close>

record logit_report =
  lg_vocab :: nat
  lg_records :: "logit_cmp list"
  lg_agree :: nat
  lg_max_abs :: pyfloat
  lg_max_js :: pyfloat
  lg_min_topk :: pyfloat
  lg_mean_overlap :: pyfloat
  lg_min_overlap :: pyfloat
  lg_max_variation :: pyfloat

definition largest :: "pyfloat list \<Rightarrow> pyfloat" where
  "largest xs = foldl fmax2 (hd xs) (tl xs)"

definition smallest :: "pyfloat list \<Rightarrow> pyfloat" where
  "smallest xs = foldl fmin2 (hd xs) (tl xs)"

definition compare_dumps ::
  "libm \<Rightarrow> nat \<Rightarrow> nat \<times> logit_record list \<Rightarrow> nat \<times> logit_record list \<Rightarrow> logit_report res" where
  "compare_dumps lib topk base variant =
     (if fst base \<noteq> fst variant then Inl (ValueError ''vocab mismatch'')
      else if map fst (snd base) \<noteq> map fst (snd variant) then Inl (ValueError ''record indices differ'')
      else rbind (mapR (\<lambda>((i, av), (j, bv)). compare_record lib topk i (map f32_value av) (map f32_value bv))
                    (zip (snd base) (snd variant))) (\<lambda>rs.
           rbind (float_of_int (int (length rs))) (\<lambda>n.
           rbind (fdiv (fsum (map (\<lambda>r. pa_overlap (lc_prob r)) rs)) n) (\<lambda>mean_overlap.
             Inr \<lparr>lg_vocab = fst base, lg_records = rs, lg_agree = length (filter lc_agree rs),
                  lg_max_abs = largest (map lc_max_abs rs), lg_max_js = largest (map (\<lambda>r. pa_js (lc_prob r)) rs),
                  lg_min_topk = smallest (map lc_fraction rs), lg_mean_overlap = mean_overlap,
                  lg_min_overlap = smallest (map (\<lambda>r. pa_overlap (lc_prob r)) rs),
                  lg_max_variation = largest (map lc_variation rs)\<rparr>))))"

definition compare_logits :: "libm \<Rightarrow> string \<Rightarrow> string \<Rightarrow> int \<Rightarrow> logit_report io" where
  "compare_logits lib baseline variant topk =
     (if topk \<le> 0 then io_raise (SystemExit ''--topk must be positive'')
      else io_bind (read_dump baseline) (\<lambda>a. io_bind (read_dump variant) (\<lambda>b.
           io_lift (compare_dumps lib (nat topk) a b))))"

section \<open>The format is read exactly\<close>

definition record_bytes :: "nat \<Rightarrow> logit_record \<Rightarrow> bytes" where
  "record_bytes vocab r = le_bytes 4 (fst r) @ le_bytes 4 vocab @ word_bytes (snd r)"

definition dump_bytes :: "nat \<Rightarrow> logit_record list \<Rightarrow> bytes" where
  "dump_bytes vocab rs = LOGIT_MAGIC @ le_bytes 4 1 @ le_bytes 4 vocab @ concat (map (record_bytes vocab) rs)"

definition record_ok :: "nat \<Rightarrow> logit_record \<Rightarrow> bool" where
  "record_ok vocab r = (fst r < 2 ^ 32 \<and> length (snd r) = vocab \<and> list_all (\<lambda>w. is_finite (f32_value w)) (snd r))"

lemma read_logits_record:
  assumes "data \<noteq> []" "8 \<le> length data" "take 4 data = le_bytes 4 i" "take 4 (drop 4 data) = le_bytes 4 vocab"
    and "drop 8 data = body" "i < 256 ^ 4" "vocab < 256 ^ 4" "vocab * 4 \<le> length body" "le_words vocab body = vs"
    and "\<not> list_ex (\<lambda>w. \<not> is_finite (f32_value w)) vs"
  shows "read_logits vocab data = rmap ((#) (i, vs)) (read_logits vocab (drop (vocab * 4) body))"
  using assms by (subst read_logits.simps) (simp add: Let_def from_le_le_bytes del: drop_drop)

lemma read_logits_written:
  "\<forall>r \<in> set rs. record_ok vocab r \<Longrightarrow> vocab < 2 ^ 32 \<Longrightarrow> read_logits vocab (concat (map (record_bytes vocab) rs)) = Inr rs"
proof (induction rs)
  case Nil
  show ?case by (simp add: read_logits.simps)
next
  case (Cons r rs)
  obtain i vs where r: "r = (i, vs)" by (cases r)
  have ok: "i < 256 ^ 4" "length vs = vocab" "list_all (\<lambda>w. is_finite (f32_value w)) vs" "vocab < 256 ^ 4"
    using Cons.prems by (simp_all add: r record_ok_def)
  let ?data = "concat (map (record_bytes vocab) (r # rs))"
  let ?rest = "concat (map (record_bytes vocab) rs)"
  let ?body = "word_bytes vs @ ?rest"
  have d: "?data = le_bytes 4 i @ le_bytes 4 vocab @ ?body" by (simp add: r record_bytes_def)
  have l: "8 \<le> length ?data" unfolding d by simp
  then have ne: "?data \<noteq> []" by (metis list.size(3) not_numeral_le_zero)
  have parts: "take 4 ?data = le_bytes 4 i" "take 4 (drop 4 ?data) = le_bytes 4 vocab" "drop 8 ?data = ?body"
    unfolding d by simp_all
  have w: "le_words vocab ?body = vs" using le_words_written [OF ok(2), of ?rest] by simp
  have nf: "\<not> list_ex (\<lambda>w. \<not> is_finite (f32_value w)) vs" using ok(3) by (auto simp: list_ex_iff list_all_iff)
  have len: "vocab * 4 \<le> length ?body" and rest: "drop (vocab * 4) ?body = ?rest" using ok(2) by (simp_all add: mult.commute)
  have "read_logits vocab ?data = rmap ((#) (i, vs)) (read_logits vocab ?rest)"
    using read_logits_record [OF ne l parts ok(1,4) len w nf] by (simp only: rest)
  then show ?case using Cons r by simp
qed

lemma read_logits_source:
  "read_logits vocab data = Inr rs \<Longrightarrow> data = concat (map (record_bytes vocab) rs) \<and> (\<forall>r \<in> set rs. record_ok vocab r)"
proof (induction vocab data arbitrary: rs rule: read_logits.induct)
  case (1 vocab data)
  show ?case
  proof (cases "data = []")
    case True
    then show ?thesis using "1.prems" by (simp add: read_logits.simps)
  next
    case ne: False
    let ?n = "from_le (take 4 (drop 4 data))" and ?i = "from_le (take 4 data)" and ?body = "drop 8 data"
    let ?vals = "le_words ?n ?body"
    have l: "\<not> length data < 8" "?n = vocab" "\<not> length ?body < ?n * 4" "\<not> list_ex (\<lambda>w. \<not> is_finite (f32_value w)) ?vals"
      using "1.prems" ne by (subst (asm) read_logits.simps, simp add: Let_def split: if_splits)+
    obtain rs' where rs': "read_logits vocab (drop (?n * 4) ?body) = Inr rs'" and rs: "rs = (?i, ?vals) # rs'"
      using "1.prems" ne l by (subst (asm) read_logits.simps) (auto simp: Let_def rmap_def split: sum.splits)
    have IH: "drop (?n * 4) ?body = concat (map (record_bytes vocab) rs')" "\<forall>r \<in> set rs'. record_ok vocab r"
      using "1.IH" [OF ne l(1) refl refl _ _ refl l(4) rs'] l(2,3) by simp_all
    have len4: "length (take 4 data) = 4" "length (take 4 (drop 4 data)) = 4" using l(1) by simp_all
    have a: "le_bytes 4 ?i = take 4 data" using le_bytes_from_le [of "take 4 data"] len4 by simp
    have b: "le_bytes 4 vocab = take 4 (drop 4 data)" using le_bytes_from_le [of "take 4 (drop 4 data)"] len4 l(2) by simp
    have c: "word_bytes ?vals = take (?n * 4) ?body"
      using word_bytes_read [of ?n ?body] l(3) by (simp add: mult.commute)
    have "data = take 4 data @ take 4 (drop 4 data) @ ?body" by (metis append_take_drop_id drop_drop numeral_Bit0)
    also have "?body = take (?n * 4) ?body @ drop (?n * 4) ?body" by (simp only: append_take_drop_id)
    finally have "data = record_bytes vocab (?i, ?vals) @ concat (map (record_bytes vocab) rs')"
      by (simp only: record_bytes_def a b c IH(1) fst_conv snd_conv append_assoc)
    moreover have "?i < 2 ^ 32" using from_le_bound [of "take 4 data"] len4 by simp
    moreover have "list_all (\<lambda>w. is_finite (f32_value w)) ?vals" using l(4) by (auto simp: list_all_iff list_ex_iff)
    ultimately show ?thesis using IH(2) l(2) unfolding rs by (simp add: record_ok_def)
  qed
qed

lemma read_dump_written:
  assumes "0 < vocab" "vocab < 2 ^ 32" "rs \<noteq> []" "\<forall>r \<in> set rs. record_ok vocab r"
  shows "read_dump_bytes (dump_bytes vocab rs) = Inr (vocab, rs)"
proof -
  let ?data = "dump_bytes vocab rs"
  have m: "length LOGIT_MAGIC = 8" by (simp add: LOGIT_MAGIC_def ascii_encode_def)
  have parts: "take 8 ?data = LOGIT_MAGIC" "take 4 (drop 8 ?data) = le_bytes 4 1" "take 4 (drop 12 ?data) = le_bytes 4 vocab"
    "drop 16 ?data = concat (map (record_bytes vocab) rs)" "\<not> length ?data < 16"
    unfolding dump_bytes_def by (simp_all add: m)
  have "from_le (le_bytes 4 1) = 1" by (simp add: from_le_le_bytes)
  then show ?thesis
    using assms read_logits_written [OF assms(4,2)] unfolding read_dump_bytes_def parts
    by (simp add: parts(5) from_le_le_bytes Let_def)
qed

text \<open>C36: A logit dump is accepted exactly when it is the serialisation of its contents: the magic, version 1, a
  positive 32-bit vocabulary size and at least one record, each with a 32-bit index, the vocabulary size again and
  that many finite floats. Then the reader returns that vocabulary size and those records, in file order; a file
  that is shorter, longer, misaligned or holds an infinity or a NaN is refused.\<close>

theorem logit_dump_exact:
  "read_dump_bytes data = Inr (vocab, rs)
     \<longleftrightarrow> 0 < vocab \<and> vocab < 2 ^ 32 \<and> rs \<noteq> [] \<and> list_all (record_ok vocab) rs \<and> data = dump_bytes vocab rs"
    (is "?read \<longleftrightarrow> ?written")
proof
  assume ?written
  then show ?read using read_dump_written [of vocab rs] by (simp add: list_all_iff)
next
  assume r: ?read
  let ?rest = "drop 16 data"
  from r have h: "\<not> length data < 16" "take 8 data = LOGIT_MAGIC" "from_le (take 4 (drop 8 data)) = 1"
    "from_le (take 4 (drop 12 data)) = vocab" "0 < vocab" "rs \<noteq> []" and body: "read_logits vocab ?rest = Inr rs"
    by (auto simp: read_dump_bytes_def Let_def rbind_eq_Inr split: if_splits)
  have l: "length (take 4 (drop 8 data)) = 4" "length (take 4 (drop 12 data)) = 4" using h(1) by simp_all
  have a: "take 4 (drop 8 data) = le_bytes 4 1" using le_bytes_from_le [of "take 4 (drop 8 data)"] l h(3) by simp
  have b: "take 4 (drop 12 data) = le_bytes 4 vocab" using le_bytes_from_le [of "take 4 (drop 12 data)"] l h(4) by simp
  have "vocab < 2 ^ 32" using from_le_bound [of "take 4 (drop 12 data)"] l h(4) by simp
  moreover have "data = take 8 data @ take 4 (drop 8 data) @ take 4 (drop 12 data) @ ?rest"
    using take_add [of 8 4 data] take_add [of 12 4 data] append_take_drop_id [of 16 data] by simp
  then have "data = dump_bytes vocab rs"
    using read_logits_source [OF body] unfolding dump_bytes_def h(2) a b by simp
  ultimately show ?written using h(5,6) read_logits_source [OF body] by (simp add: list_all_iff)
qed

section \<open>The largest logits and the report\<close>

interpretation logit_rank: weak_order "\<lambda>i j. flt (xs ! j) (xs ! i)" "\<lambda>i. xs ! i \<noteq> NaN" for xs
proof
  fix i j k :: nat
  show "xs ! i \<noteq> NaN \<Longrightarrow> \<not> flt (xs ! i) (xs ! i)" by (simp add: flt_def)
  show "xs ! i \<noteq> NaN \<Longrightarrow> xs ! j \<noteq> NaN \<Longrightarrow> xs ! k \<noteq> NaN \<Longrightarrow>
    \<not> flt (xs ! i) (xs ! j) \<Longrightarrow> \<not> flt (xs ! j) (xs ! k) \<Longrightarrow> \<not> flt (xs ! i) (xs ! k)"
    by (auto simp: flt_not_fle intro: fle_trans)
  show "xs ! i \<noteq> NaN \<Longrightarrow> xs ! j \<noteq> NaN \<Longrightarrow> flt (xs ! j) (xs ! i) \<Longrightarrow> \<not> flt (xs ! i) (xs ! j)"
    by (auto simp: flt_def)
qed

lemma top_ids_basic: "distinct (top_ids xs k) \<and> set (top_ids xs k) \<subseteq> {..<length xs} \<and> length (top_ids xs k) = min k (length xs)"
  by (auto simp: top_ids_def dest: in_set_takeD)

lemma top_ids_largest:
  assumes "\<And>i. i < length xs \<Longrightarrow> xs ! i \<noteq> NaN"
  shows "sorted_wrt (\<lambda>i j. fle (xs ! j) (xs ! i)) (top_ids xs k)"
    and "i \<in> set (top_ids xs k) \<Longrightarrow> j < length xs \<Longrightarrow> j \<notin> set (top_ids xs k) \<Longrightarrow> fle (xs ! j) (xs ! i)"
proof -
  let ?ord = "py_sort (\<lambda>i j. flt (xs ! j) (xs ! i)) [0..<length xs]" and ?k = "min k (length xs)"
  have "sorted_wrt (\<lambda>i j. \<not> flt (xs ! i) (xs ! j)) ?ord"
    using assms by (intro logit_rank.sorted_py_sort) (simp add: list_all_iff)
  then have s: "sorted_wrt (\<lambda>i j. fle (xs ! j) (xs ! i)) ?ord"
    by (rule sorted_wrt_mono_rel [rotated]) (simp add: assms flt_not_fle)
  have split: "?ord = take ?k ?ord @ drop ?k ?ord" by simp
  have s': "sorted_wrt (\<lambda>i j. fle (xs ! j) (xs ! i)) (take ?k ?ord)"
    "\<forall>i \<in> set (take ?k ?ord). \<forall>j \<in> set (drop ?k ?ord). fle (xs ! j) (xs ! i)"
    using s unfolding sorted_wrt_append [of _ "take ?k ?ord" "drop ?k ?ord", unfolded append_take_drop_id] by blast+
  show "sorted_wrt (\<lambda>i j. fle (xs ! j) (xs ! i)) (top_ids xs k)" using s'(1) by (simp add: top_ids_def)
  have "set ?ord = {..<length xs}" by (simp add: atLeast0LessThan)
  then have "j \<in> set (drop ?k ?ord)" if "j < length xs" "j \<notin> set (top_ids xs k)" for j
  proof -
    have "j \<in> set ?ord" using that by simp
    then have "j \<in> set (take ?k ?ord) \<union> set (drop ?k ?ord)" by (simp only: set_append [symmetric] append_take_drop_id)
    then show ?thesis using that(2) by (simp add: top_ids_def)
  qed
  then show "i \<in> set (top_ids xs k) \<Longrightarrow> j < length xs \<Longrightarrow> j \<notin> set (top_ids xs k) \<Longrightarrow> fle (xs ! j) (xs ! i)"
    using s'(2) by (simp add: top_ids_def)
qed

lemma top_ids_argmax:
  assumes "\<And>i. i < length xs \<Longrightarrow> xs ! i \<noteq> NaN" "0 < k" "j < length xs"
  shows "top_ids xs k ! 0 < length xs \<and> fle (xs ! j) (xs ! (top_ids xs k ! 0))"
proof -
  obtain t ts where t: "top_ids xs k = t # ts"
    using top_ids_basic [of xs k] assms(2,3) by (cases "top_ids xs k") auto
  have tl: "t < length xs" using top_ids_basic [of xs k] by (simp add: t)
  have "j = t \<or> j \<in> set ts \<or> j \<notin> set (top_ids xs k)" by (auto simp: t)
  then have "fle (xs ! j) (xs ! t)"
    using top_ids_largest [OF assms(1), where k = k] assms(1,3) tl by (auto simp: t fle_refl)
  then show ?thesis using tl by (simp add: t)
qed

text \<open>What a comparison of the vectors \<open>x\<close> and \<open>y\<close> must say.\<close>

definition logit_cmp_ok :: "nat \<Rightarrow> pyfloat list \<Rightarrow> pyfloat list \<Rightarrow> logit_cmp \<Rightarrow> bool" where
  "logit_cmp_ok k x y r =
     (lc_topk r = min k (length x) \<and> lc_overlap r = card (set (top_ids x k) \<inter> set (top_ids y k)) \<and>
      lc_overlap r \<le> lc_topk r \<and> (\<exists>q. lc_fraction r = Fin q \<and> 0 \<le> q \<and> q \<le> 1) \<and>
      lc_argmax_base r < length x \<and> (\<forall>j < length x. fle (x ! j) (x ! lc_argmax_base r)) \<and>
      lc_argmax_variant r < length y \<and> (\<forall>j < length y. fle (y ! j) (y ! lc_argmax_variant r)) \<and>
      (lc_agree r \<longleftrightarrow> lc_argmax_base r = lc_argmax_variant r))"

lemma compare_record_ok:
  assumes "compare_record lib k i x y = Inr r" "length x = n" "length y = n" "0 < k" "0 < n"
    and "list_all is_finite x" "list_all is_finite y"
  shows "lc_index r = i \<and> logit_cmp_ok k x y r"
proof -
  let ?inter = "filter (\<lambda>i. i \<in> set (top_ids y k)) (top_ids x k)"
  have nan: "\<And>j. j < n \<Longrightarrow> x ! j \<noteq> NaN" "\<And>j. j < n \<Longrightarrow> y ! j \<noteq> NaN"
    using assms(2,3,6,7) by (auto simp: list_all_length is_finite_def split: pyfloat.splits)
  have eq: "(n \<noteq> length y) = False" using assms(3) by simp
  have "lc_index r = i \<and> lc_topk r = min k n \<and> lc_overlap r = length ?inter \<and> lc_argmax_base r = top_ids x k ! 0 \<and>
    lc_argmax_variant r = top_ids y k ! 0 \<and> (lc_agree r \<longleftrightarrow> top_ids x k ! 0 = top_ids y k ! 0) \<and>
    int_truediv (int (length ?inter)) (int (min k n)) = Inr (lc_fraction r)"
    using assms(1) unfolding compare_record_def Let_def eq if_False assms(2)
    by (elim rbind_InrE) (drule sum.inject(2) [THEN iffD1], hypsubst, simp only: logit_cmp.simps simp_thms)
  then have r: "lc_index r = i" "lc_topk r = min k n" "lc_overlap r = length ?inter" "lc_argmax_base r = top_ids x k ! 0"
    "lc_argmax_variant r = top_ids y k ! 0" "lc_agree r \<longleftrightarrow> top_ids x k ! 0 = top_ids y k ! 0"
    and q: "int_truediv (int (length ?inter)) (int (min k n)) = Inr (lc_fraction r)" by simp_all
  have "length ?inter = card (set ?inter)"
    using top_ids_basic [of x k] by (intro distinct_card [symmetric]) simp
  also have "set ?inter = set (top_ids x k) \<inter> set (top_ids y k)" by auto
  finally have c: "lc_overlap r = card (set (top_ids x k) \<inter> set (top_ids y k))" using r(3) by simp
  have le: "length ?inter \<le> min k n"
    using length_filter_le [of _ "top_ids x k"] top_ids_basic [of x k] assms(2) by metis
  have "\<exists>q. lc_fraction r = Fin q \<and> 0 \<le> q \<and> q \<le> 1"
    using int_truediv_fraction [of "int (length ?inter)" "int (min k n)"] le assms(4,5) q by auto
  then show ?thesis
    using r c le top_ids_argmax [of x k] top_ids_argmax [of y k] nan assms(2-5) by (auto simp: logit_cmp_ok_def)
qed

lemma dump_words:
  assumes "read_dump_bytes data = Inr (vocab, rs)" "i < length rs"
  shows "length (map f32_value (snd (rs ! i))) = vocab" "list_all is_finite (map f32_value (snd (rs ! i)))" "0 < vocab"
proof -
  obtain rest where "read_logits vocab rest = Inr rs" "0 < vocab"
    using assms(1) by (auto simp: read_dump_bytes_def Let_def rbind_eq_Inr split: if_splits)
  then have "record_ok vocab (rs ! i)" "0 < vocab" using read_logits_source [of vocab rest rs] assms(2) by auto
  then show "length (map f32_value (snd (rs ! i))) = vocab" "list_all is_finite (map f32_value (snd (rs ! i)))" "0 < vocab"
    by (simp_all add: record_ok_def list_all_iff)
qed

text \<open>A comparison that succeeds changes no file and reports on the records of both dumps in order, which carry
  the same indices. In every record the two argmax ids name a largest logit of their vectors, the agreement flag
  says whether the ids are equal, the overlap counts the ids the two top-k sets share, and the overlap fraction lies
  in [0, 1]; the number of agreeing records is the summary's.\<close>

theorem logit_report_sound:
  assumes "compare_logits lib base variant k s = (Inr rep, s')"
  shows "s' = s \<and> (\<exists>as bs. read_dump base s = (Inr (lg_vocab rep, as), s) \<and> read_dump variant s = (Inr (lg_vocab rep, bs), s) \<and>
    map lc_index (lg_records rep) = map fst as \<and> map fst as = map fst bs \<and>
    lg_agree rep = length (filter lc_agree (lg_records rep)) \<and>
    (\<forall>i < length as. logit_cmp_ok (nat k) (map f32_value (snd (as ! i))) (map f32_value (snd (bs ! i))) (lg_records rep ! i)))"
proof -
  obtain da db va as vb bs where k: "0 < k" and files: "s base = Some da" "s variant = Some db" "s' = s"
    and da: "read_dump_bytes da = Inr (va, as)" and db: "read_dump_bytes db = Inr (vb, bs)"
    and c: "compare_dumps lib (nat k) (va, as) (vb, bs) = Inr rep"
    using assms
    by (auto simp: compare_logits_def read_dump_def io_bind_eq_Inr of_option_eq_Inr split: if_splits)
  let ?cmp = "\<lambda>((i :: nat, av), (j :: nat, bv)). compare_record lib (nat k) i (map f32_value av) (map f32_value bv)"
  obtain rs where v: "va = vb" and ix: "map fst as = map fst bs" and rs: "mapR ?cmp (zip as bs) = Inr rs"
    and rep: "lg_vocab rep = va" "lg_records rep = rs" "lg_agree rep = length (filter lc_agree rs)"
    using c unfolding compare_dumps_def by (auto simp: rbind_eq_Inr split: if_splits)
  have len: "length as = length bs" using ix map_eq_imp_length_eq by metis
  have n: "length rs = length as" using mapR_length [OF rs] len by simp
  have each: "lc_index (rs ! i) = fst (as ! i) \<and>
      logit_cmp_ok (nat k) (map f32_value (snd (as ! i))) (map f32_value (snd (bs ! i))) (rs ! i)" if i: "i < length as" for i
  proof -
    have "?cmp (as ! i, bs ! i) = Inr (rs ! i)" using mapR_nth [OF rs, of i] i len by simp
    then have "compare_record lib (nat k) (fst (as ! i)) (map f32_value (snd (as ! i))) (map f32_value (snd (bs ! i)))
        = Inr (rs ! i)" by (simp add: case_prod_beta)
    then show ?thesis
      using dump_words [OF da i] dump_words [OF db, of i] i k len v by (intro compare_record_ok) auto
  qed
  have "map lc_index rs = map fst as" using each n by (intro nth_equalityI) simp_all
  then show ?thesis
    using files da db v ix each unfolding rep Let_def by (auto simp: read_dump_def io_bind_def)
qed

text \<open>Two dumps of one record with two logits, 1 and 2 in the first and 2 and 1 in the second.\<close>

definition example_dump :: "32 word list \<Rightarrow> bytes" where
  "example_dump vs = dump_bytes 2 [(7, vs)]"

lemma example_f32: "f32_value 0x3F800000 = Fin 1" "f32_value 0x40000000 = Fin 2"
  by (code_simp, code_simp)

lemma example_compare:
  "rmap (\<lambda>r. (lg_agree r, map lc_index (lg_records r)))
     (compare_dumps one_libm 1 (2, [(7, [0x3F800000, 0x40000000])]) (2, [(7, [0x40000000, 0x3F800000])])) = Inr (0, [7])"
  by code_simp

lemma example_dump_read:
  "read_dump_bytes (example_dump [0x3F800000, 0x40000000]) = Inr (2, [(7, [0x3F800000, 0x40000000])])"
  "read_dump_bytes (example_dump [0x40000000, 0x3F800000]) = Inr (2, [(7, [0x40000000, 0x3F800000])])"
  unfolding example_dump_def by (intro read_dump_written; simp add: record_ok_def example_f32)+

theorem logit_report_sound_witness:
  "\<exists>rep :: logit_report. lg_vocab rep = 2 \<and> length (lg_records rep) = 1 \<and>
     logit_cmp_ok 1 [Fin 1, Fin 2] [Fin 2, Fin 1] (lg_records rep ! 0) \<and> lg_agree rep = 0"
proof -
  let ?s = "[''a'' \<mapsto> example_dump [0x3F800000, 0x40000000], ''b'' \<mapsto> example_dump [0x40000000, 0x3F800000]]"
  obtain rep where rep: "compare_dumps one_libm 1 (2, [(7, [0x3F800000, 0x40000000])]) (2, [(7, [0x40000000, 0x3F800000])]) = Inr rep"
    "lg_agree rep = 0" "map lc_index (lg_records rep) = [7]"
    using example_compare by (auto simp: rmap_eq_Inr)
  have reads: "read_dump ''a'' ?s = (Inr (2, [(7, [0x3F800000, 0x40000000])]), ?s)"
    "read_dump ''b'' ?s = (Inr (2, [(7, [0x40000000, 0x3F800000])]), ?s)"
    by (simp_all add: read_dump_def io_bind_def example_dump_read)
  have c: "compare_logits one_libm ''a'' ''b'' 1 ?s = (Inr rep, ?s)"
    using rep(1) by (simp add: compare_logits_def io_bind_def reads)
  obtain as bs where ab: "read_dump ''a'' ?s = (Inr (lg_vocab rep, as), ?s)" "read_dump ''b'' ?s = (Inr (lg_vocab rep, bs), ?s)"
    "\<forall>i < length as. logit_cmp_ok (nat 1) (map f32_value (snd (as ! i))) (map f32_value (snd (bs ! i))) (lg_records rep ! i)"
    using logit_report_sound [OF c] by blast
  have "lg_vocab rep = 2" "as = [(7, [0x3F800000, 0x40000000])]" "bs = [(7, [0x40000000, 0x3F800000])]"
    using ab(1,2) unfolding reads by simp_all
  moreover have "length (lg_records rep) = 1" using arg_cong [OF rep(3), of length] by simp
  ultimately show ?thesis using ab(3) rep(2) by - (intro exI [of _ rep] conjI, simp_all add: example_f32)
qed

end
