(* ===== verification/Reservoir.thy ===== *)
theory Reservoir
  imports TraceText
begin

text \<open>
  Reservoir sampling, the loop \<^verbatim>\<open>tools/kimi_expert_reservoir.py\<close> and \<^verbatim>\<open>tools/kimi_moe_act_reservoir.py\<close>
  run for every key of a trace. The generator \<^verbatim>\<open>random.Random(seed)\<close> is a parameter, a state with its
  \<^verbatim>\<open>randrange(n)\<close>, which its documentation puts in \<open>0..n-1\<close>. The loop is shown to be the textbook algorithm on the
  draws it made, and to be fair: when each call \<^verbatim>\<open>randrange(n)\<close> is uniform on \<open>0..n-1\<close>, every item of the stream is kept with the
  same probability.
\<close>

section \<open>The loop\<close>

type_synonym 'g rng = "'g \<Rightarrow> nat \<Rightarrow> nat \<times> 'g"

definition randrange_ok :: "'g rng \<Rightarrow> bool" where
  "randrange_ok randrange = (\<forall>g n. 0 < n \<longrightarrow> fst (randrange g n) < n)"

definition reservoir_add :: "nat \<Rightarrow> 'g rng \<Rightarrow> 'g \<Rightarrow> nat \<Rightarrow> 'a list \<Rightarrow> 'a \<Rightarrow> 'a list \<times> 'g" where
  "reservoir_add capacity randrange g n bucket item =
     (if length bucket < capacity then (bucket @ [item], g)
      else let (j, g') = randrange g n in (if j < capacity then bucket[j := item] else bucket, g'))"

text \<open>The counter, the buckets and the generator of a run over keyed items.\<close>

record ('k, 'a, 'g) pool =
  po_seen :: "('k \<times> nat) list"
  po_kept :: "('k \<times> 'a list) list"
  po_rng :: 'g

definition pool_add :: "nat \<Rightarrow> 'g rng \<Rightarrow> ('k, 'a, 'g) pool \<Rightarrow> 'k \<times> 'a \<Rightarrow> ('k, 'a, 'g) pool" where
  "pool_add capacity randrange p ki =
     (let (k, item) = ki; seen = dict_upd 0 k Suc (po_seen p);
          (bucket, g) = reservoir_add capacity randrange (po_rng p) (dict_get 0 k seen) (dict_get [] k (po_kept p)) item
      in \<lparr>po_seen = seen, po_kept = dict_set k bucket (po_kept p), po_rng = g\<rparr>)"

definition empty_pool :: "'g \<Rightarrow> ('k, 'a, 'g) pool" where
  "empty_pool g = \<lparr>po_seen = [], po_kept = [], po_rng = g\<rparr>"

section \<open>The algorithm on its draws\<close>

definition replace_at :: "nat \<Rightarrow> 'a list \<Rightarrow> 'a \<times> nat \<Rightarrow> 'a list" where
  "replace_at c b xj = (if snd xj < c then b[snd xj := fst xj] else b)"

definition reservoir :: "nat \<Rightarrow> 'a list \<Rightarrow> nat list \<Rightarrow> 'a list" where
  "reservoir c xs js = foldl (replace_at c) (take c xs) (zip (drop c xs) js)"

definition is_draws :: "nat \<Rightarrow> nat \<Rightarrow> nat list \<Rightarrow> bool" where
  "is_draws c n js = (length js = n - c \<and> (\<forall>i < length js. js ! i \<le> c + i))"

lemma reservoir_short: "length xs \<le> c \<Longrightarrow> reservoir c xs js = xs"
  by (simp add: reservoir_def)

lemma reservoir_snoc:
  assumes "c \<le> length xs" "length js = length xs - c"
  shows "reservoir c (xs @ [x]) (js @ [j]) = replace_at c (reservoir c xs js) (x, j)"
  using assms by (simp add: reservoir_def)

lemma length_replace_at [simp]: "length (replace_at c b xj) = length b"
  by (simp add: replace_at_def)

lemma set_replace_at: "set (replace_at c b xj) \<subseteq> insert (fst xj) (set b)"
  using set_update_subset_insert [of b "snd xj" "fst xj"] by (auto simp: replace_at_def)

lemma length_replace_all [simp]: "length (foldl (replace_at c) b zs) = length b"
  by (induction zs arbitrary: b) simp_all

lemma length_reservoir [simp]: "length (reservoir c xs js) = min c (length xs)"
  by (simp add: reservoir_def min.commute)

lemma set_replace_all: "set (foldl (replace_at c) b zs) \<subseteq> set b \<union> fst ` set zs"
  using set_replace_at by (induction zs arbitrary: b) fastforce+

lemma set_reservoir: "set (reservoir c xs js) \<subseteq> set xs"
proof
  fix y
  assume "y \<in> set (reservoir c xs js)"
  then have "y \<in> set (take c xs) \<or> y \<in> fst ` set (zip (drop c xs) js)"
    using set_replace_all [of c "take c xs" "zip (drop c xs) js"] by (auto simp: reservoir_def)
  then show "y \<in> set xs" by (auto dest!: set_zip_leftD in_set_dropD dest: in_set_takeD)
qed

lemma is_draws_snoc:
  "c \<le> n \<Longrightarrow> is_draws c (Suc n) js' \<longleftrightarrow> (\<exists>js j. js' = js @ [j] \<and> is_draws c n js \<and> j \<le> n)"
  by (cases js' rule: rev_cases) (auto simp: is_draws_def nth_append less_Suc_eq Suc_diff_le)

text \<open>One more item of a key: the loop follows the algorithm.\<close>

lemma reservoir_add_step:
  assumes "is_draws c (length xs) js" "randrange_ok randrange" "0 < c"
    and "reservoir_add c randrange g (Suc (length xs)) (reservoir c xs js) x = (b, g')"
  shows "\<exists>js'. is_draws c (Suc (length xs)) js' \<and> b = reservoir c (xs @ [x]) js'"
proof (cases "length xs < c")
  case True
  then have "js = []" using assms(1) by (simp add: is_draws_def)
  then show ?thesis
    using True assms by (intro exI [of _ "[]"]) (auto simp: reservoir_add_def reservoir_short is_draws_def)
next
  case False
  obtain j where j: "randrange g (Suc (length xs)) = (j, g')" and b: "b = replace_at c (reservoir c xs js) (x, j)"
    using assms(4) False by (auto simp: reservoir_add_def replace_at_def split: prod.splits)
  have "j \<le> length xs" using assms(2) j by (metis fst_conv less_Suc_eq_le randrange_ok_def zero_less_Suc)
  then show ?thesis
    using False assms(1) reservoir_snoc [of c xs js x j] b
    by (intro exI [of _ "js @ [j]"]) (auto simp: is_draws_snoc is_draws_def [of c "length xs"])
qed

section \<open>Every bucket holds the reservoir of its key\<close>

definition items_of :: "'k \<Rightarrow> ('k \<times> 'a) list \<Rightarrow> 'a list" where
  "items_of k kis = map snd (filter (\<lambda>ki. fst ki = k) kis)"

definition pool_inv :: "nat \<Rightarrow> ('k \<times> 'a) list \<Rightarrow> ('k, 'a, 'g) pool \<Rightarrow> bool" where
  "pool_inv c kis p =
     ((\<forall>k. dict_get 0 k (po_seen p) = length (items_of k kis)) \<and>
      (\<forall>k. \<exists>js. is_draws c (length (items_of k kis)) js \<and> dict_get [] k (po_kept p) = reservoir c (items_of k kis) js) \<and>
      distinct (map fst (po_kept p)) \<and> fst ` set (po_kept p) = fst ` set kis)"

lemma items_of_simps [simp]:
  "items_of k [] = []"
  "items_of k (kis @ [(k', x)]) = (if k' = k then items_of k kis @ [x] else items_of k kis)"
  by (simp_all add: items_of_def)

lemma items_of_append: "items_of k (xs @ ys) = items_of k xs @ items_of k ys"
  by (simp add: items_of_def)

lemma items_of_eq_Nil: "items_of k kis = [] \<longleftrightarrow> k \<notin> fst ` set kis"
  by (auto simp: items_of_def filter_empty_conv)

lemma pool_inv_empty: "pool_inv c [] (empty_pool g)"
  by (auto simp: pool_inv_def empty_pool_def is_draws_def reservoir_short)

lemma pool_inv_add:
  assumes inv: "pool_inv c kis p" and rnd: "randrange_ok randrange" and c: "0 < c"
  shows "pool_inv c (kis @ [(k, x)]) (pool_add c randrange p (k, x))"
proof -
  let ?n = "length (items_of k kis)"
  obtain js where js: "is_draws c ?n js" "dict_get [] k (po_kept p) = reservoir c (items_of k kis) js"
    using inv unfolding pool_inv_def by blast
  have seen: "dict_get 0 k (po_seen p) = ?n" using inv by (simp add: pool_inv_def)
  obtain b g' where b: "reservoir_add c randrange (po_rng p) (Suc ?n) (reservoir c (items_of k kis) js) x = (b, g')"
    by fastforce
  have add: "pool_add c randrange p (k, x) =
      \<lparr>po_seen = dict_upd 0 k Suc (po_seen p), po_kept = dict_set k b (po_kept p), po_rng = g'\<rparr>"
    by (simp add: pool_add_def Let_def seen js(2) b)
  obtain js' where js': "is_draws c (Suc ?n) js'" "b = reservoir c (items_of k kis @ [x]) js'"
    using reservoir_add_step [OF js(1) rnd c b] by blast
  have "\<exists>js. is_draws c (length (items_of k' (kis @ [(k, x)]))) js \<and>
      dict_get [] k' (dict_set k b (po_kept p)) = reservoir c (items_of k' (kis @ [(k, x)])) js" for k'
  proof (cases "k' = k")
    case True
    then show ?thesis using js' by (intro exI [of _ js']) simp
  next
    case False
    then show ?thesis using inv by (simp add: pool_inv_def)
  qed
  then show ?thesis
    using inv unfolding add by (simp add: pool_inv_def distinct_dict_set)
qed

lemma pool_inv_run:
  assumes "randrange_ok randrange" "0 < c" "pool_inv c kis p"
  shows "pool_inv c (kis @ ys) (foldl (pool_add c randrange) p ys)"
  using assms(3)
proof (induction ys arbitrary: kis p)
  case (Cons y ys)
  have "pool_inv c (kis @ [(fst y, snd y)]) (pool_add c randrange p (fst y, snd y))"
    using Cons.prems assms(1,2) by (rule pool_inv_add)
  then show ?case using Cons.IH [of "kis @ [y]" "pool_add c randrange p y"] by simp
qed simp

lemma pool_run:
  assumes "randrange_ok randrange" "0 < c"
  shows "pool_inv c kis (foldl (pool_add c randrange) (empty_pool g) kis)"
  using pool_inv_run [OF assms pool_inv_empty] by simp

section \<open>Archives\<close>

text \<open>\<^verbatim>\<open>f"layer-{layer:02d}-expert-{expert:02d}.npz"\<close>\<close>

definition two_digits :: "int \<Rightarrow> string" where
  "two_digits i = (if 0 \<le> i \<and> i < 10 then CHR ''0'' # show_int i else show_int i)"

definition reservoir_name :: "int \<Rightarrow> int \<Rightarrow> string" where
  "reservoir_name layer expert = ''layer-'' @ two_digits layer @ ''-expert-'' @ two_digits expert @ ''.npz''"

text \<open>The loop that writes one file per element; a conversion may raise before its file is written.\<close>

fun write_each :: "('a \<Rightarrow> string) \<Rightarrow> ('a \<Rightarrow> bytes res) \<Rightarrow> 'a list \<Rightarrow> unit io" where
  "write_each path content [] = io_return ()"
| "write_each path content (x # xs) =
     io_bind (io_lift (content x)) (\<lambda>bs. io_bind (write_bytes (path x) bs) (\<lambda>_. write_each path content xs))"

lemma two_digits_chars: "c \<in> set (two_digits i) \<Longrightarrow> is_digit c \<or> c = CHR ''-''"
  using show_nat_digits [of "nat i"] show_nat_digits [of "nat (- i)"]
  by (auto simp: two_digits_def show_int_def list_all_iff is_digit_def cp_def split: if_splits)

lemma py_int_two_digits: "py_int (two_digits i) = Some i"
proof (cases "0 \<le> i \<and> i < 10")
  case True
  then have "nat i < 10" by (simp add: nat_less_iff)
  then have s: "two_digits i = ''0'' @ [digit_char (nat i)]"
    using True by (simp add: two_digits_def show_int_def show_nat.simps [of "nat i"])
  have "i \<in> {0, 1, 2, 3, 4, 5, 6, 7, 8, 9}" unfolding insert_iff empty_iff using True by arith
  then show ?thesis unfolding s by (elim insertE emptyE; hypsubst; code_simp)
next
  case False
  then show ?thesis by (auto simp: two_digits_def)
qed

lemma reservoir_name_inject: "reservoir_name l e = reservoir_name l' e' \<longleftrightarrow> l = l' \<and> e = e'"
proof
  assume a: "reservoir_name l e = reservoir_name l' e'"
  define f where "f = takeWhile (\<lambda>c. c \<noteq> CHR ''e'')"
  have no_e: "CHR ''e'' \<notin> set (two_digits i)" for i
    using two_digits_chars [of "CHR ''e''" i] by (auto simp: is_digit_def cp_def)
  have "f (drop 6 (reservoir_name l e)) = two_digits l @ ''-''" for l e
  proof -
    have "\<And>c. c \<in> set (two_digits l) \<Longrightarrow> c \<noteq> CHR ''e''" using no_e [of l] by metis
    then show ?thesis by (simp add: f_def reservoir_name_def takeWhile_append2)
  qed
  with a have "two_digits l = two_digits l'" by (metis append_same_eq)
  moreover from a this have "two_digits e = two_digits e'" by (simp add: reservoir_name_def)
  ultimately show "l = l' \<and> e = e'" by (metis option.inject py_int_two_digits)
qed simp

lemma reservoir_path_inject:
  "in_dir out (reservoir_name l e) = in_dir out (reservoir_name l' e') \<longleftrightarrow> l = l' \<and> e = e'"
  by (simp add: in_dir_def reservoir_name_inject)

lemma manifest_not_archive: "in_dir out ''manifest.json'' \<noteq> in_dir out (reservoir_name l e)"
  by (simp add: in_dir_def reservoir_name_def)

lemma write_each_run:
  assumes "write_each path content xs s = (Inr u, s')" "distinct xs" "inj_on path (set xs)"
  shows "(\<forall>x \<in> set xs. \<exists>bs. content x = Inr bs \<and> s' (path x) = Some bs) \<and> (\<forall>q. q \<notin> path ` set xs \<longrightarrow> s' q = s q)"
  using assms
proof (induction xs arbitrary: s)
  case (Cons x xs)
  obtain bs where bs: "content x = Inr bs" and rest: "write_each path content xs (s(path x \<mapsto> bs)) = (Inr u, s')"
    using Cons.prems(1) by (auto simp: io_bind_lift_iff io_bind_eq_Inr)
  have IH: "(\<forall>y \<in> set xs. \<exists>bs. content y = Inr bs \<and> s' (path y) = Some bs) \<and>
      (\<forall>q. q \<notin> path ` set xs \<longrightarrow> s' q = (s(path x \<mapsto> bs)) q)"
    using Cons.IH [OF rest] Cons.prems(2,3) by simp
  have "path x \<notin> path ` set xs" using Cons.prems(2,3) by (auto simp: inj_on_def)
  then have "s' (path x) = Some bs" using IH by simp
  then show ?case using IH bs by auto
qed simp

section \<open>Fairness\<close>

definition draws :: "nat \<Rightarrow> nat \<Rightarrow> nat list set" where
  "draws c n = {js. is_draws c n js}"

lemma draws_start: "n \<le> c \<Longrightarrow> draws c n = {[]}"
  by (auto simp: draws_def is_draws_def)

lemma draws_Suc: "c \<le> n \<Longrightarrow> draws c (Suc n) = (\<lambda>(js, j). js @ [j]) ` (draws c n \<times> {..n})"
  by (auto simp: draws_def is_draws_snoc image_iff)

lemma inj_snoc: "inj_on (\<lambda>(js, j). js @ [j]) A"
  by (auto simp: inj_on_def)

lemma finite_draws: "finite (draws c n)"
proof (induction n)
  case (Suc n)
  then show ?case by (cases "c \<le> n") (simp_all add: draws_Suc draws_start not_less_eq_eq)
qed (simp add: draws_start)

lemma card_draws_Suc: "c \<le> n \<Longrightarrow> card (draws c (Suc n)) = card (draws c n) * Suc n"
  by (simp add: draws_Suc card_image [OF inj_snoc] card_cartesian_product)

lemma distinct_reservoir: "distinct xs \<Longrightarrow> is_draws c (length xs) js \<Longrightarrow> distinct (reservoir c xs js)"
proof (induction xs arbitrary: js rule: rev_induct)
  case (snoc x xs)
  show ?case
  proof (cases "c \<le> length xs")
    case False
    then show ?thesis using snoc.prems by (simp add: reservoir_short)
  next
    case True
    then obtain ks j where js: "js = ks @ [j]" "is_draws c (length xs) ks"
      using snoc.prems by (auto simp: is_draws_snoc)
    have "distinct (reservoir c xs ks)" "x \<notin> set (reservoir c xs ks)"
      using snoc.IH [OF _ js(2)] snoc.prems(1) set_reservoir [of c xs ks] by auto
    moreover have "length ks = length xs - c" using js(2) by (simp add: is_draws_def)
    ultimately show ?thesis
      using True js(1) by (simp add: reservoir_snoc replace_at_def distinct_list_update)
  qed
qed (simp add: reservoir_short)

text \<open>Of the \<open>n + 1\<close> draws for a new item, \<open>c\<close> admit it and one expels each kept item.\<close>

lemma card_admitted:
  assumes "length b = c" "c \<le> n" "n \<notin> set b"
  shows "card {j. j \<le> n \<and> n \<in> set (replace_at c b (n, j))} = c"
proof -
  have "{j. j \<le> n \<and> n \<in> set (replace_at c b (n, j))} = {..<c}"
    using assms by (auto simp: replace_at_def set_update_memI)
  then show ?thesis by simp
qed

lemma card_surviving:
  assumes "length b = c" "c \<le> n" "distinct b" "i \<noteq> n"
  shows "card {j. j \<le> n \<and> i \<in> set (replace_at c b (n, j))} = (if i \<in> set b then n else 0)"
proof (cases "i \<in> set b")
  case False
  then have "{j. j \<le> n \<and> i \<in> set (replace_at c b (n, j))} = {}"
    using set_replace_at [of c b] assms(4) by fastforce
  then show ?thesis using False by simp
next
  case True
  then obtain p where p: "p < c" "b ! p = i" using assms(1) by (auto simp: in_set_conv_nth)
  have "i \<in> set (b[j := n]) \<longleftrightarrow> j \<noteq> p" if "j < c" for j
    using that p assms by (auto simp: in_set_conv_nth nth_list_update nth_eq_iff_index_eq)
  then have "{j. j \<le> n \<and> i \<in> set (replace_at c b (n, j))} = {..n} - {p}"
    using True p by (auto simp: replace_at_def)
  then show ?thesis using True p(1) assms(2) by simp
qed

lemma card_snoc_draws:
  assumes "c \<le> n"
  shows "card {js \<in> draws c (Suc n). P js} = (\<Sum>js \<in> draws c n. card {j. j \<le> n \<and> P (js @ [j])})"
proof -
  have "{js \<in> draws c (Suc n). P js} = (\<lambda>(js, j). js @ [j]) ` (SIGMA js : draws c n. {j. j \<le> n \<and> P (js @ [j])})"
    by (auto simp: draws_Suc [OF assms])
  then show ?thesis
    by (simp add: card_image [OF inj_snoc] card_SigmaI finite_draws)
qed

lemma reservoir_fair:
  "c \<le> n \<Longrightarrow> i < n \<Longrightarrow> n * card {js \<in> draws c n. i \<in> set (reservoir c [0..<n] js)} = c * card (draws c n)"
proof (induction n rule: dec_induct)
  case base
  then show ?case by (simp add: draws_start reservoir_short)
next
  case (step n)
  let ?r = "\<lambda>js. reservoir c [0..<n] js"
  have r: "length (?r js) = c" "distinct (?r js)" "n \<notin> set (?r js)"
    and snoc: "\<And>j. reservoir c [0..<Suc n] (js @ [j]) = replace_at c (?r js) (n, j)" if "js \<in> draws c n" for js
    using that step.hyps set_reservoir [of c "[0..<n]" js] distinct_reservoir [of "[0..<n]" c js] reservoir_snoc [of c "[0..<n]" js n]
    by (auto simp: draws_def is_draws_def)
  have "card {js \<in> draws c (Suc n). i \<in> set (reservoir c [0..<Suc n] js)}
      = (\<Sum>js \<in> draws c n. card {j. j \<le> n \<and> i \<in> set (replace_at c (?r js) (n, j))})"
    using snoc by (simp add: card_snoc_draws [OF step.hyps(1)] del: upt_Suc cong: sum.cong)
  also have "\<dots> * Suc n = c * card (draws c (Suc n))"
  proof (cases "i = n")
    case True
    have "(\<Sum>js \<in> draws c n. card {j. j \<le> n \<and> i \<in> set (replace_at c (?r js) (n, j))}) = (\<Sum>js \<in> draws c n. c)"
      using r step.hyps True by (intro sum.cong) (simp_all add: card_admitted)
    also have "\<dots> = c * card (draws c n)" by simp
    finally show ?thesis by (simp only: card_draws_Suc [OF step.hyps(1)] mult.assoc)
  next
    case False
    have "(\<Sum>js \<in> draws c n. card {j. j \<le> n \<and> i \<in> set (replace_at c (?r js) (n, j))})
        = (\<Sum>js \<in> draws c n. if i \<in> set (?r js) then n else 0)"
      using r step.hyps False by (intro sum.cong) (simp_all add: card_surviving)
    also have "\<dots> = n * card {js \<in> draws c n. i \<in> set (?r js)}"
      by (simp add: sum.inter_filter [OF finite_draws, symmetric])
    also have "\<dots> = c * card (draws c n)" using step.IH step.prems False by simp
    finally show ?thesis by (simp only: card_draws_Suc [OF step.hyps(1)] mult.assoc)
  qed
  finally show ?case by (simp add: mult.commute)
qed

lemma reservoir_map: "reservoir c (map f xs) js = map f (reservoir c xs js)"
proof -
  have "foldl (replace_at c) (map f b) (zip (map f ys) js) = map f (foldl (replace_at c) b (zip ys js))" for b ys js
  proof (induction ys arbitrary: b js)
    case (Cons y ys)
    then show ?case by (cases js) (simp_all add: replace_at_def map_update [symmetric])
  qed simp
  then show ?thesis by (simp add: reservoir_def take_map drop_map)
qed

text \<open>
  The run of one key whose generator replays a script of draws and keeps the probability of what it did: a draw \<open>j\<close> for
  \<^verbatim>\<open>randrange(n)\<close> has probability \<open>1 / n\<close> if \<open>j < n\<close>, and is impossible otherwise or when the script is over.
\<close>

definition replay :: "(nat list \<times> rat) rng" where
  "replay dw n = (case fst dw of [] \<Rightarrow> (0, ([], 0))
     | j # ds \<Rightarrow> (j, (ds, if j < n then snd dw / of_nat n else 0)))"

definition script_run :: "nat \<Rightarrow> 'a list \<Rightarrow> nat list \<Rightarrow> (unit, 'a, nat list \<times> rat) pool" where
  "script_run c xs ds = foldl (pool_add c replay) (empty_pool (ds, 1)) (map (Pair ()) xs)"

definition kept_by :: "nat \<Rightarrow> 'a list \<Rightarrow> nat list \<Rightarrow> 'a list" where
  "kept_by c xs ds = dict_get [] () (po_kept (script_run c xs ds))"

text \<open>The probability of a script: that of its draws, if the run used all of them.\<close>

definition chance :: "nat \<Rightarrow> 'a list \<Rightarrow> nat list \<Rightarrow> rat" where
  "chance c xs ds = (case po_rng (script_run c xs ds) of (rest, w) \<Rightarrow> if rest = [] then w else 0)"

lemma script_run_snoc: "script_run c (xs @ [x]) ds = pool_add c replay (script_run c xs ds) ((), x)"
  by (simp add: script_run_def)

lemma script_run_Nil [simp]: "script_run c [] ds = empty_pool (ds, 1)"
  by (simp add: script_run_def)

lemma script_run_shape:
  "dict_get 0 () (po_seen (script_run c xs ds)) = length xs
   \<and> length (dict_get [] () (po_kept (script_run c xs ds))) = min c (length xs)"
proof (induction xs rule: rev_induct)
  case Nil
  then show ?case by (simp add: empty_pool_def dict_get_def)
next
  case (snoc x xs)
  then show ?case
    by (auto simp: script_run_snoc pool_add_def Let_def reservoir_add_def split: prod.splits)
qed

lemma script_run_step:
  assumes "c \<le> length xs" "po_rng (script_run c xs ds) = (rest, w)"
  shows "po_rng (script_run c (xs @ [x]) ds) = snd (replay (rest, w) (Suc (length xs)))"
    and "kept_by c (xs @ [x]) ds = replace_at c (kept_by c xs ds) (x, fst (replay (rest, w) (Suc (length xs))))"
  using script_run_shape [of c xs ds] assms
  by (simp_all add: script_run_snoc pool_add_def Let_def reservoir_add_def kept_by_def replace_at_def split_beta)

lemma script_run_fill:
  assumes "length xs < c"
  shows "po_rng (script_run c (xs @ [x]) ds) = po_rng (script_run c xs ds)" "kept_by c (xs @ [x]) ds = kept_by c xs ds @ [x]"
  using script_run_shape [of c xs ds] assms
  by (simp_all add: script_run_snoc pool_add_def Let_def reservoir_add_def kept_by_def)

lemma card_draws_pos: "0 < card (draws c n)"
proof (induction n)
  case (Suc n)
  then show ?case by (cases "c \<le> n") (simp_all add: card_draws_Suc draws_start not_less_eq_eq)
qed (simp add: draws_start)

lemma script_draws:
  assumes "is_draws c (length xs) js"
  shows "po_rng (script_run c xs (js @ rest)) = (rest, 1 / of_nat (card (draws c (length xs)))) \<and>
    kept_by c xs (js @ rest) = reservoir c xs js"
  using assms
proof (induction xs arbitrary: js rest rule: rev_induct)
  case Nil
  then show ?case by (simp add: empty_pool_def is_draws_def reservoir_short kept_by_def draws_start dict_get_def)
next
  case (snoc x xs)
  show ?case
  proof (cases "length xs < c")
    case True
    then have "js = []" "is_draws c (length xs) []" using snoc.prems by (simp_all add: is_draws_def)
    then show ?thesis
      using snoc.IH [of "[]" rest] True by (simp add: script_run_fill reservoir_short draws_start)
  next
    case False
    then obtain ks j where js: "js = ks @ [j]" "is_draws c (length xs) ks" "j \<le> length xs"
      using snoc.prems by (auto simp: is_draws_snoc)
    then have l: "length ks = length xs - c" by (simp add: is_draws_def)
    have IH: "po_rng (script_run c xs (js @ rest)) = (j # rest, 1 / of_nat (card (draws c (length xs))))"
      "kept_by c xs (js @ rest) = reservoir c xs ks"
      using snoc.IH [OF js(2), of "j # rest"] js(1) by simp_all
    have "rat_of_nat (card (draws c (Suc (length xs)))) = of_nat (card (draws c (length xs))) * of_nat (Suc (length xs))"
      using False card_draws_Suc [of c "length xs"] by (metis not_le of_nat_mult)
    then show ?thesis
      using False js script_run_step [OF _ IH(1)] IH(2) reservoir_snoc [of c xs ks x j] l
      by (simp add: replay_def del: of_nat_Suc)
  qed
qed

lemma script_possible:
  "po_rng (script_run c xs ds) = (rest, w) \<Longrightarrow> w \<noteq> 0 \<Longrightarrow> \<exists>js. ds = js @ rest \<and> is_draws c (length xs) js"
proof (induction xs arbitrary: rest w rule: rev_induct)
  case Nil
  then show ?case by (simp add: empty_pool_def is_draws_def)
next
  case (snoc x xs)
  obtain rest0 w0 where r0: "po_rng (script_run c xs ds) = (rest0, w0)" by fastforce
  show ?case
  proof (cases "length xs < c")
    case True
    then obtain js where "ds = js @ rest" "is_draws c (length xs) js"
      using snoc.IH [of rest w] snoc.prems by (auto simp: script_run_fill)
    then show ?thesis using True by (auto simp: is_draws_def)
  next
    case False
    then obtain j where j: "rest0 = j # rest" "j \<le> length xs" "w0 \<noteq> 0"
      using script_run_step(1) [OF _ r0, of x] snoc.prems by (auto simp: replay_def split: list.splits if_splits)
    then obtain js where "ds = js @ j # rest" "is_draws c (length xs) js" using snoc.IH [OF r0] by blast
    then show ?thesis using False j(2) by (intro exI [of _ "js @ [j]"]) (auto simp: is_draws_snoc)
  qed
qed

lemma chance_draws: "chance c xs ds = (if ds \<in> draws c (length xs) then 1 / of_nat (card (draws c (length xs))) else 0)"
proof (cases "ds \<in> draws c (length xs)")
  case True
  then show ?thesis using script_draws [of c xs ds "[]"] by (simp add: chance_def draws_def)
next
  case False
  obtain rest w where "po_rng (script_run c xs ds) = (rest, w)" by fastforce
  then have "rest = [] \<Longrightarrow> w = 0" using script_possible [of c xs ds rest w] False by (auto simp: draws_def)
  then show ?thesis using False \<open>po_rng _ = _\<close> by (simp add: chance_def)
qed

text \<open>C32: reservoir sampling is fair, whatever the length of the stream. Let every call randrange(n) of the loop be uniform on
  0..n-1. For a stream of n distinct items that overflows the capacity c, the possible
  runs are finitely many and their probabilities add up to 1, and every item, early or late, is in the final reservoir with
  probability exactly c / n.\<close>

theorem reservoir_uniform:
  assumes "c \<le> length xs" "distinct xs" "x \<in> set xs"
  shows "finite {ds. chance c xs ds \<noteq> 0}
    \<and> (\<Sum>ds | chance c xs ds \<noteq> 0. chance c xs ds) = 1
    \<and> (\<Sum>ds | chance c xs ds \<noteq> 0 \<and> x \<in> set (kept_by c xs ds). chance c xs ds) = of_nat c / of_nat (length xs)"
proof -
  let ?n = "length xs"
  let ?D = "draws c ?n"
  obtain i where i: "i < ?n" "x = xs ! i" using assms(3) by (auto simp: in_set_conv_nth)
  have "x \<in> set (kept_by c xs js) \<longleftrightarrow> i \<in> set (reservoir c [0..<?n] js)" if js: "js \<in> ?D" for js
  proof -
    have "kept_by c xs js = map ((!) xs) (reservoir c [0..<?n] js)"
      using js script_draws [of c xs js "[]"] reservoir_map [of c "(!) xs" "[0..<?n]" js] by (simp add: draws_def map_nth)
    moreover have "set (reservoir c [0..<?n] js) \<subseteq> {..<?n}" using set_reservoir [of c "[0..<?n]" js] by auto
    ultimately show ?thesis using assms(2) i by (auto simp: nth_eq_iff_index_eq)
  qed
  then have kept: "{js \<in> ?D. x \<in> set (kept_by c xs js)} = {js \<in> ?D. i \<in> set (reservoir c [0..<?n] js)}" by blast
  have pos: "card ?D \<noteq> 0" using card_draws_pos [of c ?n] by simp
  have D: "{ds. chance c xs ds \<noteq> 0} = ?D"
    "{ds. chance c xs ds \<noteq> 0 \<and> x \<in> set (kept_by c xs ds)} = {js \<in> ?D. x \<in> set (kept_by c xs js)}"
    using pos by (auto simp: chance_draws)
  have sum: "(\<Sum>ds \<in> A. chance c xs ds) = of_nat (card A) / of_nat (card ?D)" if "A \<subseteq> ?D" for A
  proof -
    have "(\<Sum>ds \<in> A. chance c xs ds) = (\<Sum>ds \<in> A. 1 / of_nat (card ?D))"
      using that by (intro sum.cong) (auto simp: chance_draws)
    then show ?thesis by simp
  qed
  let ?k = "card {js \<in> ?D. x \<in> set (kept_by c xs js)}"
  have "?n * ?k = c * card ?D" using reservoir_fair [OF assms(1) i(1)] kept by simp
  then have "rat_of_nat ?n * of_nat ?k = of_nat c * of_nat (card ?D)" by (metis of_nat_mult)
  moreover have "0 < ?n" using i(1) by linarith
  ultimately have "rat_of_nat ?k / of_nat (card ?D) = of_nat c / of_nat ?n"
    using pos by (simp add: frac_eq_eq mult.commute)
  moreover have "(\<Sum>ds \<in> ?D. chance c xs ds) = 1" using pos by (simp add: sum)
  moreover have "(\<Sum>ds \<in> {js \<in> ?D. x \<in> set (kept_by c xs js)}. chance c xs ds) = of_nat ?k / of_nat (card ?D)"
    by (rule sum) blast
  ultimately show ?thesis unfolding D by (simp add: finite_draws)
qed

theorem reservoir_uniform_witness:
  "(\<Sum>ds | chance 2 [''a'', ''b'', ''c''] ds \<noteq> 0 \<and> ''c'' \<in> set (kept_by 2 [''a'', ''b'', ''c''] ds). chance 2 [''a'', ''b'', ''c''] ds) = 2 / 3
   \<and> (\<Sum>ds | chance 2 [''a'', ''b'', ''c''] ds \<noteq> 0 \<and> ''a'' \<in> set (kept_by 2 [''a'', ''b'', ''c''] ds). chance 2 [''a'', ''b'', ''c''] ds) = 2 / 3"
  using reservoir_uniform [of 2 "[''a'', ''b'', ''c'']" "''c''"] reservoir_uniform [of 2 "[''a'', ''b'', ''c'']" "''a''"] by simp

end
