(* ===== verification/ActTrace.thy ===== *)
theory ActTrace
  imports Reservoir Float32
begin

text \<open>
  Balanced calibration reservoirs from binary activation traces (\<^verbatim>\<open>tools/kimi_moe_act_reservoir.py\<close>): the
  KVLACT01 format, one independent reservoir per layer, expert and kind, the archives and the manifest. The
  generator behind \<^verbatim>\<open>random.Random(seed)\<close>, the bytes \<^verbatim>\<open>np.savez\<close> writes (or the exception its conversions raise) and
  the text of the manifest are parameters.
\<close>

section \<open>The trace format\<close>

definition ACT_MAGIC :: bytes where "ACT_MAGIC = ascii_encode ''KVLACT01''"

definition ACT_VERSION :: nat where "ACT_VERSION = 1"

definition ENDIAN_MARKER :: nat where "ENDIAN_MARKER = 0x01020304"

record act_header =
  ah_hidden :: nat
  ah_top_k :: nat

record act_record =
  ar_event :: nat
  ar_layer :: int
  ar_ids :: "int list"
  ar_weights :: "32 word list"
  ar_x :: "32 word list"

definition read_act_header :: "bytes \<Rightarrow> act_header res" where
  "read_act_header data =
     (if length data < 24 then Inl (ValueError ''short KVLACT01 header'')
      else let version = from_le (take 4 (drop 8 data)); hidden = from_le (take 4 (drop 12 data));
               top_k = from_le (take 4 (drop 16 data)); endian = from_le (take 4 (drop 20 data)) in
        if take 8 data \<noteq> ACT_MAGIC then Inl (ValueError ''bad activation-trace magic'')
        else if version \<noteq> ACT_VERSION then Inl (ValueError ''unsupported activation-trace version'')
        else if endian \<noteq> ENDIAN_MARKER then Inl (ValueError ''unsupported endian marker'')
        else if hidden \<le> 0 \<or> 65536 < hidden \<or> top_k \<le> 0 \<or> 64 < top_k then Inl (ValueError ''invalid hidden/top_k'')
        else Inr \<lparr>ah_hidden = hidden, ah_top_k = top_k\<rparr>)"

text \<open>The generator of records, with the exception it ends in, if any.\<close>

function act_records :: "act_header \<Rightarrow> bytes \<Rightarrow> act_record list \<times> exn option" where
  "act_records h data =
     (if data = [] then ([], None)
      else if length data < 12 then ([], Some (ValueError ''truncated activation record prefix''))
      else let k = ah_top_k h; payload = drop 12 data in
        if length payload < 4 * k + 4 * k + 4 * ah_hidden h
        then ([], Some (ValueError ''truncated activation record payload''))
        else let r = \<lparr>ar_event = from_le (take 8 data), ar_layer = sint (hd (le_words 1 (drop 8 data))),
                      ar_ids = map sint (le_words k payload), ar_weights = le_words k (drop (4 * k) payload),
                      ar_x = le_words (ah_hidden h) (drop (4 * k + 4 * k) payload)\<rparr>;
                 (rs, e) = act_records h (drop (4 * k + 4 * k + 4 * ah_hidden h) payload)
             in (r # rs, e))"
  by pat_completeness auto
termination by (relation "measure (\<lambda>(h, data). length data)") auto

declare act_records.simps [simp del]

text \<open>\<^verbatim>\<open>KIND=PATH\<close> of the command line.\<close>

definition parse_trace_arg :: "string \<Rightarrow> (string \<times> string) res" where
  "parse_trace_arg v =
     (if CHR ''='' \<notin> set v then Inl (ValueError ''--trace must be KIND=PATH'')
      else let kind = py_strip (takeWhile (\<lambda>c. c \<noteq> CHR ''='') v) in
        if kind = [] then Inl (ValueError ''trace kind cannot be empty'')
        else Inr (kind, tl (dropWhile (\<lambda>c. c \<noteq> CHR ''='') v)))"

section \<open>Sampling\<close>

type_synonym act_key = "int \<times> int \<times> string"
type_synonym act_item = "32 word list \<times> pyfloat \<times> nat"

record 'g act_state =
  as_dims :: "(nat \<times> nat) option"
  as_counts :: "(string \<times> nat) list"
  as_pool :: "(act_key, act_item, 'g) pool"

definition act_item_of :: "act_record \<Rightarrow> 32 word \<Rightarrow> act_item" where
  "act_item_of r w = (ar_x r, f32_value w, ar_event r)"

definition add_expert ::
  "nat \<Rightarrow> 'g rng \<Rightarrow> string \<Rightarrow> act_record \<Rightarrow> (act_key, act_item, 'g) pool \<Rightarrow> int \<times> 32 word \<Rightarrow> (act_key, act_item, 'g) pool res" where
  "add_expert capacity randrange kind r p ew =
     (if fst ew < 0 then Inl (ValueError ''negative expert id'')
      else Inr (pool_add capacity randrange p ((ar_layer r, fst ew, kind), act_item_of r (snd ew))))"

definition add_record :: "nat \<Rightarrow> 'g rng \<Rightarrow> string \<Rightarrow> 'g act_state \<Rightarrow> act_record \<Rightarrow> 'g act_state res" where
  "add_record capacity randrange kind st r =
     (let st = st\<lparr>as_counts := dict_upd 0 kind Suc (as_counts st)\<rparr> in
      if \<not> distinct (ar_ids r) then Inl (ValueError ''duplicate selected expert id'')
      else rmap (\<lambda>p. st\<lparr>as_pool := p\<rparr>)
             (foldR (add_expert capacity randrange kind r) (as_pool st) (zip (ar_ids r) (ar_weights r))))"

definition add_trace_bytes :: "nat \<Rightarrow> 'g rng \<Rightarrow> string \<Rightarrow> 'g act_state \<Rightarrow> bytes \<Rightarrow> 'g act_state res" where
  "add_trace_bytes capacity randrange kind st data =
     rbind (read_act_header data) (\<lambda>h.
       if as_dims st \<noteq> None \<and> as_dims st \<noteq> Some (ah_hidden h, ah_top_k h) then Inl (ValueError ''hidden/top_k do not match'')
       else let (rs, e) = act_records h (drop 24 data) in
         rbind (foldR (add_record capacity randrange kind) (st\<lparr>as_dims := Some (ah_hidden h, ah_top_k h)\<rparr>) rs) (\<lambda>st.
           case e of None \<Rightarrow> Inr st | Some e \<Rightarrow> Inl e))"

fun add_traces :: "nat \<Rightarrow> 'g rng \<Rightarrow> 'g act_state \<Rightarrow> (string \<times> string) list \<Rightarrow> 'g act_state io" where
  "add_traces capacity randrange st [] = io_return st"
| "add_traces capacity randrange st ((kind, path) # ts) =
     io_bind (read_bytes path) (\<lambda>data.
     io_bind (io_lift (add_trace_bytes capacity randrange kind st data)) (\<lambda>st.
       add_traces capacity randrange st ts))"

section \<open>Archives and manifest\<close>

record act_npz =
  nz_x :: "32 word list list"
  nz_weight :: "pyfloat list"
  nz_event :: "nat list"
  nz_kind :: "nat list"
  nz_kind_names :: "string list"
  nz_layer :: int
  nz_expert :: int
  nz_kept :: nat
  nz_seed :: int

record act_row =
  aw_layer :: int
  aw_expert :: int
  aw_file :: string
  aw_kept :: nat
  aw_per_kind :: "(string \<times> nat \<times> nat) list"

record act_manifest =
  am_traces :: "(string \<times> string) list"
  am_hidden :: nat
  am_top_k :: nat
  am_capacity :: nat
  am_seed :: int
  am_kinds :: "string list"
  am_trace_records :: "(string \<times> nat) list"
  am_experts :: "act_row list"

record 'g act_env =
  av_seed :: "int \<Rightarrow> 'g"
  av_randrange :: "'g rng"
  av_savez :: "act_npz \<Rightarrow> bytes res"
  av_json :: "act_manifest \<Rightarrow> string"

text \<open>The samples of an expert with the number of their kind, kind after kind.\<close>

definition expert_samples :: "string list \<Rightarrow> (act_key \<times> act_item list) list \<Rightarrow> int \<Rightarrow> int \<Rightarrow> (act_item \<times> nat) list" where
  "expert_samples kinds kept layer expert =
     concat (map (\<lambda>(i, kind). map (\<lambda>it. (it, i)) (dict_get [] (layer, expert, kind) kept)) (enumerate 0 kinds))"

definition act_npz_of :: "string list \<Rightarrow> int \<Rightarrow> int \<Rightarrow> int \<Rightarrow> (act_item \<times> nat) list \<Rightarrow> act_npz" where
  "act_npz_of kinds seed layer expert xs =
     \<lparr>nz_x = map (\<lambda>((x, w, e), i). x) xs, nz_weight = map (\<lambda>((x, w, e), i). w) xs,
      nz_event = map (\<lambda>((x, w, e), i). e) xs, nz_kind = map snd xs, nz_kind_names = kinds,
      nz_layer = layer, nz_expert = expert, nz_kept = length xs, nz_seed = seed\<rparr>"

definition act_row_of :: "string list \<Rightarrow> (act_key, act_item, 'g) pool \<Rightarrow> int \<Rightarrow> int \<Rightarrow> act_row" where
  "act_row_of kinds p layer expert =
     \<lparr>aw_layer = layer, aw_expert = expert, aw_file = reservoir_name layer expert,
      aw_kept = length (expert_samples kinds (po_kept p) layer expert),
      aw_per_kind = map (\<lambda>k. (k, dict_get 0 (layer, expert, k) (po_seen p),
                                 length (dict_get [] (layer, expert, k) (po_kept p)))) kinds\<rparr>"

definition write_archives ::
  "'g act_env \<Rightarrow> string \<Rightarrow> int \<Rightarrow> string list \<Rightarrow> (act_key, act_item, 'g) pool \<Rightarrow> (int \<times> int) list \<Rightarrow> act_row list io" where
  "write_archives E out seed kinds p experts =
     (let sampled = filter (\<lambda>(l, e). expert_samples kinds (po_kept p) l e \<noteq> []) experts in
      io_bind (write_each (\<lambda>(l, e). in_dir out (reservoir_name l e))
                 (\<lambda>(l, e). av_savez E (act_npz_of kinds seed l e (expert_samples kinds (po_kept p) l e))) sampled)
        (\<lambda>_. io_return (map (\<lambda>(l, e). act_row_of kinds p l e) sampled)))"

definition build_balanced_reservoir ::
  "'g act_env \<Rightarrow> (string \<times> string) list \<Rightarrow> string \<Rightarrow> int \<Rightarrow> int \<Rightarrow> act_manifest io" where
  "build_balanced_reservoir E traces out capacity seed =
     (if capacity \<le> 0 then io_raise (ValueError ''capacity_per_kind must be positive'')
      else if traces = [] then io_raise (ValueError ''at least one trace is required'')
      else let kinds = dedup [] (map fst traces) in
        io_bind (add_traces (nat capacity) (av_randrange E)
                   \<lparr>as_dims = None, as_counts = [], as_pool = empty_pool (av_seed E seed)\<rparr> traces) (\<lambda>st.
        case as_dims st of None \<Rightarrow> io_raise (AssertionError []) | Some (hidden, top_k) \<Rightarrow>
        io_bind (write_archives E out seed kinds (as_pool st)
                   (sorted_set (map (\<lambda>((l, e, k), b). (l, e)) (po_kept (as_pool st))))) (\<lambda>rows.
        let m = \<lparr>am_traces = traces, am_hidden = hidden, am_top_k = top_k, am_capacity = nat capacity, am_seed = seed,
                 am_kinds = kinds, am_trace_records = as_counts st, am_experts = rows\<rparr> in
        io_bind (write_text (in_dir out ''manifest.json'') (av_json E m)) (\<lambda>_. io_return m))))"

section \<open>The format is read exactly\<close>

definition header_ok :: "act_header \<Rightarrow> bool" where
  "header_ok h = (0 < ah_hidden h \<and> ah_hidden h \<le> 65536 \<and> 0 < ah_top_k h \<and> ah_top_k h \<le> 64)"

definition i32 :: "int \<Rightarrow> bool" where
  "i32 i = (- (2 ^ 31) \<le> i \<and> i < 2 ^ 31)"

definition act_record_ok :: "act_header \<Rightarrow> act_record \<Rightarrow> bool" where
  "act_record_ok h r = (ar_event r < 2 ^ 64 \<and> i32 (ar_layer r) \<and> list_all i32 (ar_ids r) \<and> length (ar_ids r) = ah_top_k h \<and>
     length (ar_weights r) = ah_top_k h \<and> length (ar_x r) = ah_hidden h)"

definition act_record_bytes :: "act_record \<Rightarrow> bytes" where
  "act_record_bytes r = le_bytes 8 (ar_event r) @ word_bytes [word_of_int (ar_layer r)] @
     word_bytes (map word_of_int (ar_ids r)) @ word_bytes (ar_weights r) @ word_bytes (ar_x r)"

definition act_bytes :: "act_header \<Rightarrow> act_record list \<Rightarrow> bytes" where
  "act_bytes h rs = ACT_MAGIC @ le_bytes 4 ACT_VERSION @ le_bytes 4 (ah_hidden h) @ le_bytes 4 (ah_top_k h) @
     le_bytes 4 ENDIAN_MARKER @ concat (map act_record_bytes rs)"

lemma sint_word_of_i32 [simp]: "i32 i \<Longrightarrow> sint (word_of_int i :: 32 word) = i"
  by (simp add: i32_def signed_of_int signed_take_bit_int_eq_self)

lemma i32_sint [simp]: "i32 (sint (w :: 32 word))"
  using sint_ge [of w] sint_lt [of w] by (simp add: i32_def)

lemma map_sint_words: "list_all i32 is \<Longrightarrow> map sint (map word_of_int is :: 32 word list) = is"
  by (induction "is") simp_all

lemma act_records_step:
  assumes "data \<noteq> []" "12 \<le> length data" "drop 12 data = payload" "4 * k + 4 * k + 4 * ah_hidden h \<le> length payload"
    and "ah_top_k h = k" "from_le (take 8 data) = ev" "sint (hd (le_words 1 (drop 8 data))) = l" "map sint (le_words k payload) = ids"
    and "le_words k (drop (4 * k) payload) = ws" "le_words (ah_hidden h) (drop (4 * k + 4 * k) payload) = x"
    and "act_records h (drop (4 * k + 4 * k + 4 * ah_hidden h) payload) = (rs, e)"
  shows "act_records h data = (\<lparr>ar_event = ev, ar_layer = l, ar_ids = ids, ar_weights = ws, ar_x = x\<rparr> # rs, e)"
  using assms by (subst act_records.simps) (simp add: Let_def del: drop_drop)

lemma act_records_written:
  "list_all (act_record_ok h) rs \<Longrightarrow> act_records h (concat (map act_record_bytes rs)) = (rs, None)"
proof (induction rs)
  case Nil
  show ?case by (simp add: act_records.simps)
next
  case (Cons r rs)
  let ?k = "ah_top_k h" and ?rest = "concat (map act_record_bytes rs)"
  let ?data = "concat (map act_record_bytes (r # rs))"
  have ok: "ar_event r < 256 ^ 8" "i32 (ar_layer r)" "list_all i32 (ar_ids r)" "length (ar_ids r) = ?k"
    "length (ar_weights r) = ?k" "length (ar_x r) = ah_hidden h"
    using Cons.prems by (simp_all add: act_record_ok_def)
  let ?ids = "word_bytes (map word_of_int (ar_ids r))"
  let ?payload = "?ids @ word_bytes (ar_weights r) @ word_bytes (ar_x r) @ ?rest"
  have d: "?data = le_bytes 8 (ar_event r) @ word_bytes [word_of_int (ar_layer r)] @ ?payload"
    by (simp add: act_record_bytes_def)
  have l: "12 \<le> length ?data" unfolding d by simp
  then have ne: "?data \<noteq> []" by (metis list.size(3) not_numeral_le_zero)
  have p: "drop 12 ?data = ?payload" "take 8 ?data = le_bytes 8 (ar_event r)"
    "drop 8 ?data = word_bytes [word_of_int (ar_layer r)] @ ?payload"
    unfolding d by simp_all
  have e: "from_le (take 8 ?data) = ar_event r" unfolding p(2) by (rule from_le_le_bytes [OF ok(1)])
  have y: "sint (hd (le_words 1 (drop 8 ?data))) = ar_layer r"
    unfolding p(3) using ok(2) by (simp only: le_words_written [of "[word_of_int (ar_layer r)]" 1] list.sel length_Cons list.size) simp
  have i: "map sint (le_words ?k ?payload) = ar_ids r"
    using le_words_written [of "map word_of_int (ar_ids r)" ?k] ok(3,4) map_sint_words by simp
  have w: "le_words ?k (drop (4 * ?k) ?payload) = ar_weights r"
    using le_words_written [OF ok(5), of "word_bytes (ar_x r) @ ?rest"] ok(4) by simp
  have x: "le_words (ah_hidden h) (drop (4 * ?k + 4 * ?k) ?payload) = ar_x r"
    using le_words_written [OF ok(6), of ?rest] ok(4,5) by simp
  have rest: "drop (4 * ?k + 4 * ?k + 4 * ah_hidden h) ?payload = ?rest" using ok(4-6) by simp
  have n: "4 * ?k + 4 * ?k + 4 * ah_hidden h \<le> length ?payload" using ok(4-6) by simp
  have "act_records h ?rest = (rs, None)" using Cons by simp
  then have "act_records h (drop (4 * ?k + 4 * ?k + 4 * ah_hidden h) ?payload) = (rs, None)" unfolding rest .
  from act_records_step [OF ne l p(1) n refl e y i w x this] show ?case by simp
qed

lemma act_records_source:
  "act_records h data = (rs, None) \<Longrightarrow> data = concat (map act_record_bytes rs) \<and> list_all (act_record_ok h) rs"
proof (induction h data arbitrary: rs rule: act_records.induct)
  case (1 h data)
  let ?k = "ah_top_k h" and ?payload = "drop 12 data"
  let ?n = "4 * ?k + 4 * ?k + 4 * ah_hidden h"
  show ?case
  proof (cases "data = []")
    case True
    then show ?thesis using "1.prems" by (simp add: act_records.simps)
  next
    case ne: False
    have l: "\<not> length data < 12" "\<not> length ?payload < ?n"
      using "1.prems" ne by (subst (asm) act_records.simps, simp add: Let_def split: if_splits)+
    obtain rs' e where rs': "act_records h (drop ?n ?payload) = (rs', e)" by fastforce
    let ?i = "le_words 1 (drop 8 data)" and ?ids = "le_words ?k ?payload" and ?ws = "le_words ?k (drop (4 * ?k) ?payload)"
      and ?x = "le_words (ah_hidden h) (drop (4 * ?k + 4 * ?k) ?payload)"
    let ?r = "\<lparr>ar_event = from_le (take 8 data), ar_layer = sint (hd ?i), ar_ids = map sint ?ids, ar_weights = ?ws, ar_x = ?x\<rparr>"
    have len: "12 \<le> length data" "?n \<le> length ?payload" using l by simp_all
    have "act_records h data = (?r # rs', e)"
      by (rule act_records_step [OF ne len(1) refl len(2) refl refl refl refl refl refl rs'])
    then have rs: "rs = ?r # rs'" "e = None" using "1.prems" by simp_all
    have IH: "drop ?n ?payload = concat (map act_record_bytes rs')" "list_all (act_record_ok h) rs'"
      using "1.IH" [OF ne l(1) refl refl l(2) refl, of rs'] rs' rs(2) by simp_all
    have i: "[hd ?i] = ?i" by simp
    have a: "le_bytes 8 (from_le (take 8 data)) = take 8 data" using le_bytes_from_le [of "take 8 data"] len(1) by simp
    have b: "word_bytes [word_of_int (sint (hd ?i))] = take 4 (drop 8 data)"
      using word_bytes_read [of 1 "drop 8 data"] len(1) i by simp
    have c: "word_bytes (map word_of_int (map sint ?ids)) = take (4 * ?k) ?payload"
      using word_bytes_read [of ?k ?payload] len(2) by (simp add: comp_def)
    have d: "word_bytes ?ws = take (4 * ?k) (drop (4 * ?k) ?payload)"
      using word_bytes_read [of ?k "drop (4 * ?k) ?payload"] len(2) by simp
    have f: "word_bytes ?x = take (4 * ah_hidden h) (drop (4 * ?k + 4 * ?k) ?payload)"
      using word_bytes_read [of "ah_hidden h" "drop (4 * ?k + 4 * ?k) ?payload"] len(2) by simp
    have payload: "?payload = take (4 * ?k) ?payload @ take (4 * ?k) (drop (4 * ?k) ?payload) @
        take (4 * ah_hidden h) (drop (4 * ?k + 4 * ?k) ?payload) @ drop ?n ?payload"
      by (metis append_assoc append_take_drop_id take_add)
    have "data = take 8 data @ take 4 (drop 8 data) @ ?payload"
      using take_add [of 8 4 data] append_take_drop_id [of 12 data] by simp
    then have "data = act_record_bytes ?r @ concat (map act_record_bytes rs')"
      by (subst (asm) payload) (simp only: act_record_bytes_def act_record.simps a b c d f IH(1) append_assoc)
    moreover have "from_le (take 8 data) < 2 ^ 64" using from_le_bound [of "take 8 data"] len(1) by simp
    ultimately show ?thesis using IH(2) unfolding rs(1) by (simp add: act_record_ok_def list_all_iff)
  qed
qed

lemma act_trace_written:
  assumes "header_ok h" "list_all (act_record_ok h) rs"
  shows "read_act_header (act_bytes h rs) = Inr h \<and> act_records h (drop 24 (act_bytes h rs)) = (rs, None)"
proof -
  let ?data = "act_bytes h rs"
  have ok: "0 < ah_hidden h" "ah_hidden h \<le> 65536" "0 < ah_top_k h" "ah_top_k h \<le> 64"
    using assms(1) by (simp_all add: header_ok_def)
  have m: "length ACT_MAGIC = 8" by (simp add: ACT_MAGIC_def ascii_encode_def)
  have parts: "take 8 ?data = ACT_MAGIC" "take 4 (drop 8 ?data) = le_bytes 4 ACT_VERSION"
    "take 4 (drop 12 ?data) = le_bytes 4 (ah_hidden h)" "take 4 (drop 16 ?data) = le_bytes 4 (ah_top_k h)"
    "take 4 (drop 20 ?data) = le_bytes 4 ENDIAN_MARKER" "drop 24 ?data = concat (map act_record_bytes rs)"
    "\<not> length ?data < 24"
    unfolding act_bytes_def by (simp_all add: m)
  have "from_le (le_bytes 4 ACT_VERSION) = ACT_VERSION" "from_le (le_bytes 4 ENDIAN_MARKER) = ENDIAN_MARKER"
    "from_le (le_bytes 4 (ah_hidden h)) = ah_hidden h" "from_le (le_bytes 4 (ah_top_k h)) = ah_top_k h"
    using ok by (simp_all add: from_le_le_bytes ACT_VERSION_def ENDIAN_MARKER_def)
  then have "read_act_header ?data = Inr h"
    using ok unfolding read_act_header_def parts by (simp add: Let_def parts(7))
  then show ?thesis using act_records_written [OF assms(2)] by (simp add: parts(6))
qed

text \<open>An activation trace is accepted exactly when it is the serialisation of its contents: a header with the magic,
  the version, the endian marker and dimensions in range, then records of a 64-bit event, a signed 32-bit layer, as many
  signed 32-bit expert ids and float32 weights as the header says, and the activation vector, with nothing left over.
  Then the reader returns that header and those records.\<close>

theorem act_trace_exact:
  "read_act_header data = Inr h \<and> act_records h (drop 24 data) = (rs, None)
     \<longleftrightarrow> header_ok h \<and> list_all (act_record_ok h) rs \<and> data = act_bytes h rs"
    (is "?read \<longleftrightarrow> ?written")
proof
  assume ?written
  then show ?read using act_trace_written by blast
next
  assume r: ?read
  from r have h: "\<not> length data < 24" "take 8 data = ACT_MAGIC" "from_le (take 4 (drop 8 data)) = ACT_VERSION"
    "from_le (take 4 (drop 12 data)) = ah_hidden h" "from_le (take 4 (drop 16 data)) = ah_top_k h"
    "from_le (take 4 (drop 20 data)) = ENDIAN_MARKER" "header_ok h"
    by (auto simp: read_act_header_def Let_def header_ok_def split: if_splits)
  have four: "take 4 (drop i data) = le_bytes 4 (from_le (take 4 (drop i data)))" if "i \<le> 20" for i
    using le_bytes_from_le [of "take 4 (drop i data)"] that h(1) by simp
  have body: "drop 24 data = concat (map act_record_bytes rs)" "list_all (act_record_ok h) rs"
    using act_records_source r by blast+
  have "data = take 8 data @ take 4 (drop 8 data) @ take 4 (drop 12 data) @ take 4 (drop 16 data) @ take 4 (drop 20 data) @ drop 24 data"
    using take_add [of 8 4 data] take_add [of 12 4 data] take_add [of 16 4 data] take_add [of 20 4 data]
      append_take_drop_id [of 24 data] by simp
  then have "data = act_bytes h rs"
    using four [of 8] four [of 12] four [of 16] four [of 20] unfolding act_bytes_def h(2-6) body(1) by simp
  then show ?written using h(7) body(2) by simp
qed

section \<open>What a trace contributes\<close>

text \<open>The keyed items of a record, of a trace and of all traces, in the order they are seen.\<close>

definition record_items :: "string \<Rightarrow> act_record \<Rightarrow> (act_key \<times> act_item) list" where
  "record_items kind r = map (\<lambda>(e, w). ((ar_layer r, e, kind), act_item_of r w)) (zip (ar_ids r) (ar_weights r))"

definition trace_items :: "string \<Rightarrow> bytes \<Rightarrow> (act_key \<times> act_item) list" where
  "trace_items kind data =
     (case read_act_header data of Inl e \<Rightarrow> [] | Inr h \<Rightarrow> concat (map (record_items kind) (fst (act_records h (drop 24 data)))))"

definition all_items :: "fs \<Rightarrow> (string \<times> string) list \<Rightarrow> (act_key \<times> act_item) list" where
  "all_items s ts = concat (map (\<lambda>(kind, path). case s path of None \<Rightarrow> [] | Some data \<Rightarrow> trace_items kind data) ts)"

lemma add_experts_run:
  "foldR (add_expert c rg kind r) p ews = Inr p' \<Longrightarrow>
     p' = foldl (pool_add c rg) p (map (\<lambda>(e, w). ((ar_layer r, e, kind), act_item_of r w)) ews)"
  by (induction ews arbitrary: p) (auto simp: add_expert_def split: if_splits)

lemma add_record_run:
  "add_record c rg kind st r = Inr st' \<Longrightarrow>
     as_pool st' = foldl (pool_add c rg) (as_pool st) (record_items kind r) \<and> as_dims st' = as_dims st \<and>
     as_counts st' = dict_upd 0 kind Suc (as_counts st)"
  by (auto simp: add_record_def Let_def rmap_eq_Inr record_items_def dest: add_experts_run split: if_splits)

lemma add_records_run:
  "foldR (add_record c rg kind) st rs = Inr st' \<Longrightarrow>
     as_pool st' = foldl (pool_add c rg) (as_pool st) (concat (map (record_items kind) rs)) \<and> as_dims st' = as_dims st \<and>
     (\<forall>k. dict_get 0 k (as_counts st') = dict_get 0 k (as_counts st) + (if k = kind then length rs else 0))"
proof (induction rs arbitrary: st)
  case (Cons r rs)
  then obtain st1 where st1: "add_record c rg kind st r = Inr st1" "foldR (add_record c rg kind) st1 rs = Inr st'"
    by (auto simp: rbind_eq_Inr)
  show ?case using add_record_run [OF st1(1)] Cons.IH [OF st1(2)] by simp
qed simp

lemma add_trace_run:
  assumes "add_trace_bytes c rg kind st data = Inr st'"
  shows "as_pool st' = foldl (pool_add c rg) (as_pool st) (trace_items kind data) \<and>
    (\<exists>h rs. read_act_header data = Inr h \<and> act_records h (drop 24 data) = (rs, None) \<and>
       as_dims st' = Some (ah_hidden h, ah_top_k h) \<and> (as_dims st = None \<or> as_dims st = as_dims st'))"
proof -
  obtain h where h: "read_act_header data = Inr h" and d: "as_dims st = None \<or> as_dims st = Some (ah_hidden h, ah_top_k h)"
    and run: "(let (rs, e) = act_records h (drop 24 data) in
         rbind (foldR (add_record c rg kind) (st\<lparr>as_dims := Some (ah_hidden h, ah_top_k h)\<rparr>) rs) (\<lambda>st.
           case e of None \<Rightarrow> Inr st | Some e \<Rightarrow> Inl e)) = Inr st'"
    using assms by (cases "as_dims st") (auto simp: add_trace_bytes_def rbind_eq_Inr split: if_splits)
  obtain rs e where rs: "act_records h (drop 24 data) = (rs, e)" by fastforce
  then have "e = None" and f: "foldR (add_record c rg kind) (st\<lparr>as_dims := Some (ah_hidden h, ah_top_k h)\<rparr>) rs = Inr st'"
    using run by (auto simp: rbind_eq_Inr split: option.splits)
  then show ?thesis
    using add_records_run [OF f] h rs d by (auto simp: trace_items_def)
qed

lemma add_traces_run:
  "add_traces c rg st ts s = (Inr st', s') \<Longrightarrow>
     s' = s \<and> as_pool st' = foldl (pool_add c rg) (as_pool st) (all_items s ts)"
proof (induction ts arbitrary: st)
  case (Cons t ts)
  obtain kind path where t: "t = (kind, path)" by (cases t)
  obtain data st1 where d: "s path = Some data" "add_trace_bytes c rg kind st data = Inr st1"
    "add_traces c rg st1 ts s = (Inr st', s')"
    using Cons.prems by (auto simp: t io_iffs)
  show ?case using Cons.IH [OF d(3)] add_trace_run [OF d(2)] d(1) by (simp add: all_items_def t)
qed (simp add: all_items_def)

section \<open>One archive per expert\<close>

lemma write_archives_run:
  assumes "write_archives E out seed kinds p les s = (Inr rows, s')" "distinct les"
    and "\<And>l e. (l, e) \<in> set les \<Longrightarrow> expert_samples kinds (po_kept p) l e \<noteq> []"
  shows "rows = map (\<lambda>(l, e). act_row_of kinds p l e) les \<and>
    (\<forall>(l, e) \<in> set les. \<exists>bs. av_savez E (act_npz_of kinds seed l e (expert_samples kinds (po_kept p) l e)) = Inr bs \<and>
        s' (in_dir out (reservoir_name l e)) = Some bs) \<and>
    (\<forall>q. q \<notin> (\<lambda>(l, e). in_dir out (reservoir_name l e)) ` set les \<longrightarrow> s' q = s q)"
proof -
  have "filter (\<lambda>(l, e). expert_samples kinds (po_kept p) l e \<noteq> []) les = les"
    using assms(3) by (simp add: filter_id_conv split_beta)
  then obtain u where w: "write_each (\<lambda>(l, e). in_dir out (reservoir_name l e))
      (\<lambda>(l, e). av_savez E (act_npz_of kinds seed l e (expert_samples kinds (po_kept p) l e))) les s = (Inr u, s')"
    and rows: "rows = map (\<lambda>(l, e). act_row_of kinds p l e) les"
    using assms(1) by (auto simp: write_archives_def io_bind_eq_Inr)
  have "inj_on (\<lambda>(l, e). in_dir out (reservoir_name l e)) (set les)"
    by (auto simp: inj_on_def reservoir_path_inject)
  from write_each_run [OF w assms(2) this] rows show ?thesis by auto
qed

section \<open>The reservoirs are exact\<close>

lemma sorted_set_cong: "set xs = set ys \<Longrightarrow> sorted_set xs = sorted_set ys"
  by (intro sorted_distinct_set_unique) simp_all

lemma all_items_kind: "((l, e, k), it) \<in> set (all_items s ts) \<Longrightarrow> k \<in> fst ` set ts"
  by (force simp: all_items_def trace_items_def record_items_def split: option.splits sum.splits)

lemma expert_samples_pool:
  assumes "pool_inv c items p"
  shows "\<exists>js. (\<forall>k. is_draws c (length (items_of (l, e, k) items)) (js k)) \<and>
    expert_samples kinds (po_kept p) l e =
      concat (map (\<lambda>(i, k). map (\<lambda>it. (it, i)) (reservoir c (items_of (l, e, k) items) (js k))) (enumerate 0 kinds))"
proof -
  have "\<forall>k. \<exists>js. is_draws c (length (items_of (l, e, k) items)) js \<and>
      dict_get [] (l, e, k) (po_kept p) = reservoir c (items_of (l, e, k) items) js"
    using assms unfolding pool_inv_def by blast
  then obtain js where "\<forall>k. is_draws c (length (items_of (l, e, k) items)) (js k) \<and>
      dict_get [] (l, e, k) (po_kept p) = reservoir c (items_of (l, e, k) items) (js k)" by metis
  then show ?thesis by (intro exI [of _ js]) (simp add: expert_samples_def)
qed

lemma pool_bucket_length:
  assumes "pool_inv c items p"
  shows "length (dict_get [] k (po_kept p)) = min c (length (items_of k items))"
proof -
  obtain js where "dict_get [] k (po_kept p) = reservoir c (items_of k items) js"
    using assms unfolding pool_inv_def by blast
  then show ?thesis by simp
qed

text \<open>C33: A successful run keeps, for every expert of every layer and every kind of trace, a reservoir drawn from exactly
  the tokens the traces of that kind routed to it: all of them while they fit, otherwise as many as the capacity, so no
  kind can crowd out another. The manifest lists each expert seen once, in order, with the true counts; each
  archive holds the samples of its expert under a name of its own; no other file but the manifest changes.\<close>

theorem balanced_reservoir_exact:
  assumes rg: "randrange_ok (av_randrange E)"
    and run: "build_balanced_reservoir E traces out capacity seed s = (Inr m, s')"
  shows "distinct (am_kinds m) \<and> set (am_kinds m) = fst ` set traces \<and>
    map (\<lambda>r. (aw_layer r, aw_expert r)) (am_experts m) = sorted_set (map (\<lambda>((l, e, k), it). (l, e)) (all_items s traces)) \<and>
    (\<forall>r \<in> set (am_experts m). let items = (\<lambda>k. items_of (aw_layer r, aw_expert r, k) (all_items s traces)) in
       aw_per_kind r = map (\<lambda>k. (k, length (items k), min (nat capacity) (length (items k)))) (am_kinds m) \<and>
       (\<exists>js bs. (\<forall>k. is_draws (nat capacity) (length (items k)) (js k)) \<and>
          av_savez E (act_npz_of (am_kinds m) seed (aw_layer r) (aw_expert r)
            (concat (map (\<lambda>(i, k). map (\<lambda>it. (it, i)) (reservoir (nat capacity) (items k) (js k))) (enumerate 0 (am_kinds m))))) = Inr bs \<and>
          s' (in_dir out (aw_file r)) = Some bs)) \<and>
    distinct (map aw_file (am_experts m)) \<and>
    (\<forall>q. q \<noteq> in_dir out ''manifest.json'' \<and> q \<notin> (\<lambda>r. in_dir out (aw_file r)) ` set (am_experts m) \<longrightarrow> s' q = s q)"
proof -
  let ?c = "nat capacity" and ?kinds = "dedup [] (map fst traces)" and ?items = "all_items s traces"
  let ?les = "\<lambda>p :: (act_key, act_item, 'a) pool. sorted_set (map (\<lambda>((l, e, k), b). (l, e)) (po_kept p))"
  obtain st rows s1 s2 where c: "0 < capacity"
    and add: "add_traces ?c (av_randrange E) \<lparr>as_dims = None, as_counts = [], as_pool = empty_pool (av_seed E seed)\<rparr> traces s = (Inr st, s2)"
    and wr2: "write_archives E out seed ?kinds (as_pool st) (?les (as_pool st)) s2 = (Inr rows, s1)"
    and m: "am_kinds m = ?kinds" "am_experts m = rows" "s' = s1(in_dir out ''manifest.json'' \<mapsto> ascii_encode (av_json E m))"
    using run
    unfolding build_balanced_reservoir_def Let_def
    by (auto simp: io_bind_eq_Inr write_text_def split: if_splits option.splits)
  let ?p = "as_pool st"
  have wr: "write_archives E out seed ?kinds ?p (?les ?p) s = (Inr rows, s1)" using add_traces_run [OF add] wr2 by simp
  have inv: "pool_inv ?c ?items ?p"
    using add_traces_run [OF add] pool_run [OF rg, of ?c ?items "av_seed E seed"] c by simp
  have keys: "fst ` set (po_kept ?p) = fst ` set ?items" using inv by (simp add: pool_inv_def)
  have "set (map (\<lambda>((l, e, k), b). (l, e)) (po_kept ?p)) = (\<lambda>(l, e, k). (l, e)) ` fst ` set (po_kept ?p)"
    by force
  also have "\<dots> = set (map (\<lambda>((l, e, k), it). (l, e)) ?items)" unfolding keys by force
  finally have les: "?les ?p = sorted_set (map (\<lambda>((l, e, k), it). (l, e)) ?items)" by (rule sorted_set_cong)
  have samples: "expert_samples ?kinds (po_kept ?p) l e \<noteq> []" if seen: "(l, e) \<in> set (?les ?p)" for l e
  proof -
    obtain k it where it: "((l, e, k), it) \<in> set ?items" using seen unfolding les by force
    then have "(l, e, k) \<in> fst ` set ?items" by force
    then have "items_of (l, e, k) ?items \<noteq> []" by (simp add: items_of_eq_Nil)
    then have "dict_get [] (l, e, k) (po_kept ?p) \<noteq> []"
      using pool_bucket_length [OF inv, of "(l, e, k)"] c by (auto simp: min_def split: if_splits)
    moreover obtain i where "i < length ?kinds" "?kinds ! i = k"
      using all_items_kind [OF it] by (metis in_set_conv_nth list.set_map set_dedup sup_bot_left list.set(1))
    then have "(i, k) \<in> set (enumerate 0 ?kinds)" by (simp add: in_set_enumerate_eq)
    ultimately show ?thesis unfolding expert_samples_def concat_eq_Nil_conv set_map by fastforce
  qed
  have "distinct (?les ?p)" by simp
  note w = write_archives_run [OF wr this samples]
  have rows: "rows = map (\<lambda>(l, e). act_row_of ?kinds ?p l e) (?les ?p)" using w by blast
  have names: "map (\<lambda>r. (aw_layer r, aw_expert r)) rows = ?les ?p"
    unfolding rows by (simp add: comp_def case_prod_beta act_row_of_def)
  have fname: "aw_file r = reservoir_name (aw_layer r) (aw_expert r)" if "r \<in> set rows" for r
    using that unfolding rows by (auto simp: act_row_of_def)
  have "distinct (map (\<lambda>(l, e). reservoir_name l e) (?les ?p))"
    by (simp only: distinct_map distinct_sorted_set) (auto simp: inj_on_def reservoir_name_inject)
  then have files: "distinct (map aw_file rows)"
    unfolding rows by (simp add: comp_def case_prod_beta' act_row_of_def)
  have each: "aw_per_kind r = map (\<lambda>k. (k, length (items_of (l, e, k) ?items), min ?c (length (items_of (l, e, k) ?items)))) ?kinds \<and>
      (\<exists>js bs. (\<forall>k. is_draws ?c (length (items_of (l, e, k) ?items)) (js k)) \<and>
         av_savez E (act_npz_of ?kinds seed l e
           (concat (map (\<lambda>(i, k). map (\<lambda>it. (it, i)) (reservoir ?c (items_of (l, e, k) ?items) (js k))) (enumerate 0 ?kinds)))) = Inr bs \<and>
         s' (in_dir out (aw_file r)) = Some bs)"
    if r: "r \<in> set rows" and le: "aw_layer r = l" "aw_expert r = e" for r l e
  proof -
    have les: "(l, e) \<in> set (?les ?p)" using r le names by (metis (no_types, lifting) image_eqI list.set_map)
    have row: "r = act_row_of ?kinds ?p l e" using r le unfolding rows by (auto simp: act_row_of_def)
    obtain bs where "av_savez E (act_npz_of ?kinds seed l e (expert_samples ?kinds (po_kept ?p) l e)) = Inr bs"
      "s1 (in_dir out (reservoir_name l e)) = Some bs" using w les by blast
    moreover obtain js where "\<forall>k. is_draws ?c (length (items_of (l, e, k) ?items)) (js k)"
      "expert_samples ?kinds (po_kept ?p) l e =
        concat (map (\<lambda>(i, k). map (\<lambda>it. (it, i)) (reservoir ?c (items_of (l, e, k) ?items) (js k))) (enumerate 0 ?kinds))"
      using expert_samples_pool [OF inv, of l e ?kinds] by blast
    moreover have "aw_per_kind r = map (\<lambda>k. (k, length (items_of (l, e, k) ?items), min ?c (length (items_of (l, e, k) ?items)))) ?kinds"
      using inv pool_bucket_length [OF inv] unfolding row by (simp add: act_row_of_def pool_inv_def)
    ultimately show ?thesis
      using fname [OF r] manifest_not_archive [of out l e] m(3) le by (intro conjI exI [of _ js] exI [of _ bs]) simp_all
  qed
  have rest: "s' q = s q" if "q \<noteq> in_dir out ''manifest.json''" "q \<notin> (\<lambda>r. in_dir out (aw_file r)) ` set rows" for q
  proof -
    have "(\<lambda>(l, e). in_dir out (reservoir_name l e)) ` set (?les ?p) = (\<lambda>r. in_dir out (aw_file r)) ` set rows"
      unfolding rows set_map [of "\<lambda>(l, e). act_row_of ?kinds ?p l e"] image_image
      by (rule image_cong [OF refl]) (simp add: act_row_of_def split: prod.split)
    then show ?thesis using w that m(3) by simp
  qed
  show ?thesis
    unfolding m(1,2) Let_def using names files each rest by (simp add: distinct_dedup les)
qed

text \<open>Two tokens routed to expert 3 of layer 1, and room for one.\<close>

definition example_act :: "nat \<Rightarrow> act_record" where
  "example_act i = \<lparr>ar_event = i, ar_layer = 1, ar_ids = [3], ar_weights = [0], ar_x = [0]\<rparr>"

definition example_act_file :: bytes where
  "example_act_file = act_bytes \<lparr>ah_hidden = 1, ah_top_k = 1\<rparr> [example_act 0, example_act 1]"

definition example_env :: "unit act_env" where
  "example_env = \<lparr>av_seed = \<lambda>_. (), av_randrange = \<lambda>g n. (0, g), av_savez = \<lambda>_. Inr [], av_json = \<lambda>_. []\<rparr>"

lemma example_act_read:
  "read_act_header example_act_file = Inr \<lparr>ah_hidden = 1, ah_top_k = 1\<rparr>"
  "act_records \<lparr>ah_hidden = 1, ah_top_k = 1\<rparr> (drop 24 example_act_file) = ([example_act 0, example_act 1], None)"
  using act_trace_written [of "\<lparr>ah_hidden = 1, ah_top_k = 1\<rparr>" "[example_act 0, example_act 1]"]
  by (simp_all add: header_ok_def act_record_ok_def example_act_def example_act_file_def i32_def)

theorem balanced_reservoir_exact_witness:
  "\<exists>m s'. build_balanced_reservoir example_env [(''text'', ''t'')] ''out'' 1 7 [''t'' \<mapsto> example_act_file] = (Inr m, s') \<and>
     map (\<lambda>r. (aw_layer r, aw_expert r)) (am_experts m) = [(1, 3)] \<and> set (am_kinds m) = {''text''}"
proof -
  let ?s = "[''t'' \<mapsto> example_act_file]"
  have run: "\<exists>m s'. build_balanced_reservoir example_env [(''text'', ''t'')] ''out'' 1 7 ?s = (Inr m, s')"
    by (simp add: build_balanced_reservoir_def Let_def io_simps add_trace_bytes_def example_act_read [unfolded One_nat_def] add_record_def add_expert_def
        example_act_def pool_add_def empty_pool_def reservoir_add_def example_env_def dict_upd_def dict_get_def sorted_set_def
        expert_samples_def write_archives_def write_text_def io_bind_def)
  then obtain m s' where m: "build_balanced_reservoir example_env [(''text'', ''t'')] ''out'' 1 7 ?s = (Inr m, s')" by blast
  have "randrange_ok (av_randrange example_env)" by (simp add: randrange_ok_def example_env_def)
  moreover have "sorted_set (map (\<lambda>((l, e, k), it). (l, e)) (all_items ?s [(''text'', ''t'')])) = [(1, 3)]"
    by (simp add: all_items_def trace_items_def example_act_read [unfolded One_nat_def] record_items_def example_act_def sorted_set_def)
  ultimately show ?thesis using balanced_reservoir_exact [OF _ m] m by auto
qed

end
