(* ===== verification/ExpertReservoir.thy ===== *)
theory ExpertReservoir
  imports Reservoir ApiDialogue
begin

text \<open>
  Bounded calibration reservoirs from JSON lines (\<^verbatim>\<open>tools/kimi_expert_reservoir.py\<close>): the routed records, one
  reservoir per expert, the archives and the manifest. The parser, NumPy's conversion of a value to a float32
  array (its shape and its elements), the bytes of an archive, the text of the manifest, \<^verbatim>\<open>repr\<close> and the generator of
  random numbers are parameters. The text is decoded before its first line is read.
\<close>

section \<open>Routed records\<close>

record ex_npz =
  en_x :: "32 word list list"
  en_layer :: int
  en_expert :: int
  en_seen :: nat
  en_kept :: nat
  en_seed :: int

record ex_row =
  ew_layer :: int
  ew_expert :: int
  ew_seen :: nat
  ew_kept :: nat
  ew_file :: string

record ex_manifest =
  em_trace :: string
  em_hidden :: int
  em_capacity :: int
  em_seed :: int
  em_rows :: nat
  em_expert_count :: nat
  em_source_counts :: "(string \<times> nat) list"
  em_kind_counts :: "(string \<times> nat) list"
  em_experts :: "ex_row list"

record 'g ex_env =
  xv_loads :: "string \<Rightarrow> json res"
  xv_asarray :: "json \<Rightarrow> (int list \<times> 32 word list) res"
  xv_repr :: "json \<Rightarrow> string"
  xv_seed :: "int \<Rightarrow> 'g"
  xv_randrange :: "'g rng"
  xv_savez :: "ex_npz \<Rightarrow> bytes res"
  xv_json :: "ex_manifest \<Rightarrow> string"

text \<open>The fields of a record; whatever goes wrong is a \<^verbatim>\<open>ValueError\<close>.\<close>

definition routed_fields :: "'g ex_env \<Rightarrow> json \<Rightarrow> (int \<times> int \<times> int list \<times> 32 word list) res" where
  "routed_fields E rec =
     (case rbind (rbind (json_index rec ''layer'') json_int) (\<lambda>layer.
           rbind (rbind (json_index rec ''expert'') json_int) (\<lambda>expert.
           rmap (\<lambda>x. (layer, expert, x)) (rbind (json_index rec ''x'') (xv_asarray E)))) of
        Inl e \<Rightarrow> Inl (ValueError ''invalid routed record'')
      | Inr v \<Rightarrow> Inr v)"

type_synonym ex_key = "int \<times> int"

record 'g ex_state =
  ex_pool :: "(ex_key, 32 word list, 'g) pool"
  ex_rows :: nat
  ex_sources :: "(string \<times> nat) list"
  ex_kinds :: "(string \<times> nat) list"

definition count_field :: "'g ex_env \<Rightarrow> json \<Rightarrow> string \<Rightarrow> (string \<times> nat) list \<Rightarrow> (string \<times> nat) list res" where
  "count_field E rec k counts =
     rbind (json_contains rec k) (\<lambda>present.
       if present then rmap (\<lambda>v. dict_upd 0 (py_str (xv_repr E) v) Suc counts) (json_index rec k) else Inr counts)"

definition sample_routed :: "'g ex_env \<Rightarrow> nat \<Rightarrow> int \<Rightarrow> 'g ex_state \<Rightarrow> json \<Rightarrow> 'g ex_state res" where
  "sample_routed E capacity hidden st rec =
     rbind (routed_fields E rec) (\<lambda>(layer, expert, shape, x).
       if shape \<noteq> [hidden] then Inl (ValueError ''x shape'')
       else rbind (count_field E rec ''source'' (ex_sources st)) (\<lambda>sources.
            rbind (count_field E rec ''kind'' (ex_kinds st)) (\<lambda>kinds.
              Inr \<lparr>ex_pool = pool_add capacity (xv_randrange E) (ex_pool st) ((layer, expert), x),
                   ex_rows = ex_rows st + 1, ex_sources = sources, ex_kinds = kinds\<rparr>)))"

definition add_line :: "'g ex_env \<Rightarrow> nat \<Rightarrow> int \<Rightarrow> 'g ex_state \<Rightarrow> string \<Rightarrow> 'g ex_state res" where
  "add_line E capacity hidden st raw =
     (let line = py_strip raw in
      if line = [] then Inr st else rbind (xv_loads E line) (sample_routed E capacity hidden st))"

section \<open>The run\<close>

definition ex_npz_of :: "(ex_key, 32 word list, 'g) pool \<Rightarrow> int \<Rightarrow> ex_key \<Rightarrow> ex_npz" where
  "ex_npz_of p seed key =
     (let bucket = dict_get [] key (po_kept p) in
      \<lparr>en_x = bucket, en_layer = fst key, en_expert = snd key, en_seen = dict_get 0 key (po_seen p),
       en_kept = length bucket, en_seed = seed\<rparr>)"

definition ex_row_of :: "(ex_key, 32 word list, 'g) pool \<Rightarrow> ex_key \<Rightarrow> ex_row" where
  "ex_row_of p key =
     \<lparr>ew_layer = fst key, ew_expert = snd key, ew_seen = dict_get 0 key (po_seen p),
      ew_kept = length (dict_get [] key (po_kept p)), ew_file = reservoir_name (fst key) (snd key)\<rparr>"

definition build_reservoir :: "'g ex_env \<Rightarrow> string \<Rightarrow> string \<Rightarrow> int \<Rightarrow> int \<Rightarrow> int \<Rightarrow> ex_manifest io" where
  "build_reservoir E trace out capacity hidden seed =
     (if capacity \<le> 0 \<or> hidden \<le> 0 then io_raise (ValueError ''capacity and hidden must be positive'')
      else io_bind (read_text trace) (\<lambda>t.
        io_bind (io_lift (foldR (add_line E (nat capacity) hidden)
                   \<lparr>ex_pool = empty_pool (xv_seed E seed), ex_rows = 0, ex_sources = [], ex_kinds = []\<rparr>
                   (file_lines t))) (\<lambda>st.
        let p = ex_pool st; keys = sort (map fst (po_kept p)); rows = map (ex_row_of p) keys in
        io_bind (write_each (\<lambda>key. in_dir out (reservoir_name (fst key) (snd key))) (\<lambda>key. xv_savez E (ex_npz_of p seed key)) keys) (\<lambda>_.
        let m = \<lparr>em_trace = trace, em_hidden = hidden, em_capacity = capacity, em_seed = seed, em_rows = ex_rows st,
                 em_expert_count = length rows, em_source_counts = sort_key fst (ex_sources st),
                 em_kind_counts = sort_key fst (ex_kinds st), em_experts = rows\<rparr> in
        io_bind (write_text (in_dir out ''manifest.json'') (xv_json E m)) (\<lambda>_. io_return m)))))"

section \<open>Every record counts once\<close>

text \<open>What a line contributes.\<close>

definition line_items :: "'g ex_env \<Rightarrow> string \<Rightarrow> (ex_key \<times> 32 word list) list" where
  "line_items E raw =
     (if py_strip raw = [] then []
      else case rbind (xv_loads E (py_strip raw)) (routed_fields E) of
             Inl e \<Rightarrow> [] | Inr (layer, expert, shape, x) \<Rightarrow> [((layer, expert), x)])"

lemma add_line_run:
  "add_line E c hidden st raw = Inr st' \<Longrightarrow>
     ex_pool st' = foldl (pool_add c (xv_randrange E)) (ex_pool st) (line_items E raw) \<and>
     ex_rows st' = ex_rows st + length (line_items E raw)"
  by (auto simp: add_line_def sample_routed_def line_items_def Let_def rbind_eq_Inr split: if_splits)

lemma add_lines_run:
  "foldR (add_line E c hidden) st ls = Inr st' \<Longrightarrow>
     ex_pool st' = foldl (pool_add c (xv_randrange E)) (ex_pool st) (concat (map (line_items E) ls)) \<and>
     ex_rows st' = ex_rows st + length (concat (map (line_items E) ls))"
proof (induction ls arbitrary: st)
  case (Cons l ls)
  then obtain st1 where st1: "add_line E c hidden st l = Inr st1" "foldR (add_line E c hidden) st1 ls = Inr st'"
    by (auto simp: rbind_eq_Inr)
  show ?case using add_line_run [OF st1(1)] Cons.IH [OF st1(2)] by simp
qed simp

text \<open>C34: A successful run reads every record once and keeps, for every expert, a reservoir of its activations drawn from
  all the records routed to it, so a frequent expert cannot take more than its capacity. The manifest lists each expert
  seen once, in order, with the number of its records and of its samples; each archive holds exactly the reservoir of its
  expert under a name of its own; no other file but the manifest changes.\<close>

theorem expert_reservoir_exact:
  assumes rg: "randrange_ok (xv_randrange E)"
    and run: "build_reservoir E trace out capacity hidden seed s = (Inr m, s')"
  shows "\<exists>t. read_text trace s = (Inr t, s) \<and>
    (let items = concat (map (line_items E) (file_lines t)) in
       em_rows m = length items \<and>
       map (\<lambda>r. (ew_layer r, ew_expert r)) (em_experts m) = sorted_set (map fst items) \<and>
       (\<forall>r \<in> set (em_experts m). let mine = items_of (ew_layer r, ew_expert r) items in
          ew_seen r = length mine \<and> ew_kept r = min (nat capacity) (length mine) \<and>
          (\<exists>js bs. is_draws (nat capacity) (length mine) js \<and>
             xv_savez E \<lparr>en_x = reservoir (nat capacity) mine js, en_layer = ew_layer r, en_expert = ew_expert r,
               en_seen = ew_seen r, en_kept = ew_kept r, en_seed = seed\<rparr> = Inr bs \<and>
             s' (in_dir out (ew_file r)) = Some bs)) \<and>
       distinct (map ew_file (em_experts m)) \<and>
       (\<forall>q. q \<noteq> in_dir out ''manifest.json'' \<and> q \<notin> (\<lambda>r. in_dir out (ew_file r)) ` set (em_experts m) \<longrightarrow> s' q = s q))"
proof -
  let ?c = "nat capacity"
  obtain t st s1 u where c: "0 < capacity" and t: "read_text trace s = (Inr t, s)"
    and st: "foldR (add_line E ?c hidden) \<lparr>ex_pool = empty_pool (xv_seed E seed), ex_rows = 0, ex_sources = [], ex_kinds = []\<rparr>
       (file_lines t) = Inr st"
    and wr: "write_each (\<lambda>key. in_dir out (reservoir_name (fst key) (snd key))) (\<lambda>key. xv_savez E (ex_npz_of (ex_pool st) seed key))
       (sort (map fst (po_kept (ex_pool st)))) s = (Inr u, s1)"
    and m: "em_rows m = ex_rows st" "em_experts m = map (ex_row_of (ex_pool st)) (sort (map fst (po_kept (ex_pool st))))"
      "s' = s1(in_dir out ''manifest.json'' \<mapsto> ascii_encode (xv_json E m))"
    using run unfolding build_reservoir_def Let_def
    by (auto simp: io_bind_eq_Inr write_text_def read_text_app split: if_splits)
  let ?p = "ex_pool st" and ?items = "concat (map (line_items E) (file_lines t))"
  let ?keys = "sort (map fst (po_kept ?p))"
  have p: "?p = foldl (pool_add ?c (xv_randrange E)) (empty_pool (xv_seed E seed)) ?items" and n: "ex_rows st = length ?items"
    using add_lines_run [OF st] by simp_all
  have inv: "pool_inv ?c ?items ?p" unfolding p by (rule pool_run [OF rg]) (use c in simp)
  then have keys: "?keys = sorted_set (map fst ?items)"
    by (simp add: pool_inv_def sorted_set_def sorted_distinct_set_unique)
  have names: "map (\<lambda>r. (ew_layer r, ew_expert r)) (em_experts m) = ?keys"
    unfolding m(2) by (simp add: comp_def ex_row_of_def)
  have fname: "map ew_file (em_experts m) = map (\<lambda>key. reservoir_name (fst key) (snd key)) ?keys"
    unfolding m(2) by (simp add: comp_def ex_row_of_def)
  have inj: "inj_on (\<lambda>key. reservoir_name (fst key) (snd key)) A" for A
    by (auto simp: inj_on_def reservoir_name_inject prod_eq_iff)
  have "distinct ?keys" unfolding keys by simp
  moreover have "inj_on (\<lambda>key. in_dir out (reservoir_name (fst key) (snd key))) (set ?keys)"
    by (auto simp: inj_on_def reservoir_path_inject prod_eq_iff)
  ultimately have w: "\<forall>key \<in> set ?keys. \<exists>bs. xv_savez E (ex_npz_of ?p seed key) = Inr bs \<and>
      s1 (in_dir out (reservoir_name (fst key) (snd key))) = Some bs"
    "\<forall>q. q \<notin> (\<lambda>key. in_dir out (reservoir_name (fst key) (snd key))) ` set ?keys \<longrightarrow> s1 q = s q"
    using write_each_run [OF wr] by blast+
  have each: "ew_seen r = length (items_of key ?items) \<and> ew_kept r = min ?c (length (items_of key ?items)) \<and>
      (\<exists>js bs. is_draws ?c (length (items_of key ?items)) js \<and>
         xv_savez E \<lparr>en_x = reservoir ?c (items_of key ?items) js, en_layer = ew_layer r, en_expert = ew_expert r,
           en_seen = ew_seen r, en_kept = ew_kept r, en_seed = seed\<rparr> = Inr bs \<and> s' (in_dir out (ew_file r)) = Some bs)"
    if key: "key \<in> set ?keys" and r: "r = ex_row_of ?p key" for r key
  proof -
    obtain js where js: "is_draws ?c (length (items_of key ?items)) js"
      "dict_get [] key (po_kept ?p) = reservoir ?c (items_of key ?items) js"
      using inv unfolding pool_inv_def by blast
    obtain bs where bs: "xv_savez E (ex_npz_of ?p seed key) = Inr bs"
      "s1 (in_dir out (reservoir_name (fst key) (snd key))) = Some bs" using w(1) key by blast
    have seen: "dict_get 0 key (po_seen ?p) = length (items_of key ?items)" using inv unfolding pool_inv_def by blast
    show ?thesis
      using js bs seen m(3) manifest_not_archive [of out "fst key" "snd key"] unfolding r
      by (intro conjI exI [of _ js] exI [of _ bs]) (simp_all add: ex_row_of_def ex_npz_of_def Let_def)
  qed
  have files: "(\<lambda>r. in_dir out (ew_file r)) ` set (em_experts m) = (\<lambda>key. in_dir out (reservoir_name (fst key) (snd key))) ` set ?keys"
    unfolding m(2) by (simp add: image_image ex_row_of_def)
  have d: "distinct (map ew_file (em_experts m))"
    unfolding fname by (simp only: distinct_map inj keys distinct_sorted_set simp_thms)
  have rest: "s' q = s q" if "q \<noteq> in_dir out ''manifest.json''" "q \<notin> (\<lambda>r. in_dir out (ew_file r)) ` set (em_experts m)" for q
    using that w(2) unfolding files m(3) by simp
  have rows: "(ew_layer r, ew_expert r) \<in> set ?keys \<and> r = ex_row_of ?p (ew_layer r, ew_expert r)" if r: "r \<in> set (em_experts m)" for r
  proof -
    obtain key where key: "key \<in> set ?keys" "r = ex_row_of ?p key" using r unfolding m(2) set_map by blast
    then have "(ew_layer r, ew_expert r) = key" by (simp add: ex_row_of_def)
    then show ?thesis using key by simp
  qed
  have "em_rows m = length ?items" using n m(1) by simp
  moreover have "map (\<lambda>r. (ew_layer r, ew_expert r)) (em_experts m) = sorted_set (map fst ?items)" using names keys by simp
  ultimately show ?thesis
    using t d rest each rows unfolding Let_def by blast
qed

text \<open>Two records of expert 3 of layer 1, and room for one.\<close>

definition example_trace :: string where "example_trace = ''r'' @ [LF] @ ''r''"

definition example_ex_env :: "unit ex_env" where
  "example_ex_env = \<lparr>xv_loads = \<lambda>_. Inr (JObj [(''layer'', JInt 1), (''expert'', JInt 3), (''x'', JNull)]),
     xv_asarray = \<lambda>_. Inr ([1], [0]), xv_repr = \<lambda>_. [], xv_seed = \<lambda>_. (), xv_randrange = \<lambda>g n. (0, g),
     xv_savez = \<lambda>_. Inr [], xv_json = \<lambda>_. []\<rparr>"

lemma example_trace_lines: "file_lines example_trace = [''r'', ''r'']" "py_strip ''r'' = ''r''" "is_ascii example_trace"
  by code_simp+

lemma example_line_items: "line_items example_ex_env ''r'' = [((1, 3), [0])]"
  by (simp add: line_items_def example_trace_lines routed_fields_def example_ex_env_def json_index_def json_int_def)

theorem expert_reservoir_exact_witness:
  "\<exists>m s'. build_reservoir example_ex_env ''t'' ''out'' 1 1 7 [''t'' \<mapsto> ascii_encode example_trace] = (Inr m, s') \<and>
     em_rows m = 2 \<and> map (\<lambda>r. (ew_layer r, ew_expert r)) (em_experts m) = [(1, 3)]"
proof -
  let ?s = "[''t'' \<mapsto> ascii_encode example_trace]"
  have t: "read_text ''t'' ?s = (Inr example_trace, ?s)"
    by (simp add: read_text_app ascii_roundtrip example_trace_lines)
  have "\<exists>m s'. build_reservoir example_ex_env ''t'' ''out'' 1 1 7 ?s = (Inr m, s')"
    by (simp add: build_reservoir_def Let_def io_bind_def t example_trace_lines add_line_def sample_routed_def routed_fields_def
        example_ex_env_def json_index_def json_int_def json_contains_def count_field_def write_text_def pool_add_def empty_pool_def
        reservoir_add_def dict_upd_def dict_get_def)
  then obtain m s' where m: "build_reservoir example_ex_env ''t'' ''out'' 1 1 7 ?s = (Inr m, s')" by blast
  have rg: "randrange_ok (xv_randrange example_ex_env)" by (simp add: randrange_ok_def example_ex_env_def)
  obtain u where u: "read_text ''t'' ?s = (Inr u, ?s)" "em_rows m = length (concat (map (line_items example_ex_env) (file_lines u)))"
    "map (\<lambda>r. (ew_layer r, ew_expert r)) (em_experts m) = sorted_set (map fst (concat (map (line_items example_ex_env) (file_lines u))))"
    using expert_reservoir_exact [OF rg m] unfolding Let_def by blast
  have "u = example_trace" using u(1) t by simp
  then show ?thesis using u(2,3) m by (auto simp: example_trace_lines example_line_items sorted_set_def)
qed

end
