(* ===== verification/Spec2Isabelle.thy ===== *)
theory Spec2Isabelle
  imports MemoryPlan CompactStore VerifyStore MergeStore GgufIndex GgufProbe MixedBit Q5Pack PackExperts TrunkStore TextConverter ApiHttp
    DynSkip RouteCompare TokenProfile MoeTrace MaskNovelty ReapVl PruneMap PhaseGate LogitCompare ActTrace ExpertReservoir
begin

text \<open>
  Verification of the Kimi-VL low-RAM toolchain: the Python tools of \<^verbatim>\<open>src/tools\<close> that plan memory, pack,
  compact, merge and check the weight stores, serve the model over HTTP, and analyse routing traces to choose the
  experts to prune.

  \<^bold>\<open>How the program fits together.\<close> The checkpoint is a set of safetensors shards. \<^verbatim>\<open>pack_trunk.py\<close>,
  \<^verbatim>\<open>pack_vision.py\<close> and \<^verbatim>\<open>pack_experts*.py\<close> turn it into stores, a data file and an index of fixed-size
  records each; \<^verbatim>\<open>pack_full_text.py\<close> drives the packers shard by shard, deleting what is no longer needed.
  \<^verbatim>\<open>index_kimi_gguf_q8.py\<close> instead indexes a GGUF file in place, after \<^verbatim>\<open>inspect_kimi_gguf_q8.py\<close> has judged its
  layout. \<^verbatim>\<open>kvl_memory_plan.py\<close> and \<^verbatim>\<open>kvl_chat.py\<close> decide what fits in RAM, and \<^verbatim>\<open>kvl_api.py\<close> runs the native
  generator as a child process behind an HTTP adapter. The runtime writes route traces; the \<^verbatim>\<open>analyze_*\<close>,
  \<^verbatim>\<open>compare_*\<close>, \<^verbatim>\<open>simulate_*\<close> and \<^verbatim>\<open>gate_*\<close> tools turn them into masks (which experts to disable) and
  verdicts; \<^verbatim>\<open>compact_expert_store.py\<close> drops masked experts from a store, \<^verbatim>\<open>merge_expert_store.py\<close> shares payloads as
  \<^verbatim>\<open>make_router_prune_map.py\<close> says, and \<^verbatim>\<open>verify_compact_expert_store.py\<close> checks the result.

  \<^bold>\<open>The library.\<close> \<open>Prelude\<close>: exceptions as values (\<open>exn\<close>, \<open>'a res\<close>), loops with an early exit
  (\<open>mapR\<close>, \<open>foldR\<close>), insertion-ordered dictionaries, stable sorting, and the locale \<open>weak_order\<close> of sorting
  keys, interpreted on every key the tools sort or minimise by. \<open>PyText\<close>: the part of \<^verbatim>\<open>str\<close> the tools use, on
  ASCII text. \<open>PyFloat\<close>: binary64 arithmetic with rounding written out on rationals. \<open>StructPack\<close>: little-endian
  \<^verbatim>\<open>struct\<close> formats (locale \<open>codec\<close>). \<open>FileIO\<close>: files as explicit state; an operation returns its result and the
  file system it leaves, also when it raises. \<open>Json\<close>: parsed JSON values. \<open>Float32\<close>: arrays of binary32 words. \<open>TraceText\<close>: table readers and tallies.

  \<^bold>\<open>Components\<close> (theory, source, what is shown):
  \<^item> \<open>MemoryPlan\<close> (\<^verbatim>\<open>kvl_memory_plan.py\<close>, \<^verbatim>\<open>kvl_chat.py\<close>): both planners, instances of the locale
    \<open>trunk_planner\<close>; the automatic choice is the largest trunk cache that fits.
  \<^item> \<open>ExpertStore\<close>, \<open>CompactStore\<close>, \<open>VerifyStore\<close>, \<open>MergeStore\<close> (\<^verbatim>\<open>compact_expert_store.py\<close>,
    \<^verbatim>\<open>verify_compact_expert_store.py\<close>, \<^verbatim>\<open>merge_expert_store.py\<close>): the abstract store is a map from (layer, expert) to
    record metadata and payload. Compaction refines its restriction to the experts outside the mask, the verifier accepts
    only such restrictions and accepts what the compactor wrote, merging shares payloads exactly.
  \<^item> \<open>PackExperts\<close>, \<open>Q5Pack\<close> (\<^verbatim>\<open>pack_experts.py\<close>, \<^verbatim>\<open>pack_experts_q8.py\<close>, \<^verbatim>\<open>pack_experts_q5.py\<close>):
    the packers over the locale \<open>part_format\<close>; the Q5 bit stream on machine words with its round trip.
  \<^item> \<open>TrunkStore\<close> (\<^verbatim>\<open>pack_trunk.py\<close>, \<^verbatim>\<open>pack_vision.py\<close>), \<open>TextConverter\<close> (\<^verbatim>\<open>pack_full_text.py\<close>): exact
    contents of the written store; every packer command runs while its shards are on disk, and the conversion completes.
  \<^item> \<open>GgufIndex\<close>, \<open>GgufProbe\<close> (\<^verbatim>\<open>index_kimi_gguf_q8.py\<close>, \<^verbatim>\<open>inspect_kimi_gguf_q8.py\<close>): the streamed slot holds
    the expert's slices, the index reads back, a positive verdict implies the layout streaming needs.
  \<^item> \<open>MixedBit\<close> (\<^verbatim>\<open>kimi_mixed_bit_plan.py\<close>): the dynamic program against the exhaustive optimum.
  \<^item> \<open>ApiDialogue\<close>, \<open>ApiServer\<close>, \<open>ApiHttp\<close> (\<^verbatim>\<open>kvl_api.py\<close>): prompt template, JSON writer, the serialized
    child process with its temporary file and lock, and the request handlers; framing of responses, cleanup also when the
    file cannot be written or removed, stream contents, authentication.
  \<^item> \<open>MoeTrace\<close>, \<open>MoeProfile\<close>, \<open>TokenProfile\<close>, \<open>RouteCompare\<close>, \<open>DynSkip\<close>, \<open>MaskNovelty\<close>, \<open>ReapVl\<close>
    (\<^verbatim>\<open>analyze_kimi_moe_trace.py\<close>, \<^verbatim>\<open>analyze_kimi_moe_profile.py\<close>, \<^verbatim>\<open>kimi_moe_token_profile.py\<close>,
    \<^verbatim>\<open>compare_kimi_moe_routes.py\<close>, \<^verbatim>\<open>simulate_kimi_dynskip.py\<close>, \<^verbatim>\<open>analyze_kimi_mask_novelty.py\<close>,
    \<^verbatim>\<open>analyze_kimi_reap_vl.py\<close>): every trace row is counted once and where it belongs, rankings are sorted permutations,
    masks have the requested size, respect their caps and disable the least important experts, and the output files read back.
  \<^item> \<open>PruneMap\<close> (\<^verbatim>\<open>make_router_prune_map.py\<close>): the manifest it writes is accepted by the merger and names prototypes only.
  \<^item> \<open>PhaseGate\<close> (\<^verbatim>\<open>gate_kimi_pruning_phase_a.py\<close>), \<open>LogitCompare\<close> (\<^verbatim>\<open>compare_kimi_logits.py\<close>): the gate
    passes exactly what meets its thresholds; the dump format is read exactly.
  \<^item> \<open>Reservoir\<close>, \<open>ActTrace\<close>, \<open>ExpertReservoir\<close> (\<^verbatim>\<open>kimi_moe_act_reservoir.py\<close>,
    \<^verbatim>\<open>kimi_expert_reservoir.py\<close>): the sampling loop is the textbook algorithm on its draws, and fair when each draw is uniform on its range;
    every expert keeps a reservoir of exactly the tokens routed to it, and the archives and manifests say so.

  \<^bold>\<open>Parameters.\<close> Code outside the repository is an argument of the definitions that use it: \<^verbatim>\<open>json.loads\<close> and
  \<^verbatim>\<open>repr\<close>, the digest, the gguf reader, safetensors shards, NumPy quantizers and vector arithmetic, the random generator
  of the reservoirs, \<^verbatim>\<open>np.savez\<close>, the libm functions \<^verbatim>\<open>log\<close>, \<^verbatim>\<open>exp\<close> and \<^verbatim>\<open>sqrt\<close> (record \<open>libm\<close>), the tokenizer, the downloader and the child
  processes. Where a property needs a documented law of such code it is a named hypothesis, and its witness instantiates it.

  \<^bold>\<open>Termination and bounds.\<close> Every definition is total: loops are structural or carry a measure (bytes left, lines left,
  candidates left), and no fuel is used. Store fields keep their 32 and 64 bit widths (\<^verbatim>\<open>struct\<close> raises outside them),
  the Q5 codes and float32 words are machine words, Python integers are \<open>int\<close>, floats round at every operation.

  \<^bold>\<open>Not modelled.\<close> Argument parsing beyond the checks on values, printed progress and the text of error messages (except in the API, which sends it to
  the client); JSON reports as text, which is a parameter where a tool writes it; \<^verbatim>\<open>sum\<close> of floats is the left-to-right sum of CPython up to 3.11;
  text is ASCII, but for the lone surrogates a client of the API may send. The \<^verbatim>\<open>run_*\<close> scripts, \<^verbatim>\<open>dump_*\<close>, \<^verbatim>\<open>fetch_*\<close> and the frontends are process orchestration,
  network access and printing around the parts above; \<^verbatim>\<open>kimi_compression_lab.py\<close>, \<^verbatim>\<open>kimi_image.py\<close> and the BF16
  measurement tools are NumPy arithmetic the library defines; the native runtime in C is outside this development, which
  covers the Python tools.

  \<^bold>\<open>What modelling showed.\<close> The compactor compares only paths of the same kind, so its output data file may overwrite the
  source index; a generation that fails in mid-stream writes a second response head into the stream; a null
  \<^verbatim>\<open>max_tokens\<close> is answered as a server error; message text reaches the prompt template unescaped; a refusal that quotes a
  lone surrogate of the client cannot be encoded and leaves the request unanswered; the temporary prompt file stays behind when
  writing it fails.
\<close>

end
